(* ===== verification/Prelude.thy ===== *)
theory Prelude
  imports Main "HOL-Library.Word" "HOL-Library.Multiset"
begin

text \<open>
  Shared vocabulary of the development.

  \<^item> The machine integers of the sources as words, and the checked and saturating
    arithmetic of the Rust core library on them.
  \<^item> \<open>result\<close>, the Rust \<open>Result\<close>, with the combinators the sources use.
  \<^item> Vector operations: \<open>position\<close> (first index), \<open>update_first\<close>
    (\<open>iter_mut().find(..)\<close> followed by a write), and the laws the tables rely on.
  \<^item> Decimal and hexadecimal rendering of integers, as \<open>format!\<close> prints them, with the
    injectivity facts that make resource names unambiguous.
\<close>

named_theorems run_simps \<open>equations that evaluate the model's operations\<close>
named_theorems frame_simps \<open>what an operation leaves unchanged\<close>

type_synonym u8 = "8 word"
type_synonym u16 = "16 word"
type_synonym u32 = "32 word"
type_synonym u64 = "64 word"
type_synonym usize = "64 word"
type_synonym i32 = "32 word"

datatype ('a, 'e) result = Ok 'a | Err 'e

fun is_ok :: "('a, 'e) result \<Rightarrow> bool" where
  "is_ok (Ok _) = True"
| "is_ok (Err _) = False"

fun map_ok :: "('a \<Rightarrow> 'b) \<Rightarrow> ('a, 'e) result \<Rightarrow> ('b, 'e) result" where
  "map_ok f (Ok a) = Ok (f a)"
| "map_ok f (Err e) = Err e"

fun ok_or :: "'a option \<Rightarrow> 'e \<Rightarrow> ('a, 'e) result" where
  "ok_or (Some a) e = Ok a"
| "ok_or None e = Err e"

fun ok :: "('a, 'e) result \<Rightarrow> 'a option" where
  "ok (Ok a) = Some a"
| "ok (Err e) = None"

text \<open>The \<open>?\<close> operator: go on with the value, or return the error.\<close>

fun and_then :: "('a, 'e) result \<Rightarrow> ('a \<Rightarrow> ('b, 'e) result) \<Rightarrow> ('b, 'e) result" where
  "and_then (Ok a) f = f a"
| "and_then (Err e) f = Err e"

subsection \<open>Rust integer arithmetic\<close>

definition saturating_add :: "'a::len word \<Rightarrow> 'a word \<Rightarrow> 'a word" where
  "saturating_add a b = (if unat a + unat b < 2 ^ LENGTH('a) then a + b else - 1)"

definition saturating_sub :: "'a::len word \<Rightarrow> 'a word \<Rightarrow> 'a word" where
  "saturating_sub a b = (if b \<le> a then a - b else 0)"

definition saturating_mul :: "'a::len word \<Rightarrow> 'a word \<Rightarrow> 'a word" where
  "saturating_mul a b = (if unat a * unat b < 2 ^ LENGTH('a) then a * b else - 1)"

definition checked_add :: "'a::len word \<Rightarrow> 'a word \<Rightarrow> 'a word option" where
  "checked_add a b = (if unat a + unat b < 2 ^ LENGTH('a) then Some (a + b) else None)"

definition checked_sub :: "'a::len word \<Rightarrow> 'a word \<Rightarrow> 'a word option" where
  "checked_sub a b = (if b \<le> a then Some (a - b) else None)"

definition checked_mul :: "'a::len word \<Rightarrow> 'a word \<Rightarrow> 'a word option" where
  "checked_mul a b = (if unat a * unat b < 2 ^ LENGTH('a) then Some (a * b) else None)"

definition checked_div :: "'a::len word \<Rightarrow> 'a word \<Rightarrow> 'a word option" where
  "checked_div a b = (if b = 0 then None else Some (a div b))"

subsection \<open>Vectors\<close>

fun position :: "('a \<Rightarrow> bool) \<Rightarrow> 'a list \<Rightarrow> nat option" where
  "position P [] = None"
| "position P (x # xs) = (if P x then Some 0 else map_option Suc (position P xs))"

fun update_first :: "('a \<Rightarrow> bool) \<Rightarrow> ('a \<Rightarrow> 'a) \<Rightarrow> 'a list \<Rightarrow> 'a list" where
  "update_first P f [] = []"
| "update_first P f (x # xs) = (if P x then f x # xs else x # update_first P f xs)"

fun remove_at :: "nat \<Rightarrow> 'a list \<Rightarrow> 'a list" where
  "remove_at i [] = []"
| "remove_at 0 (x # xs) = xs"
| "remove_at (Suc i) (x # xs) = x # remove_at i xs"

text \<open>\<open>slice::binary_search\<close>: the window from \<open>lo\<close> below \<open>hi\<close> is halved until it is empty.\<close>

function bsearch :: "('a::linorder) list \<Rightarrow> 'a \<Rightarrow> nat \<Rightarrow> nat \<Rightarrow> nat option" where
  "bsearch xs x lo hi =
     (if hi \<le> lo then None
      else
        let mid = lo + (hi - lo) div 2 in
        if xs ! mid = x then Some mid
        else if xs ! mid < x then bsearch xs x (mid + 1) hi
        else bsearch xs x lo mid)"
  by auto
termination
  by (relation "measure (\<lambda>(xs, x, lo, hi). hi - lo)") auto

declare bsearch.simps [simp del]

definition binary_search :: "('a::linorder) list \<Rightarrow> 'a \<Rightarrow> nat option" where
  "binary_search xs x = bsearch xs x 0 (length xs)"

subsection \<open>Sequences of calls\<close>

text \<open>The answers of a sequence of stateful calls, and the state they leave.\<close>

fun run_calls :: "('q \<Rightarrow> 's \<Rightarrow> 'r \<times> 's) \<Rightarrow> 'q list \<Rightarrow> 's \<Rightarrow> 'r list \<times> 's" where
  "run_calls f [] s = ([], s)"
| "run_calls f (q # qs) s =
     (let (r, s') = f q s; (rs, s'') = run_calls f qs s' in (r # rs, s''))"

subsection \<open>Text\<close>

definition digit :: "nat \<Rightarrow> char" where
  "digit n = char_of (48 + n)"

fun dec :: "nat \<Rightarrow> string" where
  "dec n = (if n < 10 then [digit n] else dec (n div 10) @ [digit (n mod 10)])"

definition hex_digit :: "nat \<Rightarrow> char" where
  "hex_digit n = (if n < 10 then char_of (48 + n) else char_of (87 + n))"

fun hex :: "nat \<Rightarrow> string" where
  "hex n = (if n < 16 then [hex_digit n] else hex (n div 16) @ [hex_digit (n mod 16)])"

declare dec.simps [simp del] hex.simps [simp del]

text \<open>The decimal rendering of a machine integer, \<open>{}\<close> in a format string.\<close>

definition show_word :: "'a::len word \<Rightarrow> string" where
  "show_word w = dec (unat w)"

text \<open>\<open>{:#x}\<close>.\<close>

definition show_hex :: "'a::len word \<Rightarrow> string" where
  "show_hex w = ''0x'' @ hex (unat w)"

definition show_bool :: "bool \<Rightarrow> string" where
  "show_bool b = (if b then ''true'' else ''false'')"

definition undec :: "string \<Rightarrow> nat" where
  "undec s = foldl (\<lambda>v c. 10 * v + (of_char c - 48)) 0 s"

definition is_digit :: "char \<Rightarrow> bool" where
  "is_digit c \<longleftrightarrow> 48 \<le> (of_char c :: nat) \<and> (of_char c :: nat) < 58"

subsection \<open>Bytes\<close>

type_synonym bytes = "u8 list"

text \<open>\<open>to_le_bytes\<close> and \<open>from_le_bytes\<close> of an integer of \<open>k\<close> bytes.\<close>

fun to_le :: "nat \<Rightarrow> nat \<Rightarrow> bytes" where
  "to_le 0 n = []"
| "to_le (Suc k) n = of_nat (n mod 256) # to_le k (n div 256)"

fun from_le :: "bytes \<Rightarrow> nat" where
  "from_le [] = 0"
| "from_le (b # bs) = unat b + 256 * from_le bs"

text \<open>Overwriting a part of a slice (\<open>copy_from_slice\<close>), and \<open>slice.get(a..b)\<close>.\<close>

definition patch :: "bytes \<Rightarrow> nat \<Rightarrow> bytes \<Rightarrow> bytes" where
  "patch s i bs = take i s @ bs @ drop (i + length bs) s"

definition get_range :: "'a list \<Rightarrow> nat \<Rightarrow> nat \<Rightarrow> 'a list option" where
  "get_range s a b = (if a \<le> b \<and> b \<le> length s then Some (take (b - a) (drop a s)) else None)"

text \<open>\<open>str::as_bytes\<close>: a Rust string is the sequence of its UTF-8 bytes, one character each.\<close>

definition as_bytes :: "string \<Rightarrow> bytes" where
  "as_bytes s = map of_char s"

definition of_bytes :: "bytes \<Rightarrow> string" where
  "of_bytes bs = map (\<lambda>b. char_of (unat b)) bs"

text \<open>\<open>str::is_char_boundary\<close>: the ends, and every byte that does not continue a character.\<close>

definition is_char_boundary :: "string \<Rightarrow> nat \<Rightarrow> bool" where
  "is_char_boundary s k \<longleftrightarrow>
     k = 0 \<or> k = length s \<or>
     (k < length s \<and> \<not> (0x80 \<le> (of_char (s ! k) :: nat) \<and> (of_char (s ! k) :: nat) < 0xC0))"

subsection \<open>Facts: results\<close>

lemma result_state_cases:
  obtains (Err) e s where "x = (Err e, s)" | (Ok) a s where "x = (Ok a, s)"
  by (cases x; cases "fst x") auto

subsection \<open>Facts: integer arithmetic\<close>

lemma and_then_Ok: "and_then r f = Ok b \<longleftrightarrow> (\<exists>a. r = Ok a \<and> f a = Ok b)"
  by (cases r) auto

lemma ok_or_Ok: "ok_or x e = Ok a \<longleftrightarrow> x = Some a"
  by (cases x) auto

lemma map_ok_Ok: "map_ok f r = Ok b \<longleftrightarrow> (\<exists>a. r = Ok a \<and> b = f a)"
  by (cases r) auto

lemma unat_bound: "unat w < 2 ^ LENGTH('a)" for w :: "'a::len word"
  by (rule unsigned_less)

lemma unat_ucast_up:
  fixes w :: "'a::len word"
  assumes "LENGTH('a) \<le> LENGTH('b)"
  shows "unat (ucast w :: 'b::len word) = unat w"
proof -
  have "unat w < 2 ^ LENGTH('b)"
    using unat_bound [of w] power_increasing [OF assms, of "2 :: nat"] by linarith
  then show ?thesis by (simp add: unsigned_ucast_eq take_bit_nat_eq_self)
qed

text \<open>A 64-bit value times a 16-bit one is exact in 128 bits.\<close>

lemma product_fits:
  fixes a :: u64 and b :: u16
  shows "unat a * unat b < 2 ^ 128"
proof -
  have "unat a < 2 ^ 64" "unat b < 2 ^ 16" using unat_bound [of a] unat_bound [of b] by simp_all
  then have "unat a * unat b < 2 ^ 64 * 2 ^ 16" by (intro mult_strict_mono') auto
  then show ?thesis by simp
qed

lemma unat_max_word: "unat (- 1 :: 'a::len word) = 2 ^ LENGTH('a) - 1"
  by (simp add: unsigned_minus_1_eq_mask mask_eq_exp_minus_1)

lemma unat_saturating_add:
  "unat (saturating_add a b) = min (unat a + unat b) (2 ^ LENGTH('a) - 1)"
  for a b :: "'a::len word"
proof (cases "unat a + unat b < 2 ^ LENGTH('a)")
  case True
  then show ?thesis by (simp add: saturating_add_def unat_word_ariths)
next
  case False
  then show ?thesis by (simp add: saturating_add_def unat_max_word)
qed

lemma checked_add_Some: "checked_add a b = Some c \<longleftrightarrow> unat a + unat b < 2 ^ LENGTH('a) \<and> c = a + b" for a b :: "'a::len word"
  by (auto simp: checked_add_def)

lemma unat_add_fits: "unat a + unat b < 2 ^ LENGTH('a) \<Longrightarrow> unat (a + b) = unat a + unat b" for a b :: "'a::len word"
  by (simp add: unat_word_ariths)

lemma saturating_add_ge: "a \<le> saturating_add a b"
  unfolding word_le_nat_alt unat_saturating_add
  using unat_bound [of a] by linarith

lemma unat_saturating_sub: "unat (saturating_sub a b) = unat a - unat b"
  by (simp add: saturating_sub_def unat_sub_if' word_le_nat_alt)

lemma checked_sub_Some: "checked_sub a b = Some c \<longleftrightarrow> b \<le> a \<and> c = a - b"
  by (auto simp: checked_sub_def)

lemma checked_sub_None: "checked_sub a b = None \<longleftrightarrow> a < b"
  by (auto simp: checked_sub_def not_le)

lemma unat_minus_le: "b \<le> a \<Longrightarrow> unat (a - b) = unat a - unat b" for a b :: "'a::len word"
  by (simp add: unat_sub_if' word_le_nat_alt)

lemma unat_of_nat_lt: "n < 2 ^ LENGTH('a) \<Longrightarrow> unat (of_nat n :: 'a::len word) = n"
  by (simp add: unsigned_of_nat take_bit_nat_eq_self)

lemma word_of_nat_inj_lt:
  "of_nat i = (of_nat j :: 'a::len word) \<Longrightarrow> i < 2 ^ LENGTH('a) \<Longrightarrow> j < 2 ^ LENGTH('a) \<Longrightarrow> i = j"
  by (drule arg_cong [where f = unat]) (simp add: unsigned_of_nat take_bit_nat_eq_self)

subsection \<open>Facts: vectors\<close>

lemma position_Some:
  "position P xs = Some i \<longleftrightarrow> i < length xs \<and> P (xs ! i) \<and> (\<forall>j<i. \<not> P (xs ! j))"
proof (induction xs arbitrary: i)
  case (Cons x xs)
  show ?case
    by (cases i) (auto simp: Cons.IH less_Suc_eq_0_disj)
qed simp

lemma position_None: "position P xs = None \<longleftrightarrow> (\<forall>x\<in>set xs. \<not> P x)"
  by (induction xs) auto

lemma position_map: "position P (map f xs) = position (\<lambda>x. P (f x)) xs"
  by (induction xs) auto

lemma position_unique:
  "i < length xs \<Longrightarrow> P (xs ! i) \<Longrightarrow> (\<And>j. j < length xs \<Longrightarrow> P (xs ! j) \<Longrightarrow> j = i) \<Longrightarrow> position P xs = Some i"
  unfolding position_Some by (metis less_trans nat_neq_iff)

lemma find_position: "find P xs = map_option ((!) xs) (position P xs)"
  by (induction xs) (auto simp: option.map_comp comp_def)

lemma update_first_position:
  "update_first P f xs = (case position P xs of None \<Rightarrow> xs | Some i \<Rightarrow> xs[i := f (xs ! i)])"
  by (induction xs) (auto split: option.splits)

lemma length_update_first [simp]: "length (update_first P f xs) = length xs"
  by (induction xs) auto

lemma map_update_first:
  "(\<And>x. g (f x) = g x) \<Longrightarrow> map g (update_first P f xs) = map g xs"
  by (induction xs) auto

lemma find_Some_set: "find P xs = Some x \<Longrightarrow> x \<in> set xs \<and> P x"
  by (induction xs) (auto split: if_splits)

lemma find_None: "find P xs = None \<longleftrightarrow> (\<forall>x\<in>set xs. \<not> P x)"
  by (auto simp: find_None_iff)

lemma find_append: "find P (xs @ ys) = (case find P xs of None \<Rightarrow> find P ys | Some x \<Rightarrow> Some x)"
  by (induction xs) auto

lemma find_update_first_same:
  "(\<And>x. P (f x) = P x) \<Longrightarrow> find P (update_first P f xs) = map_option f (find P xs)"
  by (induction xs) auto

lemma find_update_first_other:
  "(\<And>x. P x \<Longrightarrow> \<not> Q x) \<Longrightarrow> (\<And>x. Q (f x) = Q x) \<Longrightarrow> find Q (update_first P f xs) = find Q xs"
  by (induction xs) auto

lemma set_update_first:
  "y \<in> set (update_first P f xs) \<Longrightarrow> y \<in> set xs \<or> (\<exists>x\<in>set xs. P x \<and> y = f x)"
  by (induction xs) (auto split: if_splits)

lemma find_distinct_key:
  "distinct (map k xs) \<Longrightarrow> x \<in> set xs \<Longrightarrow> find (\<lambda>y. k y = k x) xs = Some x"
  by (induction xs) force+

lemma bsearch_Some: "bsearch xs x lo hi = Some i \<Longrightarrow> lo \<le> i \<and> i < hi \<and> xs ! i = x"
proof (induction xs x lo hi arbitrary: i rule: bsearch.induct)
  case (1 xs x lo hi)
  let ?m = "lo + (hi - lo) div 2"
  have lh: "lo < hi" using 1(3) by (simp add: bsearch.simps [of xs x lo hi] split: if_splits)
  then have m: "?m < hi" "lo \<le> ?m" by auto
  consider "xs ! ?m = x" | "xs ! ?m < x" | "x < xs ! ?m" by (rule linorder_cases)
  then show ?case
  proof cases
    case 1
    with \<open>bsearch xs x lo hi = Some i\<close> m lh show ?thesis by (simp add: bsearch.simps [of xs x lo hi] Let_def)
  next
    case 2
    then have "bsearch xs x (?m + 1) hi = Some i"
      using 1(3) lh by (auto simp: bsearch.simps [of xs x lo hi] Let_def split: if_splits)
    from 1(1) [OF _ refl _ 2 this] lh m less_imp_neq [OF 2] show ?thesis by auto
  next
    case 3
    then have "bsearch xs x lo ?m = Some i"
      using 1(3) lh by (auto simp: bsearch.simps [of xs x lo hi] Let_def split: if_splits)
    from 1(2) [OF _ refl _ _ this] lh m less_not_sym [OF 3] less_imp_neq [OF 3] show ?thesis by auto
  qed
qed

lemma bsearch_None:
  "sorted xs \<Longrightarrow> hi \<le> length xs \<Longrightarrow> bsearch xs x lo hi = None \<Longrightarrow> lo \<le> i \<Longrightarrow> i < hi \<Longrightarrow> xs ! i \<noteq> x"
proof (induction xs x lo hi rule: bsearch.induct)
  case (1 xs x lo hi)
  let ?m = "lo + (hi - lo) div 2"
  have m: "?m < hi" "lo \<le> ?m" using 1(6,7) by auto
  have ne: "xs ! ?m \<noteq> x" using 1(5) m by (simp add: bsearch.simps [of xs x lo hi] Let_def split: if_splits)
  show ?case
  proof (cases "xs ! ?m < x")
    case True
    then have "bsearch xs x (?m + 1) hi = None" using 1(5) m ne by (simp add: bsearch.simps [of xs x lo hi] Let_def)
    moreover have "xs ! i \<le> xs ! ?m" if "i \<le> ?m" using 1(3,4) that m by (simp add: sorted_nth_mono)
    ultimately show ?thesis using 1(1) [OF _ refl ne True] 1(3-) m True by (cases "i \<le> ?m") auto
  next
    case False
    then have "bsearch xs x lo ?m = None" using 1(5) m ne by (simp add: bsearch.simps [of xs x lo hi] Let_def)
    moreover have "xs ! ?m \<le> xs ! i" if "?m \<le> i" using 1(3,4,7) that by (simp add: sorted_nth_mono)
    ultimately show ?thesis using 1(2) [OF _ refl ne False] 1(3-) m False ne by (cases "?m \<le> i") auto
  qed
qed

lemma binary_search_found:
  assumes "sorted xs"
  shows "binary_search xs x \<noteq> None \<longleftrightarrow> x \<in> set xs"
proof (cases "binary_search xs x")
  case None
  then have "xs ! i \<noteq> x" if "i < length xs" for i
    using bsearch_None [OF assms, of "length xs" x 0 i] that by (simp add: binary_search_def)
  with None show ?thesis by (auto simp: in_set_conv_nth)
next
  case (Some i)
  then show ?thesis using bsearch_Some [of xs x 0 "length xs" i] by (auto simp: binary_search_def)
qed

text \<open>In a sorted list the elements of the least key form a prefix.\<close>

lemma sorted_filter_run:
  assumes "sorted (map f xs)" "\<forall>x\<in>set xs. k \<le> f x"
  shows "filter (\<lambda>x. f x = k \<and> P x) xs = filter P (takeWhile (\<lambda>x. f x = k) xs)"
  using assms
proof (induction xs)
  case (Cons x xs)
  show ?case
  proof (cases "f x = k")
    case False
    then have "k < f x" using Cons.prems(2) by (simp add: order_le_neq_trans)
    then have "\<forall>y\<in>set xs. k < f y" using Cons.prems(1) by (auto intro: less_le_trans)
    then have "filter (\<lambda>x. f x = k \<and> P x) xs = []" by (auto simp: filter_empty_conv)
    with False show ?thesis by simp
  qed (use Cons in simp)
qed simp

lemma sorted_filter_rest:
  "k' \<noteq> k \<Longrightarrow> filter (\<lambda>x. f x = k' \<and> P x) (dropWhile (\<lambda>x. f x = k) xs) = filter (\<lambda>x. f x = k' \<and> P x) xs"
  by (induction xs) auto

lemma sorted_run_rest:
  assumes "sorted (map f xs)" "\<forall>x\<in>set xs. k \<le> f x"
  shows "\<forall>x\<in>set (dropWhile (\<lambda>x. f x = k) xs). f x \<noteq> k"
proof -
  define P where "P = (\<lambda>x. f x = k)"
  have run: "filter P xs = takeWhile P xs"
    using sorted_filter_run [OF assms, of "\<lambda>_. True"] by (simp add: P_def)
  have "filter P (takeWhile P xs) = takeWhile P xs" by (rule filter_True) (blast dest: set_takeWhileD)
  moreover have "filter P xs = filter P (takeWhile P xs) @ filter P (dropWhile P xs)"
    by (metis filter_append takeWhile_dropWhile_id)
  ultimately have "filter P (dropWhile P xs) = []" using run by (metis append_self_conv)
  then have "\<forall>x\<in>set (dropWhile P xs). \<not> P x" by (simp add: filter_empty_conv)
  then show ?thesis by (simp only: P_def not_False_eq_True)
qed

lemma sorted_map_dropWhile: "sorted (map f xs) \<Longrightarrow> sorted (map f (dropWhile P xs))"
  by (induction xs) auto

text \<open>Sorting by an injective key forgets the order of its input.\<close>

lemma sort_key_canonical:
  assumes "inj k" "mset xs = mset ys"
  shows "sort_key k xs = sort_key k ys"
  by (rule sort_key_inj_key_eq) (use assms in \<open>auto intro: inj_on_subset\<close>)

lemma mset_concat_map: "mset (concat (map f xs)) = (\<Sum>x\<in>#mset xs. mset (f x))"
  by (induction xs) auto

subsection \<open>Runs of a deterministic machine\<close>

text \<open>
  \<open>machine\<close> is the contract between a component and its callers: the callers may issue
  any sequence of operations, and the component promises an invariant of its start state that
  each operation keeps.  \<open>stable_fact\<close> extends it with a fact that no operation revokes.
\<close>

locale machine =
  fixes start :: "'s" and step :: "'op \<Rightarrow> 's \<Rightarrow> 's" and inv :: "'s \<Rightarrow> bool"
  assumes start_inv: "inv start"
    and step_inv: "inv s \<Longrightarrow> inv (step op s)"
begin

lemma fold_inv: "inv s \<Longrightarrow> inv (fold step ops s)"
  by (induction ops arbitrary: s) (auto intro: step_inv)

lemma run_inv: "inv (fold step ops start)"
  by (rule fold_inv [OF start_inv])

end

locale stable_fact = machine start step inv
  for start :: "'s" and step :: "'op \<Rightarrow> 's \<Rightarrow> 's" and inv :: "'s \<Rightarrow> bool" +
  fixes fact :: "'s \<Rightarrow> bool"
  assumes step_fact: "inv s \<Longrightarrow> fact s \<Longrightarrow> fact (step op s)"
begin

lemma fold_fact: "inv s \<Longrightarrow> fact s \<Longrightarrow> fact (fold step ops s)"
  by (induction ops arbitrary: s) (auto intro: step_inv step_fact)

end

subsection \<open>Facts: text\<close>

lemma of_char_digit: "n < 10 \<Longrightarrow> (of_char (digit n) :: nat) = 48 + n"
  by (simp add: digit_def)

lemma is_digit_digit: "n < 10 \<Longrightarrow> is_digit (digit n)"
  by (simp add: is_digit_def of_char_digit)

lemma dec_nonempty [simp]: "dec n \<noteq> []"
  by (subst dec.simps) simp

lemma dec_digits: "c \<in> set (dec n) \<Longrightarrow> is_digit c"
proof (induction n arbitrary: c rule: dec.induct)
  case (1 n)
  show ?case
  proof (cases "n < 10")
    case True
    with 1(2) show ?thesis by (simp add: dec.simps [of n] is_digit_digit)
  next
    case False
    with 1 show ?thesis by (auto simp: dec.simps [of n] is_digit_digit)
  qed
qed

lemma undec_dec: "undec (dec n) = n"
proof (induction n rule: dec.induct)
  case (1 n)
  show ?case
  proof (cases "n < 10")
    case True
    then show ?thesis by (simp add: dec.simps [of n] undec_def of_char_digit)
  next
    case False
    then have "undec (dec (n div 10)) = n div 10" by (rule 1)
    with False show ?thesis
      by (simp add: dec.simps [of n] undec_def of_char_digit)
  qed
qed

lemma dec_inj: "dec m = dec n \<longleftrightarrow> m = n"
  by (metis undec_dec)

lemma show_word_inj: "show_word a = show_word b \<longleftrightarrow> a = b"
  by (simp add: show_word_def dec_inj word_unat_eq_iff)

lemma show_word_digits: "c \<in> set (show_word w) \<Longrightarrow> is_digit c"
  by (simp add: show_word_def dec_digits)

lemma show_word_nonempty [simp]: "show_word w \<noteq> []"
  by (simp add: show_word_def)

text \<open>A separator that occurs in neither head splits a text in one way only.\<close>

lemma append_sep_inj:
  "c \<notin> set a \<Longrightarrow> c \<notin> set b \<Longrightarrow> a @ c # x = b @ c # y \<longleftrightarrow> a = b \<and> x = y"
proof (induction a arbitrary: b)
  case Nil
  then show ?case by (cases b) auto
next
  case (Cons d a)
  then show ?case by (cases b) auto
qed

lemma digit_sep: "\<not> is_digit c \<Longrightarrow> c \<notin> set (show_word w)"
  using show_word_digits by blast

subsection \<open>Facts: bytes\<close>

lemma length_to_le [simp]: "length (to_le k n) = k"
  by (induction k arbitrary: n) auto

lemma from_le_to_le: "n < 256 ^ k \<Longrightarrow> from_le (to_le k n) = n"
proof (induction k arbitrary: n)
  case (Suc k)
  have "from_le (to_le k (n div 256)) = n div 256"
    using Suc by (simp add: less_mult_imp_div_less mult.commute)
  then show ?case by (simp add: unat_of_nat_lt)
qed simp

lemma from_le_bound: "from_le bs < 256 ^ length bs"
proof (induction bs)
  case (Cons b bs)
  have "unat b < 256" using unat_bound [of b] by simp
  with Cons show ?case by (simp add: algebra_simps)
qed simp

lemma to_le_from_le: "to_le (length bs) (from_le bs) = bs"
proof (induction bs)
  case (Cons b bs)
  have b: "unat b < 256" using unat_bound [of b] by simp
  then have "(unat b + 256 * from_le bs) div 256 = from_le bs" "(unat b + 256 * from_le bs) mod 256 = unat b"
    by simp_all
  with Cons show ?case by simp
qed simp

lemma to_le_unat_inj: "to_le 8 (unat a) = to_le 8 (unat b) \<longleftrightarrow> a = b" for a b :: u64
proof
  assume "to_le 8 (unat a) = to_le 8 (unat b)"
  moreover have "unat w < 256 ^ 8" for w :: u64 using unat_bound [of w] by simp
  ultimately have "unat a = unat b" by (metis from_le_to_le)
  then show "a = b" by (simp add: word_unat_eq_iff)
qed simp

lemma length_patch: "i + length bs \<le> length s \<Longrightarrow> length (patch s i bs) = length s"
  by (simp add: patch_def)

lemma nth_patch:
  "i < length s \<Longrightarrow> a + length ys \<le> length s \<Longrightarrow> patch s a ys ! i = (if a \<le> i \<and> i < a + length ys then ys ! (i - a) else s ! i)"
  by (auto simp: patch_def nth_append)

lemma patch_at: "i + length bs \<le> length s \<Longrightarrow> take (length bs) (drop i (patch s i bs)) = bs"
  by (simp add: patch_def)

lemma patch_before: "j + n \<le> i \<Longrightarrow> i + length bs \<le> length s \<Longrightarrow> take n (drop j (patch s i bs)) = take n (drop j s)"
  by (simp add: patch_def take_drop min_def)

lemma patch_after: "i + length bs \<le> j \<Longrightarrow> i + length bs \<le> length s \<Longrightarrow> drop j (patch s i bs) = drop j s"
  by (simp add: patch_def)

lemma length_as_bytes [simp]: "length (as_bytes s) = length s"
  by (simp add: as_bytes_def)

lemma of_char_byte_inj: "(of_char a :: u8) = of_char b \<longleftrightarrow> a = b"
proof
  have bound: "(of_char c :: nat) < 2 ^ LENGTH(8)" for c by simp
  assume "(of_char a :: u8) = of_char b"
  then have "(of_nat (of_char a) :: u8) = of_nat (of_char b)" by (simp only: of_nat_of_char)
  then have "(of_char a :: nat) = of_char b" by (rule word_of_nat_inj_lt [OF _ bound bound])
  then show "a = b" by simp
qed simp

lemma as_bytes_inj: "as_bytes a = as_bytes b \<longleftrightarrow> a = b"
  unfolding as_bytes_def by (rule inj_map_eq_map) (auto simp: inj_def of_char_byte_inj)

lemma as_bytes_of_bytes: "as_bytes (of_bytes bs) = bs"
proof -
  have "(of_char (char_of (unat x) :: char) :: u8) = x" for x :: u8
  proof -
    have "unat x < 256" using unat_bound [of x] by simp
    then have "(of_char (char_of (unat x) :: char) :: nat) = unat x" by simp
    then have "(of_nat (of_char (char_of (unat x) :: char)) :: u8) = of_nat (unat x)" by simp
    then show ?thesis by (simp only: of_nat_of_char) simp
  qed
  then show ?thesis by (simp add: as_bytes_def of_bytes_def comp_def)
qed

lemma of_bytes_as_bytes: "of_bytes (as_bytes s) = s"
  by (simp add: as_bytes_inj [symmetric] as_bytes_of_bytes)

end
