(* ===== verification/Policy.thy ===== *)
theory Policy
  imports Prelude
begin

text \<open>
  The data policy engine of \<open>mobile/src/policy.rs\<close>: entitlements, usage counters, usage bands
  and session decisions.  Percent comparisons are done in 128-bit arithmetic in the source; the
  model keeps that width with its saturating products, and the lemmas show that nothing saturates,
  so the bands are the exact integer inequalities of the documentation.
\<close>

definition MAX_ESCALATE_PERCENT :: u16 where
  "MAX_ESCALATE_PERCENT = 10000"

datatype EntitlementError = ThrottlePercentAbove100 | EscalatePercentBelow100 | EscalatePercentTooLarge

record DataEntitlement =
  cap_bytes :: "u64 option"
  throttle_at_percent :: u8
  roaming_data_allowed :: bool
  escalate_at_percent :: u16

definition entitlement_new ::
    "u64 option \<Rightarrow> u8 \<Rightarrow> bool \<Rightarrow> u16 \<Rightarrow> (DataEntitlement, EntitlementError) result" where
  "entitlement_new cap throttle roaming escalate =
     (if 100 < throttle then Err ThrottlePercentAbove100
      else if escalate < 100 then Err EscalatePercentBelow100
      else if MAX_ESCALATE_PERCENT < escalate then Err EscalatePercentTooLarge
      else Ok \<lparr>cap_bytes = cap, throttle_at_percent = throttle,
               roaming_data_allowed = roaming, escalate_at_percent = escalate\<rparr>)"

record DataUsage =
  used_bytes :: u64

definition apply_usage :: "DataUsage \<Rightarrow> u64 \<Rightarrow> DataUsage" where
  "apply_usage usage bytes = \<lparr>used_bytes = saturating_add (used_bytes usage) bytes\<rparr>"

definition reset_usage :: DataUsage where
  "reset_usage = \<lparr>used_bytes = 0\<rparr>"

datatype AccountStandingForData = Active | Suspended | Closed

datatype ProfileLifecycleForData = Created | Disabled | Enabled | Deleted

datatype NetworkClass = Home | Roaming

record SessionRequest =
  sr_standing :: AccountStandingForData
  sr_lifecycle :: ProfileLifecycleForData
  sr_entitlement :: DataEntitlement
  sr_usage :: DataUsage
  sr_network :: NetworkClass

datatype DenyReason =
    AccountSuspended
  | AccountClosed
  | ProfileNotEnabled ProfileLifecycleForData
  | RoamingDataNotAllowed
  | CapExceeded

datatype SessionDecision = Allow | AllowThrottled | Deny DenyReason

datatype UsageBand = Normal | Throttled | CapReached | Anomalous

datatype ActionRequest = NotifyOnly | Throttle | SuspendAccount

record UsageAssessment =
  ua_band :: UsageBand
  ua_escalation :: "ActionRequest option"

definition share_reached :: "u64 \<Rightarrow> u64 \<Rightarrow> u16 \<Rightarrow> bool" where
  "share_reached used cap percent =
     (let lhs = saturating_mul (ucast used :: 128 word) 100;
          rhs = saturating_mul (ucast cap :: 128 word) (ucast percent)
      in rhs \<le> lhs)"

definition evaluate_usage :: "DataEntitlement \<Rightarrow> DataUsage \<Rightarrow> UsageAssessment" where
  "evaluate_usage entitlement usage =
     (case cap_bytes entitlement of
        None \<Rightarrow> \<lparr>ua_band = UsageBand.Normal, ua_escalation = None\<rparr>
      | Some cap \<Rightarrow>
          let used = used_bytes usage in
          if cap = 0 then \<lparr>ua_band = CapReached, ua_escalation = Some NotifyOnly\<rparr>
          else if share_reached used cap (escalate_at_percent entitlement)
            then \<lparr>ua_band = Anomalous, ua_escalation = Some SuspendAccount\<rparr>
          else if cap \<le> used then \<lparr>ua_band = CapReached, ua_escalation = Some NotifyOnly\<rparr>
          else if share_reached used cap (ucast (throttle_at_percent entitlement))
            then \<lparr>ua_band = Throttled, ua_escalation = Some Throttle\<rparr>
          else \<lparr>ua_band = UsageBand.Normal, ua_escalation = None\<rparr>)"

definition evaluate_session :: "SessionRequest \<Rightarrow> SessionDecision" where
  "evaluate_session request =
     (case sr_standing request of
        AccountStandingForData.Suspended \<Rightarrow> Deny DenyReason.AccountSuspended
      | AccountStandingForData.Closed \<Rightarrow> Deny DenyReason.AccountClosed
      | AccountStandingForData.Active \<Rightarrow>
          if sr_lifecycle request \<noteq> ProfileLifecycleForData.Enabled
            then Deny (ProfileNotEnabled (sr_lifecycle request))
          else if sr_network request = Roaming \<and> \<not> roaming_data_allowed (sr_entitlement request)
            then Deny RoamingDataNotAllowed
          else (case ua_band (evaluate_usage (sr_entitlement request) (sr_usage request)) of
                  UsageBand.Normal \<Rightarrow> Allow
                | UsageBand.Throttled \<Rightarrow> AllowThrottled
                | UsageBand.CapReached \<Rightarrow> Deny CapExceeded
                | UsageBand.Anomalous \<Rightarrow> Deny CapExceeded))"

record PolicyDecisionRecord =
  pdr_request :: SessionRequest
  pdr_decision :: SessionDecision
  pdr_assessment :: UsageAssessment

definition decide :: "SessionRequest \<Rightarrow> PolicyDecisionRecord" where
  "decide request =
     \<lparr>pdr_request = request,
      pdr_decision = evaluate_session request,
      pdr_assessment = evaluate_usage (sr_entitlement request) (sr_usage request)\<rparr>"

definition replays :: "PolicyDecisionRecord \<Rightarrow> bool" where
  "replays record = (record = decide (pdr_request record))"

definition DEMO_CAPPED_ENTITLEMENT :: DataEntitlement where
  "DEMO_CAPPED_ENTITLEMENT =
     \<lparr>cap_bytes = Some (5 * 1024 * 1024 * 1024), throttle_at_percent = 80,
      roaming_data_allowed = False, escalate_at_percent = 150\<rparr>"

definition DEMO_UNLIMITED_ENTITLEMENT :: DataEntitlement where
  "DEMO_UNLIMITED_ENTITLEMENT =
     \<lparr>cap_bytes = None, throttle_at_percent = 100, roaming_data_allowed = True, escalate_at_percent = 100\<rparr>"

definition demo_entitlements :: "DataEntitlement list" where
  "demo_entitlements = [DEMO_CAPPED_ENTITLEMENT, DEMO_UNLIMITED_ENTITLEMENT]"

subsection \<open>Exact bands\<close>

definition entitlement_wf :: "DataEntitlement \<Rightarrow> bool" where
  "entitlement_wf e \<longleftrightarrow>
     unat (throttle_at_percent e) \<le> 100 \<and> 100 \<le> unat (escalate_at_percent e) \<and>
     unat (escalate_at_percent e) \<le> 10000"

text \<open>The band table of the documentation over unbounded integers.\<close>

definition band_spec :: "nat option \<Rightarrow> nat \<Rightarrow> nat \<Rightarrow> nat \<Rightarrow> UsageBand" where
  "band_spec cap T E used =
     (case cap of
        None \<Rightarrow> UsageBand.Normal
      | Some c \<Rightarrow>
          if c = 0 then CapReached
          else if c * E \<le> used * 100 then Anomalous
          else if c \<le> used then CapReached
          else if c * T \<le> used * 100 then Throttled
          else UsageBand.Normal)"

fun band_escalation :: "UsageBand \<Rightarrow> ActionRequest option" where
  "band_escalation UsageBand.Normal = None"
| "band_escalation UsageBand.Throttled = Some Throttle"
| "band_escalation UsageBand.CapReached = Some NotifyOnly"
| "band_escalation UsageBand.Anomalous = Some SuspendAccount"

fun band_rank :: "UsageBand \<Rightarrow> nat" where
  "band_rank UsageBand.Normal = 0"
| "band_rank UsageBand.Throttled = 1"
| "band_rank UsageBand.CapReached = 2"
| "band_rank UsageBand.Anomalous = 3"

lemma unat_mul128:
  fixes a :: u64 and b :: u16
  shows "unat (saturating_mul (ucast a :: 128 word) (ucast b)) = unat a * unat b"
  using product_fits [of a b] by (simp add: saturating_mul_def unat_ucast_up unat_word_ariths)

lemma share_reached_iff:
  "share_reached used cap percent \<longleftrightarrow> unat cap * unat percent \<le> unat used * 100"
proof -
  have "(100 :: 128 word) = ucast (100 :: u16)" by simp
  then have "unat (saturating_mul (ucast used :: 128 word) 100) = unat used * 100"
    using unat_mul128 [of used 100] by simp
  then show ?thesis
    using unat_mul128 [of cap percent] by (simp add: share_reached_def Let_def word_le_nat_alt)
qed

lemma evaluate_usage_spec:
  "evaluate_usage e u =
     (let b = band_spec (map_option unat (cap_bytes e)) (unat (throttle_at_percent e))
                (unat (escalate_at_percent e)) (unat (used_bytes u))
      in \<lparr>ua_band = b, ua_escalation = band_escalation b\<rparr>)"
  by (auto simp: evaluate_usage_def band_spec_def Let_def share_reached_iff unat_ucast_up word_le_nat_alt
      unat_eq_zero split: option.splits)

lemma entitlement_new_wf: "entitlement_new c t r x = Ok e \<Longrightarrow> entitlement_wf e"
  by (auto simp: entitlement_new_def entitlement_wf_def MAX_ESCALATE_PERCENT_def word_less_nat_alt
      split: if_splits)

lemma band_spec_mono:
  assumes "100 \<le> E" "u \<le> v"
  shows "band_rank (band_spec cap T E u) \<le> band_rank (band_spec cap T E v)"
proof (cases cap)
  case (Some c)
  have "u * 100 \<le> v * 100" using assms(2) by simp
  then show ?thesis
    using assms(2) unfolding Some band_spec_def by (auto intro: order_trans)
qed (simp add: band_spec_def)

lemma anomalous_over_cap:
  assumes "100 \<le> E" "band_spec cap T E u = Anomalous"
  shows "\<exists>c. cap = Some c \<and> 0 < c \<and> c \<le> u"
proof -
  obtain c where c: "cap = Some c" "0 < c" "c * E \<le> u * 100"
    using assms(2) by (auto simp: band_spec_def split: option.splits if_splits)
  then have "c * 100 \<le> u * 100" using assms(1) by (meson le_trans mult_le_mono2)
  with c show ?thesis by simp
qed

subsection \<open>Properties\<close>

text \<open>
  Usage is classified by the exact integer inequalities of the documentation, for every
  64-bit usage and cap: no product overflows or rounds, the strongest band that applies is
  reported, and the escalation is the one of that band.
\<close>

theorem evaluate_usage_exact:
  "ua_band (evaluate_usage e u) =
     band_spec (map_option unat (cap_bytes e)) (unat (throttle_at_percent e))
       (unat (escalate_at_percent e)) (unat (used_bytes u)) \<and>
   ua_escalation (evaluate_usage e u) = band_escalation (ua_band (evaluate_usage e u))"
  by (simp_all add: evaluate_usage_spec Let_def)

text \<open>
  A session is allowed exactly when the account is active, the profile enabled, roaming
  covered by the entitlement or not needed, and the usage below the cap; it is throttled exactly
  when in addition the usage has reached the throttle share.
\<close>

theorem evaluate_session_allows:
  assumes "entitlement_wf (sr_entitlement q)"
  defines "may \<equiv> sr_standing q = AccountStandingForData.Active \<and>
      sr_lifecycle q = ProfileLifecycleForData.Enabled \<and>
      (sr_network q = Home \<or> roaming_data_allowed (sr_entitlement q))"
    and "T \<equiv> unat (throttle_at_percent (sr_entitlement q))"
    and "used \<equiv> unat (used_bytes (sr_usage q))"
  shows "(evaluate_session q = Allow \<longleftrightarrow> may \<and>
      (case cap_bytes (sr_entitlement q) of
         None \<Rightarrow> True | Some c \<Rightarrow> used < unat c \<and> used * 100 < unat c * T)) \<and>
    (evaluate_session q = AllowThrottled \<longleftrightarrow> may \<and>
      (case cap_bytes (sr_entitlement q) of
         None \<Rightarrow> False | Some c \<Rightarrow> used < unat c \<and> unat c * T \<le> used * 100))"
proof -
  let ?E = "unat (escalate_at_percent (sr_entitlement q))"
  have "100 \<le> ?E" using assms(1) by (simp add: entitlement_wf_def)
  then have low: "\<not> unat c * ?E \<le> used * 100" if "used < unat c" for c :: u64
  proof -
    have "used * 100 < unat c * 100" using that by simp
    also have "\<dots> \<le> unat c * ?E" using \<open>100 \<le> ?E\<close> by simp
    finally show ?thesis by simp
  qed
  show ?thesis
  proof (cases "cap_bytes (sr_entitlement q)")
    case None
    then show ?thesis
      by (cases "sr_network q")
        (auto simp: may_def evaluate_session_def evaluate_usage_spec Let_def band_spec_def
          split: AccountStandingForData.splits)
  next
    case (Some c)
    with low [of c] show ?thesis
      by (cases "sr_network q")
        (auto simp: may_def T_def used_def evaluate_session_def evaluate_usage_spec Let_def band_spec_def unat_eq_zero
          not_le not_less split: AccountStandingForData.splits)
  qed
qed

theorem evaluate_session_allows_witness:
  "evaluate_session \<lparr>sr_standing = AccountStandingForData.Active, sr_lifecycle = ProfileLifecycleForData.Enabled,
     sr_entitlement = \<lparr>cap_bytes = Some 1000, throttle_at_percent = 80, roaming_data_allowed = False,
       escalate_at_percent = 150\<rparr>,
     sr_usage = \<lparr>used_bytes = 800\<rparr>, sr_network = Home\<rparr> = AllowThrottled"
  using evaluate_session_allows [of "\<lparr>sr_standing = AccountStandingForData.Active,
     sr_lifecycle = ProfileLifecycleForData.Enabled,
     sr_entitlement = \<lparr>cap_bytes = Some 1000, throttle_at_percent = 80, roaming_data_allowed = False,
       escalate_at_percent = 150\<rparr>,
     sr_usage = \<lparr>used_bytes = 800\<rparr>, sr_network = Home\<rparr>"]
  by (simp add: entitlement_wf_def)

text \<open>
  Using more data never relaxes a decision: for an entitlement that the constructor accepts,
  recording any amount of usage keeps or raises the usage band, the counter never wraps, and a
  suspension is requested only when the cap has really been reached.
\<close>

theorem usage_never_relaxes:
  assumes "entitlement_new c t r x = Ok e"
  shows "band_rank (ua_band (evaluate_usage e u)) \<le> band_rank (ua_band (evaluate_usage e (apply_usage u n)))
    \<and> (ua_escalation (evaluate_usage e u) = Some SuspendAccount
        \<longrightarrow> (\<exists>cap. cap_bytes e = Some cap \<and> 0 < cap \<and> cap \<le> used_bytes u))"
proof
  have E: "100 \<le> unat (escalate_at_percent e)"
    using entitlement_new_wf [OF assms] by (simp add: entitlement_wf_def)
  have "unat (used_bytes u) \<le> unat (used_bytes (apply_usage u n))"
    using saturating_add_ge [of "used_bytes u" n] by (simp add: apply_usage_def word_le_nat_alt)
  then show "band_rank (ua_band (evaluate_usage e u)) \<le> band_rank (ua_band (evaluate_usage e (apply_usage u n)))"
    by (simp add: evaluate_usage_spec Let_def band_spec_mono [OF E])
  show "ua_escalation (evaluate_usage e u) = Some SuspendAccount
      \<longrightarrow> (\<exists>cap. cap_bytes e = Some cap \<and> 0 < cap \<and> cap \<le> used_bytes u)"
  proof
    assume "ua_escalation (evaluate_usage e u) = Some SuspendAccount"
    then have "band_spec (map_option unat (cap_bytes e)) (unat (throttle_at_percent e))
        (unat (escalate_at_percent e)) (unat (used_bytes u)) = Anomalous"
      by (auto simp: evaluate_usage_spec Let_def elim!: band_escalation.elims)
    from anomalous_over_cap [OF E this] show "\<exists>cap. cap_bytes e = Some cap \<and> 0 < cap \<and> cap \<le> used_bytes u"
      by (auto simp: word_le_nat_alt word_less_nat_alt)
  qed
qed

theorem usage_never_relaxes_witness:
  "band_rank (ua_band (evaluate_usage
      \<lparr>cap_bytes = Some 1000, throttle_at_percent = 80, roaming_data_allowed = False, escalate_at_percent = 150\<rparr>
      \<lparr>used_bytes = 900\<rparr>))
   \<le> band_rank (ua_band (evaluate_usage
      \<lparr>cap_bytes = Some 1000, throttle_at_percent = 80, roaming_data_allowed = False, escalate_at_percent = 150\<rparr>
      (apply_usage \<lparr>used_bytes = 900\<rparr> 700)))"
  using usage_never_relaxes [of "Some 1000" 80 False 150
      "\<lparr>cap_bytes = Some 1000, throttle_at_percent = 80, roaming_data_allowed = False, escalate_at_percent = 150\<rparr>"
      "\<lparr>used_bytes = 900\<rparr>" 700]
  by (simp add: entitlement_new_def MAX_ESCALATE_PERCENT_def)

end
