(* ===== verification/Period.thy ===== *)
theory Period
  imports Prelude "HOL-Library.Product_Lexorder" "HOL-Library.Multiset"
begin

text \<open>
  The billing-period model of \<open>mobile/src/period.rs\<close>.  A period is a start tick and a
  nonzero length, both 64 bits wide; the clock is an argument.  The lemmas relate the wrapping-free
  computations of the source to exact integer arithmetic, give the reset decision in closed form,
  and show what the period checker reports and that its output is independent of input order.
\<close>

definition MAX_PERIODS :: nat where
  "MAX_PERIODS = 64"

definition DEMO_PERIOD_TICKS :: u64 where
  "DEMO_PERIOD_TICKS = 1000"

definition DEMO_EARLY_RESET_COOLDOWN_MILLIS :: u64 where
  "DEMO_EARLY_RESET_COOLDOWN_MILLIS = 3600000"

datatype PeriodError = ZeroLength | ResetBeforeStart u64 u64

fun display_PeriodError :: "PeriodError \<Rightarrow> string" where
  "display_PeriodError ZeroLength = ''billing period length must be non-zero''"
| "display_PeriodError (ResetBeforeStart start_tick reset_at_tick) =
     ''reset at tick '' @ show_word reset_at_tick @ '' is before the period start '' @ show_word start_tick"

record BillingPeriod =
  start_tick :: u64
  length_ticks :: u64

definition period_new :: "u64 \<Rightarrow> u64 \<Rightarrow> (BillingPeriod, PeriodError) result" where
  "period_new start len =
     (if len = 0 then Err ZeroLength else Ok \<lparr>start_tick = start, length_ticks = len\<rparr>)"

definition demo_billing_period :: "u64 \<Rightarrow> BillingPeriod" where
  "demo_billing_period start = \<lparr>start_tick = start, length_ticks = DEMO_PERIOD_TICKS\<rparr>"

datatype PeriodAssessment =
    Active u64 u64
  | Elapsed u64 u64
  | ClockBeforeStart u64 u64

definition assess_period :: "BillingPeriod \<Rightarrow> u64 \<Rightarrow> PeriodAssessment" where
  "assess_period period now_tick =
     (case checked_sub now_tick (start_tick period) of
        None \<Rightarrow> PeriodAssessment.ClockBeforeStart (start_tick period) now_tick
      | Some elapsed \<Rightarrow>
          let over = PeriodAssessment.Elapsed (saturating_sub elapsed (length_ticks period))
                (case checked_div elapsed (length_ticks period) of None \<Rightarrow> - 1 | Some q \<Rightarrow> q)
          in (case checked_sub (length_ticks period) elapsed of
                Some remaining \<Rightarrow>
                  if 0 < remaining then PeriodAssessment.Active elapsed remaining else over
              | None \<Rightarrow> over))"

datatype PeriodRequest = ResetUsage

definition period_request :: "BillingPeriod \<Rightarrow> u64 \<Rightarrow> PeriodRequest option" where
  "period_request period now_tick =
     (case assess_period period now_tick of
        PeriodAssessment.Elapsed _ _ \<Rightarrow> Some ResetUsage
      | PeriodAssessment.Active _ _ \<Rightarrow> None
      | PeriodAssessment.ClockBeforeStart _ _ \<Rightarrow> None)"

definition next_period :: "BillingPeriod \<Rightarrow> u64 \<Rightarrow> (BillingPeriod, PeriodError) result" where
  "next_period old reset_at_tick =
     (if reset_at_tick < start_tick old then Err (ResetBeforeStart (start_tick old) reset_at_tick)
      else period_new reset_at_tick (length_ticks old))"

datatype ResetRefusal =
    PeriodActive u64
  | ClockBeforeStart u64 u64
  | EarlyCooldown u64

fun display_ResetRefusal :: "ResetRefusal \<Rightarrow> string" where
  "display_ResetRefusal (PeriodActive remaining) =
     ''billing period still active ('' @ show_word remaining @
     '' ticks remaining); a normal reset is only allowed once it has elapsed''"
| "display_ResetRefusal (ResetRefusal.ClockBeforeStart start now_tick) =
     ''clock before period start (now '' @ show_word now_tick @ '' < start '' @ show_word start @
     ''); reset refused''"
| "display_ResetRefusal (EarlyCooldown remaining) =
     ''early-reset cooldown: a reset was applied recently ('' @ show_word remaining @
     '' ticks remaining before another early reset is allowed)''"

fun reset_permitted :: "PeriodAssessment option \<Rightarrow> bool \<Rightarrow> (unit, ResetRefusal) result" where
  "reset_permitted None early = Ok ()"
| "reset_permitted (Some (PeriodAssessment.Elapsed _ _)) early = Ok ()"
| "reset_permitted (Some (PeriodAssessment.Active _ remaining)) early =
     (if early then Ok () else Err (PeriodActive remaining))"
| "reset_permitted (Some (PeriodAssessment.ClockBeforeStart start now_tick)) early =
     Err (ResetRefusal.ClockBeforeStart start now_tick)"

definition reset_permitted_at ::
    "PeriodAssessment option \<Rightarrow> bool \<Rightarrow> u64 option \<Rightarrow> u64 \<Rightarrow> u64 \<Rightarrow> (unit, ResetRefusal) result" where
  "reset_permitted_at assessment early last_reset_tick now_tick cooldown_ticks =
     (case reset_permitted assessment early of
        Err e \<Rightarrow> Err e
      | Ok _ \<Rightarrow>
          if \<not> early then Ok ()
          else (case last_reset_tick of
                  None \<Rightarrow> Ok ()
                | Some last_tick \<Rightarrow>
                    (case checked_sub now_tick last_tick of
                       Some elapsed \<Rightarrow>
                         if cooldown_ticks \<le> elapsed then Ok ()
                         else Err (EarlyCooldown (saturating_sub cooldown_ticks elapsed))
                     | None \<Rightarrow> Err (EarlyCooldown cooldown_ticks))))"

definition install_period :: "u64 \<Rightarrow> u64 \<Rightarrow> (BillingPeriod, PeriodError) result" where
  "install_period reset_at_tick len = period_new reset_at_tick len"

subsection \<open>The period checker\<close>

record ObservedPeriod =
  op_account :: u64
  op_period :: BillingPeriod
  op_reset_requested_since :: "u64 option"

datatype PeriodIncidentKind = TooManyPeriods | DuplicateAccount | ClockBeforeStart | PeriodElapsedNoReset

fun period_kind_rank :: "PeriodIncidentKind \<Rightarrow> nat" where
  "period_kind_rank TooManyPeriods = 0"
| "period_kind_rank DuplicateAccount = 1"
| "period_kind_rank PeriodIncidentKind.ClockBeforeStart = 2"
| "period_kind_rank PeriodElapsedNoReset = 3"

lemma period_kind_rank_inj: "period_kind_rank a = period_kind_rank b \<longleftrightarrow> a = b"
  by (cases a; cases b) auto

text \<open>The derived order: declaration order.\<close>

instantiation PeriodIncidentKind :: linorder
begin

definition less_eq_PeriodIncidentKind :: "PeriodIncidentKind \<Rightarrow> PeriodIncidentKind \<Rightarrow> bool" where
  "less_eq_PeriodIncidentKind a b \<longleftrightarrow> period_kind_rank a \<le> period_kind_rank b"

definition less_PeriodIncidentKind :: "PeriodIncidentKind \<Rightarrow> PeriodIncidentKind \<Rightarrow> bool" where
  "less_PeriodIncidentKind a b \<longleftrightarrow> period_kind_rank a < period_kind_rank b"

instance
  by standard
    (auto simp: less_eq_PeriodIncidentKind_def less_PeriodIncidentKind_def period_kind_rank_inj [symmetric])

end

record PeriodIncident =
  pi_kind :: PeriodIncidentKind
  pi_account :: u64
  pi_expected :: u64
  pi_observed :: u64

text \<open>The derived order of incidents compares the fields in turn.\<close>

definition incident_order :: "PeriodIncident \<Rightarrow> PeriodIncidentKind \<times> u64 \<times> u64 \<times> u64" where
  "incident_order i = (pi_kind i, pi_account i, pi_expected i, pi_observed i)"

definition display_PeriodIncident :: "PeriodIncident \<Rightarrow> string" where
  "display_PeriodIncident i =
     (case pi_kind i of
        TooManyPeriods \<Rightarrow>
          ''too many periods: '' @ show_word (pi_observed i) @ '' given, at most '' @
          show_word (pi_expected i) @ '' accepted; nothing checked''
      | DuplicateAccount \<Rightarrow>
          ''account '' @ show_word (pi_account i) @ '': '' @ show_word (pi_observed i) @
          '' period records share this id''
      | PeriodIncidentKind.ClockBeforeStart \<Rightarrow>
          ''account '' @ show_word (pi_account i) @ '': clock at tick '' @ show_word (pi_observed i) @
          '' is before period start '' @ show_word (pi_expected i)
      | PeriodElapsedNoReset \<Rightarrow>
          ''account '' @ show_word (pi_account i) @ '': period elapsed, no reset by tick '' @
          show_word (pi_expected i) @ '' (now '' @ show_word (pi_observed i) @ '')'')"

definition count_u64 :: "nat \<Rightarrow> u64" where
  "count_u64 n = (if n < 2 ^ 64 then of_nat n else - 1)"

definition dup_incident :: "u64 \<Rightarrow> nat \<Rightarrow> PeriodIncident" where
  "dup_incident acct copies =
     \<lparr>pi_kind = DuplicateAccount, pi_account = acct, pi_expected = 1, pi_observed = count_u64 copies\<rparr>"

text \<open>
  The scan of the sorted identifiers for runs; the first argument is the loop's \<open>run\<close>, and the
  result lists each identifier pushed to \<open>dup_ids\<close> with the length of its run.
\<close>

fun run_scan :: "(u64 \<times> nat) option \<Rightarrow> u64 list \<Rightarrow> (u64 \<times> nat) list" where
  "run_scan None [] = []"
| "run_scan (Some (cur, n)) [] = (if 1 < n then [(cur, n)] else [])"
| "run_scan None (i # ids) = run_scan (Some (i, 1)) ids"
| "run_scan (Some (cur, n)) (i # ids) =
     (if cur = i then run_scan (Some (cur, n + 1)) ids
      else if 1 < n then (cur, n) # run_scan (Some (i, 1)) ids
      else run_scan (Some (i, 1)) ids)"

text \<open>One turn of the loop over the periods: the incidents it pushes.\<close>

definition check_period :: "u64 \<Rightarrow> u64 \<Rightarrow> ObservedPeriod \<Rightarrow> PeriodIncident list" where
  "check_period now_tick grace_ticks p =
     (case assess_period (op_period p) now_tick of
        PeriodAssessment.Active _ _ \<Rightarrow> []
      | PeriodAssessment.ClockBeforeStart start _ \<Rightarrow>
          [\<lparr>pi_kind = PeriodIncidentKind.ClockBeforeStart, pi_account = op_account p,
            pi_expected = start, pi_observed = now_tick\<rparr>]
      | PeriodAssessment.Elapsed overdue_ticks _ \<Rightarrow>
          let end_tick = saturating_sub now_tick overdue_ticks;
              since = max (case op_reset_requested_since p of None \<Rightarrow> 0 | Some t \<Rightarrow> t) end_tick;
              deadline = saturating_add since grace_ticks
          in if deadline < now_tick
             then [\<lparr>pi_kind = PeriodElapsedNoReset, pi_account = op_account p,
                    pi_expected = deadline, pi_observed = now_tick\<rparr>]
             else [])"

definition check_periods :: "ObservedPeriod list \<Rightarrow> u64 \<Rightarrow> u64 \<Rightarrow> PeriodIncident list" where
  "check_periods periods now_tick grace_ticks =
     (if MAX_PERIODS < length periods
      then [\<lparr>pi_kind = TooManyPeriods, pi_account = 0, pi_expected = count_u64 MAX_PERIODS,
             pi_observed = count_u64 (length periods)\<rparr>]
      else
        let runs = run_scan None (sort (map op_account periods));
            dup_ids = map fst runs;
            out = map (\<lambda>(cur, n). dup_incident cur n) runs @
                  concat (map (\<lambda>p. if binary_search dup_ids (op_account p) \<noteq> None then []
                                   else check_period now_tick grace_ticks p) periods)
        in sort_key incident_order out)"

subsection \<open>Exact arithmetic of one period\<close>

lemma assess_before: "now < start_tick p \<Longrightarrow> assess_period p now = PeriodAssessment.ClockBeforeStart (start_tick p) now"
  by (simp add: assess_period_def checked_sub_None [THEN iffD2])

lemma assess_active:
  assumes "start_tick p \<le> now" "unat now < unat (start_tick p) + unat (length_ticks p)"
  shows "assess_period p now =
    PeriodAssessment.Active (now - start_tick p) (length_ticks p - (now - start_tick p))"
proof -
  have e: "unat (now - start_tick p) = unat now - unat (start_tick p)" using assms(1) by (rule unat_minus_le)
  have "now - start_tick p < length_ticks p"
    unfolding word_less_nat_alt e using assms unfolding word_le_nat_alt by linarith
  then show ?thesis
    using assms(1) by (auto simp: assess_period_def checked_sub_def Let_def word_gt_0)
qed

lemma assess_elapsed:
  assumes "unat (start_tick p) + unat (length_ticks p) \<le> unat now" "length_ticks p \<noteq> 0"
  shows "assess_period p now =
    PeriodAssessment.Elapsed (now - start_tick p - length_ticks p) ((now - start_tick p) div length_ticks p)"
proof -
  have le: "start_tick p \<le> now" using assms by (simp add: word_le_nat_alt)
  have e: "unat (now - start_tick p) = unat now - unat (start_tick p)" using le by (rule unat_minus_le)
  have "length_ticks p \<le> now - start_tick p"
    unfolding word_le_nat_alt e using assms by linarith
  then show ?thesis
    using le assms(2)
    by (auto simp: assess_period_def checked_sub_def checked_div_def saturating_sub_def Let_def
        split: option.splits)
qed

lemma assess_cases:
  fixes now :: u64
  obtains (before) "now < start_tick p"
  | (active) "start_tick p \<le> now" "unat now < unat (start_tick p) + unat (length_ticks p)"
  | (elapsed) "unat (start_tick p) + unat (length_ticks p) \<le> unat now"
  by (meson not_le)

lemma reset_permitted_Ok:
  assumes "length_ticks p \<noteq> 0"
  shows "reset_permitted (Some (assess_period p now)) early = Ok () \<longleftrightarrow>
    start_tick p \<le> now \<and> (early \<or> unat (start_tick p) + unat (length_ticks p) \<le> unat now)"
  using assms
  by (cases rule: assess_cases [of now p])
    (auto simp: assess_before assess_active assess_elapsed word_le_nat_alt word_less_nat_alt)

lemma cooldown_Ok:
  fixes now :: u64
  shows "(case checked_sub now t of
      Some elapsed \<Rightarrow> if cd \<le> elapsed then Ok () else Err (EarlyCooldown (saturating_sub cd elapsed))
    | None \<Rightarrow> Err (EarlyCooldown cd)) = Ok () \<longleftrightarrow> unat t + unat cd \<le> unat now"
proof (cases "t \<le> now")
  case True
  then have "unat (now - t) = unat now - unat t" "unat t \<le> unat now" by (simp_all add: unat_minus_le word_le_nat_alt)
  with True show ?thesis by (auto simp: checked_sub_def word_le_nat_alt [of cd])
next
  case False
  then show ?thesis by (simp add: checked_sub_def word_le_nat_alt)
qed

lemma next_period_Ok:
  "next_period p t = Ok q \<longleftrightarrow>
     start_tick p \<le> t \<and> length_ticks p \<noteq> 0 \<and> q = \<lparr>start_tick = t, length_ticks = length_ticks p\<rparr>"
  by (auto simp: next_period_def period_new_def)

subsection \<open>Properties of one period\<close>

text \<open>
  C20.  The assessment of a period is exact over unbounded integers, although every quantity is
  64 bits wide: before the start, active strictly before the end, elapsed from the end on, with the
  true remaining time, lateness and number of whole periods passed.
\<close>

theorem assess_period_exact:
  assumes "length_ticks p \<noteq> 0"
  shows "case assess_period p now of
      PeriodAssessment.ClockBeforeStart s n \<Rightarrow> s = start_tick p \<and> n = now \<and> unat now < unat (start_tick p)
    | PeriodAssessment.Active e r \<Rightarrow>
        unat (start_tick p) \<le> unat now \<and> unat now < unat (start_tick p) + unat (length_ticks p) \<and>
        unat (start_tick p) + unat e = unat now \<and>
        unat now + unat r = unat (start_tick p) + unat (length_ticks p)
    | PeriodAssessment.Elapsed late missed \<Rightarrow>
        unat (start_tick p) + unat (length_ticks p) + unat late = unat now \<and>
        unat missed = (unat now - unat (start_tick p)) div unat (length_ticks p) \<and> 1 \<le> missed"
proof (cases rule: assess_cases [of now p])
  case before
  then show ?thesis by (simp add: assess_before word_less_nat_alt)
next
  case active
  then have e: "unat (now - start_tick p) = unat now - unat (start_tick p)" by (simp add: unat_minus_le)
  then have "now - start_tick p \<le> length_ticks p"
    unfolding word_le_nat_alt using active unfolding word_le_nat_alt by linarith
  from unat_minus_le [OF this] active e show ?thesis
    by (simp add: assess_active word_le_nat_alt)
next
  case elapsed
  then have e: "unat (now - start_tick p) = unat now - unat (start_tick p)"
    by (simp add: unat_minus_le word_le_nat_alt)
  with elapsed have le: "length_ticks p \<le> now - start_tick p" by (simp add: word_le_nat_alt)
  have pos: "0 < unat (length_ticks p)" using assms by (simp add: unat_gt_0)
  have q: "unat ((now - start_tick p) div length_ticks p) = (unat now - unat (start_tick p)) div unat (length_ticks p)"
    by (simp add: unat_div_distrib e)
  moreover have "unat (length_ticks p) \<le> unat now - unat (start_tick p)" using elapsed by linarith
  then have "1 \<le> (now - start_tick p) div length_ticks p"
    unfolding word_le_nat_alt q using pos by (simp add: Suc_le_eq div_greater_zero_iff)
  ultimately show ?thesis
    using elapsed e unat_minus_le [OF le] by (simp add: assess_elapsed assms)
qed

theorem assess_period_exact_witness:
  "assess_period \<lparr>start_tick = 0xFFFFFFFFFFFFFFF0, length_ticks = 100\<rparr> 0xFFFFFFFFFFFFFFFF
     = PeriodAssessment.Active 15 85 \<and>
   (case assess_period \<lparr>start_tick = 10, length_ticks = 100\<rparr> 215 of
      PeriodAssessment.Elapsed late missed \<Rightarrow> 10 + 100 + unat late = (215 :: nat) \<and> unat missed = 205 div 100
    | _ \<Rightarrow> False)"
proof
  show "assess_period \<lparr>start_tick = 0xFFFFFFFFFFFFFFF0, length_ticks = 100\<rparr> 0xFFFFFFFFFFFFFFFF
     = PeriodAssessment.Active 15 85"
    by (simp add: assess_active)
  have "assess_period \<lparr>start_tick = 10, length_ticks = 100\<rparr> 215 = PeriodAssessment.Elapsed 105 2"
    by (simp add: assess_elapsed)
  then show "case assess_period \<lparr>start_tick = 10, length_ticks = 100\<rparr> 215 of
      PeriodAssessment.Elapsed late missed \<Rightarrow> 10 + 100 + unat late = (215 :: nat) \<and> unat missed = 205 div 100
    | _ \<Rightarrow> False"
    using assess_period_exact [of "\<lparr>start_tick = 10, length_ticks = 100\<rparr>" 215] by simp
qed

text \<open>
  The reset decision in closed form.  A normal reset is permitted exactly once the period has
  run out; an early reset at any time of the period, but only when the cooldown since the last
  applied reset is over.  Neither is permitted when the clock reads before the period's start, and
  a rewound clock never shortens the cooldown.
\<close>

theorem reset_permitted_at_iff:
  assumes "length_ticks p \<noteq> 0"
  shows "reset_permitted_at (Some (assess_period p now)) early last_reset now cooldown = Ok () \<longleftrightarrow>
    start_tick p \<le> now \<and>
    (if early
     then (case last_reset of None \<Rightarrow> True | Some t \<Rightarrow> unat t + unat cooldown \<le> unat now)
     else unat (start_tick p) + unat (length_ticks p) \<le> unat now)"
  using reset_permitted_Ok [OF assms, of now early]
  by (cases "reset_permitted (Some (assess_period p now)) early"; cases last_reset)
    (auto simp: reset_permitted_at_def cooldown_Ok)

theorem reset_permitted_at_iff_witness:
  "reset_permitted_at (Some (assess_period \<lparr>start_tick = 10, length_ticks = 100\<rparr> 50)) True (Some 20) 50 30 = Ok ()
   \<and> reset_permitted_at (Some (assess_period \<lparr>start_tick = 10, length_ticks = 100\<rparr> 50)) False None 50 30 \<noteq> Ok ()"
  using reset_permitted_at_iff [of "\<lparr>start_tick = 10, length_ticks = 100\<rparr>" 50 True "Some 20" 30]
    reset_permitted_at_iff [of "\<lparr>start_tick = 10, length_ticks = 100\<rparr>" 50 False None 30]
  by simp

text \<open>
  At most one normal reset per period: the period that a reset at tick t starts admits the
  next normal reset exactly from t plus the length on, whatever the clock does in between.
\<close>

theorem one_reset_per_period:
  assumes "next_period p t = Ok q"
  shows "reset_permitted_at (Some (assess_period q t')) False last_reset t' cooldown = Ok () \<longleftrightarrow>
    unat t + unat (length_ticks p) \<le> unat t'"
  using assms reset_permitted_Ok [of q t' False]
  by (auto simp: next_period_Ok reset_permitted_at_def word_le_nat_alt split: result.splits)

theorem one_reset_per_period_witness:
  "reset_permitted_at (Some (assess_period \<lparr>start_tick = 130, length_ticks = 100\<rparr> 229)) False (Some 130) 229 0 \<noteq> Ok ()
   \<and> next_period \<lparr>start_tick = 10, length_ticks = 100\<rparr> 130 = Ok \<lparr>start_tick = 130, length_ticks = 100\<rparr>"
  using one_reset_per_period [of "\<lparr>start_tick = 10, length_ticks = 100\<rparr>" 130
      "\<lparr>start_tick = 130, length_ticks = 100\<rparr>" 229 "Some 130" 0]
  by (simp add: next_period_Ok)

subsection \<open>What the checker reports\<close>

lemma run_scan_mem:
  "sorted (cur # ids) \<Longrightarrow> 1 \<le> n \<Longrightarrow>
   (x, m) \<in> set (run_scan (Some (cur, n)) ids) \<longleftrightarrow> 1 < m \<and> m = (if x = cur then n else 0) + count_list ids x"
proof (induction ids arbitrary: cur n)
  case (Cons i ids)
  show ?case
  proof (cases "cur = i")
    case True
    with Cons.IH [of cur "n + 1"] Cons.prems show ?thesis by auto
  next
    case False
    then have "cur \<notin> set (i # ids)" using Cons.prems(1) by auto
    then have "count_list (i # ids) cur = 0" by (metis count_list_0_iff)
    with False Cons.IH [of i 1] Cons.prems show ?thesis by auto
  qed
qed auto

lemma run_scan_sorted:
  "sorted (cur # ids) \<Longrightarrow>
   sorted (map fst (run_scan (Some (cur, n)) ids)) \<and> (\<forall>x\<in>set (run_scan (Some (cur, n)) ids). cur \<le> fst x)"
proof (induction ids arbitrary: cur n)
  case (Cons i ids)
  show ?case
  proof (cases "cur = i")
    case True
    with Cons.IH [of cur "n + 1"] Cons.prems show ?thesis by simp
  next
    case False
    have le: "cur \<le> i" using Cons.prems by simp
    have "\<forall>x\<in>set (run_scan (Some (i, 1)) ids). cur \<le> fst x"
      using Cons.IH [of i 1] Cons.prems le by (meson order_trans sorted_wrt.simps(2))
    with False Cons.IH [of i 1] Cons.prems show ?thesis by simp
  qed
qed auto

lemma count_list_sort: "count_list (sort xs) x = count_list xs x"
  by (metis count_mset mset_sort)

definition dup_runs :: "ObservedPeriod list \<Rightarrow> (u64 \<times> nat) list" where
  "dup_runs ps = run_scan None (sort (map op_account ps))"

lemma dup_runs_mem:
  "(x, m) \<in> set (dup_runs ps) \<longleftrightarrow> 1 < m \<and> m = count_list (map op_account ps) x"
proof (cases "sort (map op_account ps)")
  case Nil
  then have "ps = []" by (metis length_0_conv length_map length_sort)
  then show ?thesis by (simp add: dup_runs_def)
next
  case (Cons i ids)
  then have "sorted (i # ids)" by (metis sorted_sort)
  from run_scan_mem [OF this, of 1 x m] Cons show ?thesis
    using count_list_sort [of "map op_account ps" x] by (auto simp: dup_runs_def)
qed

lemma dup_runs_sorted: "sorted (map fst (dup_runs ps))"
proof (cases "sort (map op_account ps)")
  case (Cons i ids)
  then have "sorted (i # ids)" by (metis sorted_sort)
  from run_scan_sorted [OF this, of 1] Cons show ?thesis by (simp add: dup_runs_def)
qed (simp add: dup_runs_def)

lemma dup_found:
  "binary_search (map fst (dup_runs ps)) a \<noteq> None \<longleftrightarrow> 1 < count_list (map op_account ps) a"
proof -
  have "a \<in> set (map fst xs) \<longleftrightarrow> (\<exists>m. (a, m) \<in> set xs)" for xs :: "(u64 \<times> nat) list" by force
  then show ?thesis unfolding binary_search_found [OF dup_runs_sorted] by (simp add: dup_runs_mem)
qed

lemma incident_order_inj: "inj incident_order"
  by (auto intro!: injI PeriodIncident.equality simp: incident_order_def)

lemma check_periods_unfold:
  "length ps \<le> MAX_PERIODS \<Longrightarrow> check_periods ps now grace =
     sort_key incident_order (map (\<lambda>(cur, n). dup_incident cur n) (dup_runs ps) @
       concat (map (\<lambda>p. if 1 < count_list (map op_account ps) (op_account p) then [] else check_period now grace p) ps))"
  by (simp add: check_periods_def Let_def dup_runs_def [symmetric] dup_found [unfolded not_None_eq])

lemma check_period_exact:
  assumes "length_ticks (op_period p) \<noteq> 0"
  defines "ends \<equiv> unat (start_tick (op_period p)) + unat (length_ticks (op_period p))"
    and "asked \<equiv> (case op_reset_requested_since p of None \<Rightarrow> 0 | Some t \<Rightarrow> unat t)"
  shows "check_period now grace p =
    (if unat now < unat (start_tick (op_period p))
     then [\<lparr>pi_kind = PeriodIncidentKind.ClockBeforeStart, pi_account = op_account p,
            pi_expected = start_tick (op_period p), pi_observed = now\<rparr>]
     else if ends \<le> unat now \<and> max asked ends + unat grace < unat now
     then [\<lparr>pi_kind = PeriodElapsedNoReset, pi_account = op_account p,
            pi_expected = of_nat (max asked ends + unat grace), pi_observed = now\<rparr>]
     else [])"
proof (cases rule: assess_cases [of now "op_period p"])
  case before
  then show ?thesis by (simp add: check_period_def assess_before word_less_nat_alt)
next
  case active
  then show ?thesis by (simp add: check_period_def assess_active ends_def word_le_nat_alt)
next
  case elapsed
  let ?P = "op_period p"
  let ?late = "now - start_tick ?P - length_ticks ?P"
  have e: "unat (now - start_tick ?P) = unat now - unat (start_tick ?P)"
    using elapsed by (simp add: unat_minus_le word_le_nat_alt)
  with elapsed have "length_ticks ?P \<le> now - start_tick ?P" by (simp add: word_le_nat_alt)
  from unat_minus_le [OF this] e have late: "unat ?late = unat now - ends" by (simp add: ends_def)
  define since where "since = max (case op_reset_requested_since p of None \<Rightarrow> 0 | Some t \<Rightarrow> t) (saturating_sub now ?late)"
  have "unat (saturating_sub now ?late) = ends"
    using elapsed by (simp add: unat_saturating_sub late ends_def)
  then have s: "unat since = max asked ends"
    by (auto simp: since_def asked_def max_def word_le_nat_alt split: option.splits)
  have lim: "unat now < 2 ^ 64" using unat_bound [of now] by simp
  have d: "unat (saturating_add since grace) = min (max asked ends + unat grace) (2 ^ 64 - 1)"
    using s by (simp add: unat_saturating_add)
  have "saturating_add since grace < now \<longleftrightarrow> max asked ends + unat grace < unat now"
    unfolding word_less_nat_alt d using lim by linarith
  moreover have "saturating_add since grace = of_nat (max asked ends + unat grace)"
    if "max asked ends + unat grace < unat now"
  proof -
    have "unat (saturating_add since grace) = max asked ends + unat grace" using d lim that by linarith
    moreover have "of_nat (unat (saturating_add since grace)) = saturating_add since grace" by simp
    ultimately show ?thesis by simp
  qed
  ultimately show ?thesis
    using elapsed by (simp add: check_period_def assess_elapsed [OF elapsed assms(1)] Let_def since_def [symmetric]
        ends_def)
qed

lemma set_dup_incidents:
  "(\<lambda>(cur, n). dup_incident cur n) ` set (dup_runs ps) =
   {dup_incident a n | a n. 1 < n \<and> n = count_list (map op_account ps) a}"
  by (auto simp: dup_runs_mem image_iff Bex_def)

subsection \<open>Properties of the checker\<close>

text \<open>
  Within its bound the checker reports exactly: one incident per account that occurs more
  than once, naming how often, and for every account that occurs once the incident of its own
  period.  Nothing is reported twice under different accounts and nothing is left out; beyond the
  bound the only report is that there are too many periods.
\<close>

theorem check_periods_exact:
  "set (check_periods ps now grace) =
    (if length ps \<le> MAX_PERIODS then
       {dup_incident a n | a n. 1 < n \<and> n = count_list (map op_account ps) a} \<union>
       (\<Union>p\<in>{p \<in> set ps. count_list (map op_account ps) (op_account p) = 1}. set (check_period now grace p))
     else {\<lparr>pi_kind = TooManyPeriods, pi_account = 0, pi_expected = 64, pi_observed = count_u64 (length ps)\<rparr>})"
proof (cases "length ps \<le> MAX_PERIODS")
  case True
  have "count_list (map op_account ps) (op_account p) = 1 \<longleftrightarrow> \<not> 1 < count_list (map op_account ps) (op_account p)"
    if "p \<in> set ps" for p
  proof -
    have "count_list (map op_account ps) (op_account p) \<noteq> 0" using that by (simp add: count_list_0_iff)
    then show ?thesis by linarith
  qed
  then have "{p \<in> set ps. count_list (map op_account ps) (op_account p) = 1} =
      set ps \<inter> {p. \<not> 1 < count_list (map op_account ps) (op_account p)}" by blast
  then show ?thesis
    unfolding check_periods_unfold [OF True] set_sort by (simp add: True set_dup_incidents)
next
  case False
  then show ?thesis by (simp add: check_periods_def MAX_PERIODS_def count_u64_def)
qed

text \<open>
  The report does not depend on the order in which the periods are observed.
\<close>

theorem check_periods_order_independent:
  assumes "mset ps = mset qs"
  shows "check_periods ps now grace = check_periods qs now grace"
proof -
  have len: "length ps = length qs" using assms by (metis size_mset)
  have m: "mset (map op_account ps) = mset (map op_account qs)" using assms by (simp add: mset_map)
  then have cnt: "count_list (map op_account ps) = count_list (map op_account qs)"
    by (simp add: fun_eq_iff count_mset [symmetric])
  have "dup_runs ps = dup_runs qs"
    using sort_key_canonical [OF _ m, of "\<lambda>x. x"] by (simp add: dup_runs_def)
  then have "check_periods ps now grace = check_periods qs now grace" if "length ps \<le> MAX_PERIODS"
    using that len
    by (simp add: check_periods_unfold cnt)
      (rule sort_key_canonical [OF incident_order_inj], simp add: mset_concat_map assms)
  then show ?thesis
    using len by (cases "length ps \<le> MAX_PERIODS") (simp_all add: check_periods_def)
qed

theorem check_periods_order_independent_witness:
  "let p = \<lparr>op_account = 1, op_period = \<lparr>start_tick = 10, length_ticks = 5\<rparr>, op_reset_requested_since = None\<rparr>;
       q = \<lparr>op_account = 2, op_period = \<lparr>start_tick = 90, length_ticks = 5\<rparr>, op_reset_requested_since = None\<rparr>
   in check_periods [p, q] 50 3 = check_periods [q, p] 50 3"
  unfolding Let_def by (rule check_periods_order_independent) (simp add: add_mset_commute)

end
