(* ===== verification/DataState.thy ===== *)
theory DataState
  imports Policy Period
begin

text \<open>
  The bounded tables behind the data syscalls, \<open>kernel-arm/src/data_state.rs\<close>: usage counters,
  open sessions, billing periods and the ticks of applied resets.  A lookup for writing
  (\<open>iter_mut().find\<close>) is \<open>find\<close> followed by \<open>update_first\<close>.  The three
  find-or-push tables share one contract, the locale \<open>keyed_table\<close>: one row per account, at
  most sixteen rows, no row evicted, no other account touched, refusal only when full.
\<close>

definition MAX_DATA_ACCOUNTS :: nat where
  "MAX_DATA_ACCOUNTS = 16"

definition MAX_DATA_SESSIONS :: nat where
  "MAX_DATA_SESSIONS = 16"

datatype TableFull = TableFull

record UsageEntry =
  ue_account :: u64
  ue_usage :: DataUsage
  ue_last_used :: "u64 option"

record DataSession =
  ds_account :: u64
  ds_slot :: usize
  ds_profile :: u8
  ds_roaming :: bool

record PeriodEntry =
  pe_account :: u64
  pe_period :: BillingPeriod
  pe_reset_requested_since :: "u64 option"

record ResetEntry =
  re_account :: u64
  re_last_reset_tick :: u64

record PeriodAdvice =
  pa_assessment :: PeriodAssessment
  pa_request :: "PeriodRequest option"
  pa_first_request :: bool

datatype PeriodStarted = NoPeriod | Started BillingPeriod | Installed BillingPeriod | Rejected PeriodError

datatype SessionRecorded = NotRecorded | Opened | Refreshed | TableFull

record OpenOutcome =
  oo_record :: PolicyDecisionRecord
  oo_recorded :: SessionRecorded

record DataState =
  usage_rows :: "UsageEntry list"
  sessions :: "DataSession list"
  periods :: "PeriodEntry list"
  last_resets :: "ResetEntry list"

definition data_new :: DataState where
  "data_new = \<lparr>usage_rows = [], sessions = [], periods = [], last_resets = []\<rparr>"

subsection \<open>Applied resets\<close>

definition last_reset_tick :: "DataState \<Rightarrow> u64 \<Rightarrow> u64 option" where
  "last_reset_tick s acct = map_option re_last_reset_tick (find (\<lambda>e. re_account e = acct) (last_resets s))"

definition record_reset :: "DataState \<Rightarrow> u64 \<Rightarrow> u64 \<Rightarrow> (unit, TableFull) result \<times> DataState" where
  "record_reset s acct now =
     (case find (\<lambda>e. re_account e = acct) (last_resets s) of
        Some _ \<Rightarrow>
          (Ok (), s\<lparr>last_resets := update_first (\<lambda>e. re_account e = acct)
             (re_last_reset_tick_update (\<lambda>_. now)) (last_resets s)\<rparr>)
      | None \<Rightarrow>
          if MAX_DATA_ACCOUNTS \<le> length (last_resets s) then (Err TableFull.TableFull, s)
          else (Ok (), s\<lparr>last_resets := last_resets s @ [\<lparr>re_account = acct, re_last_reset_tick = now\<rparr>]\<rparr>))"

subsection \<open>Usage counters\<close>

definition usage_of :: "DataState \<Rightarrow> u64 \<Rightarrow> DataUsage" where
  "usage_of s acct =
     (case find (\<lambda>e. ue_account e = acct) (usage_rows s) of
        Some e \<Rightarrow> ue_usage e
      | None \<Rightarrow> \<lparr>used_bytes = 0\<rparr>)"

definition feed_usage ::
    "DataState \<Rightarrow> u64 \<Rightarrow> u64 \<Rightarrow> (DataUsage \<times> DataUsage, TableFull) result \<times> DataState" where
  "feed_usage s acct bytes =
     (case find (\<lambda>e. ue_account e = acct) (usage_rows s) of
        Some e \<Rightarrow>
          let before = ue_usage e; after = apply_usage before bytes in
          (Ok (before, after),
           s\<lparr>usage_rows := update_first (\<lambda>e. ue_account e = acct) (ue_usage_update (\<lambda>_. after)) (usage_rows s)\<rparr>)
      | None \<Rightarrow>
          if MAX_DATA_ACCOUNTS \<le> length (usage_rows s) then (Err TableFull.TableFull, s)
          else
            let before = \<lparr>used_bytes = 0\<rparr>; after = apply_usage before bytes in
            (Ok (before, after),
             s\<lparr>usage_rows := usage_rows s @ [\<lparr>ue_account = acct, ue_usage = after, ue_last_used = None\<rparr>]\<rparr>))"

definition reset_usage_of :: "DataState \<Rightarrow> u64 \<Rightarrow> (DataUsage \<times> DataUsage) \<times> DataState" where
  "reset_usage_of s acct =
     (case find (\<lambda>e. ue_account e = acct) (usage_rows s) of
        Some e \<Rightarrow>
          ((ue_usage e, reset_usage),
           s\<lparr>usage_rows := update_first (\<lambda>e. ue_account e = acct)
              (\<lambda>e. e\<lparr>ue_usage := reset_usage, ue_last_used := None\<rparr>) (usage_rows s)\<rparr>)
      | None \<Rightarrow> ((\<lparr>used_bytes = 0\<rparr>, reset_usage), s))"

subsection \<open>Billing periods\<close>

definition set_period :: "DataState \<Rightarrow> u64 \<Rightarrow> BillingPeriod \<Rightarrow> (unit, TableFull) result \<times> DataState" where
  "set_period s acct period =
     (case find (\<lambda>e. pe_account e = acct) (periods s) of
        Some _ \<Rightarrow>
          (Ok (), s\<lparr>periods := update_first (\<lambda>e. pe_account e = acct)
             (\<lambda>e. e\<lparr>pe_period := period, pe_reset_requested_since := None\<rparr>) (periods s)\<rparr>)
      | None \<Rightarrow>
          if MAX_DATA_ACCOUNTS \<le> length (periods s) then (Err TableFull.TableFull, s)
          else (Ok (), s\<lparr>periods := periods s @
                  [\<lparr>pe_account = acct, pe_period = period, pe_reset_requested_since = None\<rparr>]\<rparr>))"

definition period_of :: "DataState \<Rightarrow> u64 \<Rightarrow> BillingPeriod option" where
  "period_of s acct = map_option pe_period (find (\<lambda>e. pe_account e = acct) (periods s))"

definition advise_period :: "DataState \<Rightarrow> u64 \<Rightarrow> u64 \<Rightarrow> PeriodAdvice option \<times> DataState" where
  "advise_period s acct now =
     (case find (\<lambda>e. pe_account e = acct) (periods s) of
        None \<Rightarrow> (None, s)
      | Some e \<Rightarrow>
          let assessment = assess_period (pe_period e) now;
              request = period_request (pe_period e) now;
              first_request = (request \<noteq> None \<and> pe_reset_requested_since e = None);
              s' = (if first_request
                    then s\<lparr>periods := update_first (\<lambda>e. pe_account e = acct)
                           (pe_reset_requested_since_update (\<lambda>_. Some now)) (periods s)\<rparr>
                    else s)
          in (Some \<lparr>pa_assessment = assessment, pa_request = request, pa_first_request = first_request\<rparr>, s'))"

definition start_next_period :: "DataState \<Rightarrow> u64 \<Rightarrow> u64 \<Rightarrow> u64 option \<Rightarrow> PeriodStarted \<times> DataState" where
  "start_next_period s acct now install_len =
     (case find (\<lambda>e. pe_account e = acct) (periods s) of
        None \<Rightarrow>
          (case install_len of
             None \<Rightarrow> (NoPeriod, s)
           | Some len \<Rightarrow>
               (case install_period now len of
                  Ok p \<Rightarrow>
                    (case set_period s acct p of
                       (Ok _, s') \<Rightarrow> (Installed p, s')
                     | (Err _, s') \<Rightarrow> (NoPeriod, s'))
                | Err err \<Rightarrow> (Rejected err, s)))
      | Some e \<Rightarrow>
          (case next_period (pe_period e) now of
             Ok next_p \<Rightarrow>
               (Started next_p, s\<lparr>periods := update_first (\<lambda>e. pe_account e = acct)
                  (\<lambda>e. e\<lparr>pe_period := next_p, pe_reset_requested_since := None\<rparr>) (periods s)\<rparr>)
           | Err err \<Rightarrow> (Rejected err, s)))"

definition reset_usage_and_period ::
    "DataState \<Rightarrow> u64 \<Rightarrow> u64 \<Rightarrow> u64 option \<Rightarrow>
     (DataUsage \<times> DataUsage \<times> PeriodStarted \<times> (unit, TableFull) result) \<times> DataState" where
  "reset_usage_and_period s acct now install_len =
     (let ((before, after), s1) = reset_usage_of s acct;
          (started, s2) = start_next_period s1 acct now install_len;
          (recorded, s3) = record_reset s2 acct now
      in ((before, after, started, recorded), s3))"

definition period_snapshot :: "DataState \<Rightarrow> ObservedPeriod list" where
  "period_snapshot s =
     map (\<lambda>e. \<lparr>op_account = pe_account e, op_period = pe_period e,
               op_reset_requested_since = pe_reset_requested_since e\<rparr>) (periods s)"

subsection \<open>Sessions\<close>

definition same_session :: "u64 \<Rightarrow> usize \<Rightarrow> u8 \<Rightarrow> DataSession \<Rightarrow> bool" where
  "same_session acct slot profile e \<longleftrightarrow> ds_account e = acct \<and> ds_slot e = slot \<and> ds_profile e = profile"

definition record_session :: "DataState \<Rightarrow> DataSession \<Rightarrow> SessionRecorded \<times> DataState" where
  "record_session s x =
     (case find (same_session (ds_account x) (ds_slot x) (ds_profile x)) (sessions s) of
        Some _ \<Rightarrow>
          (Refreshed, s\<lparr>sessions := update_first (same_session (ds_account x) (ds_slot x) (ds_profile x))
             (ds_roaming_update (\<lambda>_. ds_roaming x)) (sessions s)\<rparr>)
      | None \<Rightarrow>
          if MAX_DATA_SESSIONS \<le> length (sessions s) then (SessionRecorded.TableFull, s)
          else (Opened, s\<lparr>sessions := sessions s @ [x]\<rparr>))"

definition decide_and_open ::
    "DataState \<Rightarrow> u64 \<Rightarrow> usize \<Rightarrow> u8 \<Rightarrow> bool \<Rightarrow> AccountStandingForData \<Rightarrow> ProfileLifecycleForData \<Rightarrow>
     DataEntitlement \<Rightarrow> OpenOutcome \<times> DataState" where
  "decide_and_open s acct slot profile roaming standing lifecycle entitlement =
     (let record = decide \<lparr>sr_standing = standing, sr_lifecycle = lifecycle, sr_entitlement = entitlement,
                           sr_usage = usage_of s acct,
                           sr_network = (if roaming then Roaming else Home)\<rparr>;
          (recorded, s') =
            (case pdr_decision record of
               Deny _ \<Rightarrow> (NotRecorded, s)
             | _ \<Rightarrow> record_session s \<lparr>ds_account = acct, ds_slot = slot, ds_profile = profile, ds_roaming = roaming\<rparr>)
      in (\<lparr>oo_record = record, oo_recorded = recorded\<rparr>, s'))"

definition close_session :: "DataState \<Rightarrow> u64 \<Rightarrow> usize \<Rightarrow> u8 \<Rightarrow> bool \<times> DataState" where
  "close_session s acct slot profile =
     (let kept = filter (\<lambda>e. \<not> same_session acct slot profile e) (sessions s)
      in (length kept \<noteq> length (sessions s), s\<lparr>sessions := kept\<rparr>))"

text \<open>The drain loop: \<open>removed\<close> and \<open>kept\<close> grow in table order.\<close>

fun drain_rows :: "(DataSession \<Rightarrow> bool) \<Rightarrow> DataSession list \<Rightarrow> DataSession list \<Rightarrow> DataSession list \<Rightarrow>
    DataSession list \<times> DataSession list" where
  "drain_rows P removed kept [] = (removed, kept)"
| "drain_rows P removed kept (x # xs) =
     (if P x then drain_rows P (removed @ [x]) kept xs else drain_rows P removed (kept @ [x]) xs)"

definition drain_sessions :: "DataState \<Rightarrow> (DataSession \<Rightarrow> bool) \<Rightarrow> DataSession list \<times> DataState" where
  "drain_sessions s P = (let (removed, kept) = drain_rows P [] [] (sessions s) in (removed, s\<lparr>sessions := kept\<rparr>))"

definition close_sessions_for_account :: "DataState \<Rightarrow> u64 \<Rightarrow> DataSession list \<times> DataState" where
  "close_sessions_for_account s acct = drain_sessions s (\<lambda>x. ds_account x = acct)"

definition close_sessions_for_profile :: "DataState \<Rightarrow> usize \<Rightarrow> u8 \<Rightarrow> DataSession list \<times> DataState" where
  "close_sessions_for_profile s slot profile = drain_sessions s (\<lambda>x. ds_slot x = slot \<and> ds_profile x = profile)"

definition data_snapshot :: "DataState \<Rightarrow> UsageEntry list \<times> DataSession list" where
  "data_snapshot s = (usage_rows s, sessions s)"

definition mark_one :: "UsageEntry \<Rightarrow> UsageEntry list \<Rightarrow> UsageEntry list" where
  "mark_one ob rows = update_first (\<lambda>e. ue_account e = ue_account ob)
     (ue_last_used_update (\<lambda>_. Some (used_bytes (ue_usage ob)))) rows"

definition mark_observed :: "DataState \<Rightarrow> UsageEntry list \<Rightarrow> DataState" where
  "mark_observed s observed = s\<lparr>usage_rows := fold mark_one observed (usage_rows s)\<rparr>"

definition data_assess :: "DataState \<Rightarrow> u64 \<Rightarrow> DataEntitlement \<Rightarrow> UsageAssessment" where
  "data_assess s acct entitlement = evaluate_usage entitlement (usage_of s acct)"

subsection \<open>Sequences of operations and invariant\<close>

definition table_ok :: "'k list \<Rightarrow> nat \<Rightarrow> bool" where
  "table_ok keys cap \<longleftrightarrow> distinct keys \<and> length keys \<le> cap"

definition session_key :: "DataSession \<Rightarrow> u64 \<times> usize \<times> u8" where
  "session_key x = (ds_account x, ds_slot x, ds_profile x)"

definition data_wf :: "DataState \<Rightarrow> bool" where
  "data_wf s \<longleftrightarrow>
     table_ok (map ue_account (usage_rows s)) MAX_DATA_ACCOUNTS \<and>
     table_ok (map pe_account (periods s)) MAX_DATA_ACCOUNTS \<and>
     table_ok (map re_account (last_resets s)) MAX_DATA_ACCOUNTS \<and>
     table_ok (map session_key (sessions s)) MAX_DATA_SESSIONS \<and>
     (\<forall>e\<in>set (periods s). length_ticks (pe_period e) \<noteq> 0)"

text \<open>
  A period handed to \<open>set_period\<close> has passed its constructor, whose private fields are the only
  way to obtain one; the call carries the constructor's arguments.
\<close>

datatype DataCall =
    CallFeed u64 u64
  | CallReset u64 u64 "u64 option"
  | CallSetPeriod u64 u64 u64
  | CallAdvise u64 u64
  | CallOpen u64 usize u8 bool AccountStandingForData ProfileLifecycleForData DataEntitlement
  | CallClose u64 usize u8
  | CallCloseAccount u64
  | CallCloseProfile usize u8
  | CallMark "UsageEntry list"

fun data_call :: "DataCall \<Rightarrow> DataState \<Rightarrow> DataState" where
  "data_call (CallFeed a b) s = snd (feed_usage s a b)"
| "data_call (CallReset a now len) s = snd (reset_usage_and_period s a now len)"
| "data_call (CallSetPeriod a start len) s =
     (case period_new start len of Ok p \<Rightarrow> snd (set_period s a p) | Err _ \<Rightarrow> s)"
| "data_call (CallAdvise a now) s = snd (advise_period s a now)"
| "data_call (CallOpen a sl p r st lc e) s = snd (decide_and_open s a sl p r st lc e)"
| "data_call (CallClose a sl p) s = snd (close_session s a sl p)"
| "data_call (CallCloseAccount a) s = snd (close_sessions_for_account s a)"
| "data_call (CallCloseProfile sl p) s = snd (close_sessions_for_profile s sl p)"
| "data_call (CallMark obs) s = mark_observed s obs"

subsection \<open>The contract of the keyed tables\<close>

locale keyed_table =
  fixes rows :: "'t \<Rightarrow> 'r list" and key :: "'r \<Rightarrow> 'k"
    and put :: "'t \<Rightarrow> 'k \<Rightarrow> 'a \<Rightarrow> ('b, TableFull) result \<times> 't" and cap :: nat
  assumes put_Ok: "put t k a = (Ok b, t') \<Longrightarrow>
      map key (rows t') = (if k \<in> key ` set (rows t) then map key (rows t) else map key (rows t) @ [k]) \<and>
      (k \<in> key ` set (rows t) \<or> length (rows t) < cap)"
    and put_Err: "put t k a = (Err e, t') \<Longrightarrow> t' = t \<and> k \<notin> key ` set (rows t) \<and> cap \<le> length (rows t)"
    and put_other: "j \<noteq> k \<Longrightarrow>
      find (\<lambda>r. key r = j) (rows (snd (put t k a))) = find (\<lambda>r. key r = j) (rows t)"
begin

lemma put_accepts: "is_ok (fst (put t k a)) \<longleftrightarrow> k \<in> key ` set (rows t) \<or> length (rows t) < cap"
  by (cases rule: result_state_cases [of "put t k a"]) (auto dest: put_Ok put_Err)

lemma put_keys:
  "map key (rows (snd (put t k a))) =
     (if k \<in> key ` set (rows t) \<or> cap \<le> length (rows t) then map key (rows t) else map key (rows t) @ [k])"
  by (cases rule: result_state_cases [of "put t k a"]) (auto dest!: put_Ok put_Err)

lemma put_ok:
  "table_ok (map key (rows t)) cap \<Longrightarrow> table_ok (map key (rows (snd (put t k a)))) cap"
  unfolding put_keys by (auto simp: table_ok_def)

lemma put_keeps_keys: "key ` set (rows t) \<subseteq> key ` set (rows (snd (put t k a)))"
proof -
  have "set (map key (rows t)) \<subseteq> set (map key (rows (snd (put t k a))))" unfolding put_keys by auto
  then show ?thesis by simp
qed

end

lemma find_key_None: "find (\<lambda>r. key r = k) xs = None \<longleftrightarrow> k \<notin> key ` set xs"
  by (auto simp: find_None)

interpretation usage_table: keyed_table usage_rows ue_account feed_usage MAX_DATA_ACCOUNTS
proof unfold_locales
  fix t k a b t'
  show "feed_usage t k a = (Ok b, t') \<Longrightarrow>
      map ue_account (usage_rows t') = (if k \<in> ue_account ` set (usage_rows t)
        then map ue_account (usage_rows t) else map ue_account (usage_rows t) @ [k]) \<and>
      (k \<in> ue_account ` set (usage_rows t) \<or> length (usage_rows t) < MAX_DATA_ACCOUNTS)"
    by (auto simp: feed_usage_def Let_def map_update_first find_key_None split: option.splits if_splits
        dest: find_Some_set)
next
  fix t k a e t'
  show "feed_usage t k a = (Err e, t') \<Longrightarrow>
      t' = t \<and> k \<notin> ue_account ` set (usage_rows t) \<and> MAX_DATA_ACCOUNTS \<le> length (usage_rows t)"
    by (auto simp: feed_usage_def Let_def find_key_None split: option.splits if_splits)
next
  fix j k t a
  show "j \<noteq> k \<Longrightarrow> find (\<lambda>r. ue_account r = j) (usage_rows (snd (feed_usage t k a))) =
      find (\<lambda>r. ue_account r = j) (usage_rows t)"
    by (auto simp: feed_usage_def Let_def find_append find_update_first_other split: option.splits)
qed

interpretation period_table: keyed_table periods pe_account set_period MAX_DATA_ACCOUNTS
proof unfold_locales
  fix t k a b t'
  show "set_period t k a = (Ok b, t') \<Longrightarrow>
      map pe_account (periods t') = (if k \<in> pe_account ` set (periods t)
        then map pe_account (periods t) else map pe_account (periods t) @ [k]) \<and>
      (k \<in> pe_account ` set (periods t) \<or> length (periods t) < MAX_DATA_ACCOUNTS)"
    by (auto simp: set_period_def map_update_first find_key_None split: option.splits if_splits
        dest: find_Some_set)
next
  fix t k a e t'
  show "set_period t k a = (Err e, t') \<Longrightarrow>
      t' = t \<and> k \<notin> pe_account ` set (periods t) \<and> MAX_DATA_ACCOUNTS \<le> length (periods t)"
    by (auto simp: set_period_def find_key_None split: option.splits if_splits)
next
  fix j k t a
  show "j \<noteq> k \<Longrightarrow> find (\<lambda>r. pe_account r = j) (periods (snd (set_period t k a))) =
      find (\<lambda>r. pe_account r = j) (periods t)"
    by (auto simp: set_period_def find_append find_update_first_other split: option.splits)
qed

interpretation reset_table: keyed_table last_resets re_account record_reset MAX_DATA_ACCOUNTS
proof unfold_locales
  fix t k a b t'
  show "record_reset t k a = (Ok b, t') \<Longrightarrow>
      map re_account (last_resets t') = (if k \<in> re_account ` set (last_resets t)
        then map re_account (last_resets t) else map re_account (last_resets t) @ [k]) \<and>
      (k \<in> re_account ` set (last_resets t) \<or> length (last_resets t) < MAX_DATA_ACCOUNTS)"
    by (auto simp: record_reset_def map_update_first find_key_None split: option.splits if_splits
        dest: find_Some_set)
next
  fix t k a e t'
  show "record_reset t k a = (Err e, t') \<Longrightarrow>
      t' = t \<and> k \<notin> re_account ` set (last_resets t) \<and> MAX_DATA_ACCOUNTS \<le> length (last_resets t)"
    by (auto simp: record_reset_def find_key_None split: option.splits if_splits)
next
  fix j k t a
  show "j \<noteq> k \<Longrightarrow> find (\<lambda>r. re_account r = j) (last_resets (snd (record_reset t k a))) =
      find (\<lambda>r. re_account r = j) (last_resets t)"
    by (auto simp: record_reset_def find_append find_update_first_other split: option.splits)
qed

subsection \<open>What each operation leaves alone\<close>

lemma feed_usage_frame [frame_simps]:
  "sessions (snd (feed_usage s a b)) = sessions s"
  "periods (snd (feed_usage s a b)) = periods s"
  "last_resets (snd (feed_usage s a b)) = last_resets s"
  by (simp_all add: feed_usage_def Let_def split: option.splits)

lemma reset_usage_of_frame [frame_simps]:
  "sessions (snd (reset_usage_of s a)) = sessions s"
  "periods (snd (reset_usage_of s a)) = periods s"
  "last_resets (snd (reset_usage_of s a)) = last_resets s"
  by (simp_all add: reset_usage_of_def split: option.splits)

lemma set_period_frame [frame_simps]:
  "sessions (snd (set_period s a p)) = sessions s"
  "usage_rows (snd (set_period s a p)) = usage_rows s"
  "last_resets (snd (set_period s a p)) = last_resets s"
  by (simp_all add: set_period_def split: option.splits)

lemma record_reset_frame [frame_simps]:
  "sessions (snd (record_reset s a n)) = sessions s"
  "usage_rows (snd (record_reset s a n)) = usage_rows s"
  "periods (snd (record_reset s a n)) = periods s"
  by (simp_all add: record_reset_def split: option.splits)

lemma advise_period_frame [frame_simps]:
  "sessions (snd (advise_period s a n)) = sessions s"
  "usage_rows (snd (advise_period s a n)) = usage_rows s"
  "last_resets (snd (advise_period s a n)) = last_resets s"
  by (simp_all add: advise_period_def Let_def split: option.splits)

lemma start_next_period_snd:
  "snd (start_next_period s a n len) =
     (case find (\<lambda>e. pe_account e = a) (periods s) of
        None \<Rightarrow> (case len of
            None \<Rightarrow> s
          | Some l \<Rightarrow> (case install_period n l of Ok p \<Rightarrow> snd (set_period s a p) | Err _ \<Rightarrow> s))
      | Some e \<Rightarrow> (case next_period (pe_period e) n of
            Ok p \<Rightarrow> snd (set_period s a p)
          | Err _ \<Rightarrow> s))"
  by (auto simp: start_next_period_def set_period_def split: option.splits result.splits)

lemma start_next_period_frame [frame_simps]:
  "sessions (snd (start_next_period s a n len)) = sessions s"
  "usage_rows (snd (start_next_period s a n len)) = usage_rows s"
  "last_resets (snd (start_next_period s a n len)) = last_resets s"
  by (simp_all add: start_next_period_snd frame_simps split: option.splits result.splits)

lemma reset_usage_and_period_snd:
  "snd (reset_usage_and_period s a n len) =
     snd (record_reset (snd (start_next_period (snd (reset_usage_of s a)) a n len)) a n)"
  by (simp add: reset_usage_and_period_def Let_def split_beta)

lemma reset_usage_and_period_frame [frame_simps]:
  "sessions (snd (reset_usage_and_period s a n len)) = sessions s"
  "usage_rows (snd (reset_usage_and_period s a n len)) = usage_rows (snd (reset_usage_of s a))"
  by (simp_all add: reset_usage_and_period_snd frame_simps)

lemma record_session_frame [frame_simps]:
  "usage_rows (snd (record_session s x)) = usage_rows s"
  "periods (snd (record_session s x)) = periods s"
  "last_resets (snd (record_session s x)) = last_resets s"
  by (simp_all add: record_session_def split: option.splits)

lemma decide_and_open_cases:
  obtains (denied) "snd (decide_and_open s a sl p r st lc e) = s"
      "\<exists>why. pdr_decision (oo_record (fst (decide_and_open s a sl p r st lc e))) = Deny why"
      "oo_recorded (fst (decide_and_open s a sl p r st lc e)) = NotRecorded"
  | (allowed) "snd (decide_and_open s a sl p r st lc e) =
        snd (record_session s \<lparr>ds_account = a, ds_slot = sl, ds_profile = p, ds_roaming = r\<rparr>)"
      "pdr_decision (oo_record (fst (decide_and_open s a sl p r st lc e))) \<in> {Allow, AllowThrottled}"
      "oo_recorded (fst (decide_and_open s a sl p r st lc e)) =
        fst (record_session s \<lparr>ds_account = a, ds_slot = sl, ds_profile = p, ds_roaming = r\<rparr>)"
  by (cases "evaluate_session \<lparr>sr_standing = st, sr_lifecycle = lc, sr_entitlement = e,
        sr_usage = usage_of s a, sr_network = (if r then Roaming else Home)\<rparr>")
    (auto simp: decide_and_open_def decide_def Let_def split_beta)

lemma decide_and_open_frame [frame_simps]:
  "usage_rows (snd (decide_and_open s a sl p r st lc e)) = usage_rows s"
  "periods (snd (decide_and_open s a sl p r st lc e)) = periods s"
  "last_resets (snd (decide_and_open s a sl p r st lc e)) = last_resets s"
  by (cases rule: decide_and_open_cases [of s a sl p r st lc e]; simp add: frame_simps)+

lemma drain_rows_filter:
  "drain_rows P removed kept xs = (removed @ filter P xs, kept @ filter (\<lambda>x. \<not> P x) xs)"
  by (induction xs arbitrary: removed kept) auto

lemma drain_sessions_eq:
  "drain_sessions s P = (filter P (sessions s), s\<lparr>sessions := filter (\<lambda>x. \<not> P x) (sessions s)\<rparr>)"
  by (simp add: drain_sessions_def drain_rows_filter)

lemmas close_sessions_eq = close_sessions_for_account_def [unfolded drain_sessions_eq]
  close_sessions_for_profile_def [unfolded drain_sessions_eq]

lemma mark_one_accounts [simp]: "map ue_account (mark_one ob rows) = map ue_account rows"
  by (simp add: mark_one_def map_update_first)

lemma fold_mark_accounts [simp]: "map ue_account (fold mark_one obs rows) = map ue_account rows"
  by (induction obs arbitrary: rows) simp_all

lemma mark_one_usage [simp]: "map ue_usage (mark_one ob rows) = map ue_usage rows"
  by (simp add: mark_one_def map_update_first)

lemma fold_mark_usage [simp]: "map ue_usage (fold mark_one obs rows) = map ue_usage rows"
  by (induction obs arbitrary: rows) simp_all

subsection \<open>The invariant is kept\<close>

lemma data_new_wf: "data_wf data_new"
  by (simp add: data_wf_def data_new_def table_ok_def)

lemma same_session_key:
  "same_session (ds_account x) (ds_slot x) (ds_profile x) e \<longleftrightarrow> session_key e = session_key x"
  by (auto simp: same_session_def session_key_def)

lemma record_session_table:
  assumes "table_ok (map session_key (sessions s)) MAX_DATA_SESSIONS"
  shows "table_ok (map session_key (sessions (snd (record_session s x)))) MAX_DATA_SESSIONS"
proof (cases "find (\<lambda>e. session_key e = session_key x) (sessions s)")
  case None
  then have "session_key x \<notin> session_key ` set (sessions s)" by (simp add: find_key_None)
  with None assms show ?thesis
    by (auto simp: record_session_def same_session_key [abs_def] table_ok_def)
next
  case (Some e)
  have "session_key (y\<lparr>ds_roaming := b\<rparr>) = session_key y" for y b by (simp add: session_key_def)
  with Some assms show ?thesis
    by (simp add: record_session_def same_session_key [abs_def] map_update_first)
qed

lemma filter_table:
  "table_ok (map f xs) cap \<Longrightarrow> table_ok (map f (filter P xs)) cap"
  by (auto simp: table_ok_def intro: distinct_map_filter le_trans [OF length_filter_le])

lemma set_period_lengths:
  assumes "\<forall>e\<in>set (periods s). length_ticks (pe_period e) \<noteq> 0" "length_ticks p \<noteq> 0"
  shows "\<forall>e\<in>set (periods (snd (set_period s a p))). length_ticks (pe_period e) \<noteq> 0"
  using assms by (auto simp: set_period_def split: option.splits dest!: set_update_first)

lemma period_wf_kept:
  assumes "data_wf s" "length_ticks p \<noteq> 0"
  shows "data_wf (snd (set_period s a p))"
  using assms set_period_lengths [of s p a]
  by (simp add: data_wf_def frame_simps period_table.put_ok)

lemma start_next_period_wf: "data_wf s \<Longrightarrow> data_wf (snd (start_next_period s a n len))"
  by (auto simp: start_next_period_snd install_period_def period_new_def next_period_Ok
      intro!: period_wf_kept split: option.splits result.splits if_splits)

lemma reset_usage_of_wf: "data_wf s \<Longrightarrow> data_wf (snd (reset_usage_of s a))"
  by (auto simp: data_wf_def reset_usage_of_def map_update_first split: option.splits)

lemma record_reset_wf: "data_wf s \<Longrightarrow> data_wf (snd (record_reset s a n))"
  by (simp add: data_wf_def frame_simps reset_table.put_ok)

lemma advise_period_wf: "data_wf s \<Longrightarrow> data_wf (snd (advise_period s a n))"
  by (auto simp: data_wf_def advise_period_def Let_def map_update_first split: option.splits
      dest!: set_update_first)

lemma decide_and_open_wf: "data_wf s \<Longrightarrow> data_wf (snd (decide_and_open s a sl p r st lc e))"
  by (cases rule: decide_and_open_cases [of s a sl p r st lc e])
    (simp_all add: data_wf_def frame_simps record_session_table)

lemma feed_usage_wf: "data_wf s \<Longrightarrow> data_wf (snd (feed_usage s a b))"
  by (simp add: data_wf_def frame_simps usage_table.put_ok)

lemma reset_usage_and_period_wf: "data_wf s \<Longrightarrow> data_wf (snd (reset_usage_and_period s a n len))"
  by (simp add: reset_usage_and_period_snd reset_usage_of_wf start_next_period_wf record_reset_wf)

lemma filter_sessions_wf: "data_wf s \<Longrightarrow> data_wf (s\<lparr>sessions := filter P (sessions s)\<rparr>)"
  by (simp add: data_wf_def filter_table)

lemma mark_observed_wf: "data_wf s \<Longrightarrow> data_wf (mark_observed s obs)"
  by (simp add: data_wf_def mark_observed_def)

lemma set_period_new_wf:
  "data_wf s \<Longrightarrow> data_wf (case period_new start len of Ok p \<Rightarrow> snd (set_period s a p) | Err _ \<Rightarrow> s)"
  by (auto simp: period_new_def intro!: period_wf_kept)

lemma data_call_wf: "data_wf s \<Longrightarrow> data_wf (data_call c s)"
  by (cases c)
    (simp_all add: feed_usage_wf reset_usage_and_period_wf advise_period_wf decide_and_open_wf mark_observed_wf
      close_session_def Let_def close_sessions_eq filter_sessions_wf set_period_new_wf)

interpretation data_machine: machine data_new data_call data_wf
  by unfold_locales (auto intro: data_new_wf data_call_wf)

subsection \<open>Lookups after updates\<close>

lemma usage_of_rows:
  "usage_rows s = usage_rows t \<Longrightarrow> usage_of s a = usage_of t a"
  by (simp add: usage_of_def)

lemma period_of_rows: "periods s = periods t \<Longrightarrow> period_of s a = period_of t a"
  by (simp add: period_of_def)

lemma usage_of_feed_other: "b \<noteq> a \<Longrightarrow> usage_of (snd (feed_usage s a n)) b = usage_of s b"
  by (simp add: usage_of_def usage_table.put_other)

lemma usage_of_feed:
  "usage_of (snd (feed_usage s a n)) a =
     (if is_ok (fst (feed_usage s a n)) then apply_usage (usage_of s a) n else usage_of s a)"
  by (cases "find (\<lambda>e. ue_account e = a) (usage_rows s)")
    (auto simp: usage_of_def feed_usage_def Let_def find_append find_update_first_same)

lemma usage_of_reset: "usage_of (snd (reset_usage_of s a)) b = (if b = a then reset_usage else usage_of s b)"
  by (cases "find (\<lambda>e. ue_account e = a) (usage_rows s)")
    (auto simp: usage_of_def reset_usage_of_def reset_usage_def find_update_first_same find_update_first_other)

lemma period_of_set_other: "b \<noteq> a \<Longrightarrow> period_of (snd (set_period s a p)) b = period_of s b"
  by (simp add: period_of_def period_table.put_other)

lemma period_of_set:
  "period_of (snd (set_period s a p)) a = (if is_ok (fst (set_period s a p)) then Some p else period_of s a)"
  by (cases "find (\<lambda>e. pe_account e = a) (periods s)")
    (auto simp: period_of_def set_period_def find_append find_update_first_same)

lemma set_period_ok_existing: "period_of s a \<noteq> None \<Longrightarrow> is_ok (fst (set_period s a p))"
  by (auto simp: period_of_def set_period_def)

lemma last_reset_record:
  "last_reset_tick (snd (record_reset s a n)) a =
     (if is_ok (fst (record_reset s a n)) then Some n else last_reset_tick s a)"
  by (cases "find (\<lambda>e. re_account e = a) (last_resets s)")
    (auto simp: last_reset_tick_def record_reset_def find_append find_update_first_same)

lemma find_mark_one:
  "map_option ue_usage (find (\<lambda>e. ue_account e = a) (mark_one ob rows)) =
   map_option ue_usage (find (\<lambda>e. ue_account e = a) rows)"
  unfolding mark_one_def
  by (induction rows) auto

lemma find_fold_mark:
  "map_option ue_usage (find (\<lambda>e. ue_account e = a) (fold mark_one obs rows)) =
   map_option ue_usage (find (\<lambda>e. ue_account e = a) rows)"
  by (induction obs arbitrary: rows) (auto simp: find_mark_one)

lemma usage_of_mark: "usage_of (mark_observed s obs) a = usage_of s a"
  using find_fold_mark [of a obs "usage_rows s"]
  by (auto simp: usage_of_def mark_observed_def split: option.splits)

lemma usage_of_sessions [simp]: "usage_of (s\<lparr>sessions := x\<rparr>) a = usage_of s a"
  by (simp add: usage_of_def)

lemma period_of_start_next:
  assumes "period_of s a = Some p" "start_tick p \<le> n" "length_ticks p \<noteq> 0"
  shows "period_of (snd (start_next_period s a n len)) a = Some \<lparr>start_tick = n, length_ticks = length_ticks p\<rparr>"
proof -
  obtain e where e: "find (\<lambda>e. pe_account e = a) (periods s) = Some e" "pe_period e = p"
    using assms(1) by (auto simp: period_of_def)
  have "next_period p n = Ok \<lparr>start_tick = n, length_ticks = length_ticks p\<rparr>"
    using assms by (simp add: next_period_Ok)
  then have "snd (start_next_period s a n len) =
      snd (set_period s a \<lparr>start_tick = n, length_ticks = length_ticks p\<rparr>)"
    using e by (simp add: start_next_period_snd)
  then show ?thesis using assms(1) by (simp add: period_of_set set_period_ok_existing)
qed

lemma period_of_start_next_other:
  "b \<noteq> a \<Longrightarrow> period_of (snd (start_next_period s a n len)) b = period_of s b"
  by (auto simp: start_next_period_snd period_of_set_other split: option.splits result.splits)

lemma period_of_wf: "data_wf s \<Longrightarrow> period_of s a = Some p \<Longrightarrow> length_ticks p \<noteq> 0"
  by (auto simp: period_of_def data_wf_def dest: find_Some_set)

fun resets_account :: "u64 \<Rightarrow> DataCall \<Rightarrow> bool" where
  "resets_account a (CallReset b _ _) \<longleftrightarrow> b = a"
| "resets_account a _ \<longleftrightarrow> False"

lemma usage_of_reset_and_period:
  "usage_of (snd (reset_usage_and_period s a n len)) b = (if b = a then reset_usage else usage_of s b)"
  using usage_of_rows [OF reset_usage_and_period_frame(2)] usage_of_reset by metis

lemma data_call_usage_grows:
  "\<not> resets_account a c \<Longrightarrow> used_bytes (usage_of s a) \<le> used_bytes (usage_of (data_call c s) a)"
proof (cases c)
  case (CallFeed b n)
  then show ?thesis
    by (cases "b = a") (simp_all add: usage_of_feed usage_of_feed_other apply_usage_def saturating_add_ge)
next
  case (CallSetPeriod b start len)
  then show ?thesis
    by (auto simp: period_new_def usage_of_rows [OF set_period_frame(2)])
qed (auto simp: usage_of_reset_and_period usage_of_mark usage_of_rows [OF advise_period_frame(2)]
    usage_of_rows [OF decide_and_open_frame(1)] close_session_def Let_def close_sessions_eq)

definition request_marker :: "DataState \<Rightarrow> u64 \<Rightarrow> u64 option" where
  "request_marker s a =
     (case find (\<lambda>e. pe_account e = a) (periods s) of None \<Rightarrow> None | Some e \<Rightarrow> pe_reset_requested_since e)"

definition poll :: "u64 \<times> u64 \<Rightarrow> DataState \<Rightarrow> DataState" where
  "poll q s = snd (advise_period s (fst q) (snd q))"

lemma poll_keeps_marker: "request_marker s a = Some t \<Longrightarrow> request_marker (poll q s) a = Some t"
proof (cases "fst q = a")
  case True
  then show "request_marker s a = Some t \<Longrightarrow> ?thesis"
    by (auto simp: request_marker_def poll_def advise_period_def Let_def split: option.splits)
next
  case False
  then have "find (\<lambda>e. pe_account e = a) (periods (poll q s)) = find (\<lambda>e. pe_account e = a) (periods s)"
    by (auto simp: poll_def advise_period_def Let_def find_update_first_other split: option.splits)
  then show "request_marker s a = Some t \<Longrightarrow> ?thesis" by (simp add: request_marker_def)
qed

interpretation marker: stable_fact data_new poll data_wf "\<lambda>s. request_marker s a = Some t" for a t
  by unfold_locales (simp_all add: data_new_wf poll_def advise_period_wf poll_keeps_marker [unfolded poll_def])

subsection \<open>Properties\<close>

text \<open>
  Under every sequence of metering, session, period and reset calls the tables keep their
  shape: at most sixteen rows each, one row per account (per account, slot and profile for the
  sessions), and no stored billing period of length zero.
\<close>

theorem data_runs_wf: "data_wf (fold data_call calls data_new)"
  by (rule data_machine.run_inv)

text \<open>
  C21.  A session row is written only on the policy engine's word: the recorded decision is the
  engine's own on the current usage and replays, a denial leaves every row as it was, and the only
  row an allowed call can add or change is the one it names, with the requested roaming flag.
\<close>

theorem session_only_if_allowed:
  "let (out, s') = decide_and_open s a sl p r st lc e;
       q = \<lparr>sr_standing = st, sr_lifecycle = lc, sr_entitlement = e, sr_usage = usage_of s a,
            sr_network = (if r then Roaming else Home)\<rparr>
   in oo_record out = decide q \<and> replays (oo_record out) \<and>
      (evaluate_session q \<notin> {Allow, AllowThrottled} \<longrightarrow> s' = s) \<and>
      (\<forall>x\<in>set (sessions s'). x \<notin> set (sessions s) \<longrightarrow> session_key x = (a, sl, p) \<and> ds_roaming x = r)"
proof -
  let ?x = "\<lparr>ds_account = a, ds_slot = sl, ds_profile = p, ds_roaming = r\<rparr>"
  let ?q = "\<lparr>sr_standing = st, sr_lifecycle = lc, sr_entitlement = e, sr_usage = usage_of s a,
            sr_network = (if r then Roaming else Home)\<rparr>"
  have new: "session_key x = (a, sl, p) \<and> ds_roaming x = r"
    if "x \<in> set (sessions (snd (record_session s ?x)))" "x \<notin> set (sessions s)" for x
    using that
    by (auto simp: record_session_def same_session_def session_key_def split: option.splits if_splits
        dest!: set_update_first)
  have rec: "oo_record (fst (decide_and_open s a sl p r st lc e)) = decide ?q"
    by (simp add: decide_and_open_def Let_def split_beta)
  show ?thesis
  proof (cases rule: decide_and_open_cases [of s a sl p r st lc e])
    case denied
    with rec show ?thesis by (simp add: split_beta Let_def replays_def decide_def)
  next
    case allowed
    with rec new show ?thesis by (auto simp: split_beta Let_def replays_def decide_def)
  qed
qed

theorem session_only_if_allowed_witness:
  "snd (decide_and_open data_new 0 0 0 True AccountStandingForData.Active ProfileLifecycleForData.Enabled
     \<lparr>cap_bytes = Some 1000, throttle_at_percent = 80, roaming_data_allowed = False, escalate_at_percent = 150\<rparr>)
   = data_new"
  using session_only_if_allowed [of data_new 0 0 0 True AccountStandingForData.Active ProfileLifecycleForData.Enabled
     "\<lparr>cap_bytes = Some 1000, throttle_at_percent = 80, roaming_data_allowed = False, escalate_at_percent = 150\<rparr>"]
  by (simp add: split_beta Let_def evaluate_session_def)

text \<open>
  The counter only goes up between resets: across any sequence of calls that contains no
  reset of the account, its usage never decreases, whatever else happens to the tables.
\<close>

theorem usage_monotone_between_resets:
  assumes "\<forall>c\<in>set calls. \<not> resets_account a c"
  shows "used_bytes (usage_of s a) \<le> used_bytes (usage_of (fold data_call calls s) a)"
  using assms
proof (induction calls arbitrary: s)
  case (Cons c calls)
  from data_call_usage_grows [of a c s] Cons.IH [of "data_call c s"] Cons.prems show ?case by auto
qed simp

theorem usage_monotone_between_resets_witness:
  "used_bytes (usage_of data_new 7) \<le>
   used_bytes (usage_of (fold data_call [CallFeed 7 100, CallReset 8 5 None, CallFeed 7 900] data_new) 7)"
  by (rule usage_monotone_between_resets) simp

text \<open>
  The governed reset does exactly its job in one step: the account's counter is zero
  afterwards, its running period is replaced by one of the same length that starts at the reset,
  other accounts' counters and periods and all sessions are untouched, and the tick is remembered
  whenever the reset reports that it recorded it.
\<close>

theorem reset_effect:
  fixes a now :: u64 and len :: "u64 option"
  assumes "data_wf s"
  defines "res \<equiv> reset_usage_and_period s a now len"
  shows "usage_of (snd res) a = reset_usage \<and>
    (\<forall>b. b \<noteq> a \<longrightarrow> usage_of (snd res) b = usage_of s b \<and> period_of (snd res) b = period_of s b) \<and>
    sessions (snd res) = sessions s \<and>
    (\<forall>p. period_of s a = Some p \<longrightarrow> start_tick p \<le> now \<longrightarrow>
       period_of (snd res) a = Some \<lparr>start_tick = now, length_ticks = length_ticks p\<rparr>) \<and>
    (snd (snd (snd (fst res))) = Ok () \<longrightarrow> last_reset_tick (snd res) a = Some now)"
proof -
  let ?s1 = "snd (reset_usage_of s a)"
  let ?s2 = "snd (start_next_period ?s1 a now len)"
  have s3: "snd res = snd (record_reset ?s2 a now)" and r: "snd (snd (snd (fst res))) = fst (record_reset ?s2 a now)"
    by (simp_all add: res_def reset_usage_and_period_def Let_def split_beta)
  have pd: "period_of (snd res) b = period_of ?s2 b" "period_of ?s1 b = period_of s b" for b
    unfolding s3 by (rule period_of_rows, simp add: frame_simps)+
  have us: "usage_of (snd res) b = (if b = a then reset_usage else usage_of s b)" for b
    unfolding res_def by (rule usage_of_reset_and_period)
  have other: "period_of (snd res) b = period_of s b" if "b \<noteq> a" for b
    using pd period_of_start_next_other [OF that] by simp
  have own: "period_of (snd res) a = Some \<lparr>start_tick = now, length_ticks = length_ticks p\<rparr>"
    if "period_of s a = Some p" "start_tick p \<le> now" for p
    using pd that period_of_start_next [of ?s1 a p now len] period_of_wf [OF assms(1) that(1)] by simp
  have "sessions (snd res) = sessions s" unfolding res_def by (rule frame_simps)
  moreover have "snd (snd (snd (fst res))) = Ok () \<Longrightarrow> last_reset_tick (snd res) a = Some now"
    unfolding r s3 by (simp add: last_reset_record)
  ultimately show ?thesis using us other own by simp
qed

theorem reset_effect_witness:
  "let s = fold data_call [CallSetPeriod 0 10 500, CallFeed 0 700] data_new;
       res = reset_usage_and_period s 0 600 None
   in usage_of (snd res) 0 = reset_usage \<and> period_of (snd res) 0 = Some \<lparr>start_tick = 600, length_ticks = 500\<rparr>"
proof -
  let ?s = "fold data_call [CallSetPeriod 0 10 500, CallFeed 0 700] data_new"
  have wf: "data_wf ?s" by (rule data_machine.run_inv)
  have p: "period_of ?s 0 = Some \<lparr>start_tick = 10, length_ticks = 500\<rparr>"
    by (simp add: period_new_def period_of_rows [OF feed_usage_frame(2)])
      (simp add: period_of_def set_period_def data_new_def MAX_DATA_ACCOUNTS_def)
  show ?thesis using reset_effect [OF wf, of 0 600 None] p unfolding Let_def by simp
qed

text \<open>
  Polling cannot make an old reset request look young: once the tick of the first request is
  recorded for an account, no sequence of later period queries, for any accounts and at any ticks,
  moves or clears it.
\<close>

theorem first_request_tick_kept:
  assumes "data_wf s" and "request_marker s a = Some t"
  shows "request_marker (fold poll polls s) a = Some t"
  using assms by (rule marker.fold_fact)

theorem first_request_tick_kept_witness:
  "let s = poll (0, 600) (data_call (CallSetPeriod 0 0 500) data_new)
   in request_marker (fold poll [(0, 900), (1, 3), (0, 10)] s) 0 = Some 600"
proof -
  let ?s = "poll (0, 600) (data_call (CallSetPeriod 0 0 500) data_new)"
  have "data_wf (data_call (CallSetPeriod 0 0 500) data_new)" by (rule data_call_wf [OF data_new_wf])
  then have "data_wf ?s" by (simp only: poll_def advise_period_wf)
  moreover have "request_marker ?s 0 = Some 600" by code_simp
  ultimately show ?thesis
    using first_request_tick_kept [of ?s 0 600 "[(0, 900), (1, 3), (0, 10)]"] by (simp only: Let_def)
qed

end
