(* ===== verification/Reconcile.thy ===== *)
theory Reconcile
  imports Prelude "HOL-Library.Product_Lexorder" "HOL-Library.List_Lexorder"
begin

text \<open>
  The read-only reconciler of \<open>mobile/src/reconcile.rs\<close>: an observed snapshot goes in, a
  sorted list of incidents comes out.  Grouping by key, the binary search in the groups, the scan
  of the slots and the per-profile, per-account and per-session checks follow the source loops;
  the derived orders of the incident types are instances of \<open>linorder\<close>.  The lemmas show
  that the report is exact, that is sound and complete for the thirteen kinds of drift, and that
  it does not depend on the order of the snapshot's collections.
\<close>

definition RECONCILE_MAX_ACCOUNTS :: nat where
  "RECONCILE_MAX_ACCOUNTS = 64"

definition RECONCILE_MAX_PROFILES :: nat where
  "RECONCILE_MAX_PROFILES = 256"

definition RECONCILE_MAX_SESSIONS :: nat where
  "RECONCILE_MAX_SESSIONS = 256"

datatype Standing = Active | Suspended | Closed

text \<open>\<open>reconcile::ProfileState\<close>, under the name its importers give it.\<close>

datatype ReconcileProfile = Created | Disabled | Enabled | Deleted

record ObservedAccount =
  oa_id :: u64
  oa_standing :: Standing
  oa_data_cap_bytes :: "u64 option"
  oa_escalate_at_percent :: "u16 option"
  oa_used_bytes :: u64
  oa_last_used_bytes :: "u64 option"

record ObservedProfile =
  opr_slot :: usize
  opr_profile :: u8
  opr_lifecycle :: ReconcileProfile
  opr_owner :: "u64 option"

record ObservedSession =
  os_account :: u64
  os_slot :: usize
  os_profile :: u8
  os_roaming :: bool
  os_roaming_allowed :: bool

record Observed =
  ob_accounts :: "ObservedAccount list"
  ob_profiles :: "ObservedProfile list"
  ob_sessions :: "ObservedSession list"

datatype IncidentKind =
    SnapshotTooLarge
  | DuplicateAccount
  | DuplicateProfile
  | EnabledProfileUnderInactiveAccount
  | EnabledProfileUnbound
  | ProfileOwnerUnknown
  | MultipleEnabledInSlot
  | UsageRegression
  | UsageOverCapNotRestricted
  | AnomalousUsageNoEscalation
  | SessionWithoutEnabledProfile
  | SessionAccountMismatch
  | RoamingSessionNotPermitted

datatype Subject =
    Snapshot
  | SubjectAccount u64
  | SubjectSlot usize
  | SubjectProfile usize u8
  | SubjectSession u64 usize u8

datatype Fact =
    Absent
  | Number u64
  | FactBool bool
  | FactStanding Standing
  | Lifecycle ReconcileProfile
  | Owner "u64 option"
  | AnyOwner
  | Percent u16
  | UsageOfCap u64 u64

record Incident =
  in_kind :: IncidentKind
  in_subject :: Subject
  in_expected :: Fact
  in_observed :: Fact

subsection \<open>The derived orders\<close>

text \<open>
  A derived order compares the position of the variant, then the fields.  The keys below list
  both as natural numbers, compared lexicographically.
\<close>

fun standing_rank :: "Standing \<Rightarrow> nat" where
  "standing_rank Standing.Active = 0"
| "standing_rank Standing.Suspended = 1"
| "standing_rank Standing.Closed = 2"

fun profile_rank :: "ReconcileProfile \<Rightarrow> nat" where
  "profile_rank ReconcileProfile.Created = 0"
| "profile_rank ReconcileProfile.Disabled = 1"
| "profile_rank ReconcileProfile.Enabled = 2"
| "profile_rank ReconcileProfile.Deleted = 3"

fun kind_rank :: "IncidentKind \<Rightarrow> nat" where
  "kind_rank SnapshotTooLarge = 0"
| "kind_rank DuplicateAccount = 1"
| "kind_rank DuplicateProfile = 2"
| "kind_rank EnabledProfileUnderInactiveAccount = 3"
| "kind_rank EnabledProfileUnbound = 4"
| "kind_rank ProfileOwnerUnknown = 5"
| "kind_rank MultipleEnabledInSlot = 6"
| "kind_rank UsageRegression = 7"
| "kind_rank UsageOverCapNotRestricted = 8"
| "kind_rank AnomalousUsageNoEscalation = 9"
| "kind_rank SessionWithoutEnabledProfile = 10"
| "kind_rank SessionAccountMismatch = 11"
| "kind_rank RoamingSessionNotPermitted = 12"

fun subject_key :: "Subject \<Rightarrow> nat list" where
  "subject_key Snapshot = [0]"
| "subject_key (SubjectAccount i) = [1, unat i]"
| "subject_key (SubjectSlot s) = [2, unat s]"
| "subject_key (SubjectProfile s p) = [3, unat s, unat p]"
| "subject_key (SubjectSession a s p) = [4, unat a, unat s, unat p]"

fun fact_key :: "Fact \<Rightarrow> nat list" where
  "fact_key Absent = [0]"
| "fact_key (Number n) = [1, unat n]"
| "fact_key (FactBool b) = [2, if b then 1 else 0]"
| "fact_key (FactStanding s) = [3, standing_rank s]"
| "fact_key (Lifecycle l) = [4, profile_rank l]"
| "fact_key (Owner None) = [5, 0]"
| "fact_key (Owner (Some i)) = [5, 1, unat i]"
| "fact_key AnyOwner = [6]"
| "fact_key (Percent p) = [7, unat p]"
| "fact_key (UsageOfCap u c) = [8, unat u, unat c]"

lemma standing_rank_inj: "standing_rank a = standing_rank b \<longleftrightarrow> a = b"
  by (cases a; cases b) auto

lemma profile_rank_inj: "profile_rank a = profile_rank b \<longleftrightarrow> a = b"
  by (cases a; cases b) auto

lemma kind_rank_inj: "kind_rank a = kind_rank b \<longleftrightarrow> a = b"
  by (cases a; cases b) auto

lemma subject_key_inj: "subject_key a = subject_key b \<longleftrightarrow> a = b"
  by (cases a; cases b) (auto simp: word_unat_eq_iff)

lemma fact_key_inj: "fact_key a = fact_key b \<longleftrightarrow> a = b"
  by (cases a rule: fact_key.cases; cases b rule: fact_key.cases) (auto simp: standing_rank_inj profile_rank_inj word_unat_eq_iff)

instantiation IncidentKind :: linorder
begin

definition less_eq_IncidentKind :: "IncidentKind \<Rightarrow> IncidentKind \<Rightarrow> bool" where
  "less_eq_IncidentKind a b \<longleftrightarrow> kind_rank a \<le> kind_rank b"

definition less_IncidentKind :: "IncidentKind \<Rightarrow> IncidentKind \<Rightarrow> bool" where
  "less_IncidentKind a b \<longleftrightarrow> kind_rank a < kind_rank b"

instance
  by standard (auto simp: less_eq_IncidentKind_def less_IncidentKind_def kind_rank_inj [symmetric])

end

instantiation Subject :: linorder
begin

definition less_eq_Subject :: "Subject \<Rightarrow> Subject \<Rightarrow> bool" where
  "less_eq_Subject a b \<longleftrightarrow> subject_key a \<le> subject_key b"

definition less_Subject :: "Subject \<Rightarrow> Subject \<Rightarrow> bool" where
  "less_Subject a b \<longleftrightarrow> subject_key a < subject_key b"

instance
  by standard (auto simp: less_eq_Subject_def less_Subject_def subject_key_inj [symmetric])

end

instantiation Fact :: linorder
begin

definition less_eq_Fact :: "Fact \<Rightarrow> Fact \<Rightarrow> bool" where
  "less_eq_Fact a b \<longleftrightarrow> fact_key a \<le> fact_key b"

definition less_Fact :: "Fact \<Rightarrow> Fact \<Rightarrow> bool" where
  "less_Fact a b \<longleftrightarrow> fact_key a < fact_key b"

instance
  by standard (auto simp: less_eq_Fact_def less_Fact_def fact_key_inj [symmetric])

end

definition drift_order :: "Incident \<Rightarrow> IncidentKind \<times> Subject \<times> Fact \<times> Fact" where
  "drift_order i = (in_kind i, in_subject i, in_expected i, in_observed i)"

subsection \<open>Text forms\<close>

fun display_IncidentKind :: "IncidentKind \<Rightarrow> string" where
  "display_IncidentKind SnapshotTooLarge = ''snapshot-too-large''"
| "display_IncidentKind DuplicateAccount = ''duplicate-account''"
| "display_IncidentKind DuplicateProfile = ''duplicate-profile''"
| "display_IncidentKind EnabledProfileUnderInactiveAccount = ''enabled-profile-under-inactive-account''"
| "display_IncidentKind EnabledProfileUnbound = ''enabled-profile-unbound''"
| "display_IncidentKind ProfileOwnerUnknown = ''profile-owner-unknown''"
| "display_IncidentKind MultipleEnabledInSlot = ''multiple-enabled-in-slot''"
| "display_IncidentKind UsageRegression = ''usage-regression''"
| "display_IncidentKind UsageOverCapNotRestricted = ''usage-over-cap-not-restricted''"
| "display_IncidentKind AnomalousUsageNoEscalation = ''anomalous-usage-no-escalation''"
| "display_IncidentKind SessionWithoutEnabledProfile = ''session-without-enabled-profile''"
| "display_IncidentKind SessionAccountMismatch = ''session-account-mismatch''"
| "display_IncidentKind RoamingSessionNotPermitted = ''roaming-session-not-permitted''"

fun display_Subject :: "Subject \<Rightarrow> string" where
  "display_Subject Snapshot = ''snapshot''"
| "display_Subject (SubjectAccount i) = ''account:'' @ show_word i"
| "display_Subject (SubjectSlot s) = ''slot:'' @ show_word s"
| "display_Subject (SubjectProfile s p) = ''profile:'' @ show_word s @ ''/'' @ show_word p"
| "display_Subject (SubjectSession a s p) =
     ''session:'' @ show_word a @ ''@'' @ show_word s @ ''/'' @ show_word p"

fun show_Standing :: "Standing \<Rightarrow> string" where
  "show_Standing Standing.Active = ''Active''"
| "show_Standing Standing.Suspended = ''Suspended''"
| "show_Standing Standing.Closed = ''Closed''"

fun show_ReconcileProfile :: "ReconcileProfile \<Rightarrow> string" where
  "show_ReconcileProfile ReconcileProfile.Created = ''Created''"
| "show_ReconcileProfile ReconcileProfile.Disabled = ''Disabled''"
| "show_ReconcileProfile ReconcileProfile.Enabled = ''Enabled''"
| "show_ReconcileProfile ReconcileProfile.Deleted = ''Deleted''"

fun display_Fact :: "Fact \<Rightarrow> string" where
  "display_Fact Absent = ''absent''"
| "display_Fact (Number n) = show_word n"
| "display_Fact (FactBool b) = show_bool b"
| "display_Fact (FactStanding s) = show_Standing s"
| "display_Fact (Lifecycle l) = show_ReconcileProfile l"
| "display_Fact (Owner (Some i)) = ''owner:'' @ show_word i"
| "display_Fact (Owner None) = ''owner:none''"
| "display_Fact AnyOwner = ''owner:any''"
| "display_Fact (Percent p) = show_word p @ ''%''"
| "display_Fact (UsageOfCap used cap) = show_word used @ ''/'' @ show_word cap"

definition display_Incident :: "Incident \<Rightarrow> string" where
  "display_Incident i =
     display_IncidentKind (in_kind i) @ '' '' @ display_Subject (in_subject i) @
     '': expected '' @ display_Fact (in_expected i) @ '', observed '' @ display_Fact (in_observed i)"

subsection \<open>Grouping\<close>

datatype 't Entry = Unique 't | Ambiguous

record ('k, 't) Group =
  gr_key :: 'k
  gr_entry :: "'t Entry"
  gr_count :: nat

text \<open>The run-collapsing loop over the sorted pairs.\<close>

function group_runs :: "('k \<times> 't) list \<Rightarrow> ('k, 't) Group list" where
  "group_runs [] = []"
| "group_runs ((k, t) # rest) =
     (let n = 1 + length (takeWhile (\<lambda>e. fst e = k) rest)
      in \<lparr>gr_key = k, gr_entry = (if n = 1 then Unique t else Ambiguous), gr_count = n\<rparr>
         # group_runs (dropWhile (\<lambda>e. fst e = k) rest))"
  by pat_completeness auto
termination
  by (relation "measure length") (auto simp: le_imp_less_Suc length_dropWhile_le)

definition group_by_key :: "('t \<Rightarrow> 'k::linorder) \<Rightarrow> 't list \<Rightarrow> ('k, 't) Group list" where
  "group_by_key key items = group_runs (sort_key fst (map (\<lambda>t. (key t, t)) items))"

definition group_find :: "('k::linorder, 't) Group list \<Rightarrow> 'k \<Rightarrow> 't Entry option" where
  "group_find groups key =
     (case binary_search (map gr_key groups) key of
        None \<Rightarrow> None
      | Some i \<Rightarrow> if i < length groups then Some (gr_entry (groups ! i)) else None)"

definition to_u64 :: "nat \<Rightarrow> u64" where
  "to_u64 n = (if n < 2 ^ 64 then of_nat n else - 1)"

definition reached_percent :: "u64 \<Rightarrow> u64 \<Rightarrow> u16 \<Rightarrow> bool" where
  "reached_percent used cap percent \<longleftrightarrow>
     (ucast cap :: 128 word) * ucast percent \<le> (ucast used :: 128 word) * 100"

subsection \<open>The checks\<close>

definition bound_incidents :: "Observed \<Rightarrow> Incident list" where
  "bound_incidents ob =
     concat (map (\<lambda>(len, limit).
       if limit < len
       then [\<lparr>in_kind = SnapshotTooLarge, in_subject = Snapshot,
              in_expected = Number (to_u64 limit), in_observed = Number (to_u64 len)\<rparr>]
       else [])
       [(length (ob_accounts ob), RECONCILE_MAX_ACCOUNTS),
        (length (ob_profiles ob), RECONCILE_MAX_PROFILES),
        (length (ob_sessions ob), RECONCILE_MAX_SESSIONS)])"

definition duplicate_incident :: "IncidentKind \<Rightarrow> Subject \<Rightarrow> nat \<Rightarrow> Incident list" where
  "duplicate_incident kind subject n =
     (if 1 < n
      then [\<lparr>in_kind = kind, in_subject = subject, in_expected = Number 1, in_observed = Number (to_u64 n)\<rparr>]
      else [])"

definition profile_incidents ::
    "(u64, ObservedAccount) Group list \<Rightarrow> ((usize \<times> u8), ObservedProfile) Group \<Rightarrow> Incident list" where
  "profile_incidents accts g =
     (case gr_entry g of
        Ambiguous \<Rightarrow> []
      | Unique p \<Rightarrow>
          let subject = SubjectProfile (opr_slot p) (opr_profile p);
              enabled = (opr_lifecycle p = ReconcileProfile.Enabled)
          in (case opr_owner p of
                None \<Rightarrow>
                  if enabled
                  then [\<lparr>in_kind = EnabledProfileUnbound, in_subject = subject,
                         in_expected = AnyOwner, in_observed = Owner None\<rparr>]
                  else []
              | Some owner \<Rightarrow>
                  (case group_find accts owner of
                     None \<Rightarrow>
                       [\<lparr>in_kind = ProfileOwnerUnknown, in_subject = subject,
                         in_expected = Owner (Some owner), in_observed = Absent\<rparr>]
                   | Some (Unique a) \<Rightarrow>
                       if enabled \<and> oa_standing a \<noteq> Standing.Active
                       then [\<lparr>in_kind = EnabledProfileUnderInactiveAccount, in_subject = subject,
                              in_expected = FactStanding Standing.Active,
                              in_observed = FactStanding (oa_standing a)\<rparr>]
                       else []
                   | Some Ambiguous \<Rightarrow> [])))"

fun enabled_in :: "((usize \<times> u8), ObservedProfile) Group \<Rightarrow> bool" where
  "enabled_in g =
     (case gr_entry g of Unique p \<Rightarrow> opr_lifecycle p = ReconcileProfile.Enabled | Ambiguous \<Rightarrow> False)"

text \<open>The inner loop over the groups of one slot; the counter saturates.\<close>

definition count_enabled :: "((usize \<times> u8), ObservedProfile) Group list \<Rightarrow> u64" where
  "count_enabled gs = fold (\<lambda>g n. if enabled_in g then saturating_add n 1 else n) gs 0"

function slot_scan :: "((usize \<times> u8), ObservedProfile) Group list \<Rightarrow> Incident list" where
  "slot_scan [] = []"
| "slot_scan (g # gs) =
     (let slot = fst (gr_key g);
          enabled = count_enabled (takeWhile (\<lambda>h. fst (gr_key h) = slot) (g # gs));
          rest = slot_scan (dropWhile (\<lambda>h. fst (gr_key h) = slot) gs)
      in if 1 < enabled
         then \<lparr>in_kind = MultipleEnabledInSlot, in_subject = SubjectSlot slot,
               in_expected = Number 1, in_observed = Number enabled\<rparr> # rest
         else rest)"
  by pat_completeness auto
termination
  by (relation "measure length") (auto simp: le_imp_less_Suc length_dropWhile_le)

definition account_incidents :: "Observed \<Rightarrow> (u64, ObservedAccount) Group \<Rightarrow> Incident list" where
  "account_incidents ob g =
     (case gr_entry g of
        Ambiguous \<Rightarrow> []
      | Unique a \<Rightarrow>
          let subject = SubjectAccount (oa_id a);
              regression =
                (case oa_last_used_bytes a of
                   None \<Rightarrow> []
                 | Some prev \<Rightarrow>
                     if oa_used_bytes a < prev
                     then [\<lparr>in_kind = UsageRegression, in_subject = subject,
                            in_expected = Number prev, in_observed = Number (oa_used_bytes a)\<rparr>]
                     else [])
          in regression @
             (case oa_data_cap_bytes a of
                None \<Rightarrow> []
              | Some cap \<Rightarrow>
                  let active = (oa_standing a = Standing.Active);
                      usage = UsageOfCap (oa_used_bytes a) cap
                  in (if active \<and> cap \<le> oa_used_bytes a \<and> (\<exists>s\<in>set (ob_sessions ob). os_account s = oa_id a)
                      then [\<lparr>in_kind = UsageOverCapNotRestricted, in_subject = subject,
                             in_expected = FactStanding Standing.Suspended, in_observed = usage\<rparr>]
                      else []) @
                     (case oa_escalate_at_percent a of
                        None \<Rightarrow> []
                      | Some percent \<Rightarrow>
                          if active \<and> reached_percent (oa_used_bytes a) cap percent
                          then [\<lparr>in_kind = AnomalousUsageNoEscalation, in_subject = subject,
                                 in_expected = Percent percent, in_observed = usage\<rparr>]
                          else [])))"

definition session_incidents ::
    "((usize \<times> u8), ObservedProfile) Group list \<Rightarrow> ObservedSession \<Rightarrow> Incident list" where
  "session_incidents profs s =
     (let subject = SubjectSession (os_account s) (os_slot s) (os_profile s) in
      (case group_find profs (os_slot s, os_profile s) of
         None \<Rightarrow>
           [\<lparr>in_kind = SessionWithoutEnabledProfile, in_subject = subject,
             in_expected = Lifecycle ReconcileProfile.Enabled, in_observed = Absent\<rparr>]
       | Some (Unique p) \<Rightarrow>
           (if opr_lifecycle p \<noteq> ReconcileProfile.Enabled
            then [\<lparr>in_kind = SessionWithoutEnabledProfile, in_subject = subject,
                   in_expected = Lifecycle ReconcileProfile.Enabled,
                   in_observed = Lifecycle (opr_lifecycle p)\<rparr>]
            else []) @
           (if opr_owner p \<noteq> Some (os_account s)
            then [\<lparr>in_kind = SessionAccountMismatch, in_subject = subject,
                   in_expected = Owner (Some (os_account s)), in_observed = Owner (opr_owner p)\<rparr>]
            else [])
       | Some Ambiguous \<Rightarrow> []) @
      (if os_roaming s \<and> \<not> os_roaming_allowed s
       then [\<lparr>in_kind = RoamingSessionNotPermitted, in_subject = subject,
              in_expected = FactBool False, in_observed = FactBool True\<rparr>]
       else []))"

definition reconcile :: "Observed \<Rightarrow> Incident list" where
  "reconcile ob =
     (let bounds = bound_incidents ob in
      if bounds \<noteq> [] then sort_key drift_order bounds
      else
        let accts = group_by_key oa_id (ob_accounts ob);
            profs = group_by_key (\<lambda>p. (opr_slot p, opr_profile p)) (ob_profiles ob)
        in sort_key drift_order
             (concat (map (\<lambda>g. duplicate_incident DuplicateAccount (SubjectAccount (gr_key g)) (gr_count g)) accts) @
              concat (map (\<lambda>g. duplicate_incident DuplicateProfile
                  (SubjectProfile (fst (gr_key g)) (snd (gr_key g))) (gr_count g)) profs) @
              concat (map (profile_incidents accts) profs) @
              slot_scan profs @
              concat (map (account_incidents ob) accts) @
              concat (map (session_incidents profs) (ob_sessions ob))))"

subsection \<open>Grouping is exact\<close>

definition the_group :: "'k list \<Rightarrow> 'k \<Rightarrow> 't \<Rightarrow> ('k, 't) Group" where
  "the_group keys k t =
     \<lparr>gr_key = k, gr_entry = (if count_list keys k = 1 then Unique t else Ambiguous), gr_count = count_list keys k\<rparr>"

lemma the_group_key [simp]: "gr_key (the_group keys k t) = k"
  by (simp add: the_group_def)

lemma sorted_run_split:
  fixes rest :: "('k::linorder \<times> 't) list"
  assumes "sorted (k # map fst rest)"
  defines "D \<equiv> dropWhile (\<lambda>e. fst e = k) rest"
  shows "k \<notin> fst ` set D" and "count_list (map fst rest) k = length (takeWhile (\<lambda>e. fst e = k) rest)"
    and "k' \<noteq> k \<Longrightarrow> count_list (map fst rest) k' = count_list (map fst D) k'"
    and "k' \<noteq> k \<Longrightarrow> (k', t) \<in> set rest \<longleftrightarrow> (k', t) \<in> set D"
    and "sorted (map fst D)"
proof -
  have *: "k \<notin> fst ` set (dropWhile (\<lambda>e. fst e = k) xs) \<and>
      count_list (map fst xs) k = length (takeWhile (\<lambda>e. fst e = k) xs) \<and>
      (\<forall>k'. k' \<noteq> k \<longrightarrow> count_list (map fst xs) k' = count_list (map fst (dropWhile (\<lambda>e. fst e = k) xs)) k') \<and>
      (\<forall>k' t. k' \<noteq> k \<longrightarrow> ((k', t) \<in> set xs \<longleftrightarrow> (k', t) \<in> set (dropWhile (\<lambda>e. fst e = k) xs))) \<and>
      sorted (map fst (dropWhile (\<lambda>e. fst e = k) xs))"
    if "sorted (k # map fst xs)" for xs :: "('k \<times> 't) list"
    using that
  proof (induction xs)
    case (Cons x xs)
    show ?case
    proof (cases "fst x = k")
      case True
      then have "sorted (k # map fst xs)" using Cons.prems by auto
      from Cons.IH [OF this] True show ?thesis by (cases x) auto
    next
      case False
      then have "k \<notin> fst ` set (x # xs)" using Cons.prems by auto
      then show ?thesis using False Cons.prems by (auto simp: count_list_0_iff)
    qed
  qed simp
  note facts = * [OF assms(1), folded D_def]
  show "k \<notin> fst ` set D" "count_list (map fst rest) k = length (takeWhile (\<lambda>e. fst e = k) rest)"
    "k' \<noteq> k \<Longrightarrow> count_list (map fst rest) k' = count_list (map fst D) k'"
    "k' \<noteq> k \<Longrightarrow> (k', t) \<in> set rest \<longleftrightarrow> (k', t) \<in> set D"
    "sorted (map fst D)"
    using facts by blast+
qed

lemma group_runs_mem:
  fixes xs :: "('k::linorder \<times> 't) list"
  shows "sorted (map fst xs) \<Longrightarrow>
    set (group_runs xs) = {the_group (map fst xs) k t | k t. (k, t) \<in> set xs}"
proof (induction xs rule: group_runs.induct)
  case (2 k t rest)
  let ?D = "dropWhile (\<lambda>e. fst e = k) rest"
  let ?all = "map fst ((k, t) # rest)"
  have so: "sorted (k # map fst rest)" using 2 by simp
  note D = sorted_run_split [OF so]
  have cnt: "count_list ?all k = 1 + length (takeWhile (\<lambda>e. fst e = k) rest)" using D(2) by simp
  have oth: "the_group ?all k' t' = the_group (map fst ?D) k' t'" if "k' \<noteq> k" for k' t'
    using D(3) [OF that] that by (simp add: the_group_def)
  have "set (group_runs ?D) = {the_group (map fst ?D) k t | k t. (k, t) \<in> set ?D}"
    using 2(1) D(5) by simp
  also have "\<dots> = {the_group ?all k' t' | k' t'. (k', t') \<in> set rest \<and> k' \<noteq> k}"
  proof -
    have mem: "(k', t') \<in> set ?D \<longleftrightarrow> (k', t') \<in> set rest \<and> k' \<noteq> k" for k' t'
      using D(1) D(4) [of k' t'] by (cases "k' = k") (auto simp: image_iff)
    have "(g = the_group (map fst ?D) k' t' \<and> (k', t') \<in> set ?D) \<longleftrightarrow>
        (g = the_group ?all k' t' \<and> (k', t') \<in> set rest \<and> k' \<noteq> k)" for g k' t'
      unfolding mem using oth [of k' t'] by auto
    then show ?thesis by (simp only:)
  qed
  finally have tail: "set (group_runs ?D) = {the_group ?all k' t' | k' t'. (k', t') \<in> set rest \<and> k' \<noteq> k}" .
  have same: "the_group ?all k t' = the_group ?all k t" if "(k, t') \<in> set ((k, t) # rest)" for t'
  proof (cases "count_list ?all k = 1")
    case True
    then have "k \<notin> fst ` set rest" using D(2) by (simp add: count_list_0_iff)
    then have "t' = t" using that by force
    then show ?thesis by simp
  qed (simp add: the_group_def)
  have step: "group_runs ((k, t) # rest) = the_group ?all k t # group_runs ?D"
    using cnt by (simp add: the_group_def Let_def)
  have "set (group_runs ((k, t) # rest)) =
      insert (the_group ?all k t) {the_group ?all k' t' | k' t'. (k', t') \<in> set rest \<and> k' \<noteq> k}"
    by (simp only: step list.set(2) tail)
  also have "\<dots> = {the_group ?all k' t' | k' t'. (k', t') \<in> set ((k, t) # rest)}"
  proof -
    let ?R = "{the_group ?all k' t' | k' t'. (k', t') \<in> set ((k, t) # rest)}"
    have "the_group ?all k' t' = the_group ?all k t \<or> k' \<noteq> k \<and> (k', t') \<in> set rest"
      if "(k', t') \<in> set ((k, t) # rest)" for k' t'
      using same [of t'] that by (cases "k' = k") simp_all
    then have "?R \<subseteq> insert (the_group ?all k t) {the_group ?all k' t' | k' t'. (k', t') \<in> set rest \<and> k' \<noteq> k}"
      by blast
    moreover have "the_group ?all k t \<in> ?R" by (intro CollectI exI conjI) (rule refl, simp)
    moreover have "{the_group ?all k' t' | k' t'. (k', t') \<in> set rest \<and> k' \<noteq> k} \<subseteq> ?R" by auto
    ultimately show ?thesis by blast
  qed
  finally show ?case .
qed simp

lemma group_runs_sorted:
  fixes xs :: "('k::linorder \<times> 't) list"
  shows "sorted (map fst xs) \<Longrightarrow> sorted_wrt (<) (map gr_key (group_runs xs))"
proof (induction xs rule: group_runs.induct)
  case (2 k t rest)
  let ?D = "dropWhile (\<lambda>e. fst e = k) rest"
  have so: "sorted (k # map fst rest)" using 2 by simp
  note D = sorted_run_split [OF so]
  have "k < gr_key g" if "g \<in> set (group_runs ?D)" for g
  proof -
    from that obtain k' t' where "(k', t') \<in> set ?D" "gr_key g = k'"
      unfolding group_runs_mem [OF D(5)] by (auto simp: the_group_def)
    moreover from this have "k' \<noteq> k" using D(1) by force
    moreover have "k \<le> k'" using so \<open>(k', t') \<in> set ?D\<close> by (force dest: set_dropWhileD)
    ultimately show ?thesis by simp
  qed
  with 2(1) D(5) show ?case by (simp add: Let_def)
qed simp

lemma count_keys: "count_list (map fst (sort_key fst (map (\<lambda>t. (key t, t)) items))) k = count_list (map key items) k"
proof -
  have "mset (map fst (sort_key fst (map (\<lambda>t. (key t, t)) items))) = mset (map key items)"
    by (simp add: multiset.map_comp comp_def)
  then show ?thesis by (metis count_mset)
qed

lemma set_group_by_key:
  "set (group_by_key key items) = {the_group (map key items) (key t) t | t. t \<in> set items}"
  unfolding group_by_key_def group_runs_mem [OF sorted_sort_key]
  by (auto simp: the_group_def count_keys)

lemma group_by_key_sorted: "sorted_wrt (<) (map gr_key (group_by_key key items))"
  unfolding group_by_key_def by (rule group_runs_sorted) simp

lemma distinct_group_by_key: "distinct (group_by_key key items)"
  using group_by_key_sorted [of key items] strict_sorted_iff distinct_map by blast

lemma group_by_key_canonical:
  assumes "mset xs = mset ys"
  shows "group_by_key key xs = group_by_key key ys"
proof -
  have st: "set xs = set ys" using assms by (metis set_mset_mset)
  have "mset (map key xs) = mset (map key ys)" using assms by simp
  then have "count_list (map key xs) = count_list (map key ys)" by (simp add: fun_eq_iff count_mset [symmetric])
  then have "set (group_by_key key xs) = set (group_by_key key ys)"
    unfolding set_group_by_key st the_group_def by simp
  moreover have "inj_on gr_key (set (group_by_key key xs))"
    using group_by_key_sorted [of key xs] by (simp add: strict_sorted_iff distinct_map)
  ultimately show ?thesis
    using group_by_key_sorted [of key xs] group_by_key_sorted [of key ys]
    by (intro map_sorted_distinct_set_unique [of gr_key]) (auto simp: strict_sorted_iff)
qed

lemma group_find_iff:
  assumes "sorted_wrt (<) (map gr_key gs)"
  shows "group_find gs k = Some e \<longleftrightarrow> (\<exists>g\<in>set gs. gr_key g = k \<and> gr_entry g = e)"
proof -
  have so: "sorted (map gr_key gs)" and di: "distinct (map gr_key gs)"
    using assms by (simp_all add: strict_sorted_iff)
  have uniq: "g = h" if "g \<in> set gs" "h \<in> set gs" "gr_key g = gr_key h" for g h
    using di that by (auto simp: distinct_map inj_on_def)
  show ?thesis
  proof (cases "binary_search (map gr_key gs) k")
    case None
    then have "k \<notin> gr_key ` set gs" using binary_search_found [OF so, of k] by simp
    with None show ?thesis by (auto simp: group_find_def)
  next
    case (Some i)
    then have "i < length gs" "gr_key (gs ! i) = k"
      using bsearch_Some [of "map gr_key gs" k 0 "length gs" i] by (auto simp: binary_search_def)
    moreover from this have "(\<exists>g\<in>set gs. gr_key g = k \<and> gr_entry g = e) \<longleftrightarrow> gr_entry (gs ! i) = e"
      by (metis nth_mem uniq)
    ultimately show ?thesis using Some by (simp add: group_find_def)
  qed
qed

lemma group_find_Unique:
  "group_find (group_by_key key items) k = Some (Unique t) \<longleftrightarrow>
     t \<in> set items \<and> key t = k \<and> count_list (map key items) k = 1"
  unfolding group_find_iff [OF group_by_key_sorted] set_group_by_key
  by (auto simp: the_group_def split: if_splits)

lemma group_find_None:
  "group_find (group_by_key key items) k = None \<longleftrightarrow> k \<notin> key ` set items"
proof -
  have "gr_key ` set (group_by_key key items) = key ` set items"
    unfolding set_group_by_key by (auto simp: image_iff) (metis the_group_key)
  then have "(\<exists>g\<in>set (group_by_key key items). gr_key g = k) \<longleftrightarrow> k \<in> key ` set items"
    by (metis (no_types, lifting) imageE imageI)
  moreover have "group_find (group_by_key key items) k \<noteq> None \<longleftrightarrow>
      (\<exists>g\<in>set (group_by_key key items). gr_key g = k)"
    unfolding not_None_eq group_find_iff [OF group_by_key_sorted] by blast
  ultimately show ?thesis by blast
qed

subsection \<open>The scan of the slots\<close>

lemma count_enabled_eq:
  assumes "length gs < 2 ^ 64"
  shows "unat (count_enabled gs) = length (filter enabled_in gs)"
proof -
  have "unat (fold (\<lambda>g n. if enabled_in g then saturating_add n 1 else n) gs m) =
      unat m + length (filter enabled_in gs)" if "unat m + length gs < 2 ^ 64" for m :: u64
    using that
  proof (induction gs arbitrary: m)
    case (Cons g gs)
    have "unat (saturating_add m 1) = unat m + 1"
      using Cons.prems by (simp add: unat_saturating_add)
    with Cons show ?case by simp
  qed simp
  from this [of 0] assms show ?thesis by (simp add: count_enabled_def)
qed

definition slot_incident :: "usize \<Rightarrow> nat \<Rightarrow> Incident" where
  "slot_incident slot n = \<lparr>in_kind = MultipleEnabledInSlot, in_subject = SubjectSlot slot,
     in_expected = Number 1, in_observed = Number (of_nat n)\<rparr>"

lemma slot_scan_mem:
  "sorted (map (\<lambda>g. fst (gr_key g)) gs) \<Longrightarrow> length gs < 2 ^ 64 \<Longrightarrow>
   set (slot_scan gs) = {slot_incident s n | s n.
     1 < n \<and> n = length (filter (\<lambda>g. fst (gr_key g) = s \<and> enabled_in g) gs)}"
proof (induction gs rule: slot_scan.induct)
  case (2 g gs)
  let ?s = "fst (gr_key g)"
  let ?T = "takeWhile (\<lambda>h. fst (gr_key h) = ?s) (g # gs)"
  let ?D = "dropWhile (\<lambda>h. fst (gr_key h) = ?s) gs"
  let ?cnt = "\<lambda>s xs. length (filter (\<lambda>g. fst (gr_key g) = s \<and> enabled_in g) xs)"
  have lT: "length ?T < 2 ^ 64"
    using 2(3) length_takeWhile_le [of "\<lambda>h. fst (gr_key h) = ?s" "g # gs"] by linarith
  have sD: "sorted (map (\<lambda>g. fst (gr_key g)) ?D)" "length ?D < 2 ^ 64"
    using 2(2,3) length_dropWhile_le [of "\<lambda>h. fst (gr_key h) = ?s" gs] by (auto intro: sorted_map_dropWhile)
  have cT: "length (filter enabled_in ?T) = ?cnt ?s (g # gs)"
    using sorted_filter_run [of "\<lambda>g. fst (gr_key g)" "g # gs" ?s enabled_in] 2(2) by (auto simp del: enabled_in.simps)
  have cD: "?cnt s ?D = ?cnt s (g # gs)" if "s \<noteq> ?s" for s
    using sorted_filter_rest [OF that, of "\<lambda>g. fst (gr_key g)" enabled_in gs] that by (simp del: enabled_in.simps)
  have "\<forall>h\<in>set ?D. fst (gr_key h) \<noteq> ?s"
    by (rule sorted_run_rest [of "\<lambda>g. fst (gr_key g)"]) (use 2(2) in auto)
  then have c0: "?cnt ?s ?D = 0" unfolding length_0_conv filter_empty_conv by blast
  have one: "(1 < count_enabled ?T) = (1 < ?cnt ?s (g # gs))"
    using count_enabled_eq [OF lT] cT by (simp add: word_less_nat_alt)
  have num: "count_enabled ?T = of_nat (?cnt ?s (g # gs))"
  proof -
    have "of_nat (unat (count_enabled ?T)) = (of_nat (?cnt ?s (g # gs)) :: u64)"
      using count_enabled_eq [OF lT] cT by simp
    then show ?thesis by simp
  qed
  have IH: "set (slot_scan ?D) = {slot_incident s n | s n. 1 < n \<and> n = ?cnt s ?D}"
    using 2(1) [OF refl refl] sD by simp
  have "set (slot_scan (g # gs)) =
      (if 1 < ?cnt ?s (g # gs) then {slot_incident ?s (?cnt ?s (g # gs))} else {}) \<union> set (slot_scan ?D)"
    using one num by (simp add: Let_def slot_incident_def del: takeWhile.simps)
  also have "\<dots> = {slot_incident s n | s n. 1 < n \<and> n = ?cnt s (g # gs)}"
  proof -
    define C where "C = (\<lambda>s. ?cnt s (g # gs))"
    define E where "E = (\<lambda>s. ?cnt s ?D)"
    have "E s = (if s = ?s then 0 else C s)" for s using cD [of s] c0 unfolding C_def E_def by (cases "s = ?s") simp_all
    then have "{slot_incident s n | s n. 1 < n \<and> n = C s} =
        (if 1 < C ?s then {slot_incident ?s (C ?s)} else {}) \<union> {slot_incident s n | s n. 1 < n \<and> n = E s}"
      by (auto; metis)
    then show ?thesis unfolding IH C_def E_def by (rule sym)
  qed
  finally show ?case .
qed simp

subsection \<open>The thirteen kinds of drift, stated without the algorithm\<close>

definition profile_key :: "ObservedProfile \<Rightarrow> usize \<times> u8" where
  "profile_key p = (opr_slot p, opr_profile p)"

text \<open>The records whose key nobody else carries; the others are only reported as duplicates.\<close>

definition one_account :: "Observed \<Rightarrow> ObservedAccount \<Rightarrow> bool" where
  "one_account ob a \<longleftrightarrow> a \<in> set (ob_accounts ob) \<and> count_list (map oa_id (ob_accounts ob)) (oa_id a) = 1"

definition one_profile :: "Observed \<Rightarrow> ObservedProfile \<Rightarrow> bool" where
  "one_profile ob p \<longleftrightarrow> p \<in> set (ob_profiles ob) \<and> count_list (map profile_key (ob_profiles ob)) (profile_key p) = 1"

definition within_bounds :: "Observed \<Rightarrow> bool" where
  "within_bounds ob \<longleftrightarrow> length (ob_accounts ob) \<le> RECONCILE_MAX_ACCOUNTS \<and>
     length (ob_profiles ob) \<le> RECONCILE_MAX_PROFILES \<and> length (ob_sessions ob) \<le> RECONCILE_MAX_SESSIONS"

definition session_subject :: "ObservedSession \<Rightarrow> Subject" where
  "session_subject s = SubjectSession (os_account s) (os_slot s) (os_profile s)"

definition profile_subject :: "ObservedProfile \<Rightarrow> Subject" where
  "profile_subject p = SubjectProfile (opr_slot p) (opr_profile p)"

inductive drift :: "Observed \<Rightarrow> Incident \<Rightarrow> bool" for ob where
  dup_account: "n = count_list (map oa_id (ob_accounts ob)) i \<Longrightarrow> 1 < n \<Longrightarrow>
    drift ob \<lparr>in_kind = DuplicateAccount, in_subject = SubjectAccount i,
              in_expected = Number 1, in_observed = Number (to_u64 n)\<rparr>"
| dup_profile: "n = count_list (map profile_key (ob_profiles ob)) (sl, p) \<Longrightarrow> 1 < n \<Longrightarrow>
    drift ob \<lparr>in_kind = DuplicateProfile, in_subject = SubjectProfile sl p,
              in_expected = Number 1, in_observed = Number (to_u64 n)\<rparr>"
| unbound: "one_profile ob p \<Longrightarrow> opr_lifecycle p = ReconcileProfile.Enabled \<Longrightarrow> opr_owner p = None \<Longrightarrow>
    drift ob \<lparr>in_kind = EnabledProfileUnbound, in_subject = profile_subject p,
              in_expected = AnyOwner, in_observed = Owner None\<rparr>"
| owner_unknown: "one_profile ob p \<Longrightarrow> opr_owner p = Some i \<Longrightarrow> i \<notin> oa_id ` set (ob_accounts ob) \<Longrightarrow>
    drift ob \<lparr>in_kind = ProfileOwnerUnknown, in_subject = profile_subject p,
              in_expected = Owner (Some i), in_observed = Absent\<rparr>"
| inactive: "one_profile ob p \<Longrightarrow> opr_lifecycle p = ReconcileProfile.Enabled \<Longrightarrow> one_account ob a \<Longrightarrow>
    opr_owner p = Some (oa_id a) \<Longrightarrow> oa_standing a \<noteq> Standing.Active \<Longrightarrow>
    drift ob \<lparr>in_kind = EnabledProfileUnderInactiveAccount, in_subject = profile_subject p,
              in_expected = FactStanding Standing.Active, in_observed = FactStanding (oa_standing a)\<rparr>"
| multiple: "n = card {p. one_profile ob p \<and> opr_slot p = sl \<and> opr_lifecycle p = ReconcileProfile.Enabled} \<Longrightarrow>
    1 < n \<Longrightarrow> drift ob (slot_incident sl n)"
| regression: "one_account ob a \<Longrightarrow> oa_last_used_bytes a = Some prev \<Longrightarrow> oa_used_bytes a < prev \<Longrightarrow>
    drift ob \<lparr>in_kind = UsageRegression, in_subject = SubjectAccount (oa_id a),
              in_expected = Number prev, in_observed = Number (oa_used_bytes a)\<rparr>"
| over_cap: "one_account ob a \<Longrightarrow> oa_standing a = Standing.Active \<Longrightarrow> oa_data_cap_bytes a = Some cap \<Longrightarrow>
    cap \<le> oa_used_bytes a \<Longrightarrow> s \<in> set (ob_sessions ob) \<Longrightarrow> os_account s = oa_id a \<Longrightarrow>
    drift ob \<lparr>in_kind = UsageOverCapNotRestricted, in_subject = SubjectAccount (oa_id a),
              in_expected = FactStanding Standing.Suspended, in_observed = UsageOfCap (oa_used_bytes a) cap\<rparr>"
| anomalous: "one_account ob a \<Longrightarrow> oa_standing a = Standing.Active \<Longrightarrow> oa_data_cap_bytes a = Some cap \<Longrightarrow>
    oa_escalate_at_percent a = Some pct \<Longrightarrow> unat cap * unat pct \<le> unat (oa_used_bytes a) * 100 \<Longrightarrow>
    drift ob \<lparr>in_kind = AnomalousUsageNoEscalation, in_subject = SubjectAccount (oa_id a),
              in_expected = Percent pct, in_observed = UsageOfCap (oa_used_bytes a) cap\<rparr>"
| no_profile: "s \<in> set (ob_sessions ob) \<Longrightarrow> (os_slot s, os_profile s) \<notin> profile_key ` set (ob_profiles ob) \<Longrightarrow>
    drift ob \<lparr>in_kind = SessionWithoutEnabledProfile, in_subject = session_subject s,
              in_expected = Lifecycle ReconcileProfile.Enabled, in_observed = Absent\<rparr>"
| not_enabled: "s \<in> set (ob_sessions ob) \<Longrightarrow> one_profile ob p \<Longrightarrow> profile_key p = (os_slot s, os_profile s) \<Longrightarrow>
    opr_lifecycle p \<noteq> ReconcileProfile.Enabled \<Longrightarrow>
    drift ob \<lparr>in_kind = SessionWithoutEnabledProfile, in_subject = session_subject s,
              in_expected = Lifecycle ReconcileProfile.Enabled, in_observed = Lifecycle (opr_lifecycle p)\<rparr>"
| mismatch: "s \<in> set (ob_sessions ob) \<Longrightarrow> one_profile ob p \<Longrightarrow> profile_key p = (os_slot s, os_profile s) \<Longrightarrow>
    opr_owner p \<noteq> Some (os_account s) \<Longrightarrow>
    drift ob \<lparr>in_kind = SessionAccountMismatch, in_subject = session_subject s,
              in_expected = Owner (Some (os_account s)), in_observed = Owner (opr_owner p)\<rparr>"
| roaming: "s \<in> set (ob_sessions ob) \<Longrightarrow> os_roaming s \<Longrightarrow> \<not> os_roaming_allowed s \<Longrightarrow>
    drift ob \<lparr>in_kind = RoamingSessionNotPermitted, in_subject = session_subject s,
              in_expected = FactBool False, in_observed = FactBool True\<rparr>"

lemma reached_percent_iff: "reached_percent used cap pct \<longleftrightarrow> unat cap * unat pct \<le> unat used * 100"
  using product_fits [of cap pct] product_fits [of used 100]
  by (simp add: reached_percent_def word_le_nat_alt unat_word_ariths unat_ucast_up)

abbreviation account_groups :: "Observed \<Rightarrow> (u64, ObservedAccount) Group list" where
  "account_groups ob \<equiv> group_by_key oa_id (ob_accounts ob)"

abbreviation profile_groups :: "Observed \<Rightarrow> ((usize \<times> u8), ObservedProfile) Group list" where
  "profile_groups ob \<equiv> group_by_key profile_key (ob_profiles ob)"

lemma reconcile_unfold:
  "bound_incidents ob = [] \<Longrightarrow> set (reconcile ob) =
     (\<Union>g\<in>set (account_groups ob). set (duplicate_incident DuplicateAccount (SubjectAccount (gr_key g)) (gr_count g))) \<union>
     (\<Union>g\<in>set (profile_groups ob). set (duplicate_incident DuplicateProfile
         (SubjectProfile (fst (gr_key g)) (snd (gr_key g))) (gr_count g))) \<union>
     (\<Union>g\<in>set (profile_groups ob). set (profile_incidents (account_groups ob) g)) \<union>
     set (slot_scan (profile_groups ob)) \<union>
     (\<Union>g\<in>set (account_groups ob). set (account_incidents ob g)) \<union>
     (\<Union>s\<in>set (ob_sessions ob). set (session_incidents (profile_groups ob) s))"
  by (simp add: reconcile_def Let_def profile_key_def [abs_def] Un_assoc)

lemma bound_incidents_empty: "bound_incidents ob = [] \<longleftrightarrow> within_bounds ob"
  by (auto simp: bound_incidents_def within_bounds_def)

lemma account_group_iff:
  "g \<in> set (account_groups ob) \<longleftrightarrow>
     (\<exists>a\<in>set (ob_accounts ob). g = the_group (map oa_id (ob_accounts ob)) (oa_id a) a)"
  by (auto simp: set_group_by_key)

lemma profile_group_iff:
  "g \<in> set (profile_groups ob) \<longleftrightarrow>
     (\<exists>p\<in>set (ob_profiles ob). g = the_group (map profile_key (ob_profiles ob)) (profile_key p) p)"
  by (auto simp: set_group_by_key)

lemma the_group_count [simp]: "gr_count (the_group keys k t) = count_list keys k"
  by (simp add: the_group_def)

lemma the_group_entry: "gr_entry (the_group keys k t) = (if count_list keys k = 1 then Unique t else Ambiguous)"
  by (simp add: the_group_def)

lemma count_key_exists: "Suc 0 < count_list (map f xs) k \<Longrightarrow> \<exists>x\<in>set xs. f x = k"
  by (metis count_list_0_iff imageE list.set_map not_less_zero)

lemma find_account:
  "group_find (account_groups ob) i = None \<longleftrightarrow> i \<notin> oa_id ` set (ob_accounts ob)"
  "group_find (account_groups ob) i = Some (Unique a) \<longleftrightarrow> one_account ob a \<and> oa_id a = i"
  by (auto simp: group_find_None group_find_Unique one_account_def)

lemma find_profile:
  "group_find (profile_groups ob) k = None \<longleftrightarrow> k \<notin> profile_key ` set (ob_profiles ob)"
  "group_find (profile_groups ob) k = Some (Unique p) \<longleftrightarrow> one_profile ob p \<and> profile_key p = k"
  by (auto simp: group_find_None group_find_Unique one_profile_def)

lemma account_dup_section:
  "(\<Union>g\<in>set (account_groups ob). set (duplicate_incident DuplicateAccount (SubjectAccount (gr_key g)) (gr_count g))) =
   {\<lparr>in_kind = DuplicateAccount, in_subject = SubjectAccount i, in_expected = Number 1, in_observed = Number (to_u64 n)\<rparr>
     | i n. n = count_list (map oa_id (ob_accounts ob)) i \<and> 1 < n}"
  unfolding set_group_by_key setcompr_eq_image
  by (auto simp: duplicate_incident_def split: if_splits) (frule count_key_exists, force)

lemma profile_dup_section:
  "(\<Union>g\<in>set (profile_groups ob). set (duplicate_incident DuplicateProfile
       (SubjectProfile (fst (gr_key g)) (snd (gr_key g))) (gr_count g))) =
   {\<lparr>in_kind = DuplicateProfile, in_subject = SubjectProfile sl p, in_expected = Number 1, in_observed = Number (to_u64 n)\<rparr>
     | sl p n. n = count_list (map profile_key (ob_profiles ob)) (sl, p) \<and> 1 < n}"
  unfolding set_group_by_key setcompr_eq_image
  by (auto simp: duplicate_incident_def split: if_splits) (frule count_key_exists, force)

lemma account_entry:
  "g \<in> set (account_groups ob) \<Longrightarrow> gr_entry g = Unique a \<Longrightarrow> one_account ob a"
  by (auto simp: account_group_iff the_group_entry one_account_def split: if_splits)

lemma account_entry_exists:
  "one_account ob a \<Longrightarrow> \<exists>g\<in>set (account_groups ob). gr_entry g = Unique a"
  by (auto simp: account_group_iff one_account_def the_group_entry Bex_def)

lemma profile_entry:
  "g \<in> set (profile_groups ob) \<Longrightarrow> gr_entry g = Unique p \<Longrightarrow> one_profile ob p"
  by (auto simp: profile_group_iff the_group_entry one_profile_def split: if_splits)

lemma profile_entry_exists:
  "one_profile ob p \<Longrightarrow> \<exists>g\<in>set (profile_groups ob). gr_entry g = Unique p"
  by (auto simp: profile_group_iff one_profile_def the_group_entry Bex_def)

lemma slot_groups:
  "{g \<in> set (profile_groups ob). fst (gr_key g) = sl \<and> enabled_in g} =
   (\<lambda>p. \<lparr>gr_key = profile_key p, gr_entry = Unique p, gr_count = 1\<rparr>) `
     {p. one_profile ob p \<and> opr_slot p = sl \<and> opr_lifecycle p = ReconcileProfile.Enabled}"
  by (auto simp: profile_group_iff the_group_def one_profile_def profile_key_def image_iff split: if_splits)

lemma slot_section:
  assumes "within_bounds ob"
  shows "set (slot_scan (profile_groups ob)) = {slot_incident sl n | sl n.
    n = card {p. one_profile ob p \<and> opr_slot p = sl \<and> opr_lifecycle p = ReconcileProfile.Enabled} \<and> 1 < n}"
proof -
  let ?gs = "profile_groups ob"
  have "length (filter (\<lambda>g. fst (gr_key g) = sl \<and> enabled_in g) ?gs) =
      card {p. one_profile ob p \<and> opr_slot p = sl \<and> opr_lifecycle p = ReconcileProfile.Enabled}" for sl
  proof -
    have "length (filter (\<lambda>g. fst (gr_key g) = sl \<and> enabled_in g) ?gs) =
        card {g \<in> set ?gs. fst (gr_key g) = sl \<and> enabled_in g}"
      unfolding set_filter [symmetric] by (rule distinct_card [symmetric]) (simp only: distinct_filter distinct_group_by_key)
    also have "\<dots> = card {p. one_profile ob p \<and> opr_slot p = sl \<and> opr_lifecycle p = ReconcileProfile.Enabled}"
      unfolding slot_groups by (intro card_image inj_onI) simp
    finally show ?thesis .
  qed
  moreover have "sorted (map (\<lambda>g. fst (gr_key g)) ?gs)"
  proof -
    have "sorted (map gr_key ?gs)"
      using group_by_key_sorted [of profile_key "ob_profiles ob"] by (simp add: strict_sorted_iff)
    then show ?thesis by (auto simp: sorted_map less_eq_prod_def elim!: sorted_wrt_mono_rel [rotated])
  qed
  moreover have "length ?gs < 2 ^ 64"
  proof -
    have "length ?gs = card (set ?gs)" by (simp add: distinct_card distinct_group_by_key)
    also have "\<dots> \<le> card (set (ob_profiles ob))"
      unfolding set_group_by_key setcompr_eq_image Collect_mem_eq by (rule card_image_le) simp
    also have "\<dots> \<le> length (ob_profiles ob)" by (rule card_length)
    finally show ?thesis using assms by (simp add: within_bounds_def RECONCILE_MAX_PROFILES_def)
  qed
  ultimately show ?thesis using slot_scan_mem [of ?gs] by (simp only: conj_commute)
qed

lemma profile_section_sound:
  assumes "g \<in> set (profile_groups ob)" "i \<in> set (profile_incidents (account_groups ob) g)"
  shows "drift ob i"
proof (cases "gr_entry g")
  case (Unique p)
  note p = profile_entry [OF assms(1) Unique]
  show ?thesis
  proof (cases "opr_owner p")
    case None
    with Unique assms(2) p show ?thesis
      by (auto simp: profile_incidents_def profile_subject_def [symmetric] Let_def split: if_splits intro: drift.unbound)
  next
    case (Some w)
    show ?thesis
    proof (cases "group_find (account_groups ob) w")
      case None
      with Unique Some assms(2) p show ?thesis
        by (auto simp: profile_incidents_def profile_subject_def [symmetric] Let_def find_account
            intro: drift.owner_unknown)
    next
      case acc: (Some e)
      show ?thesis
      proof (cases e)
        case a: (Unique a)
        then have "one_account ob a" "oa_id a = w" using acc by (simp_all add: find_account)
        with Unique Some assms(2) p acc a show ?thesis
          by (auto simp: profile_incidents_def profile_subject_def [symmetric] Let_def split: if_splits
              intro: drift.inactive)
      qed (use Unique Some assms(2) acc in \<open>simp add: profile_incidents_def Let_def\<close>)
    qed
  qed
qed (use assms(2) in \<open>simp add: profile_incidents_def\<close>)

lemma account_section_sound:
  assumes "g \<in> set (account_groups ob)" "i \<in> set (account_incidents ob g)"
  shows "drift ob i"
proof (cases "gr_entry g")
  case (Unique a)
  note a = account_entry [OF assms(1) Unique]
  from Unique assms(2) a show ?thesis
    by (auto simp: account_incidents_def Let_def reached_percent_iff split: if_splits option.splits
        intro: drift.regression drift.over_cap drift.anomalous)
qed (use assms(2) in \<open>simp add: account_incidents_def\<close>)

lemma session_section_sound:
  assumes "s \<in> set (ob_sessions ob)" "i \<in> set (session_incidents (profile_groups ob) s)"
  shows "drift ob i"
proof (cases "group_find (profile_groups ob) (os_slot s, os_profile s)")
  case None
  with assms show ?thesis
    by (auto simp: session_incidents_def session_subject_def [symmetric] Let_def find_profile split: if_splits
        intro: drift.no_profile drift.roaming)
next
  case (Some e)
  show ?thesis
  proof (cases e)
    case (Unique p)
    then have "one_profile ob p" "profile_key p = (os_slot s, os_profile s)"
      using Some by (simp_all add: find_profile)
    with Some Unique assms show ?thesis
      by (auto simp: session_incidents_def session_subject_def [symmetric] Let_def split: if_splits
          intro: drift.not_enabled drift.mismatch drift.roaming)
  next
    case Ambiguous
    with Some assms show ?thesis
      by (auto simp: session_incidents_def session_subject_def [symmetric] Let_def split: if_splits
          intro: drift.roaming)
  qed
qed

lemma profile_section_complete:
  assumes "one_profile ob p" and "\<And>g. gr_entry g = Unique p \<Longrightarrow> i \<in> set (profile_incidents (account_groups ob) g)"
  shows "i \<in> (\<Union>g\<in>set (profile_groups ob). set (profile_incidents (account_groups ob) g))"
  using profile_entry_exists [OF assms(1)] assms(2) by blast

lemma account_section_complete:
  assumes "one_account ob a" and "\<And>g. gr_entry g = Unique a \<Longrightarrow> i \<in> set (account_incidents ob g)"
  shows "i \<in> (\<Union>g\<in>set (account_groups ob). set (account_incidents ob g))"
  using account_entry_exists [OF assms(1)] assms(2) by blast

lemma reconcile_mem:
  assumes "within_bounds ob"
  shows "i \<in> set (reconcile ob) \<longleftrightarrow>
    (\<exists>j n. i = \<lparr>in_kind = DuplicateAccount, in_subject = SubjectAccount j, in_expected = Number 1,
        in_observed = Number (to_u64 n)\<rparr> \<and> n = count_list (map oa_id (ob_accounts ob)) j \<and> 1 < n) \<or>
    (\<exists>sl p n. i = \<lparr>in_kind = DuplicateProfile, in_subject = SubjectProfile sl p, in_expected = Number 1,
        in_observed = Number (to_u64 n)\<rparr> \<and> n = count_list (map profile_key (ob_profiles ob)) (sl, p) \<and> 1 < n) \<or>
    (\<exists>g\<in>set (profile_groups ob). i \<in> set (profile_incidents (account_groups ob) g)) \<or>
    (\<exists>sl n. i = slot_incident sl n \<and>
        n = card {p. one_profile ob p \<and> opr_slot p = sl \<and> opr_lifecycle p = ReconcileProfile.Enabled} \<and> 1 < n) \<or>
    (\<exists>g\<in>set (account_groups ob). i \<in> set (account_incidents ob g)) \<or>
    (\<exists>s\<in>set (ob_sessions ob). i \<in> set (session_incidents (profile_groups ob) s))"
  unfolding reconcile_unfold [OF bound_incidents_empty [THEN iffD2, OF assms]]
    account_dup_section profile_dup_section slot_section [OF assms]
  by (simp only: Un_iff UN_iff mem_Collect_eq disj_assoc)

lemma in_profile_section:
  assumes "within_bounds ob" "one_profile ob p"
    and "\<And>g. gr_entry g = Unique p \<Longrightarrow> i \<in> set (profile_incidents (account_groups ob) g)"
  shows "i \<in> set (reconcile ob)"
  using profile_entry_exists [OF assms(2)] assms(3) unfolding reconcile_mem [OF assms(1)] by blast

lemma in_account_section:
  assumes "within_bounds ob" "one_account ob a"
    and "\<And>g. gr_entry g = Unique a \<Longrightarrow> i \<in> set (account_incidents ob g)"
  shows "i \<in> set (reconcile ob)"
  using account_entry_exists [OF assms(2)] assms(3) unfolding reconcile_mem [OF assms(1)] by blast

lemma in_session_section:
  assumes "within_bounds ob" "s \<in> set (ob_sessions ob)" "i \<in> set (session_incidents (profile_groups ob) s)"
  shows "i \<in> set (reconcile ob)"
  using assms unfolding reconcile_mem [OF assms(1)] by blast

lemma reconcile_complete:
  assumes b: "within_bounds ob" and d: "drift ob i"
  shows "i \<in> set (reconcile ob)"
  using d
proof cases
  case (unbound p)
  then show ?thesis
    by (intro in_profile_section [OF b]) (auto simp: profile_incidents_def Let_def profile_subject_def)
next
  case (owner_unknown p w)
  then show ?thesis
    by (intro in_profile_section [OF b])
      (auto simp: profile_incidents_def Let_def profile_subject_def find_account(1) [THEN iffD2])
next
  case (inactive p a)
  then have "group_find (account_groups ob) (oa_id a) = Some (Unique a)" by (simp add: find_account)
  with inactive show ?thesis
    by (intro in_profile_section [OF b]) (auto simp: profile_incidents_def Let_def profile_subject_def)
next
  case (regression a prev)
  then show ?thesis by (intro in_account_section [OF b]) (auto simp: account_incidents_def Let_def)
next
  case (over_cap a cap s)
  then show ?thesis by (intro in_account_section [OF b]) (auto simp: account_incidents_def Let_def)
next
  case (anomalous a cap pct)
  then show ?thesis
    by (intro in_account_section [OF b]) (auto simp: account_incidents_def Let_def reached_percent_iff)
next
  case (no_profile s)
  then show ?thesis
    by (intro in_session_section [OF b])
      (auto simp: session_incidents_def Let_def session_subject_def find_profile(1) [THEN iffD2])
next
  case (not_enabled s p)
  then have "group_find (profile_groups ob) (os_slot s, os_profile s) = Some (Unique p)" by (simp add: find_profile)
  with not_enabled show ?thesis
    by (intro in_session_section [OF b]) (auto simp: session_incidents_def Let_def session_subject_def)
next
  case (mismatch s p)
  then have "group_find (profile_groups ob) (os_slot s, os_profile s) = Some (Unique p)" by (simp add: find_profile)
  with mismatch show ?thesis
    by (intro in_session_section [OF b]) (auto simp: session_incidents_def Let_def session_subject_def)
next
  case (roaming s)
  then show ?thesis
    by (intro in_session_section [OF b]) (auto simp: session_incidents_def Let_def session_subject_def)
qed (unfold reconcile_mem [OF b], blast+)

lemma reconcile_sound: "within_bounds ob \<Longrightarrow> i \<in> set (reconcile ob) \<Longrightarrow> drift ob i"
  unfolding reconcile_mem
  by (elim disjE exE conjE bexE; (simp only:)?)
    (auto intro: drift.dup_account drift.dup_profile drift.multiple
      dest: profile_section_sound account_section_sound session_section_sound)

lemma drift_order_inj: "inj drift_order"
  by (auto intro!: injI Incident.equality simp: drift_order_def)

subsection \<open>Properties\<close>

text \<open>The documented order of a report: by kind, then subject, then the expected, then the observed fact.\<close>

definition in_report_order :: "Incident \<Rightarrow> Incident \<Rightarrow> bool" where
  "in_report_order i j \<longleftrightarrow>
     (if in_kind i \<noteq> in_kind j then in_kind i < in_kind j
      else if in_subject i \<noteq> in_subject j then in_subject i < in_subject j
      else if in_expected i \<noteq> in_expected j then in_expected i < in_expected j
      else in_observed i \<le> in_observed j)"

lemma in_report_order_iff: "in_report_order i j \<longleftrightarrow> drift_order i \<le> drift_order j"
  by (auto simp: in_report_order_def drift_order_def less_eq_prod_def)

lemma reconcile_sorted: "sorted_wrt in_report_order (reconcile ob)"
proof -
  have "sorted (map drift_order (reconcile ob))" by (simp add: reconcile_def Let_def)
  then show ?thesis by (simp add: sorted_wrt_map in_report_order_iff [abs_def])
qed

text \<open>
  C22.  The reconciler's report is exact.  It is in the documented order.  For a snapshot within the
  bounds it contains an incident exactly when the snapshot has that drift: duplicates with their
  multiplicity, and for records that are not duplicated every enabled profile without an active owner,
  every slot with several enabled profiles, every usage counter that went backwards or passed its cap
  or threshold unrestricted, and every session without its enabled, own profile or with forbidden
  roaming.  Nothing else is reported and nothing is missed.  Beyond the bounds only the excess is
  reported.
\<close>

theorem reconcile_exact:
  "sorted_wrt in_report_order (reconcile ob) \<and>
   (if within_bounds ob then \<forall>i. i \<in> set (reconcile ob) \<longleftrightarrow> drift ob i
    else reconcile ob \<noteq> [] \<and> (\<forall>i\<in>set (reconcile ob). in_kind i = SnapshotTooLarge))"
proof (cases "within_bounds ob")
  case True
  then show ?thesis using reconcile_sorted reconcile_sound reconcile_complete by auto
next
  case False
  then have ne: "bound_incidents ob \<noteq> []" by (simp add: bound_incidents_empty)
  moreover have "in_kind j = SnapshotTooLarge" if "j \<in> set (bound_incidents ob)" for j
    using that by (auto simp: bound_incidents_def split: if_splits)
  moreover have "xs \<noteq> [] \<Longrightarrow> sort_key drift_order xs \<noteq> []" for xs by (metis length_0_conv length_sort)
  moreover have "reconcile ob = sort_key drift_order (bound_incidents ob)" using ne by (simp add: reconcile_def)
  ultimately show ?thesis using False reconcile_sorted [of ob] by simp
qed

text \<open>An enabled profile of a suspended account, and an enabled profile nobody owns.\<close>

theorem reconcile_exact_witness:
  "let i = \<lparr>in_kind = EnabledProfileUnderInactiveAccount, in_subject = SubjectProfile 0 0,
          in_expected = FactStanding Standing.Active, in_observed = FactStanding Standing.Suspended\<rparr>;
       r = reconcile \<lparr>ob_accounts = [\<lparr>oa_id = 1, oa_standing = Standing.Suspended, oa_data_cap_bytes = None,
             oa_escalate_at_percent = None, oa_used_bytes = 0, oa_last_used_bytes = None\<rparr>],
           ob_profiles = [\<lparr>opr_slot = 1, opr_profile = 0, opr_lifecycle = ReconcileProfile.Enabled, opr_owner = None\<rparr>,
             \<lparr>opr_slot = 0, opr_profile = 0, opr_lifecycle = ReconcileProfile.Enabled, opr_owner = Some 1\<rparr>],
           ob_sessions = []\<rparr>
   in i \<in> set r \<and> sorted_wrt in_report_order r"
proof -
  let ?a = "\<lparr>oa_id = 1, oa_standing = Standing.Suspended, oa_data_cap_bytes = None,
       oa_escalate_at_percent = None, oa_used_bytes = 0, oa_last_used_bytes = None\<rparr> :: ObservedAccount"
  let ?p = "\<lparr>opr_slot = 0, opr_profile = 0, opr_lifecycle = ReconcileProfile.Enabled, opr_owner = Some 1\<rparr>
    :: ObservedProfile"
  let ?q = "\<lparr>opr_slot = 1, opr_profile = 0, opr_lifecycle = ReconcileProfile.Enabled, opr_owner = None\<rparr>
    :: ObservedProfile"
  let ?ob = "\<lparr>ob_accounts = [?a], ob_profiles = [?q, ?p], ob_sessions = []\<rparr> :: Observed"
  let ?i = "\<lparr>in_kind = EnabledProfileUnderInactiveAccount, in_subject = SubjectProfile 0 0,
    in_expected = FactStanding Standing.Active, in_observed = FactStanding Standing.Suspended\<rparr> :: Incident"
  have "within_bounds ?ob"
    by (simp add: within_bounds_def RECONCILE_MAX_ACCOUNTS_def RECONCILE_MAX_PROFILES_def)
  moreover have "drift ?ob ?i"
    using drift.inactive [of ?ob ?p ?a] by (simp add: one_profile_def one_account_def profile_subject_def profile_key_def)
  ultimately show ?thesis using reconcile_exact [of ?ob] unfolding Let_def by simp
qed

text \<open>
  The report is the same whatever order the snapshot lists its accounts, profiles and
  sessions in.
\<close>

theorem reconcile_order_independent:
  assumes "mset (ob_accounts a) = mset (ob_accounts b)" and "mset (ob_profiles a) = mset (ob_profiles b)"
    and "mset (ob_sessions a) = mset (ob_sessions b)"
  shows "reconcile a = reconcile b"
proof -
  have len: "length (ob_accounts a) = length (ob_accounts b)" "length (ob_profiles a) = length (ob_profiles b)"
    "length (ob_sessions a) = length (ob_sessions b)"
    using assms by (metis size_mset)+
  have st: "set (ob_sessions a) = set (ob_sessions b)" using assms(3) by (metis set_mset_mset)
  have "account_incidents a = account_incidents b" by (rule ext) (simp only: account_incidents_def st)
  moreover have "bound_incidents a = bound_incidents b" by (simp add: bound_incidents_def len)
  moreover note group_by_key_canonical [OF assms(1), of oa_id]
    group_by_key_canonical [OF assms(2), of "\<lambda>p. (opr_slot p, opr_profile p)"]
  ultimately show ?thesis
    by (simp add: reconcile_def Let_def)
      (intro impI sort_key_canonical [OF drift_order_inj], simp add: mset_concat_map assms(3))
qed

theorem reconcile_order_independent_witness:
  "let s = \<lparr>os_account = 1, os_slot = 0, os_profile = 0, os_roaming = True, os_roaming_allowed = False\<rparr>;
       t = \<lparr>os_account = 2, os_slot = 1, os_profile = 0, os_roaming = False, os_roaming_allowed = False\<rparr>
   in reconcile \<lparr>ob_accounts = [], ob_profiles = [], ob_sessions = [s, t]\<rparr> =
      reconcile \<lparr>ob_accounts = [], ob_profiles = [], ob_sessions = [t, s]\<rparr>"
  unfolding Let_def by (rule reconcile_order_independent) (simp_all add: add_mset_commute)

end
