(* ===== verification/Sim.thy ===== *)
theory Sim
  imports Prelude
begin

text \<open>
  The eSIM profile lifecycle of \<open>kernel-arm/src/sim.rs\<close>: four slots, each with a bounded
  vector of profiles.  The vector behind the \<open>SLOTS\<close> lock is the state \<open>SimSlot list\<close>;
  every operation takes it and returns its result together with the slots it leaves behind,
  also on an error.  The lemmas show the slot invariant (identifiers are positions, at most one
  enabled profile, an identity exactly from the installation on), the exact effect of each
  transition against an abstract lifecycle table, and that deletion is final.
\<close>

definition SLOT_COUNT :: nat where
  "SLOT_COUNT = 4"

definition MAX_PROFILES_PER_SLOT :: nat where
  "MAX_PROFILES_PER_SLOT = 4"

datatype ProfileState = Created | Disabled | Enabled | Deleted

fun as_status_code :: "ProfileState \<Rightarrow> u64" where
  "as_status_code ProfileState.Created = 0"
| "as_status_code ProfileState.Disabled = 1"
| "as_status_code ProfileState.Enabled = 2"
| "as_status_code ProfileState.Deleted = 3"

record EsimProfile =
  ep_id :: u8
  ep_identity :: "u64 option"
  ep_state :: ProfileState

datatype Op = Install | Enable | Disable | Delete

fun source_state :: "Op \<Rightarrow> ProfileState" where
  "source_state Op.Install = ProfileState.Created"
| "source_state Op.Enable = ProfileState.Disabled"
| "source_state Op.Disable = ProfileState.Enabled"
| "source_state Op.Delete = ProfileState.Disabled"

fun target_state :: "Op \<Rightarrow> ProfileState" where
  "target_state Op.Install = ProfileState.Disabled"
| "target_state Op.Enable = ProfileState.Enabled"
| "target_state Op.Disable = ProfileState.Disabled"
| "target_state Op.Delete = ProfileState.Deleted"

datatype SimError = NoSuchSlot | NoSuchProfile | SlotFull | WrongState ProfileState

record SimSlot =
  profiles :: "EsimProfile list"

type_synonym slots = "SimSlot list"

subsection \<open>Operations on one slot\<close>

definition slot_new :: SimSlot where
  "slot_new = \<lparr>profiles = []\<rparr>"

definition slot_find :: "SimSlot \<Rightarrow> u8 \<Rightarrow> (nat, SimError) result" where
  "slot_find s profile_id =
     ok_or (position (\<lambda>p. ep_id p = profile_id) (profiles s)) NoSuchProfile"

definition slot_create :: "SimSlot \<Rightarrow> (u8, SimError) result \<times> SimSlot" where
  "slot_create s =
     (if MAX_PROFILES_PER_SLOT \<le> length (profiles s) then (Err SlotFull, s)
      else
        let i = of_nat (length (profiles s));
            p = \<lparr>ep_id = i, ep_identity = None, ep_state = ProfileState.Created\<rparr>
        in (Ok i, s\<lparr>profiles := profiles s @ [p]\<rparr>))"

definition demote_enabled :: "EsimProfile \<Rightarrow> EsimProfile" where
  "demote_enabled p =
     (if ep_state p = ProfileState.Enabled then p\<lparr>ep_state := ProfileState.Disabled\<rparr> else p)"

definition transition :: "SimSlot \<Rightarrow> u8 \<Rightarrow> Op \<Rightarrow> (unit, SimError) result \<times> SimSlot" where
  "transition s profile_id op =
     (case slot_find s profile_id of
        Err e \<Rightarrow> (Err e, s)
      | Ok idx \<Rightarrow>
          let from = ep_state (profiles s ! idx) in
          if from \<noteq> source_state op then (Err (WrongState from), s)
          else
            let to = target_state op;
                ps = (if to = ProfileState.Enabled then map demote_enabled (profiles s)
                      else profiles s)
            in (Ok (), s\<lparr>profiles := ps[idx := (ps ! idx)\<lparr>ep_state := to\<rparr>]\<rparr>))"

definition slot_install :: "SimSlot \<Rightarrow> u8 \<Rightarrow> u64 \<Rightarrow> (unit, SimError) result \<times> SimSlot" where
  "slot_install s profile_id identity =
     (case transition s profile_id Op.Install of
        (Err e, s1) \<Rightarrow> (Err e, s1)
      | (Ok _, s1) \<Rightarrow>
          (case slot_find s1 profile_id of
             Err e \<Rightarrow> (Err e, s1)
           | Ok idx \<Rightarrow>
               (Ok (), s1\<lparr>profiles := (profiles s1)
                  [idx := (profiles s1 ! idx)\<lparr>ep_identity := Some identity\<rparr>]\<rparr>)))"

subsection \<open>The slots behind the lock\<close>

definition SLOTS :: slots where
  "SLOTS = replicate SLOT_COUNT slot_new"

definition with_slot ::
    "slots \<Rightarrow> usize \<Rightarrow> (SimSlot \<Rightarrow> ('a, SimError) result \<times> SimSlot) \<Rightarrow> ('a, SimError) result \<times> slots" where
  "with_slot slots slot f =
     (if unat slot < length slots
      then let (r, s) = f (slots ! unat slot) in (r, slots[unat slot := s])
      else (Err NoSuchSlot, slots))"

definition sim_create :: "slots \<Rightarrow> usize \<Rightarrow> (u8, SimError) result \<times> slots" where
  "sim_create slots slot = with_slot slots slot slot_create"

definition sim_install :: "slots \<Rightarrow> usize \<Rightarrow> u8 \<Rightarrow> u64 \<Rightarrow> (unit, SimError) result \<times> slots" where
  "sim_install slots slot profile_id identity =
     with_slot slots slot (\<lambda>s. slot_install s profile_id identity)"

definition sim_enable :: "slots \<Rightarrow> usize \<Rightarrow> u8 \<Rightarrow> (unit, SimError) result \<times> slots" where
  "sim_enable slots slot profile_id = with_slot slots slot (\<lambda>s. transition s profile_id Op.Enable)"

definition sim_disable :: "slots \<Rightarrow> usize \<Rightarrow> u8 \<Rightarrow> (unit, SimError) result \<times> slots" where
  "sim_disable slots slot profile_id = with_slot slots slot (\<lambda>s. transition s profile_id Op.Disable)"

definition sim_delete :: "slots \<Rightarrow> usize \<Rightarrow> u8 \<Rightarrow> (unit, SimError) result \<times> slots" where
  "sim_delete slots slot profile_id = with_slot slots slot (\<lambda>s. transition s profile_id Op.Delete)"

definition profile_state :: "slots \<Rightarrow> usize \<Rightarrow> u8 \<Rightarrow> (ProfileState, SimError) result" where
  "profile_state slots slot profile_id =
     (if unat slot < length slots
      then map_ok (\<lambda>idx. ep_state (profiles (slots ! unat slot) ! idx))
             (slot_find (slots ! unat slot) profile_id)
      else Err NoSuchSlot)"

definition sim_profiles :: "slots \<Rightarrow> usize \<Rightarrow> (EsimProfile list, SimError) result" where
  "sim_profiles slots slot =
     (if unat slot < length slots then Ok (profiles (slots ! unat slot)) else Err NoSuchSlot)"

definition enabled_profile :: "slots \<Rightarrow> usize \<Rightarrow> (u8 option, SimError) result" where
  "enabled_profile slots slot =
     (if unat slot < length slots
      then Ok (map_option ep_id
             (find (\<lambda>p. ep_state p = ProfileState.Enabled) (profiles (slots ! unat slot))))
      else Err NoSuchSlot)"

fun show_ProfileState :: "ProfileState \<Rightarrow> string" where
  "show_ProfileState ProfileState.Created = ''Created''"
| "show_ProfileState ProfileState.Disabled = ''Disabled''"
| "show_ProfileState ProfileState.Enabled = ''Enabled''"
| "show_ProfileState ProfileState.Deleted = ''Deleted''"

fun display_SimError :: "SimError \<Rightarrow> string" where
  "display_SimError NoSuchSlot = ''no such SIM slot''"
| "display_SimError NoSuchProfile = ''no such eSIM profile in this slot''"
| "display_SimError SlotFull =
     ''SIM slot is full ('' @ dec MAX_PROFILES_PER_SLOT @ '' profile containers)''"
| "display_SimError (WrongState s) =
     ''wrong state for this operation ('' @ show_ProfileState s @ '')''"

subsection \<open>Sequences of operations\<close>

datatype SimCall =
    CallCreate usize
  | CallInstall usize u8 u64
  | CallEnable usize u8
  | CallDisable usize u8
  | CallDelete usize u8

fun sim_call :: "SimCall \<Rightarrow> slots \<Rightarrow> slots" where
  "sim_call (CallCreate slot) S = snd (sim_create S slot)"
| "sim_call (CallInstall slot p i) S = snd (sim_install S slot p i)"
| "sim_call (CallEnable slot p) S = snd (sim_enable S slot p)"
| "sim_call (CallDisable slot p) S = snd (sim_disable S slot p)"
| "sim_call (CallDelete slot p) S = snd (sim_delete S slot p)"

subsection \<open>Invariant and abstract lifecycle\<close>

definition slot_wf :: "SimSlot \<Rightarrow> bool" where
  "slot_wf s \<longleftrightarrow>
     length (profiles s) \<le> MAX_PROFILES_PER_SLOT \<and>
     (\<forall>i<length (profiles s). ep_id (profiles s ! i) = of_nat i) \<and>
     (\<forall>i<length (profiles s). \<forall>j<length (profiles s).
        ep_state (profiles s ! i) = ProfileState.Enabled \<longrightarrow>
        ep_state (profiles s ! j) = ProfileState.Enabled \<longrightarrow> i = j) \<and>
     (\<forall>i<length (profiles s).
        (ep_identity (profiles s ! i) = None) = (ep_state (profiles s ! i) = ProfileState.Created))"

definition slots_wf :: "slots \<Rightarrow> bool" where
  "slots_wf S \<longleftrightarrow> length S = SLOT_COUNT \<and> (\<forall>s\<in>set S. slot_wf s)"

text \<open>The lifecycle table of a slot: which profile is in which state.\<close>

definition slot_view :: "SimSlot \<Rightarrow> u8 \<Rightarrow> ProfileState option" where
  "slot_view s p = map_option ep_state (find (\<lambda>q. ep_id q = p) (profiles s))"

definition lifecycle_step :: "Op \<Rightarrow> u8 \<Rightarrow> (u8 \<Rightarrow> ProfileState option) \<Rightarrow> u8 \<Rightarrow> ProfileState option" where
  "lifecycle_step op p m =
     (\<lambda>q. if q = p then Some (target_state op)
          else if op = Op.Enable \<and> m q = Some ProfileState.Enabled then Some ProfileState.Disabled
          else m q)"

subsection \<open>One slot\<close>

lemma slot_wf_new: "slot_wf slot_new"
  by (simp add: slot_wf_def slot_new_def)

lemma slot_find_wf:
  assumes "slot_wf s"
  shows "slot_find s p = (if unat p < length (profiles s) then Ok (unat p) else Err NoSuchProfile)"
proof -
  have small: "length (profiles s) \<le> 4" and ids: "\<forall>i<length (profiles s). ep_id (profiles s ! i) = of_nat i"
    using assms by (auto simp: slot_wf_def MAX_PROFILES_PER_SLOT_def)
  have key: "of_nat i = p \<longleftrightarrow> i = unat p" if "i < length (profiles s)" for i
    using that small by (auto simp: unat_of_nat_lt)
  show ?thesis
  proof (cases "unat p < length (profiles s)")
    case True
    then have "position (\<lambda>q. ep_id q = p) (profiles s) = Some (unat p)"
      by (intro position_unique) (auto simp: ids key)
    with True show ?thesis by (simp add: slot_find_def)
  next
    case False
    then have "position (\<lambda>q. ep_id q = p) (profiles s) = None"
      using small by (auto simp: position_None in_set_conv_nth ids unat_of_nat_lt)
    with False show ?thesis by (simp add: slot_find_def)
  qed
qed

lemma target_Enabled: "target_state op = ProfileState.Enabled \<longleftrightarrow> op = Op.Enable"
  by (cases op) auto

lemma demote_enabled_simps [simp]:
  "ep_id (demote_enabled p) = ep_id p"
  "ep_identity (demote_enabled p) = ep_identity p"
  "ep_state (demote_enabled p) =
     (if ep_state p = ProfileState.Enabled then ProfileState.Disabled else ep_state p)"
  by (simp_all add: demote_enabled_def)

text \<open>What an accepted transition writes, entry by entry.\<close>

definition moved :: "Op \<Rightarrow> nat \<Rightarrow> EsimProfile list \<Rightarrow> nat \<Rightarrow> EsimProfile" where
  "moved op i ps j =
     (if j = i then (ps ! j)\<lparr>ep_state := target_state op\<rparr>
      else if op = Op.Enable then demote_enabled (ps ! j) else ps ! j)"

lemma transition_eq:
  assumes "slot_wf s"
  shows "transition s p op =
    (if \<not> unat p < length (profiles s) then (Err NoSuchProfile, s)
     else if ep_state (profiles s ! unat p) \<noteq> source_state op
       then (Err (WrongState (ep_state (profiles s ! unat p))), s)
     else (Ok (), s\<lparr>profiles := map (moved op (unat p) (profiles s)) [0..<length (profiles s)]\<rparr>))"
proof -
  have "(map demote_enabled ps)[i := (map demote_enabled ps ! i)\<lparr>ep_state := ProfileState.Enabled\<rparr>] =
      map (moved Op.Enable i ps) [0..<length ps]" if "i < length ps" for i ps
    using that by (intro nth_equalityI) (auto simp: moved_def nth_list_update demote_enabled_def)
  moreover have "ps[i := (ps ! i)\<lparr>ep_state := target_state op\<rparr>] = map (moved op i ps) [0..<length ps]"
    if "op \<noteq> Op.Enable" for i ps
    using that by (intro nth_equalityI) (auto simp: moved_def nth_list_update)
  ultimately show ?thesis
    using assms by (auto simp: transition_def slot_find_wf Let_def target_Enabled)
qed

lemma transition_Err_same: "transition s p op = (Err e, s') \<Longrightarrow> s' = s"
  by (auto simp: transition_def Let_def split: result.splits if_splits)

lemma moved_ids [simp]: "ep_id (moved op i ps j) = ep_id (ps ! j)"
  by (simp add: moved_def)

lemma moved_identity [simp]: "ep_identity (moved op i ps j) = ep_identity (ps ! j)"
  by (simp add: moved_def)

lemma moved_state:
  "ep_state (moved op i ps j) =
     (if j = i then target_state op
      else if op = Op.Enable \<and> ep_state (ps ! j) = ProfileState.Enabled then ProfileState.Disabled
      else ep_state (ps ! j))"
  by (simp add: moved_def)

lemma transition_wf:
  assumes wf: "slot_wf s" and op: "op \<noteq> Op.Install"
  shows "slot_wf (snd (transition s p op))"
  using assms
  by (cases op) (auto simp: transition_eq slot_wf_def moved_state)

lemma slot_create_wf: "slot_wf s \<Longrightarrow> slot_wf (snd (slot_create s))"
  by (auto simp: slot_create_def slot_wf_def Let_def nth_append less_Suc_eq)

lemma slot_install_eq:
  assumes wf: "slot_wf s"
  shows "slot_install s p v =
    (if \<not> unat p < length (profiles s) then (Err NoSuchProfile, s)
     else if ep_state (profiles s ! unat p) \<noteq> ProfileState.Created
       then (Err (WrongState (ep_state (profiles s ! unat p))), s)
     else (Ok (), s\<lparr>profiles := (profiles s)[unat p := (profiles s ! unat p)
            \<lparr>ep_identity := Some v, ep_state := ProfileState.Disabled\<rparr>]\<rparr>))"
proof -
  let ?ps = "map (moved Op.Install (unat p) (profiles s)) [0..<length (profiles s)]"
  have "slot_find (s\<lparr>profiles := ?ps\<rparr>) p = Ok (unat p)" if "unat p < length (profiles s)"
  proof -
    have "map ep_id ?ps = map ep_id (profiles s)"
      by (intro nth_equalityI) auto
    moreover have "slot_find t p = ok_or (position (\<lambda>i. i = p) (map ep_id (profiles t))) NoSuchProfile" for t
      by (simp add: slot_find_def position_map)
    ultimately show ?thesis using slot_find_wf [OF wf, of p] that by simp
  qed
  moreover have "?ps[unat p := (?ps ! unat p)\<lparr>ep_identity := Some v\<rparr>] =
      (profiles s)[unat p := (profiles s ! unat p)\<lparr>ep_identity := Some v, ep_state := ProfileState.Disabled\<rparr>]"
    if "unat p < length (profiles s)"
    using that by (intro nth_equalityI) (auto simp: nth_list_update moved_def)
  ultimately show ?thesis
    using wf by (auto simp: slot_install_def transition_eq)
qed

lemma slot_install_wf: "slot_wf s \<Longrightarrow> slot_wf (snd (slot_install s p v))"
  by (auto simp: slot_install_eq) (auto simp: slot_wf_def nth_list_update split: if_splits)

lemma slot_view_wf:
  assumes "slot_wf s"
  shows "slot_view s p = (if unat p < length (profiles s) then Some (ep_state (profiles s ! unat p)) else None)"
  using slot_find_wf [OF assms, of p]
  by (auto simp: slot_view_def slot_find_def find_position split: if_splits elim!: ok_or.elims)

lemma slot_view_def2: "slot_view s p = ok (map_ok (\<lambda>i. ep_state (profiles s ! i)) (slot_find s p))"
  by (cases "position (\<lambda>q. ep_id q = p) (profiles s)")
    (auto simp: slot_view_def slot_find_def find_position)

subsection \<open>All slots\<close>

text \<open>The lifecycle of a profile addressed by slot and identifier.\<close>

definition state_of :: "slots \<Rightarrow> usize \<Rightarrow> u8 \<Rightarrow> ProfileState option" where
  "state_of S slot p = ok (profile_state S slot p)"

lemma state_of_slot:
  "state_of S slot p = (if unat slot < length S then slot_view (S ! unat slot) p else None)"
  by (simp add: state_of_def profile_state_def slot_view_def2)

lemma slots_wf_nth: "slots_wf S \<Longrightarrow> unat slot < length S \<Longrightarrow> slot_wf (S ! unat slot)"
  by (simp add: slots_wf_def)

lemma SLOTS_wf: "slots_wf SLOTS"
  by (simp add: slots_wf_def SLOTS_def slot_wf_new)

lemma with_slot_wf:
  assumes "slots_wf S" and "\<And>s. slot_wf s \<Longrightarrow> slot_wf (snd (f s))"
  shows "slots_wf (snd (with_slot S slot f))"
  using assms
  by (auto simp: with_slot_def slots_wf_def split_beta dest!: set_update_subset_insert [THEN subsetD])

lemma sim_call_wf: "slots_wf S \<Longrightarrow> slots_wf (sim_call c S)"
  by (cases c)
    (simp_all add: sim_create_def sim_install_def sim_enable_def sim_disable_def sim_delete_def
       with_slot_wf slot_create_wf slot_install_wf transition_wf)

interpretation sim_machine: machine SLOTS sim_call slots_wf
  by unfold_locales (auto intro: SLOTS_wf sim_call_wf)

lemma with_slot_Err_same:
  "(\<And>s s' e. f s = (Err e, s') \<Longrightarrow> s' = s) \<Longrightarrow> with_slot S slot f = (Err e, S') \<Longrightarrow> S' = S"
  by (fastforce simp: with_slot_def split: if_splits prod.splits)

lemma slot_create_Err_same: "slot_create s = (Err e, s') \<Longrightarrow> s' = s"
  by (auto simp: slot_create_def Let_def split: if_splits)

text \<open>The three operations of a slot that only move a profile along its lifecycle.\<close>

definition sim_move :: "Op \<Rightarrow> slots \<Rightarrow> usize \<Rightarrow> u8 \<Rightarrow> (unit, SimError) result \<times> slots" where
  "sim_move op S slot p = with_slot S slot (\<lambda>s. transition s p op)"

lemmas sim_moves = sim_enable_def [folded sim_move_def] sim_disable_def [folded sim_move_def]
  sim_delete_def [folded sim_move_def]

lemma sim_move_Err_same: "sim_move op S slot p = (Err e, S') \<Longrightarrow> S' = S"
  unfolding sim_move_def by (rule with_slot_Err_same) (auto dest: transition_Err_same)

lemma sim_move_wf: "slots_wf S \<Longrightarrow> op \<noteq> Op.Install \<Longrightarrow> slots_wf (snd (sim_move op S slot p))"
  by (simp add: sim_move_def with_slot_wf transition_wf)

lemma slot_view_move:
  assumes wf: "slot_wf s" and op: "op \<noteq> Op.Install" and t: "transition s p op = (Ok (), s')"
  shows "slot_view s p = Some (source_state op)" and "slot_view s' = lifecycle_step op p (slot_view s)"
proof -
  have wf': "slot_wf s'" using transition_wf [OF wf op, of p] t by simp
  show "slot_view s p = Some (source_state op)"
    using t by (auto simp: transition_eq [OF wf] slot_view_wf [OF wf] split: if_splits)
  show "slot_view s' = lifecycle_step op p (slot_view s)"
    using t
    by (auto simp: transition_eq [OF wf] slot_view_wf [OF wf] slot_view_wf [OF wf'] lifecycle_step_def
        moved_state fun_eq_iff word_unat_eq_iff split: if_splits)
qed

lemma sim_move_Ok:
  assumes wf: "slots_wf S" and op: "op \<noteq> Op.Install" and mv: "sim_move op S slot p = (Ok u, S')"
  shows "state_of S slot p = Some (source_state op)"
    and "state_of S' i = (if i = slot then lifecycle_step op p (state_of S slot) else state_of S i)"
    and "length S' = length S"
proof -
  obtain s' where i: "unat slot < length S" and t: "transition (S ! unat slot) p op = (Ok (), s')"
    and S': "S' = S[unat slot := s']"
    using mv by (auto simp: sim_move_def with_slot_def split: if_splits prod.splits)
  note v = slot_view_move [OF slots_wf_nth [OF wf i] op t]
  show "state_of S slot p = Some (source_state op)" using i v(1) by (simp add: state_of_slot)
  show "state_of S' i = (if i = slot then lifecycle_step op p (state_of S slot) else state_of S i)"
    using i v(2) by (auto simp: state_of_slot [abs_def] S' word_unat_eq_iff)
  show "length S' = length S" by (simp add: S')
qed

lemma sim_move_defined:
  assumes wf: "slots_wf S"
  shows "is_ok (fst (sim_move op S slot p)) \<longleftrightarrow> state_of S slot p = Some (source_state op)"
  using slots_wf_nth [OF wf, of slot]
  by (auto simp: sim_move_def with_slot_def state_of_slot transition_eq slot_view_wf split: prod.splits)

lemma sim_create_Ok:
  assumes wf: "slots_wf S" and cr: "sim_create S slot = (Ok p, S')"
  shows "state_of S slot p = None"
    and "state_of S' i = (if i = slot then (state_of S slot)(p \<mapsto> ProfileState.Created) else state_of S i)"
proof -
  obtain s' where i: "unat slot < length S" and c: "slot_create (S ! unat slot) = (Ok p, s')"
    and S': "S' = S[unat slot := s']"
    using cr by (auto simp: sim_create_def with_slot_def split: if_splits prod.splits)
  let ?s = "S ! unat slot"
  note wfs = slots_wf_nth [OF wf i]
  have len: "length (profiles ?s) < 4" and p: "unat p = length (profiles ?s)"
    and s': "profiles s' = profiles ?s @ [\<lparr>ep_id = p, ep_identity = None, ep_state = ProfileState.Created\<rparr>]"
    using c by (auto simp: slot_create_def Let_def MAX_PROFILES_PER_SLOT_def unat_of_nat_lt split: if_splits)
  have wfs': "slot_wf s'" using slot_create_wf [OF wfs] c by simp
  show "state_of S slot p = None" using i p by (simp add: state_of_slot slot_view_wf [OF wfs])
  have "slot_view s' = (slot_view ?s)(p \<mapsto> ProfileState.Created)"
    using p by (auto simp: fun_eq_iff slot_view_wf [OF wfs] slot_view_wf [OF wfs'] s' nth_append word_unat_eq_iff)
  then show "state_of S' i = (if i = slot then (state_of S slot)(p \<mapsto> ProfileState.Created) else state_of S i)"
    using i by (auto simp: state_of_slot [abs_def] S' word_unat_eq_iff)
qed

lemma sim_install_Ok:
  assumes wf: "slots_wf S" and ins: "sim_install S slot p v = (Ok u, S')"
  shows "state_of S slot p = Some ProfileState.Created"
    and "state_of S' i = (if i = slot then (state_of S slot)(p \<mapsto> ProfileState.Disabled) else state_of S i)"
proof -
  obtain s' where i: "unat slot < length S" and c: "slot_install (S ! unat slot) p v = (Ok (), s')"
    and S': "S' = S[unat slot := s']"
    using ins by (auto simp: sim_install_def with_slot_def split: if_splits prod.splits)
  note wfs = slots_wf_nth [OF wf i]
  have wfs': "slot_wf s'" using slot_install_wf [OF wfs] c by (metis snd_conv)
  show "state_of S slot p = Some ProfileState.Created"
    using i c by (auto simp: state_of_slot slot_view_wf [OF wfs] slot_install_eq [OF wfs] split: if_splits)
  have "slot_view s' = (slot_view (S ! unat slot))(p \<mapsto> ProfileState.Disabled)"
    using c by (auto simp: fun_eq_iff slot_view_wf [OF wfs] slot_view_wf [OF wfs'] slot_install_eq [OF wfs]
        nth_list_update word_unat_eq_iff split: if_splits)
  then show "state_of S' i = (if i = slot then (state_of S slot)(p \<mapsto> ProfileState.Disabled) else state_of S i)"
    using i by (auto simp: state_of_slot [abs_def] S' word_unat_eq_iff)
qed

lemma slot_install_Err_same: "slot_wf s \<Longrightarrow> slot_install s p v = (Err e, s') \<Longrightarrow> s' = s"
  by (auto simp: slot_install_eq split: if_splits)

lemma sim_create_Err_same: "sim_create S slot = (Err e, S') \<Longrightarrow> S' = S"
  unfolding sim_create_def by (rule with_slot_Err_same) (auto dest: slot_create_Err_same)

lemma sim_install_Err_same: "slots_wf S \<Longrightarrow> sim_install S slot p v = (Err e, S') \<Longrightarrow> S' = S"
  by (auto simp: sim_install_def with_slot_def slots_wf_nth split: if_splits prod.splits
      dest!: slot_install_Err_same [rotated])

text \<open>The effect of a call on the lifecycle table, errors included.\<close>

lemma sim_create_cases:
  obtains (Err) e where "sim_create S slot = (Err e, S)"
  | (Ok) p S' where "sim_create S slot = (Ok p, S')"
  using sim_create_Err_same by (cases rule: result_state_cases [of "sim_create S slot"]) blast+

lemma sim_install_cases:
  assumes "slots_wf S"
  obtains (Err) e where "sim_install S slot p v = (Err e, S)"
  | (Ok) S' where "sim_install S slot p v = (Ok (), S')"
  using sim_install_Err_same [OF assms] by (cases rule: result_state_cases [of "sim_install S slot p v"]) auto

lemma sim_move_cases:
  obtains (Err) e where "sim_move op S slot p = (Err e, S)"
  | (Ok) S' where "sim_move op S slot p = (Ok (), S')"
  using sim_move_Err_same by (cases rule: result_state_cases [of "sim_move op S slot p"]) auto

lemma sim_move_keeps_Deleted:
  assumes "slots_wf S" "op \<noteq> Op.Install" "state_of S k q = Some ProfileState.Deleted"
  shows "state_of (snd (sim_move op S slot p)) k q = Some ProfileState.Deleted"
proof (cases rule: sim_move_cases [of op S slot p])
  case (Ok S')
  have "source_state op \<noteq> ProfileState.Deleted" by (cases op) auto
  with assms sim_move_Ok(1,2) [OF assms(1,2) Ok] Ok show ?thesis
    by (auto simp: lifecycle_step_def)
qed (use assms in auto)

lemma sim_create_keeps_Deleted:
  assumes "slots_wf S" "state_of S k q = Some ProfileState.Deleted"
  shows "state_of (snd (sim_create S slot)) k q = Some ProfileState.Deleted"
proof (cases rule: sim_create_cases [of S slot])
  case (Ok p S')
  from sim_create_Ok(1) [OF assms(1) Ok] sim_create_Ok(2) [OF assms(1) Ok, of k] assms Ok show ?thesis
    by auto
qed (use assms in auto)

lemma sim_install_keeps_Deleted:
  assumes "slots_wf S" "state_of S k q = Some ProfileState.Deleted"
  shows "state_of (snd (sim_install S slot p v)) k q = Some ProfileState.Deleted"
proof (cases rule: sim_install_cases [OF assms(1), of slot p v])
  case (2 S')
  from sim_install_Ok(1) [OF assms(1) 2] sim_install_Ok(2) [OF assms(1) 2, of k] assms 2 show ?thesis
    by auto
qed (use assms in auto)

lemma sim_call_keeps_Deleted:
  "slots_wf S \<Longrightarrow> state_of S k q = Some ProfileState.Deleted \<Longrightarrow>
   state_of (sim_call c S) k q = Some ProfileState.Deleted"
  by (cases c) (simp_all add: sim_moves sim_create_keeps_Deleted sim_install_keeps_Deleted sim_move_keeps_Deleted)

interpretation deleted_profile: stable_fact SLOTS sim_call slots_wf
  "\<lambda>S. state_of S slot p = Some ProfileState.Deleted" for slot p
  by unfold_locales (rule sim_call_keeps_Deleted)

subsection \<open>Properties\<close>

text \<open>
  Whatever the callers do, the slots stay well formed: every sequence of create, install,
  enable, disable and delete calls, accepted or refused, on any slot and profile numbers, leaves
  four slots of at most four profiles, each identified by its position, with at most one enabled
  profile per slot and an identity recorded exactly for the profiles that were installed.
\<close>

theorem sim_runs_wf: "slots_wf (fold sim_call calls SLOTS)"
  by (rule sim_machine.run_inv)

text \<open>The lifecycle as the head of \<open>sim.rs\<close> documents it: these four moves and no other.\<close>

fun documented_move :: "Op \<Rightarrow> ProfileState \<Rightarrow> ProfileState option" where
  "documented_move Op.Install ProfileState.Created = Some ProfileState.Disabled"
| "documented_move Op.Enable ProfileState.Disabled = Some ProfileState.Enabled"
| "documented_move Op.Disable ProfileState.Enabled = Some ProfileState.Disabled"
| "documented_move Op.Delete ProfileState.Disabled = Some ProfileState.Deleted"
| "documented_move _ _ = None"

definition documented_view :: "Op \<Rightarrow> u8 \<Rightarrow> ProfileState \<Rightarrow> (u8 \<Rightarrow> ProfileState option) \<Rightarrow> u8 \<Rightarrow> ProfileState option" where
  "documented_view op p to m =
     (\<lambda>q. if q = p then Some to
          else if op = Op.Enable \<and> m q = Some ProfileState.Enabled then Some ProfileState.Disabled
          else m q)"

text \<open>The operation of a slot for each of the four moves; only an installation takes an identity.\<close>

fun slot_operation :: "SimSlot \<Rightarrow> u8 \<Rightarrow> u64 \<Rightarrow> Op \<Rightarrow> (unit, SimError) result \<times> SimSlot" where
  "slot_operation s p v Op.Install = slot_install s p v"
| "slot_operation s p v op = transition s p op"

definition slot_identity :: "SimSlot \<Rightarrow> u8 \<Rightarrow> u64 option" where
  "slot_identity s p = Option.bind (find (\<lambda>q. ep_id q = p) (profiles s)) ep_identity"

lemma documented_moves: "documented_move op st = (if st = source_state op then Some (target_state op) else None)"
  by (cases op; cases st) simp_all

lemma documented_view_target: "documented_view op p (target_state op) = lifecycle_step op p"
  by (simp add: documented_view_def lifecycle_step_def fun_eq_iff)

lemma slot_identity_wf:
  assumes "slot_wf s"
  shows "slot_identity s p = (if unat p < length (profiles s) then ep_identity (profiles s ! unat p) else None)"
  using slot_find_wf [OF assms, of p]
  by (cases "position (\<lambda>q. ep_id q = p) (profiles s)")
    (auto simp: slot_identity_def slot_find_def find_position split: if_splits)

text \<open>
  C17.  The operations of a slot implement the documented lifecycle on every branch.  A profile that
  does not exist is reported as such.  A move the documented table does not list from the profile's
  state is refused with that state.  In both cases the slot is untouched.  A listed move succeeds, the
  profile is then in the listed state, an installation has stored the identity, enabling has disabled the
  profile enabled before, and every other profile is in its state as before.
\<close>

theorem transition_refines_lifecycle:
  assumes "slot_wf s"
  shows "case slot_view s p of
      None \<Rightarrow> slot_operation s p v op = (Err NoSuchProfile, s)
    | Some st \<Rightarrow>
        (case documented_move op st of
           None \<Rightarrow> slot_operation s p v op = (Err (WrongState st), s)
         | Some to \<Rightarrow>
             fst (slot_operation s p v op) = Ok () \<and>
             slot_view (snd (slot_operation s p v op)) = documented_view op p to (slot_view s) \<and>
             slot_identity (snd (slot_operation s p v op)) = (slot_identity s)(p := if op = Op.Install then Some v else slot_identity s p))"
proof -
  have wf: "slot_wf (snd (slot_operation s p v op))"
    using assms transition_wf [OF assms] slot_install_wf by (cases op) simp_all
  note views = slot_view_wf [OF assms] slot_view_wf [OF wf] slot_identity_wf [OF assms] slot_identity_wf [OF wf]
  show ?thesis
  proof (cases "op = Op.Install")
    case True
    then show ?thesis unfolding views documented_moves
      by (auto simp: slot_install_eq [OF assms] documented_view_def fun_eq_iff nth_list_update word_unat_eq_iff)
  next
    case False
    then have o: "slot_operation s p v op = transition s p op" by (cases op) simp_all
    note views = slot_view_wf [OF assms] slot_view_wf [OF wf [unfolded o]] slot_identity_wf [OF assms] slot_identity_wf [OF wf [unfolded o]]
    show ?thesis using False unfolding o views documented_moves
      by (auto simp: transition_eq [OF assms] documented_view_def fun_eq_iff moved_state word_unat_eq_iff)
  qed
qed

theorem transition_refines_lifecycle_witness:
  "let s = \<lparr>profiles = [\<lparr>ep_id = 0, ep_identity = Some 7, ep_state = ProfileState.Enabled\<rparr>,
                         \<lparr>ep_id = 1, ep_identity = Some 8, ep_state = ProfileState.Disabled\<rparr>]\<rparr>
   in fst (slot_operation s 1 0 Op.Enable) = Ok () \<and> slot_view (snd (slot_operation s 1 0 Op.Enable)) 1 = Some ProfileState.Enabled \<and>
      slot_view (snd (slot_operation s 1 0 Op.Enable)) 0 = Some ProfileState.Disabled \<and>
      slot_operation s 0 0 Op.Delete = (Err (WrongState ProfileState.Enabled), s)"
proof -
  let ?s = "\<lparr>profiles = [\<lparr>ep_id = 0, ep_identity = Some 7, ep_state = ProfileState.Enabled\<rparr>,
                         \<lparr>ep_id = 1, ep_identity = Some 8, ep_state = ProfileState.Disabled\<rparr>]\<rparr>"
  have wf: "slot_wf ?s" by (simp add: slot_wf_def MAX_PROFILES_PER_SLOT_def less_Suc_eq)
  have v: "slot_view ?s 1 = Some ProfileState.Disabled" "slot_view ?s 0 = Some ProfileState.Enabled" by code_simp+
  show ?thesis
    using transition_refines_lifecycle [OF wf, of 1 0 Op.Enable] transition_refines_lifecycle [OF wf, of 0 0 Op.Delete]
    unfolding v by (simp add: Let_def documented_view_def v)
qed

text \<open>
  Deletion is final: once a profile is deleted, no later sequence of calls, on this slot or
  any other, gives it another state.
\<close>

theorem deleted_is_final:
  assumes "slots_wf S" and "state_of S slot p = Some ProfileState.Deleted"
  shows "state_of (fold sim_call calls S) slot p = Some ProfileState.Deleted"
  using assms by (rule deleted_profile.fold_fact)

theorem deleted_is_final_witness:
  "let S = fold sim_call [CallCreate 1, CallInstall 1 0 77, CallDelete 1 0] SLOTS
   in state_of (fold sim_call [CallEnable 1 0, CallInstall 1 0 5] S) 1 0 = Some ProfileState.Deleted"
proof -
  let ?S = "fold sim_call [CallCreate 1, CallInstall 1 0 77, CallDelete 1 0] SLOTS"
  have "slots_wf ?S" by (rule sim_machine.run_inv)
  moreover have "state_of ?S 1 0 = Some ProfileState.Deleted" by code_simp
  ultimately show ?thesis
    using deleted_is_final [of ?S 1 0 "[CallEnable 1 0, CallInstall 1 0 5]"] by (simp add: Let_def)
qed

end
