(* ===== verification/Account.thy ===== *)
theory Account
  imports Prelude
begin

text \<open>
  The account registry of \<open>mobile/src/account.rs\<close>: who owns which eSIM profile and what an
  account's standing allows.  The registry is a record of two vectors and every mutation goes
  through \<open>apply_change\<close> (\<open>AccountRegistry::apply\<close>), which returns its result together
  with the registry it leaves behind.  The caller's view of the eSIM lifecycle (the trait
  \<open>ProfileLifecycles\<close>) is an argument.  The lemmas show the registry invariant, the exact
  acceptance condition and effect of every change on the tables of standings and owners, and
  the coupling with the lifecycle: no profile is enabled under an account that is not active,
  which suspension restores through the list of forced disables.
\<close>

definition MAX_ACCOUNTS :: nat where
  "MAX_ACCOUNTS = 16"

definition MAX_PROFILES_PER_ACCOUNT :: nat where
  "MAX_PROFILES_PER_ACCOUNT = 4"

datatype SubscriberId = SubscriberId u64

datatype AccountId = AccountId (account_no: u64)

datatype PlanId = PlanId u32

record ProfileKey =
  pk_slot :: usize
  pk_profile :: u8

datatype AccountStatus = Active | Suspended | Closed

datatype ProfileLifecycle = Created | Disabled | Enabled | Deleted

text \<open>The trait \<open>ProfileLifecycles\<close>, implemented for closures.\<close>

type_synonym ProfileLifecycles = "ProfileKey \<Rightarrow> ProfileLifecycle option"

record Account =
  acct_id :: AccountId
  acct_subscriber :: SubscriberId
  acct_plan :: PlanId
  acct_status :: AccountStatus

datatype AccountError =
    RegistryFull
  | AccountFull
  | NoSuchAccount
  | AccountClosed
  | AccountNotActive AccountStatus
  | InvalidTransition AccountStatus AccountStatus
  | AlreadyBound AccountId
  | NotBound
  | UnknownProfile ProfileKey
  | ProfileDeleted ProfileKey
  | ProfileEnabled ProfileKey

datatype Change =
    Open SubscriberId PlanId
  | Bind AccountId ProfileKey
  | Unbind ProfileKey
  | SetStatus AccountId AccountStatus

record Applied =
  ap_account :: AccountId
  ap_force_disable :: "ProfileKey list"

record AccountRegistry =
  reg_accounts :: "Account list"
  reg_bindings :: "(ProfileKey \<times> AccountId) list"

subsection \<open>Queries\<close>

definition registry_new :: AccountRegistry where
  "registry_new = \<lparr>reg_accounts = [], reg_bindings = []\<rparr>"

definition account :: "AccountRegistry \<Rightarrow> AccountId \<Rightarrow> Account option" where
  "account r i = find (\<lambda>a. acct_id a = i) (reg_accounts r)"

definition owner_of :: "AccountRegistry \<Rightarrow> ProfileKey \<Rightarrow> AccountId option" where
  "owner_of r profile = map_option snd (find (\<lambda>(k, _). k = profile) (reg_bindings r))"

definition profiles_of :: "AccountRegistry \<Rightarrow> AccountId \<Rightarrow> ProfileKey list" where
  "profiles_of r i = map fst (filter (\<lambda>(_, a). a = i) (reg_bindings r))"

definition check_enable :: "AccountRegistry \<Rightarrow> AccountId \<Rightarrow> ProfileKey \<Rightarrow> (unit, AccountError) result" where
  "check_enable r i profile =
     (case account r i of
        None \<Rightarrow> Err NoSuchAccount
      | Some acct \<Rightarrow>
          if owner_of r profile \<noteq> Some i then Err NotBound
          else (case acct_status acct of
                  AccountStatus.Active \<Rightarrow> Ok ()
                | AccountStatus.Closed \<Rightarrow> Err AccountClosed
                | s \<Rightarrow> Err (AccountNotActive s)))"

definition registry_audit :: "AccountRegistry \<Rightarrow> ProfileLifecycles \<Rightarrow> ProfileKey list" where
  "registry_audit r lc =
     map fst (filter (\<lambda>(k, a).
       lc k = Some ProfileLifecycle.Enabled \<and>
       (case account r a of None \<Rightarrow> True | Some acct \<Rightarrow> acct_status acct \<noteq> AccountStatus.Active))
       (reg_bindings r))"

subsection \<open>Mutations\<close>

text \<open>The lifecycle facts of every bound profile, gathered before anything is written.\<close>

fun gather_lifecycle ::
    "ProfileLifecycles \<Rightarrow> AccountStatus \<Rightarrow> ProfileKey list \<Rightarrow> ProfileKey list \<Rightarrow> (ProfileKey list, AccountError) result" where
  "gather_lifecycle lc to force_disable [] = Ok force_disable"
| "gather_lifecycle lc to force_disable (key # keys) =
     (case lc key of
        None \<Rightarrow> Err (UnknownProfile key)
      | Some state \<Rightarrow>
          if state = ProfileLifecycle.Enabled then
            if to = AccountStatus.Closed then Err (ProfileEnabled key)
            else gather_lifecycle lc to (force_disable @ [key]) keys
          else gather_lifecycle lc to force_disable keys)"

fun legal_status :: "AccountStatus \<Rightarrow> AccountStatus \<Rightarrow> bool" where
  "legal_status AccountStatus.Active AccountStatus.Suspended = True"
| "legal_status AccountStatus.Suspended AccountStatus.Active = True"
| "legal_status AccountStatus.Active AccountStatus.Closed = True"
| "legal_status AccountStatus.Suspended AccountStatus.Closed = True"
| "legal_status _ _ = False"

fun apply_change ::
    "AccountRegistry \<Rightarrow> Change \<Rightarrow> ProfileLifecycles \<Rightarrow> (Applied, AccountError) result \<times> AccountRegistry" where
  "apply_change r (Open subscriber plan) lc =
     (if MAX_ACCOUNTS \<le> length (reg_accounts r) then (Err RegistryFull, r)
      else
        let i = AccountId (of_nat (length (reg_accounts r)));
            a = \<lparr>acct_id = i, acct_subscriber = subscriber, acct_plan = plan,
                 acct_status = AccountStatus.Active\<rparr>
        in (Ok \<lparr>ap_account = i, ap_force_disable = []\<rparr>,
            r\<lparr>reg_accounts := reg_accounts r @ [a]\<rparr>))"
| "apply_change r (Bind i profile) lc =
     (case account r i of
        None \<Rightarrow> (Err NoSuchAccount, r)
      | Some acct \<Rightarrow>
          if acct_status acct = AccountStatus.Closed then (Err AccountClosed, r)
          else (case owner_of r profile of
            Some owner \<Rightarrow> (Err (AlreadyBound owner), r)
          | None \<Rightarrow>
              (case lc profile of
                 None \<Rightarrow> (Err (UnknownProfile profile), r)
               | Some state \<Rightarrow>
                   if state = ProfileLifecycle.Deleted then (Err (ProfileDeleted profile), r)
                   else if state = ProfileLifecycle.Enabled \<and> acct_status acct \<noteq> AccountStatus.Active
                     then (Err (AccountNotActive (acct_status acct)), r)
                   else if MAX_PROFILES_PER_ACCOUNT \<le> length (profiles_of r i)
                     then (Err AccountFull, r)
                   else (Ok \<lparr>ap_account = i, ap_force_disable = []\<rparr>,
                         r\<lparr>reg_bindings := reg_bindings r @ [(profile, i)]\<rparr>))))"
| "apply_change r (Unbind profile) lc =
     (case position (\<lambda>(k, _). k = profile) (reg_bindings r) of
        None \<Rightarrow> (Err NotBound, r)
      | Some pos \<Rightarrow>
          (case lc profile of
             None \<Rightarrow> (Err (UnknownProfile profile), r)
           | Some state \<Rightarrow>
               if state = ProfileLifecycle.Enabled then (Err (ProfileEnabled profile), r)
               else (Ok \<lparr>ap_account = snd (reg_bindings r ! pos), ap_force_disable = []\<rparr>,
                     r\<lparr>reg_bindings := remove_at pos (reg_bindings r)\<rparr>)))"
| "apply_change r (SetStatus i to) lc =
     (case position (\<lambda>a. acct_id a = i) (reg_accounts r) of
        None \<Rightarrow> (Err NoSuchAccount, r)
      | Some idx \<Rightarrow>
          let from = acct_status (reg_accounts r ! idx) in
          if from = AccountStatus.Closed then (Err AccountClosed, r)
          else if \<not> legal_status from to then (Err (InvalidTransition from to), r)
          else
            (case (if to \<noteq> AccountStatus.Active then gather_lifecycle lc to [] (profiles_of r i) else Ok []) of
               Err e \<Rightarrow> (Err e, r)
             | Ok force_disable \<Rightarrow>
                 (Ok \<lparr>ap_account = i, ap_force_disable = force_disable\<rparr>,
                  r\<lparr>reg_accounts := (reg_accounts r)
                      [idx := (reg_accounts r ! idx)\<lparr>acct_status := to\<rparr>]\<rparr>)))"

definition no_lifecycle :: ProfileLifecycles where
  "no_lifecycle = (\<lambda>_. None)"

definition open_account ::
    "AccountRegistry \<Rightarrow> SubscriberId \<Rightarrow> PlanId \<Rightarrow> (AccountId, AccountError) result \<times> AccountRegistry" where
  "open_account r subscriber plan =
     (let (res, r') = apply_change r (Open subscriber plan) no_lifecycle in (map_ok ap_account res, r'))"

definition bind_profile ::
    "AccountRegistry \<Rightarrow> AccountId \<Rightarrow> ProfileKey \<Rightarrow> ProfileLifecycles \<Rightarrow> (unit, AccountError) result \<times> AccountRegistry" where
  "bind_profile r i profile lc =
     (let (res, r') = apply_change r (Bind i profile) lc in (map_ok (\<lambda>_. ()) res, r'))"

definition unbind_profile ::
    "AccountRegistry \<Rightarrow> ProfileKey \<Rightarrow> ProfileLifecycles \<Rightarrow> (unit, AccountError) result \<times> AccountRegistry" where
  "unbind_profile r profile lc =
     (let (res, r') = apply_change r (Unbind profile) lc in (map_ok (\<lambda>_. ()) res, r'))"

definition suspend ::
    "AccountRegistry \<Rightarrow> AccountId \<Rightarrow> ProfileLifecycles \<Rightarrow> (ProfileKey list, AccountError) result \<times> AccountRegistry" where
  "suspend r i lc =
     (let (res, r') = apply_change r (SetStatus i AccountStatus.Suspended) lc
      in (map_ok ap_force_disable res, r'))"

definition reactivate ::
    "AccountRegistry \<Rightarrow> AccountId \<Rightarrow> (unit, AccountError) result \<times> AccountRegistry" where
  "reactivate r i =
     (let (res, r') = apply_change r (SetStatus i AccountStatus.Active) no_lifecycle
      in (map_ok (\<lambda>_. ()) res, r'))"

definition close_account ::
    "AccountRegistry \<Rightarrow> AccountId \<Rightarrow> ProfileLifecycles \<Rightarrow> (unit, AccountError) result \<times> AccountRegistry" where
  "close_account r i lc =
     (let (res, r') = apply_change r (SetStatus i AccountStatus.Closed) lc
      in (map_ok (\<lambda>_. ()) res, r'))"

definition registry_demo :: "ProfileLifecycles \<Rightarrow> (AccountRegistry, AccountError) result" where
  "registry_demo lc =
     (case open_account registry_new (SubscriberId 0xD00001) (PlanId 1) of
        (Err e, _) \<Rightarrow> Err e
      | (Ok a, r1) \<Rightarrow>
     (case open_account r1 (SubscriberId 0xD00002) (PlanId 2) of
        (Err e, _) \<Rightarrow> Err e
      | (Ok b, r2) \<Rightarrow>
     (case bind_profile r2 a \<lparr>pk_slot = 0, pk_profile = 0\<rparr> lc of
        (Err e, _) \<Rightarrow> Err e
      | (Ok _, r3) \<Rightarrow>
     (case bind_profile r3 a \<lparr>pk_slot = 0, pk_profile = 1\<rparr> lc of
        (Err e, _) \<Rightarrow> Err e
      | (Ok _, r4) \<Rightarrow>
     (case bind_profile r4 b \<lparr>pk_slot = 1, pk_profile = 0\<rparr> lc of
        (Err e, _) \<Rightarrow> Err e
      | (Ok _, r5) \<Rightarrow> Ok r5)))))"

subsection \<open>Invariant and abstract tables\<close>

definition status_of :: "AccountRegistry \<Rightarrow> AccountId \<Rightarrow> AccountStatus option" where
  "status_of r i = map_option acct_status (account r i)"

definition reg_wf :: "AccountRegistry \<Rightarrow> bool" where
  "reg_wf r \<longleftrightarrow>
     length (reg_accounts r) \<le> MAX_ACCOUNTS \<and>
     map acct_id (reg_accounts r) = map (\<lambda>n. AccountId (of_nat n)) [0..<length (reg_accounts r)] \<and>
     distinct (map fst (reg_bindings r)) \<and>
     (\<forall>(k, a)\<in>set (reg_bindings r).
        account r a \<noteq> None \<and> length (profiles_of r a) \<le> MAX_PROFILES_PER_ACCOUNT)"

type_synonym registry_tables =
  "(AccountId \<Rightarrow> AccountStatus option) \<times> (ProfileKey \<Rightarrow> AccountId option)"

definition registry_view :: "AccountRegistry \<Rightarrow> registry_tables" where
  "registry_view r = (status_of r, owner_of r)"

fun change_effect :: "Change \<Rightarrow> AccountId \<Rightarrow> registry_tables \<Rightarrow> registry_tables" where
  "change_effect (Open _ _) i (st, ow) = (st(i \<mapsto> AccountStatus.Active), ow)"
| "change_effect (Bind a p) i (st, ow) = (st, ow(p \<mapsto> a))"
| "change_effect (Unbind p) i (st, ow) = (st, ow(p := None))"
| "change_effect (SetStatus a to) i (st, ow) = (st(a \<mapsto> to), ow)"

fun accepts :: "AccountRegistry \<Rightarrow> Change \<Rightarrow> ProfileLifecycles \<Rightarrow> bool" where
  "accepts r (Open _ _) lc \<longleftrightarrow> length (reg_accounts r) < MAX_ACCOUNTS"
| "accepts r (Bind i p) lc \<longleftrightarrow>
     (case status_of r i of
        None \<Rightarrow> False
      | Some s \<Rightarrow> s \<noteq> AccountStatus.Closed \<and>
          (lc p = Some ProfileLifecycle.Enabled \<longrightarrow> s = AccountStatus.Active)) \<and>
     owner_of r p = None \<and> lc p \<noteq> None \<and> lc p \<noteq> Some ProfileLifecycle.Deleted \<and>
     length (profiles_of r i) < MAX_PROFILES_PER_ACCOUNT"
| "accepts r (Unbind p) lc \<longleftrightarrow>
     owner_of r p \<noteq> None \<and> lc p \<noteq> None \<and> lc p \<noteq> Some ProfileLifecycle.Enabled"
| "accepts r (SetStatus i to) lc \<longleftrightarrow>
     (case status_of r i of None \<Rightarrow> False | Some s \<Rightarrow> legal_status s to) \<and>
     (to \<noteq> AccountStatus.Active \<longrightarrow>
       (\<forall>k\<in>set (profiles_of r i). lc k \<noteq> None \<and>
          (to = AccountStatus.Closed \<longrightarrow> lc k \<noteq> Some ProfileLifecycle.Enabled)))"

fun forced_disables :: "AccountRegistry \<Rightarrow> Change \<Rightarrow> ProfileLifecycles \<Rightarrow> ProfileKey list" where
  "forced_disables r (SetStatus i AccountStatus.Suspended) lc =
     filter (\<lambda>k. lc k = Some ProfileLifecycle.Enabled) (profiles_of r i)"
| "forced_disables r _ lc = []"

subsection \<open>Basic facts\<close>

lemma owner_of_map_of: "owner_of r = map_of (reg_bindings r)"
proof
  fix p
  have "map_option snd (find (\<lambda>(k, _). k = p) xs) = map_of xs p" for xs :: "(ProfileKey \<times> AccountId) list"
    by (induction xs) auto
  then show "owner_of r p = map_of (reg_bindings r) p" by (simp add: owner_of_def)
qed

lemma set_profiles_of: "set (profiles_of r i) = {k. (k, i) \<in> set (reg_bindings r)}"
  by (auto simp: profiles_of_def image_iff)

lemma profiles_of_owner:
  "reg_wf r \<Longrightarrow> k \<in> set (profiles_of r i) \<longleftrightarrow> owner_of r k = Some i"
  by (auto simp: set_profiles_of owner_of_map_of reg_wf_def)

lemma profiles_of_bound:
  assumes "reg_wf r"
  shows "length (profiles_of r i) \<le> MAX_PROFILES_PER_ACCOUNT"
proof (cases "profiles_of r i")
  case (Cons k ks)
  then have "(k, i) \<in> set (reg_bindings r)" using set_profiles_of [of r i] by auto
  with assms show ?thesis by (auto simp: reg_wf_def)
qed simp

lemma account_id: "account r i = Some a \<Longrightarrow> acct_id a = i"
  by (auto simp: account_def dest: find_Some_set)

lemma account_wf:
  assumes "reg_wf r"
  shows "account r i = (if unat (account_no i) < length (reg_accounts r)
    then Some (reg_accounts r ! unat (account_no i)) else None)"
proof -
  let ?as = "reg_accounts r"
  have len: "length ?as \<le> 16" and "map acct_id ?as = map (\<lambda>n. AccountId (of_nat n)) [0..<length ?as]"
    using assms by (auto simp: reg_wf_def MAX_ACCOUNTS_def)
  then have ids: "acct_id (?as ! n) = AccountId (of_nat n)" if "n < length ?as" for n
    using that by (metis (no_types, lifting) add.left_neutral length_map length_upt minus_nat.diff_0
        nth_map nth_upt)
  have eq: "acct_id (?as ! n) = i \<longleftrightarrow> n = unat (account_no i)" if "n < length ?as" for n
    using that len by (cases i) (auto simp: ids unat_of_nat_lt)
  show ?thesis
  proof (cases "unat (account_no i) < length ?as")
    case True
    then have "position (\<lambda>a. acct_id a = i) ?as = Some (unat (account_no i))"
      by (intro position_unique) (auto simp: eq)
    with True show ?thesis by (simp add: account_def find_position)
  next
    case False
    then have "\<forall>a\<in>set ?as. acct_id a \<noteq> i" by (metis eq in_set_conv_nth)
    with False show ?thesis by (auto simp: account_def find_None)
  qed
qed

lemma gather_lifecycle_Ok:
  "gather_lifecycle lc to acc keys = Ok fd \<longleftrightarrow>
     (\<forall>k\<in>set keys. lc k \<noteq> None \<and> (to = AccountStatus.Closed \<longrightarrow> lc k \<noteq> Some ProfileLifecycle.Enabled)) \<and>
     fd = acc @ filter (\<lambda>k. lc k = Some ProfileLifecycle.Enabled) keys"
  by (induction keys arbitrary: acc) (auto split: option.splits)

lemma gather_lifecycle_Err:
  "gather_lifecycle lc to acc keys = Err e \<Longrightarrow>
   \<exists>k\<in>set keys. lc k = None \<or> to = AccountStatus.Closed \<and> lc k = Some ProfileLifecycle.Enabled"
  by (induction keys arbitrary: acc) (auto split: option.splits if_splits)

lemma legal_status_iff:
  "legal_status s t \<longleftrightarrow> s \<noteq> AccountStatus.Closed \<and> s \<noteq> t"
  by (cases s; cases t) auto

lemma remove_at_position:
  "distinct (map fst xs) \<Longrightarrow> position (\<lambda>(k, _). k = p) xs = Some i \<Longrightarrow>
   remove_at i xs = filter (\<lambda>(k, _). k \<noteq> p) xs"
proof (induction xs arbitrary: i)
  case (Cons x xs)
  then show ?case
    by (cases x) (auto simp: image_iff split: if_splits intro!: filter_True [symmetric])
qed simp

lemma map_of_filter_key: "map_of (filter (\<lambda>(k, _). k \<noteq> p) xs) = (map_of xs)(p := None)"
  by (induction xs) (auto simp: fun_eq_iff)

lemma position_owner:
  "position (\<lambda>(k, _). k = p) xs = Some i \<Longrightarrow> map_of xs p = Some (snd (xs ! i))"
  by (induction xs arbitrary: i) (auto split: if_splits)

lemma position_no_owner: "position (\<lambda>(k, _). k = p) xs = None \<longleftrightarrow> map_of xs p = None"
  by (auto simp: position_None map_of_eq_None_iff image_iff)

lemma apply_change_Err_same: "apply_change r c lc = (Err e, r') \<Longrightarrow> r' = r"
  by (cases c) (auto simp: Let_def split: option.splits if_splits result.splits)

lemma status_position:
  "position (\<lambda>a. acct_id a = i) (reg_accounts r) = Some idx \<Longrightarrow>
   status_of r i = Some (acct_status (reg_accounts r ! idx))"
  by (simp add: status_of_def account_def find_position)

lemma status_no_position:
  "position (\<lambda>a. acct_id a = i) (reg_accounts r) = None \<longleftrightarrow> status_of r i = None"
  by (simp add: status_of_def account_def find_position)

lemma apply_change_accepts:
  "is_ok (fst (apply_change r c lc)) \<longleftrightarrow> accepts r c lc"
proof (cases c)
  case (Bind i p)
  then show ?thesis by (auto simp: status_of_def split: option.splits)
next
  case (Unbind p)
  then show ?thesis
    by (auto simp: owner_of_map_of position_no_owner [symmetric] dest: position_owner split: option.splits)
next
  case (SetStatus i to)
  show ?thesis
    unfolding SetStatus
    by (cases "position (\<lambda>a. acct_id a = i) (reg_accounts r)")
      (auto simp: status_position status_no_position [THEN iffD1] Let_def legal_status_iff gather_lifecycle_Ok
        dest: gather_lifecycle_Err split: result.splits)
qed (auto simp: Let_def)

lemma account_open:
  assumes "reg_wf r"
  shows "account (r\<lparr>reg_accounts := reg_accounts r @ [a]\<rparr>) i =
    (if acct_id a = i \<and> account r i = None then Some a else account r i)"
  by (auto simp: account_def find_append split: option.splits)

lemma account_set_status:
  assumes "position (\<lambda>a. acct_id a = i) (reg_accounts r) = Some idx"
  shows "account (r\<lparr>reg_accounts := (reg_accounts r)[idx := (reg_accounts r ! idx)\<lparr>acct_status := to\<rparr>]\<rparr>) j =
    (if j = i then map_option (acct_status_update (\<lambda>_. to)) (account r i) else account r j)"
proof -
  have *: "(reg_accounts r)[idx := (reg_accounts r ! idx)\<lparr>acct_status := to\<rparr>] =
      update_first (\<lambda>a. acct_id a = i) (acct_status_update (\<lambda>_. to)) (reg_accounts r)"
    using assms by (simp add: update_first_position)
  show ?thesis
    unfolding account_def * AccountRegistry.simps
    by (auto simp: find_update_first_same intro!: find_update_first_other)
qed

lemma account_bindings [simp]: "account (r\<lparr>reg_bindings := b\<rparr>) = account r"
  by (simp add: account_def [abs_def])

lemma status_bindings [simp]: "status_of (r\<lparr>reg_bindings := b\<rparr>) = status_of r"
  by (simp add: status_of_def [abs_def])

lemma owner_accounts [simp]: "owner_of (r\<lparr>reg_accounts := a\<rparr>) = owner_of r"
  by (simp add: owner_of_def [abs_def])

lemma profiles_accounts [simp]: "profiles_of (r\<lparr>reg_accounts := a\<rparr>) = profiles_of r"
  by (simp add: profiles_of_def [abs_def])

lemma apply_open_fresh:
  "reg_wf r \<Longrightarrow> length (reg_accounts r) < MAX_ACCOUNTS \<Longrightarrow>
   account r (AccountId (of_nat (length (reg_accounts r)))) = None"
  by (simp add: account_wf MAX_ACCOUNTS_def unat_of_nat_lt)

lemma apply_change_view:
  assumes wf: "reg_wf r" and ap: "apply_change r c lc = (Ok a, r')"
  shows "registry_view r' = change_effect c (ap_account a) (registry_view r)"
proof (cases c)
  case (Open subscriber plan)
  with ap show ?thesis
    by (auto simp: registry_view_def Let_def status_of_def fun_eq_iff account_open [OF wf] apply_open_fresh [OF wf]
        split: if_splits)
next
  case (Bind i p)
  with ap have "owner_of r p = None" "r' = r\<lparr>reg_bindings := reg_bindings r @ [(p, i)]\<rparr>"
    by (auto split: option.splits if_splits)
  with Bind show ?thesis
    by (auto simp: registry_view_def owner_of_map_of map_add_def fun_eq_iff split: option.splits)
next
  case (Unbind p)
  with ap obtain pos where "position (\<lambda>(k, _). k = p) (reg_bindings r) = Some pos"
    "r' = r\<lparr>reg_bindings := remove_at pos (reg_bindings r)\<rparr>"
    by (auto split: option.splits if_splits)
  with Unbind wf show ?thesis
    by (simp add: registry_view_def owner_of_map_of remove_at_position map_of_filter_key reg_wf_def)
next
  case (SetStatus i to)
  with ap obtain idx where idx: "position (\<lambda>a. acct_id a = i) (reg_accounts r) = Some idx"
    and r': "r' = r\<lparr>reg_accounts := (reg_accounts r)[idx := (reg_accounts r ! idx)\<lparr>acct_status := to\<rparr>]\<rparr>"
    by (auto simp: Let_def split: option.splits if_splits result.splits)
  have "account r i \<noteq> None" using idx by (simp add: account_def find_position)
  then show ?thesis
    unfolding SetStatus r' by (auto simp: registry_view_def status_of_def fun_eq_iff account_set_status [OF idx])
qed

lemma apply_change_forced:
  assumes "apply_change r c lc = (Ok a, r')"
  shows "ap_force_disable a = forced_disables r c lc"
proof (cases c)
  case (SetStatus i to)
  with assms show ?thesis
    by (cases to) (auto simp: Let_def gather_lifecycle_Ok split: option.splits if_splits result.splits)
qed (use assms in \<open>auto simp: Let_def split: option.splits if_splits result.splits\<close>)

lemma forced_enabled:
  "k \<in> set (forced_disables r c lc) \<Longrightarrow> lc k = Some ProfileLifecycle.Enabled"
  by (induction r c lc rule: forced_disables.induct) auto

lemma reg_wfI:
  assumes "length (reg_accounts r) \<le> MAX_ACCOUNTS"
    and "map acct_id (reg_accounts r) = map (\<lambda>n. AccountId (of_nat n)) [0..<length (reg_accounts r)]"
    and "distinct (map fst (reg_bindings r))"
    and "\<And>k a. (k, a) \<in> set (reg_bindings r) \<Longrightarrow> account r a \<noteq> None"
    and "\<And>a. length (profiles_of r a) \<le> MAX_PROFILES_PER_ACCOUNT"
  shows "reg_wf r"
  using assms by (auto simp: reg_wf_def)

lemma apply_change_wf:
  assumes wf: "reg_wf r"
  shows "reg_wf (snd (apply_change r c lc))"
proof (cases rule: result_state_cases [of "apply_change r c lc"])
  case (Err e r')
  then show ?thesis using wf apply_change_Err_same [OF Err] by simp
next
  case (Ok ap r')
  note base = wf [unfolded reg_wf_def]
  show ?thesis
  proof (cases c)
    case (Open subscriber plan)
    let ?x = "\<lparr>acct_id = AccountId (of_nat (length (reg_accounts r))), acct_subscriber = subscriber,
      acct_plan = plan, acct_status = AccountStatus.Active\<rparr>"
    have len: "length (reg_accounts r) < MAX_ACCOUNTS" and r': "r' = r\<lparr>reg_accounts := reg_accounts r @ [?x]\<rparr>"
      using Ok Open by (auto simp: Let_def split: if_splits)
    show ?thesis unfolding Ok snd_conv
      by (rule reg_wfI) (use base len profiles_of_bound [OF wf] in \<open>auto simp: r' account_open [OF wf]\<close>)
  next
    case (Bind i p)
    with Ok have acc: "account r i \<noteq> None" "owner_of r p = None"
      "length (profiles_of r i) < MAX_PROFILES_PER_ACCOUNT"
      and r': "r' = r\<lparr>reg_bindings := reg_bindings r @ [(p, i)]\<rparr>"
      by (auto split: option.splits if_splits)
    have "p \<notin> fst ` set (reg_bindings r)" using acc(2) by (simp add: owner_of_map_of map_of_eq_None_iff)
    moreover have "profiles_of r' a = profiles_of r a @ (if a = i then [p] else [])" for a
      by (simp add: r' profiles_of_def)
    ultimately show ?thesis unfolding Ok snd_conv
      by (intro reg_wfI) (use base acc profiles_of_bound [OF wf] in \<open>auto simp: r' le_less\<close>)
  next
    case (Unbind p)
    with Ok obtain pos where "position (\<lambda>(k, _). k = p) (reg_bindings r) = Some pos"
      "r' = r\<lparr>reg_bindings := remove_at pos (reg_bindings r)\<rparr>"
      by (auto split: option.splits if_splits)
    with base have r': "r' = r\<lparr>reg_bindings := filter (\<lambda>(k, _). k \<noteq> p) (reg_bindings r)\<rparr>"
      by (simp add: remove_at_position)
    have "length (profiles_of r' a) \<le> length (profiles_of r a)" for a
      by (simp add: r' profiles_of_def) (metis (no_types, lifting) filter_filter length_filter_le filter_cong
          conj_commute)
    with profiles_of_bound [OF wf] have "length (profiles_of r' a) \<le> MAX_PROFILES_PER_ACCOUNT" for a
      by (meson le_trans)
    then show ?thesis unfolding Ok snd_conv
      by (intro reg_wfI) (use base in \<open>auto simp: r' intro: distinct_map_filter\<close>)
  next
    case (SetStatus i to)
    with Ok obtain idx where idx: "position (\<lambda>a. acct_id a = i) (reg_accounts r) = Some idx"
      and r': "r' = r\<lparr>reg_accounts := (reg_accounts r)[idx := (reg_accounts r ! idx)\<lparr>acct_status := to\<rparr>]\<rparr>"
      by (auto simp: Let_def split: option.splits if_splits result.splits)
    have "map acct_id (reg_accounts r') = map acct_id (reg_accounts r)"
      using idx by (intro nth_equalityI) (auto simp: r' nth_list_update position_Some)
    then show ?thesis unfolding Ok snd_conv
      by (intro reg_wfI) (use base profiles_of_bound [OF wf] in
        \<open>auto simp: r' account_set_status [OF idx]\<close>)
  qed
qed

lemma registry_new_wf: "reg_wf registry_new"
  by (simp add: reg_wf_def registry_new_def)

text \<open>The callers of the registry: any sequence of changes, each with its own lifecycle view.\<close>

definition registry_call :: "Change \<times> ProfileLifecycles \<Rightarrow> AccountRegistry \<Rightarrow> AccountRegistry" where
  "registry_call c r = snd (apply_change r (fst c) (snd c))"

interpretation registry_machine: machine registry_new registry_call reg_wf
  by unfold_locales (auto simp: registry_call_def registry_new_wf apply_change_wf)

lemma registry_view_split: "registry_view r = (st, ow) \<longleftrightarrow> status_of r = st \<and> owner_of r = ow"
  by (simp add: registry_view_def)

lemma apply_change_status:
  assumes "reg_wf r" "apply_change r c lc = (Ok a, r')"
  shows "status_of r' = fst (change_effect c (ap_account a) (status_of r, owner_of r))"
    and "owner_of r' = snd (change_effect c (ap_account a) (status_of r, owner_of r))"
  using apply_change_view [OF assms] by (simp_all add: registry_view_def prod_eq_iff)

lemma open_fresh:
  assumes "reg_wf r" "apply_change r (Open s p) lc = (Ok a, r')"
  shows "status_of r (ap_account a) = None"
  using assms by (auto simp: Let_def status_of_def apply_open_fresh split: if_splits)

lemma closed_kept:
  assumes wf: "reg_wf r" and c: "status_of r i = Some AccountStatus.Closed"
  shows "status_of (snd (apply_change r ch lc)) i = Some AccountStatus.Closed"
proof (cases rule: result_state_cases [of "apply_change r ch lc"])
  case (Err e r')
  with c show ?thesis by (simp add: apply_change_Err_same [OF Err])
next
  case (Ok a r')
  have acc: "accepts r ch lc" using apply_change_accepts [of r ch lc] Ok by simp
  show ?thesis
  proof (cases ch)
    case (Open s p)
    with open_fresh [OF wf] Ok have "status_of r (ap_account a) = None" by simp
    with Open Ok c apply_change_status(1) [OF wf Ok] show ?thesis by auto
  next
    case (SetStatus j to)
    with Ok c acc apply_change_status(1) [OF wf Ok] show ?thesis by (auto simp: legal_status_iff)
  qed (use Ok c apply_change_status(1) [OF wf Ok] in auto)
qed

interpretation closed_account: stable_fact registry_new registry_call reg_wf
  "\<lambda>r. status_of r i = Some AccountStatus.Closed" for i
  by unfold_locales (simp add: registry_call_def closed_kept)

subsection \<open>The coupling with the lifecycle\<close>

lemma audit_empty_iff:
  assumes "reg_wf r"
  shows "registry_audit r lc = [] \<longleftrightarrow>
    (\<forall>k i. owner_of r k = Some i \<longrightarrow> lc k = Some ProfileLifecycle.Enabled \<longrightarrow> status_of r i = Some AccountStatus.Active)"
proof -
  have "owner_of r k = Some i \<longleftrightarrow> (k, i) \<in> set (reg_bindings r)" for k i
    using assms by (simp add: owner_of_map_of reg_wf_def)
  then show ?thesis
    by (fastforce simp: registry_audit_def filter_empty_conv status_of_def split: option.splits)
qed

definition after_disables :: "ProfileLifecycles \<Rightarrow> ProfileKey list \<Rightarrow> ProfileLifecycles" where
  "after_disables lc ks = (\<lambda>k. if k \<in> set ks then Some ProfileLifecycle.Disabled else lc k)"

lemma coupling_kept:
  assumes wf: "reg_wf r" and au: "registry_audit r lc = []" and ap: "apply_change r c lc = (Ok a, r')"
  shows "registry_audit r' (after_disables lc (ap_force_disable a)) = []"
proof -
  have wf': "reg_wf r'" using apply_change_wf [OF wf, of c lc] ap by simp
  have acc: "accepts r c lc" using apply_change_accepts [of r c lc] ap by simp
  note old = au [unfolded audit_empty_iff [OF wf], rule_format]
  note view = apply_change_status [OF wf ap]
  have "status_of r' i = Some AccountStatus.Active"
    if k: "owner_of r' k = Some i" and e: "after_disables lc (ap_force_disable a) k = Some ProfileLifecycle.Enabled"
    for k i
  proof -
    have nf: "k \<notin> set (forced_disables r c lc)" and lk: "lc k = Some ProfileLifecycle.Enabled"
      using e by (auto simp: after_disables_def apply_change_forced [OF ap] split: if_splits)
    show ?thesis
    proof (cases c)
      case (Open s p)
      with k lk view old [of k i] show ?thesis by auto
    next
      case (Bind j p)
      with k lk view acc old [of k i] show ?thesis by (auto split: if_splits option.splits)
    next
      case (Unbind p)
      with k lk view acc old [of k i] show ?thesis by (auto split: if_splits)
    next
      case (SetStatus j to)
      then have "owner_of r k = Some i" using k view by simp
      moreover from this have "k \<in> set (profiles_of r i)" by (simp add: profiles_of_owner [OF wf])
      ultimately show ?thesis
        using SetStatus nf lk view acc old [of k i] by (cases to) (auto split: if_splits)
    qed
  qed
  then show ?thesis unfolding audit_empty_iff [OF wf'] by blast
qed

text \<open>
  What the registry asks of whoever holds the eSIM lifecycle: a view that \<open>apply_change\<close> can
  read, and a disable that moves exactly the profile it names from enabled to disabled.
\<close>

locale lifecycle_store =
  fixes view :: "'st \<Rightarrow> ProfileLifecycles"
    and disable :: "ProfileKey \<Rightarrow> 'st \<Rightarrow> 'st"
    and store_ok :: "'st \<Rightarrow> bool"
  assumes disable_ok: "store_ok st \<Longrightarrow> store_ok (disable k st)"
    and disable_view: "store_ok st \<Longrightarrow>
      view (disable k st) = (view st)
        (k := if view st k = Some ProfileLifecycle.Enabled then Some ProfileLifecycle.Disabled else view st k)"
begin

lemma disable_all_ok: "store_ok st \<Longrightarrow> store_ok (fold disable ks st)"
  by (induction ks arbitrary: st) (auto intro: disable_ok)

lemma disable_all_view:
  "store_ok st \<Longrightarrow> view (fold disable ks st) j =
    (if j \<in> set ks \<and> view st j = Some ProfileLifecycle.Enabled then Some ProfileLifecycle.Disabled else view st j)"
  by (induction ks arbitrary: st) (auto simp: disable_ok disable_view)

lemma handshake:
  assumes "reg_wf r" "store_ok st" "registry_audit r (view st) = []"
    and "apply_change r c (view st) = (Ok a, r')"
  shows "registry_audit r' (view (fold disable (ap_force_disable a) st)) = []"
proof -
  have "view st k = Some ProfileLifecycle.Enabled" if "k \<in> set (forced_disables r c (view st))" for k
    using that by (rule forced_enabled)
  then have "view (fold disable (ap_force_disable a) st) = after_disables (view st) (ap_force_disable a)"
    using assms(2)
    by (auto simp: fun_eq_iff disable_all_view after_disables_def apply_change_forced [OF assms(4)])
  then show ?thesis using coupling_kept [OF assms(1,3,4)] by simp
qed

end

subsection \<open>Properties\<close>

text \<open>
  The registry stays well formed under every sequence of changes, each validated against
  whatever lifecycle view its caller supplies: at most sixteen accounts numbered in order, every
  profile bound at most once and only to an account that exists, at most four profiles each.
\<close>

theorem registry_runs_wf: "reg_wf (fold registry_call calls registry_new)"
  by (rule registry_machine.run_inv)

text \<open>The rules as the head of \<open>account.rs\<close> documents them, over the registry's two tables.\<close>

definition standings :: "AccountRegistry \<Rightarrow> AccountId \<Rightarrow> AccountStatus option" where
  "standings r = map_of (map (\<lambda>a. (acct_id a, acct_status a)) (reg_accounts r))"

definition owners :: "AccountRegistry \<Rightarrow> ProfileKey \<Rightarrow> AccountId option" where
  "owners r = map_of (reg_bindings r)"

definition bound_to :: "AccountRegistry \<Rightarrow> AccountId \<Rightarrow> ProfileKey list" where
  "bound_to r i = [k. (k, a) \<leftarrow> reg_bindings r, a = i]"

definition standing_moves :: "(AccountStatus \<times> AccountStatus) set" where
  "standing_moves =
     {(AccountStatus.Active, AccountStatus.Suspended), (AccountStatus.Suspended, AccountStatus.Active),
      (AccountStatus.Active, AccountStatus.Closed), (AccountStatus.Suspended, AccountStatus.Closed)}"

fun documented_change :: "AccountRegistry \<Rightarrow> Change \<Rightarrow> ProfileLifecycles \<Rightarrow> bool" where
  "documented_change r (Open _ _) lc \<longleftrightarrow> length (reg_accounts r) < MAX_ACCOUNTS"
| "documented_change r (Bind i p) lc \<longleftrightarrow>
     (\<exists>s. standings r i = Some s \<and> s \<noteq> AccountStatus.Closed \<and> (lc p = Some ProfileLifecycle.Enabled \<longrightarrow> s = AccountStatus.Active)) \<and>
     owners r p = None \<and> lc p \<noteq> None \<and> lc p \<noteq> Some ProfileLifecycle.Deleted \<and> length (bound_to r i) < MAX_PROFILES_PER_ACCOUNT"
| "documented_change r (Unbind p) lc \<longleftrightarrow> owners r p \<noteq> None \<and> lc p \<noteq> None \<and> lc p \<noteq> Some ProfileLifecycle.Enabled"
| "documented_change r (SetStatus i to) lc \<longleftrightarrow>
     (\<exists>s. standings r i = Some s \<and> (s, to) \<in> standing_moves) \<and>
     (to \<noteq> AccountStatus.Active \<longrightarrow> (\<forall>k\<in>set (bound_to r i). lc k \<noteq> None)) \<and>
     (to = AccountStatus.Closed \<longrightarrow> (\<forall>k\<in>set (bound_to r i). lc k \<noteq> Some ProfileLifecycle.Enabled))"

definition disables_owed :: "AccountRegistry \<Rightarrow> Change \<Rightarrow> ProfileLifecycles \<Rightarrow> ProfileKey list" where
  "disables_owed r c lc =
     (case c of SetStatus i to \<Rightarrow> if to = AccountStatus.Suspended then filter (\<lambda>k. lc k = Some ProfileLifecycle.Enabled) (bound_to r i) else []
      | _ \<Rightarrow> [])"

lemma standings_eq: "status_of r = standings r"
proof
  fix i
  have "map_option acct_status (find (\<lambda>a. acct_id a = i) as) = map_of (map (\<lambda>a. (acct_id a, acct_status a)) as) i" for as :: "Account list"
    by (induction as) auto
  then show "status_of r i = standings r i" by (simp add: status_of_def account_def standings_def)
qed

lemma bound_to_eq: "profiles_of r i = bound_to r i"
proof -
  have "map fst (filter (\<lambda>(_, a). a = i) bs) = [k. (k, a) \<leftarrow> bs, a = i]" for bs :: "(ProfileKey \<times> AccountId) list"
    by (induction bs) auto
  then show ?thesis by (simp add: profiles_of_def bound_to_def)
qed

lemma standing_moves_iff: "(s, to) \<in> standing_moves \<longleftrightarrow> legal_status s to"
  by (cases s; cases to) (simp_all add: standing_moves_def)

lemma documented_change_eq: "documented_change r c lc \<longleftrightarrow> accepts r c lc"
  by (cases c) (auto simp: standings_eq [symmetric] owners_def owner_of_map_of [symmetric] bound_to_eq [symmetric] standing_moves_iff split: option.splits)

lemma disables_owed_eq: "disables_owed r c lc = forced_disables r c lc"
proof (cases c)
  case (SetStatus i to)
  then show ?thesis by (cases to) (simp_all add: disables_owed_def bound_to_eq)
qed (simp_all add: disables_owed_def)

text \<open>
  C18.  A change is accepted exactly under the documented rules: an account is opened while there is
  room; a profile is bound to an account that is not closed (active, if the profile is enabled) if it
  exists, is not deleted, has no owner and the account has room; it is unbound unless it is enabled;
  standing moves between active and suspended and from both to closed, which is final, the fate of
  every bound profile being known and none enabled when the account closes.  A refused change leaves
  the registry as it was.  An accepted one updates the table of standings and the table of owners in
  the one documented place, and its forced disables are exactly the enabled profiles of the account
  being suspended, in binding order.
\<close>

theorem apply_change_refines:
  assumes "reg_wf r"
  shows "case apply_change r c lc of
      (Err e, r') \<Rightarrow> \<not> documented_change r c lc \<and> r' = r
    | (Ok a, r') \<Rightarrow> documented_change r c lc
        \<and> (standings r', owners r') = change_effect c (ap_account a) (standings r, owners r)
        \<and> ap_force_disable a = disables_owed r c lc"
  using apply_change_accepts [of r c lc] apply_change_Err_same [of r c lc] apply_change_view [OF assms, of c lc]
    apply_change_forced [of r c lc]
  by (auto simp: documented_change_eq disables_owed_eq registry_view_def standings_eq owners_def owner_of_map_of split: prod.splits result.splits)

theorem apply_change_refines_witness:
  "let r = snd (open_account registry_new (SubscriberId 5) (PlanId 1));
       k = \<lparr>pk_slot = 0, pk_profile = 0\<rparr>;
       r' = snd (apply_change r (Bind (AccountId 0) k) (\<lambda>_. Some ProfileLifecycle.Disabled))
   in owners r' k = Some (AccountId 0) \<and> standings r' (AccountId 0) = Some AccountStatus.Active \<and>
      \<not> documented_change r (SetStatus (AccountId 0) AccountStatus.Active) (\<lambda>_. None)"
proof -
  let ?r = "snd (open_account registry_new (SubscriberId 5) (PlanId 1))"
  let ?k = "\<lparr>pk_slot = 0, pk_profile = 0\<rparr> :: ProfileKey"
  have r: "?r = \<lparr>reg_accounts = [\<lparr>acct_id = AccountId 0, acct_subscriber = SubscriberId 5,
      acct_plan = PlanId 1, acct_status = AccountStatus.Active\<rparr>], reg_bindings = []\<rparr>"
    by (simp add: open_account_def registry_new_def MAX_ACCOUNTS_def Let_def)
  have wf: "reg_wf ?r" by (simp add: r reg_wf_def MAX_ACCOUNTS_def)
  have t: "standings ?r = [AccountId 0 \<mapsto> AccountStatus.Active]" "owners ?r = Map.empty" "bound_to ?r i = []" for i
    by (simp_all add: r standings_def owners_def bound_to_def)
  have "documented_change ?r (Bind (AccountId 0) ?k) (\<lambda>_. Some ProfileLifecycle.Disabled)"
    by (simp add: t MAX_PROFILES_PER_ACCOUNT_def)
  moreover obtain x r1 where a: "apply_change ?r (Bind (AccountId 0) ?k) (\<lambda>_. Some ProfileLifecycle.Disabled) = (x, r1)" by (metis prod.exhaust)
  ultimately have "(standings r1, owners r1) = ([AccountId 0 \<mapsto> AccountStatus.Active], [?k \<mapsto> AccountId 0])"
    using apply_change_refines [OF wf, of "Bind (AccountId 0) ?k" "\<lambda>_. Some ProfileLifecycle.Disabled"]
    unfolding a by (cases x) (simp_all add: t)
  then show ?thesis unfolding Let_def a by (simp add: t standing_moves_def)
qed

text \<open>
  A closed account stays closed, whatever is asked of the registry afterwards.
\<close>

theorem closed_is_final:
  assumes "reg_wf r" and "status_of r i = Some AccountStatus.Closed"
  shows "status_of (fold registry_call calls r) i = Some AccountStatus.Closed"
  using assms by (rule closed_account.fold_fact)

theorem closed_is_final_witness:
  "let r = snd (close_account (snd (open_account registry_new (SubscriberId 5) (PlanId 1))) (AccountId 0) no_lifecycle)
   in status_of (fold registry_call [(SetStatus (AccountId 0) AccountStatus.Active, no_lifecycle)] r) (AccountId 0)
      = Some AccountStatus.Closed"
proof -
  let ?r = "snd (close_account (snd (open_account registry_new (SubscriberId 5) (PlanId 1))) (AccountId 0) no_lifecycle)"
  have r: "?r = \<lparr>reg_accounts = [\<lparr>acct_id = AccountId 0, acct_subscriber = SubscriberId 5,
      acct_plan = PlanId 1, acct_status = AccountStatus.Closed\<rparr>], reg_bindings = []\<rparr>"
    by (simp add: close_account_def open_account_def registry_new_def MAX_ACCOUNTS_def profiles_of_def Let_def)
  have "reg_wf ?r" "status_of ?r (AccountId 0) = Some AccountStatus.Closed"
    by (simp_all add: r reg_wf_def MAX_ACCOUNTS_def status_of_def account_def)
  then show ?thesis
    using closed_is_final [of ?r "AccountId 0" "[(SetStatus (AccountId 0) AccountStatus.Active, no_lifecycle)]"]
    by (simp add: Let_def)
qed

text \<open>
  The enable gate \<open>check_enable\<close> passes exactly when the profile is bound to that account
  and the account is active.
\<close>

theorem check_enable_iff:
  "check_enable r i p = Ok () \<longleftrightarrow> owner_of r p = Some i \<and> status_of r i = Some AccountStatus.Active"
  by (auto simp: check_enable_def status_of_def split: option.splits AccountStatus.splits)

end
