(* ===== verification/Selection.thy ===== *)
theory Selection
  imports Prelude "HOL-Library.Product_Lexorder" "HOL-Library.Multiset"
begin

text \<open>
  The network selection of \<open>mobile/src/selection.rs\<close>: one pure decision over the account's
  standing, the plan and the networks the radio sees.  The loop over the candidates is a fold
  with the source's two variables; \<open>rank\<close> is the source's tuple, compared lexicographically
  with the order of the network identifier reversed.  The lemmas show that the loop finds a
  candidate of greatest rank, which gives the exact meaning of every answer and that the order
  of the radio's list does not matter.
\<close>

definition MAX_CANDIDATES :: nat where
  "MAX_CANDIDATES = 32"

definition MAX_ALLOWED_NETWORKS :: nat where
  "MAX_ALLOWED_NETWORKS = 64"

record NetworkId =
  nid_mcc :: u16
  nid_mnc :: u16

datatype AccountStanding = Active | Suspended | Closed

record Candidate =
  cand_network :: NetworkId
  cand_signal :: i32
  cand_is_home :: bool

record SelectionInput =
  sel_standing :: AccountStanding
  sel_allowed :: "NetworkId list"
  sel_preferred :: "NetworkId option"
  sel_roaming_allowed :: bool
  sel_candidates :: "Candidate list"

datatype SelectionReason = PlanPreferred | HomeNetwork | StrongestSignal

datatype RefusalReason =
    AccountSuspended
  | AccountClosed
  | TooManyCandidates
  | TooManyAllowedNetworks
  | NoCandidates
  | NoAllowedNetworksInPlan
  | NoAllowedCandidate
  | RoamingNotPermitted

datatype Selection = Allowed NetworkId SelectionReason | Refused RefusalReason

subsection \<open>The order of candidates\<close>

text \<open>The derived order of \<open>NetworkId\<close> compares the country code, then the network code.\<close>

definition network_order :: "NetworkId \<Rightarrow> u16 \<times> u16" where
  "network_order n = (nid_mcc n, nid_mnc n)"

text \<open>\<open>core::cmp::Reverse\<close> on network identifiers.\<close>

datatype Reverse = Reverse NetworkId

instantiation Reverse :: linorder
begin

fun less_eq_Reverse :: "Reverse \<Rightarrow> Reverse \<Rightarrow> bool" where
  "less_eq_Reverse (Reverse a) (Reverse b) \<longleftrightarrow> network_order b \<le> network_order a"

fun less_Reverse :: "Reverse \<Rightarrow> Reverse \<Rightarrow> bool" where
  "less_Reverse (Reverse a) (Reverse b) \<longleftrightarrow> network_order b < network_order a"

instance
proof
  have inj: "network_order a = network_order b \<Longrightarrow> a = b" for a b
    by (cases a; cases b) (auto simp: network_order_def)
  fix x y z :: Reverse
  show "(x < y) = (x \<le> y \<and> \<not> y \<le> x)" by (cases x; cases y) auto
  show "x \<le> x" by (cases x) auto
  show "x \<le> y \<Longrightarrow> y \<le> z \<Longrightarrow> x \<le> z" by (cases x; cases y; cases z) auto
  show "x \<le> y \<Longrightarrow> y \<le> x \<Longrightarrow> x = y" by (cases x; cases y) (auto dest: inj)
  show "x \<le> y \<or> y \<le> x" by (cases x; cases y) auto
qed

end

definition rank :: "Candidate \<Rightarrow> bool \<Rightarrow> bool \<times> bool \<times> int \<times> Reverse" where
  "rank c is_pref = (is_pref, cand_is_home c, sint (cand_signal c), Reverse (cand_network c))"

subsection \<open>The decision\<close>

text \<open>One turn of the loop over the candidates; the pair is \<open>any_allowed\<close> and \<open>best\<close>.\<close>

definition consider_candidate ::
    "SelectionInput \<Rightarrow> Candidate \<Rightarrow> bool \<times> (Candidate \<times> bool) option \<Rightarrow> bool \<times> (Candidate \<times> bool) option" where
  "consider_candidate input c acc =
     (let best = snd acc in
      if \<not> cand_is_home c \<and> \<not> sel_roaming_allowed input then (True, best)
      else
        let is_pref = (sel_preferred input = Some (cand_network c));
            better = (case best of None \<Rightarrow> True | Some (b, b_pref) \<Rightarrow> rank b b_pref < rank c is_pref)
        in (True, if better then Some (c, is_pref) else best))"

definition select_network :: "SelectionInput \<Rightarrow> Selection" where
  "select_network input =
     (case sel_standing input of
        AccountStanding.Suspended \<Rightarrow> Refused RefusalReason.AccountSuspended
      | AccountStanding.Closed \<Rightarrow> Refused RefusalReason.AccountClosed
      | AccountStanding.Active \<Rightarrow>
          if MAX_CANDIDATES < length (sel_candidates input) then Refused TooManyCandidates
          else if MAX_ALLOWED_NETWORKS < length (sel_allowed input) then Refused TooManyAllowedNetworks
          else if sel_candidates input = [] then Refused NoCandidates
          else if sel_allowed input = [] then Refused NoAllowedNetworksInPlan
          else
            (case fold (consider_candidate input)
                    (filter (\<lambda>c. cand_network c \<in> set (sel_allowed input)) (sel_candidates input))
                    (False, None) of
               (_, Some (c, is_pref)) \<Rightarrow>
                 Allowed (cand_network c)
                   (if is_pref then PlanPreferred
                    else if cand_is_home c then HomeNetwork
                    else StrongestSignal)
             | (any_allowed, None) \<Rightarrow>
                 Refused (if any_allowed then RoamingNotPermitted else NoAllowedCandidate)))"

subsection \<open>What the loop computes\<close>

text \<open>
  The candidates the plan lists, those of them usable without roaming or with roaming permitted,
  and the rank a candidate is compared by.
\<close>

definition listed :: "SelectionInput \<Rightarrow> Candidate list" where
  "listed input = filter (\<lambda>c. cand_network c \<in> set (sel_allowed input)) (sel_candidates input)"

definition eligible :: "SelectionInput \<Rightarrow> Candidate \<Rightarrow> bool" where
  "eligible input c \<longleftrightarrow> c \<in> set (sel_candidates input) \<and>
     cand_network c \<in> set (sel_allowed input) \<and> (cand_is_home c \<or> sel_roaming_allowed input)"

definition plan_rank :: "SelectionInput \<Rightarrow> Candidate \<Rightarrow> bool \<times> bool \<times> int \<times> Reverse" where
  "plan_rank input c = rank c (sel_preferred input = Some (cand_network c))"

definition selection_reason :: "SelectionInput \<Rightarrow> Candidate \<Rightarrow> SelectionReason" where
  "selection_reason input c =
     (if sel_preferred input = Some (cand_network c) then PlanPreferred
      else if cand_is_home c then HomeNetwork else StrongestSignal)"

text \<open>The bounds and the emptiness checks that precede the loop.\<close>

definition admissible :: "SelectionInput \<Rightarrow> bool" where
  "admissible input \<longleftrightarrow> sel_standing input = AccountStanding.Active \<and>
     length (sel_candidates input) \<le> MAX_CANDIDATES \<and> length (sel_allowed input) \<le> MAX_ALLOWED_NETWORKS \<and>
     sel_candidates input \<noteq> [] \<and> sel_allowed input \<noteq> []"

definition loop_ok :: "SelectionInput \<Rightarrow> Candidate list \<Rightarrow> bool \<times> (Candidate \<times> bool) option \<Rightarrow> bool" where
  "loop_ok input seen acc \<longleftrightarrow>
     (fst acc \<longleftrightarrow> seen \<noteq> []) \<and>
     (case snd acc of
        None \<Rightarrow> (\<forall>d\<in>set seen. \<not> (cand_is_home d \<or> sel_roaming_allowed input))
      | Some (c, p) \<Rightarrow> c \<in> set seen \<and> (cand_is_home c \<or> sel_roaming_allowed input) \<and>
          p = (sel_preferred input = Some (cand_network c)) \<and>
          (\<forall>d\<in>set seen. cand_is_home d \<or> sel_roaming_allowed input \<longrightarrow> plan_rank input d \<le> plan_rank input c))"

lemma consider_loop_ok:
  assumes "loop_ok input seen acc"
  shows "loop_ok input (seen @ [c]) (consider_candidate input c acc)"
proof (cases "snd acc")
  case None
  with assms show ?thesis by (auto simp: loop_ok_def consider_candidate_def plan_rank_def)
next
  case (Some bp)
  with assms show ?thesis
    by (cases bp) (auto simp: loop_ok_def consider_candidate_def Let_def plan_rank_def not_less)
qed

lemma fold_loop_ok:
  "loop_ok input seen acc \<Longrightarrow> loop_ok input (seen @ cs) (fold (consider_candidate input) cs acc)"
proof (induction cs arbitrary: seen acc)
  case (Cons c cs)
  from Cons.IH [OF consider_loop_ok [OF Cons.prems, of c]] show ?case by simp
qed simp

lemma loop_result: "loop_ok input (listed input) (fold (consider_candidate input) (listed input) (False, None))"
  using fold_loop_ok [of input "[]" "(False, None)" "listed input"] by (simp add: loop_ok_def)

lemma eligible_listed:
  "eligible input c \<longleftrightarrow> c \<in> set (listed input) \<and> (cand_is_home c \<or> sel_roaming_allowed input)"
  by (auto simp: eligible_def listed_def)

lemma plan_rank_outcome:
  "plan_rank input c = plan_rank input d \<Longrightarrow>
   cand_network c = cand_network d \<and> selection_reason input c = selection_reason input d"
  by (simp add: plan_rank_def rank_def selection_reason_def)

lemma select_admissible:
  assumes "admissible input"
  shows "if \<exists>c. eligible input c
    then \<exists>c. eligible input c \<and> (\<forall>d. eligible input d \<longrightarrow> plan_rank input d \<le> plan_rank input c)
      \<and> select_network input = Allowed (cand_network c) (selection_reason input c)
    else select_network input = Refused (if listed input = [] then NoAllowedCandidate else RoamingNotPermitted)"
proof -
  obtain any best where res: "fold (consider_candidate input) (listed input) (False, None) = (any, best)"
    by fastforce
  note ok = loop_result [of input, unfolded res loop_ok_def fst_conv snd_conv]
  show ?thesis
  proof (cases best)
    case None
    with ok res assms show ?thesis
      by (auto simp: select_network_def admissible_def eligible_listed listed_def [symmetric])
  next
    case (Some cp)
    with ok res assms show ?thesis
      by (cases cp)
        (auto simp: select_network_def admissible_def eligible_listed listed_def [symmetric] selection_reason_def)
  qed
qed

subsection \<open>Properties\<close>

text \<open>The documented order: the plan's preference, then a home network, then the stronger signal, then the
  lower country code, then the lower network code; each rule decides only what the earlier ones leave open.\<close>

definition at_least_as_good :: "SelectionInput \<Rightarrow> Candidate \<Rightarrow> Candidate \<Rightarrow> bool" where
  "at_least_as_good input c d \<longleftrightarrow>
     (let prefers = (\<lambda>x. sel_preferred input = Some (cand_network x)) in
      if prefers c \<noteq> prefers d then prefers c
      else if cand_is_home c \<noteq> cand_is_home d then cand_is_home c
      else if cand_signal c \<noteq> cand_signal d then sint (cand_signal d) < sint (cand_signal c)
      else if nid_mcc (cand_network c) \<noteq> nid_mcc (cand_network d)
        then unat (nid_mcc (cand_network c)) < unat (nid_mcc (cand_network d))
      else unat (nid_mnc (cand_network c)) \<le> unat (nid_mnc (cand_network d)))"

lemma plan_rank_le: "plan_rank input d \<le> plan_rank input c \<longleftrightarrow> at_least_as_good input c d"
proof -
  let ?p = "\<lambda>x. sel_preferred input = Some (cand_network x)"
  have sig: "cand_signal c = cand_signal d \<longleftrightarrow> sint (cand_signal c) = sint (cand_signal d)" by (metis signed_word_eqI)
  have mcc: "nid_mcc (cand_network c) = nid_mcc (cand_network d) \<longleftrightarrow> unat (nid_mcc (cand_network c)) = unat (nid_mcc (cand_network d))"
    by (simp add: word_unat_eq_iff)
  have net: "Reverse (cand_network d) \<le> Reverse (cand_network c) \<longleftrightarrow>
      (if nid_mcc (cand_network c) \<noteq> nid_mcc (cand_network d) then unat (nid_mcc (cand_network c)) < unat (nid_mcc (cand_network d))
       else unat (nid_mnc (cand_network c)) \<le> unat (nid_mnc (cand_network d)))"
    unfolding mcc by (auto simp: network_order_def less_eq_prod_def word_le_nat_alt word_less_nat_alt word_unat_eq_iff)
  have lex: "((a :: bool), (b :: bool), (i :: int), (r :: Reverse)) \<le> (a', b', i', r') \<longleftrightarrow>
      (if a' \<noteq> a then a' else if b' \<noteq> b then b' else if i' \<noteq> i then i < i' else r \<le> r')" for a b i r a' b' i' r'
    by (auto simp: less_eq_prod_def)
  show ?thesis unfolding plan_rank_def rank_def lex at_least_as_good_def Let_def sig net by (rule refl)
qed

text \<open>
  C19.  A network is selected exactly when the account is active, the inputs are within bounds and
  nonempty, and some candidate is in the plan and usable without roaming or with roaming
  permitted; then the answer is a candidate that is at least as good as every other of them in the
  documented order (plan preference, then home, then signal, then lowest identifier), with the rule
  that won it.  Preference and signal never make an ineligible network win.
\<close>

theorem select_network_optimal:
  "select_network input = Allowed n why \<longleftrightarrow>
     admissible input \<and>
     (\<exists>c. eligible input c \<and> (\<forall>d. eligible input d \<longrightarrow> at_least_as_good input c d) \<and>
          n = cand_network c \<and> why = selection_reason input c)"
  (is "?L \<longleftrightarrow> ?R")
proof
  assume L: ?L
  then have adm: "admissible input"
    by (auto simp: select_network_def admissible_def split: AccountStanding.splits if_splits)
  with select_admissible [OF adm] L show ?R by (auto simp: plan_rank_le split: if_splits)
next
  assume R: ?R
  then obtain c where c: "eligible input c" "\<forall>d. eligible input d \<longrightarrow> plan_rank input d \<le> plan_rank input c"
    "n = cand_network c" "why = selection_reason input c" unfolding plan_rank_le by blast
  with select_admissible [of input] R obtain c' where c': "eligible input c'"
    "\<forall>d. eligible input d \<longrightarrow> plan_rank input d \<le> plan_rank input c'"
    "select_network input = Allowed (cand_network c') (selection_reason input c')"
    by (auto split: if_splits)
  then have "plan_rank input c = plan_rank input c'" using c by (auto intro: antisym)
  from plan_rank_outcome [OF this] c c' show ?L by simp
qed

text \<open>A weak home network against a strong one abroad.\<close>

theorem select_network_optimal_witness:
  "select_network \<lparr>sel_standing = AccountStanding.Active,
     sel_allowed = [\<lparr>nid_mcc = 286, nid_mnc = 1\<rparr>, \<lparr>nid_mcc = 262, nid_mnc = 1\<rparr>], sel_preferred = None, sel_roaming_allowed = True,
     sel_candidates = [\<lparr>cand_network = \<lparr>nid_mcc = 262, nid_mnc = 1\<rparr>, cand_signal = - 50, cand_is_home = False\<rparr>,
       \<lparr>cand_network = \<lparr>nid_mcc = 286, nid_mnc = 1\<rparr>, cand_signal = - 90, cand_is_home = True\<rparr>]\<rparr>
   = Allowed \<lparr>nid_mcc = 286, nid_mnc = 1\<rparr> HomeNetwork"
proof -
  let ?n = "\<lparr>nid_mcc = 286, nid_mnc = 1\<rparr> :: NetworkId" and ?n' = "\<lparr>nid_mcc = 262, nid_mnc = 1\<rparr> :: NetworkId"
  let ?c = "\<lparr>cand_network = ?n, cand_signal = - 90, cand_is_home = True\<rparr> :: Candidate"
  let ?c' = "\<lparr>cand_network = ?n', cand_signal = - 50, cand_is_home = False\<rparr> :: Candidate"
  let ?i = "\<lparr>sel_standing = AccountStanding.Active, sel_allowed = [?n, ?n'], sel_preferred = None,
     sel_roaming_allowed = True, sel_candidates = [?c', ?c]\<rparr>"
  have adm: "admissible ?i" by (simp add: admissible_def MAX_CANDIDATES_def MAX_ALLOWED_NETWORKS_def)
  have el: "eligible ?i ?c" by (simp add: eligible_def)
  have "at_least_as_good ?i ?c d" if "eligible ?i d" for d
  proof -
    have "d = ?c' \<or> d = ?c" using that by (simp add: eligible_def)
    moreover have "at_least_as_good ?i ?c ?c'" by (simp add: at_least_as_good_def)
    moreover have "at_least_as_good ?i ?c ?c" by (simp add: at_least_as_good_def)
    ultimately show ?thesis by (elim disjE) simp_all
  qed
  then show ?thesis
    using adm el by (intro iffD2 [OF select_network_optimal] conjI exI [of _ ?c]) (simp_all add: selection_reason_def)
qed

text \<open>
  The decision does not depend on the order in which the radio lists the networks, nor on
  the order or repetition of the plan's list as long as it stays within its bound.
\<close>

theorem select_network_order_independent:
  assumes "mset cs = mset (sel_candidates input)"
    and "set al = set (sel_allowed input)"
    and "length al \<le> MAX_ALLOWED_NETWORKS" and "length (sel_allowed input) \<le> MAX_ALLOWED_NETWORKS"
  shows "select_network (input\<lparr>sel_candidates := cs, sel_allowed := al\<rparr>) = select_network input"
proof -
  let ?i = "input\<lparr>sel_candidates := cs, sel_allowed := al\<rparr>"
  have len: "length cs = length (sel_candidates input)" and st: "set cs = set (sel_candidates input)"
    using assms(1) by (metis size_mset, metis set_mset_mset)
  have emp: "cs = [] \<longleftrightarrow> sel_candidates input = []" "al = [] \<longleftrightarrow> sel_allowed input = []"
    using len assms(2) by auto
  have adm: "admissible ?i \<longleftrightarrow> admissible input"
    using len emp assms(3,4) by (simp add: admissible_def)
  have el: "eligible ?i = eligible input" and pr: "plan_rank ?i = plan_rank input"
    and sr: "selection_reason ?i = selection_reason input"
    using st assms(2) by (auto simp: fun_eq_iff eligible_def plan_rank_def selection_reason_def)
  have li: "listed ?i = [] \<longleftrightarrow> listed input = []"
    using st assms(2) by (auto simp: listed_def filter_empty_conv)
  show ?thesis
  proof (cases "admissible input")
    case False
    then show ?thesis
      using len emp assms(3,4) by (auto simp: admissible_def select_network_def split: AccountStanding.splits)
  next
    case True
    show ?thesis
    proof (cases "\<exists>c. eligible input c")
      case False
      with select_admissible [OF True] select_admissible [of ?i] True show ?thesis by (simp add: adm el li)
    next
      case ex: True
      from select_admissible [OF True] ex obtain c where
        c: "eligible input c" "\<forall>d. eligible input d \<longrightarrow> plan_rank input d \<le> plan_rank input c"
        "select_network input = Allowed (cand_network c) (selection_reason input c)" by auto
      from select_admissible [of ?i] True ex obtain d where
        d: "eligible input d" "\<forall>e. eligible input e \<longrightarrow> plan_rank input e \<le> plan_rank input d"
        "select_network ?i = Allowed (cand_network d) (selection_reason input d)" by (auto simp: adm el pr sr)
      have "plan_rank input c = plan_rank input d" using c d by (auto intro: antisym)
      from plan_rank_outcome [OF this] c d show ?thesis by simp
    qed
  qed
qed

theorem select_network_order_independent_witness:
  "let n1 = \<lparr>nid_mcc = 286, nid_mnc = 1\<rparr>; n2 = \<lparr>nid_mcc = 286, nid_mnc = 2\<rparr>;
       c1 = \<lparr>cand_network = n1, cand_signal = - 90, cand_is_home = False\<rparr>;
       c2 = \<lparr>cand_network = n2, cand_signal = - 70, cand_is_home = False\<rparr>;
       i = \<lparr>sel_standing = AccountStanding.Active, sel_allowed = [n1, n2], sel_preferred = None,
            sel_roaming_allowed = True, sel_candidates = [c1, c2]\<rparr>
   in select_network (i\<lparr>sel_candidates := [c2, c1], sel_allowed := [n2, n1, n2]\<rparr>) = select_network i"
  unfolding Let_def
  by (rule select_network_order_independent) (auto simp: MAX_ALLOWED_NETWORKS_def)

end
