(* ===== verification/Mvno.thy ===== *)
theory Mvno
  imports Sim Account Selection
begin

text \<open>
  The kernel's owner of the account registry, \<open>kernel-arm/src/mvno.rs\<close>, and its coupling with
  the eSIM slots.  Every function takes the registry (behind the \<open>REGISTRY\<close> lock) and, where
  the source reads live eSIM state through \<open>lifecycle_view\<close>, the slots.  The slots implement
  the contract \<open>lifecycle_store\<close> that the registry asks of a lifecycle holder, so the
  suspension handshake leaves no profile enabled under an account that is not active.
\<close>

fun adapt :: "ProfileState \<Rightarrow> ProfileLifecycle" where
  "adapt ProfileState.Created = ProfileLifecycle.Created"
| "adapt ProfileState.Disabled = ProfileLifecycle.Disabled"
| "adapt ProfileState.Enabled = ProfileLifecycle.Enabled"
| "adapt ProfileState.Deleted = ProfileLifecycle.Deleted"

definition lifecycle_view :: "slots \<Rightarrow> ProfileLifecycles" where
  "lifecycle_view S k = map_option adapt (ok (profile_state S (pk_slot k) (pk_profile k)))"

definition mvno_key :: "usize \<Rightarrow> u8 \<Rightarrow> ProfileKey" where
  "mvno_key slot profile = \<lparr>pk_slot = slot, pk_profile = profile\<rparr>"

definition open_demo_account :: "AccountRegistry \<Rightarrow> (AccountId, AccountError) result \<times> AccountRegistry" where
  "open_demo_account r = open_account r (SubscriberId 0xD00001) (PlanId 1)"

definition open_second_demo_account :: "AccountRegistry \<Rightarrow> (AccountId, AccountError) result \<times> AccountRegistry" where
  "open_second_demo_account r = open_account r (SubscriberId 0xD00002) (PlanId 1)"

definition open_third_demo_account :: "AccountRegistry \<Rightarrow> (AccountId, AccountError) result \<times> AccountRegistry" where
  "open_third_demo_account r = open_account r (SubscriberId 0xD00003) (PlanId 1)"

definition mvno_bind ::
    "AccountRegistry \<Rightarrow> slots \<Rightarrow> u64 \<Rightarrow> usize \<Rightarrow> u8 \<Rightarrow> (unit, AccountError) result \<times> AccountRegistry" where
  "mvno_bind r S acct slot profile = bind_profile r (AccountId acct) (mvno_key slot profile) (lifecycle_view S)"

definition mvno_unbind ::
    "AccountRegistry \<Rightarrow> slots \<Rightarrow> usize \<Rightarrow> u8 \<Rightarrow> (AccountId option, AccountError) result \<times> AccountRegistry" where
  "mvno_unbind r S slot profile =
     (let k = mvno_key slot profile in
      case owner_of r k of
        None \<Rightarrow> (Ok None, r)
      | Some w \<Rightarrow>
          let (res, r') = unbind_profile r k (lifecycle_view S) in (map_ok (\<lambda>_. Some w) res, r'))"

definition gate_enable :: "AccountRegistry \<Rightarrow> usize \<Rightarrow> u8 \<Rightarrow> (unit, AccountError) result" where
  "gate_enable r slot profile =
     (let k = mvno_key slot profile in
      case owner_of r k of None \<Rightarrow> Err NotBound | Some w \<Rightarrow> check_enable r w k)"

definition mvno_suspend ::
    "AccountRegistry \<Rightarrow> slots \<Rightarrow> u64 \<Rightarrow> (ProfileKey list, AccountError) result \<times> AccountRegistry" where
  "mvno_suspend r S acct = suspend r (AccountId acct) (lifecycle_view S)"

definition mvno_reactivate :: "AccountRegistry \<Rightarrow> u64 \<Rightarrow> (unit, AccountError) result \<times> AccountRegistry" where
  "mvno_reactivate r acct = reactivate r (AccountId acct)"

definition mvno_audit :: "AccountRegistry \<Rightarrow> slots \<Rightarrow> ProfileKey list" where
  "mvno_audit r S = registry_audit r (lifecycle_view S)"

fun account_standing :: "AccountStatus \<Rightarrow> AccountStanding" where
  "account_standing AccountStatus.Active = AccountStanding.Active"
| "account_standing AccountStatus.Suspended = AccountStanding.Suspended"
| "account_standing AccountStatus.Closed = AccountStanding.Closed"

definition standing_in :: "AccountRegistry \<Rightarrow> u64 \<Rightarrow> AccountStanding option" where
  "standing_in r acct = map_option (\<lambda>a. account_standing (acct_status a)) (account r (AccountId acct))"

definition standing :: "AccountRegistry \<Rightarrow> u64 \<Rightarrow> AccountStatus option" where
  "standing r acct = map_option acct_status (account r (AccountId acct))"

definition mvno_owner_of :: "AccountRegistry \<Rightarrow> usize \<Rightarrow> u8 \<Rightarrow> u64 option" where
  "mvno_owner_of r slot profile = map_option account_no (owner_of r (mvno_key slot profile))"

definition has_bound_profile :: "AccountRegistry \<Rightarrow> u64 \<Rightarrow> bool" where
  "has_bound_profile r acct = (profiles_of r (AccountId acct) \<noteq> [])"

definition mvno_accounts :: "AccountRegistry \<Rightarrow> (u64 \<times> AccountStatus) list" where
  "mvno_accounts r = map (\<lambda>a. (account_no (acct_id a), acct_status a)) (reg_accounts r)"

subsection \<open>The slots hold the lifecycle\<close>

lemma lifecycle_view_state: "lifecycle_view S k = map_option adapt (state_of S (pk_slot k) (pk_profile k))"
  by (simp add: lifecycle_view_def state_of_def)

lemma adapt_inj [simp]:
  "adapt s = ProfileLifecycle.Enabled \<longleftrightarrow> s = ProfileState.Enabled"
  "adapt s = ProfileLifecycle.Deleted \<longleftrightarrow> s = ProfileState.Deleted"
  by (cases s; simp)+

lemma view_Enabled:
  "lifecycle_view S k = Some ProfileLifecycle.Enabled \<longleftrightarrow> state_of S (pk_slot k) (pk_profile k) = Some ProfileState.Enabled"
  by (auto simp: lifecycle_view_state)

text \<open>\<open>sim::disable\<close> as the handshake calls it, its result discarded.\<close>

definition force_disable :: "ProfileKey \<Rightarrow> slots \<Rightarrow> slots" where
  "force_disable k S = snd (sim_disable S (pk_slot k) (pk_profile k))"

lemma force_disable_state:
  assumes wf: "slots_wf S"
  shows "state_of (force_disable k S) i p =
    (if i = pk_slot k \<and> p = pk_profile k \<and> state_of S i p = Some ProfileState.Enabled
     then Some ProfileState.Disabled else state_of S i p)"
proof (cases rule: sim_move_cases [of Op.Disable S "pk_slot k" "pk_profile k"])
  case (Err e)
  then have "state_of S (pk_slot k) (pk_profile k) \<noteq> Some ProfileState.Enabled"
    using sim_move_defined [OF wf, of Op.Disable "pk_slot k" "pk_profile k"] by simp
  with Err show ?thesis by (auto simp: force_disable_def sim_moves)
next
  case (Ok S')
  from sim_move_Ok(1) [OF wf _ Ok] sim_move_Ok(2) [OF wf _ Ok, of i] Ok show ?thesis
    by (auto simp: force_disable_def sim_moves lifecycle_step_def)
qed

interpretation sim_store: lifecycle_store lifecycle_view force_disable slots_wf
proof unfold_locales
  fix S k
  assume wf: "slots_wf S"
  show "slots_wf (force_disable k S)" by (simp add: force_disable_def sim_moves sim_move_wf wf)
  show "lifecycle_view (force_disable k S) = (lifecycle_view S)
      (k := if lifecycle_view S k = Some ProfileLifecycle.Enabled then Some ProfileLifecycle.Disabled
            else lifecycle_view S k)"
  proof
    fix j
    have "j = k \<longleftrightarrow> pk_slot j = pk_slot k \<and> pk_profile j = pk_profile k" by (cases j; cases k) auto
    then show "lifecycle_view (force_disable k S) j = ((lifecycle_view S)
        (k := if lifecycle_view S k = Some ProfileLifecycle.Enabled then Some ProfileLifecycle.Disabled
              else lifecycle_view S k)) j"
      by (auto simp: lifecycle_view_state force_disable_state [OF wf])
  qed
qed

lemma gate_enable_iff:
  "gate_enable r slot p = Ok () \<longleftrightarrow>
     (\<exists>i. owner_of r (mvno_key slot p) = Some i \<and> status_of r i = Some AccountStatus.Active)"
  by (auto simp: gate_enable_def Let_def check_enable_def status_of_def split: option.splits AccountStatus.splits)

lemma mvno_suspend_Ok:
  "mvno_suspend r S acct = (Ok ks, r') \<longleftrightarrow>
     (\<exists>a. apply_change r (SetStatus (AccountId acct) AccountStatus.Suspended) (lifecycle_view S) = (Ok a, r') \<and>
          ks = ap_force_disable a)"
  unfolding mvno_suspend_def suspend_def Let_def
  by (cases rule: result_state_cases [of "apply_change r (SetStatus (AccountId acct) AccountStatus.Suspended) (lifecycle_view S)"])
    auto

subsection \<open>Properties\<close>

text \<open>
  C23.  The suspension handshake closes its own window.  If no profile was enabled under an account
  that is not active, then after a suspension that succeeds and the forced disables it returns,
  again none is: the backstop audit is empty, and every profile of the suspended account is not
  enabled, whatever the slots and bindings were.
\<close>

theorem suspend_handshake:
  assumes "reg_wf r" and "slots_wf S" and "mvno_audit r S = []" and "mvno_suspend r S acct = (Ok ks, r')"
  shows "mvno_audit r' (fold force_disable ks S) = [] \<and>
    (\<forall>k. owner_of r' k = Some (AccountId acct) \<longrightarrow>
       state_of (fold force_disable ks S) (pk_slot k) (pk_profile k) \<noteq> Some ProfileState.Enabled)"
proof -
  let ?c = "SetStatus (AccountId acct) AccountStatus.Suspended"
  obtain a where a: "apply_change r ?c (lifecycle_view S) = (Ok a, r')" "ks = ap_force_disable a"
    using assms(4) by (auto simp: mvno_suspend_Ok)
  have au: "registry_audit r' (lifecycle_view (fold force_disable ks S)) = []"
    using sim_store.handshake [OF assms(1,2) _ a(1)] assms(3) a(2) by (simp add: mvno_audit_def)
  have wf': "reg_wf r'" using apply_change_wf [OF assms(1), of ?c "lifecycle_view S"] a(1) by simp
  have "status_of r' (AccountId acct) = Some AccountStatus.Suspended"
    using apply_change_status(1) [OF assms(1) a(1)] by simp
  with au [unfolded audit_empty_iff [OF wf']] show ?thesis
    using au by (auto simp: mvno_audit_def view_Enabled)
qed

theorem suspend_handshake_witness:
  "let S = fold sim_call [CallCreate 0, CallInstall 0 0 9, CallEnable 0 0] SLOTS;
       r = snd (mvno_bind (snd (open_demo_account registry_new)) S 0 0 0)
   in mvno_audit (snd (mvno_suspend r S 0)) (fold force_disable [mvno_key 0 0] S) = []"
proof -
  let ?S = "fold sim_call [CallCreate 0, CallInstall 0 0 9, CallEnable 0 0] SLOTS"
  let ?q = "snd (open_demo_account registry_new)"
  let ?r = "snd (mvno_bind ?q ?S 0 0 0)"
  have r0: "?q = registry_call (Open (SubscriberId 0xD00001) (PlanId 1), no_lifecycle) registry_new"
    by (simp only: open_demo_account_def open_account_def registry_call_def split_beta Let_def fst_conv snd_conv)
  have r: "?r = registry_call (Bind (AccountId 0) (mvno_key 0 0), lifecycle_view ?S) ?q"
    by (simp only: mvno_bind_def bind_profile_def registry_call_def split_beta Let_def fst_conv snd_conv)
  have "reg_wf ?q" unfolding r0 by (rule registry_machine.step_inv [OF registry_new_wf])
  then have "reg_wf ?r" unfolding r by (rule registry_machine.step_inv)
  moreover have "slots_wf ?S" by (rule sim_machine.run_inv)
  moreover have "mvno_audit ?r ?S = []" by code_simp
  moreover have "fst (mvno_suspend ?r ?S 0) = Ok [mvno_key 0 0]" by code_simp
  then have "mvno_suspend ?r ?S 0 = (Ok [mvno_key 0 0], snd (mvno_suspend ?r ?S 0))" by (simp add: prod_eq_iff)
  ultimately show ?thesis using suspend_handshake [of ?r ?S 0 "[mvno_key 0 0]"] unfolding Let_def by blast
qed

end
