(* ===== verification/Crypto.thy ===== *)
theory Crypto
  imports Prelude
begin

text \<open>
  The cryptographic libraries the sources call (\<open>ed25519_dalek\<close>, \<open>sha2\<close>, \<open>hex\<close>), as a
  parameter of every definition that uses them.  What the code relies on is stated by two named
  predicates: \<open>crypto_laws\<close> (sizes, and that decoding and verifying invert encoding and signing)
  and \<open>unforgeable\<close> (only messages that were signed verify).  A small concrete instance shows
  that the laws can hold.
\<close>

record crypto =
  sha256 :: "bytes \<Rightarrow> bytes"
  public_key :: "bytes \<Rightarrow> bytes"
  sign :: "bytes \<Rightarrow> bytes \<Rightarrow> bytes"
  sig_verify :: "bytes \<Rightarrow> bytes \<Rightarrow> bytes \<Rightarrow> bool"
  hex_encode :: "bytes \<Rightarrow> string"
  hex_decode :: "string \<Rightarrow> bytes option"

definition crypto_laws :: "crypto \<Rightarrow> bool" where
  "crypto_laws C \<longleftrightarrow>
     (\<forall>x. length (sha256 C x) = 32) \<and>
     (\<forall>k m. length (sign C k m) = 64) \<and>
     (\<forall>k m. sig_verify C (public_key C k) m (sign C k m)) \<and>
     (\<forall>b. hex_decode C (hex_encode C b) = Some b)"

text \<open>Nothing verifies under \<open>vk\<close> but the messages of \<open>issued\<close>.\<close>

definition unforgeable :: "crypto \<Rightarrow> bytes \<Rightarrow> bytes set \<Rightarrow> bool" where
  "unforgeable C vk issued \<longleftrightarrow> (\<forall>m s. sig_verify C vk m s \<longrightarrow> m \<in> issued)"

text \<open>
  The verification step the token and manifest types share: the signature field is hex of exactly
  64 bytes, and those bytes verify the canonical text.
\<close>

definition signature_checks :: "crypto \<Rightarrow> bytes \<Rightarrow> string \<Rightarrow> string \<Rightarrow> bool" where
  "signature_checks C vk canonical signature =
     (case hex_decode C signature of
        Some sig_bytes \<Rightarrow> length sig_bytes = 64 \<and> sig_verify C vk (as_bytes canonical) sig_bytes
      | None \<Rightarrow> False)"

definition signature_of :: "crypto \<Rightarrow> bytes \<Rightarrow> string \<Rightarrow> string" where
  "signature_of C signing_key canonical = hex_encode C (sign C signing_key (as_bytes canonical))"

lemma own_signature_checks:
  "crypto_laws C \<Longrightarrow> signature_checks C (public_key C k) m (signature_of C k m)"
  by (simp add: crypto_laws_def signature_checks_def signature_of_def)

lemma checked_was_signed:
  "unforgeable C vk issued \<Longrightarrow> signature_checks C vk m s \<Longrightarrow> as_bytes m \<in> issued"
  by (auto simp: unforgeable_def signature_checks_def split: option.splits)

subsection \<open>An instance\<close>

text \<open>
  Keys are their own public keys, a signature is the key and message padded to 64 bytes, the digest
  is the last 32 bytes, and the text of bytes is the bytes: enough to satisfy every law, and to
  evaluate examples.
\<close>

definition pad :: "nat \<Rightarrow> bytes \<Rightarrow> bytes" where
  "pad n b = take n (b @ replicate n 0)"

definition plain_crypto :: crypto where
  "plain_crypto =
     \<lparr>sha256 = (\<lambda>b. pad 32 (rev b)),
      public_key = (\<lambda>k. k),
      sign = (\<lambda>k m. pad 64 (k @ m)),
      sig_verify = (\<lambda>k m s. s = pad 64 (k @ m)),
      hex_encode = of_bytes,
      hex_decode = (\<lambda>s. Some (as_bytes s))\<rparr>"

lemma length_pad [simp]: "length (pad n b) = n"
  by (simp add: pad_def)

lemma plain_crypto_laws: "crypto_laws plain_crypto"
  by (simp add: crypto_laws_def plain_crypto_def as_bytes_of_bytes)

end
