(* ===== verification/Citadel.thy ===== *)
theory Citadel
  imports Crypto
begin

text \<open>
  Boot-time authorization and the evidence log, \<open>citadel-integration/src/lib.rs\<close>: signed
  manifest entries for modules and for instances, the two allowlists, and the hash-chained
  \<open>WormLog\<close> both record into.  Shown: every log built by the recording operations verifies, a
  verifying log is pinned down by its newest hash (up to hash collisions), an allowlist answers
  exactly from its first matching entry and logs exactly one matching entry per question, and the
  signed text of an entry determines its fields as long as the identifiers avoid the separator.
\<close>

subsection \<open>Manifest entries\<close>

datatype SandboxTier = T1Critical | T2Trusted | T3Untrusted

fun tier_str :: "SandboxTier \<Rightarrow> string" where
  "tier_str T1Critical = ''t1''"
| "tier_str T2Trusted = ''t2''"
| "tier_str T3Untrusted = ''t3''"

datatype CitadelError = NotAllowlisted | WrongModule | WrongInstance | HashMismatch | InvalidSignature

fun display_CitadelError :: "CitadelError \<Rightarrow> string" where
  "display_CitadelError CitadelError.NotAllowlisted = ''module is not in the boot allowlist''"
| "display_CitadelError CitadelError.WrongModule = ''manifest entry does not authorize this module''"
| "display_CitadelError CitadelError.WrongInstance = ''manifest entry does not authorize this instance''"
| "display_CitadelError CitadelError.HashMismatch = ''module bytes do not match the allowlisted hash''"
| "display_CitadelError CitadelError.InvalidSignature = ''manifest entry signature invalid''"

record ModuleManifestEntry =
  mod_id :: string
  mod_sha256_hex :: string
  mod_tier :: SandboxTier
  mod_key_id :: string
  mod_signature :: string

definition module_canonical :: "ModuleManifestEntry \<Rightarrow> string" where
  "module_canonical e = ''v2|'' @ mod_id e @ ''|'' @ mod_sha256_hex e @ ''|'' @ tier_str (mod_tier e)"

definition module_issue ::
    "crypto \<Rightarrow> string \<Rightarrow> string \<Rightarrow> SandboxTier \<Rightarrow> string \<Rightarrow> bytes \<Rightarrow> ModuleManifestEntry" where
  "module_issue C module_id sha256_hex tier key_id signing_key =
     (let entry = \<lparr>mod_id = module_id, mod_sha256_hex = sha256_hex, mod_tier = tier,
                   mod_key_id = key_id, mod_signature = []\<rparr>
      in entry\<lparr>mod_signature := signature_of C signing_key (module_canonical entry)\<rparr>)"

definition module_verify ::
    "crypto \<Rightarrow> ModuleManifestEntry \<Rightarrow> bytes \<Rightarrow> string \<Rightarrow> string \<Rightarrow> (unit, CitadelError) result" where
  "module_verify C e verifying_key expected_module_id expected_sha256_hex =
     (if mod_id e \<noteq> expected_module_id then Err CitadelError.WrongModule
      else if mod_sha256_hex e \<noteq> expected_sha256_hex then Err CitadelError.HashMismatch
      else if signature_checks C verifying_key (module_canonical e) (mod_signature e) then Ok ()
      else Err CitadelError.InvalidSignature)"

record InstanceManifestEntry =
  inst_module_id :: string
  inst_id :: string
  inst_sha256_hex :: string
  inst_tier :: SandboxTier
  inst_key_id :: string
  inst_signature :: string

definition instance_canonical :: "InstanceManifestEntry \<Rightarrow> string" where
  "instance_canonical e =
     ''vi1|'' @ inst_module_id e @ ''|'' @ inst_id e @ ''|'' @ inst_sha256_hex e @ ''|'' @ tier_str (inst_tier e)"

definition instance_issue ::
    "crypto \<Rightarrow> string \<Rightarrow> string \<Rightarrow> string \<Rightarrow> SandboxTier \<Rightarrow> string \<Rightarrow> bytes \<Rightarrow> InstanceManifestEntry" where
  "instance_issue C module_id instance_id sha256_hex tier key_id signing_key =
     (let entry = \<lparr>inst_module_id = module_id, inst_id = instance_id, inst_sha256_hex = sha256_hex,
                   inst_tier = tier, inst_key_id = key_id, inst_signature = []\<rparr>
      in entry\<lparr>inst_signature := signature_of C signing_key (instance_canonical entry)\<rparr>)"

definition instance_verify ::
    "crypto \<Rightarrow> InstanceManifestEntry \<Rightarrow> bytes \<Rightarrow> string \<Rightarrow> string \<Rightarrow> string \<Rightarrow> (unit, CitadelError) result" where
  "instance_verify C e verifying_key expected_module_id expected_instance_id expected_sha256_hex =
     (if inst_module_id e \<noteq> expected_module_id then Err CitadelError.WrongModule
      else if inst_id e \<noteq> expected_instance_id then Err CitadelError.WrongInstance
      else if inst_sha256_hex e \<noteq> expected_sha256_hex then Err CitadelError.HashMismatch
      else if signature_checks C verifying_key (instance_canonical e) (inst_signature e) then Ok ()
      else Err CitadelError.InvalidSignature)"

subsection \<open>The evidence log\<close>

datatype ShadowMarshalOutcome = Execute | Refuse | HardStop | Unreachable | Faulty

fun shadow_str :: "ShadowMarshalOutcome \<Rightarrow> string" where
  "shadow_str ShadowMarshalOutcome.Execute = ''execute''"
| "shadow_str ShadowMarshalOutcome.Refuse = ''refuse''"
| "shadow_str ShadowMarshalOutcome.HardStop = ''hard_stop''"
| "shadow_str ShadowMarshalOutcome.Unreachable = ''unreachable''"
| "shadow_str ShadowMarshalOutcome.Faulty = ''faulty''"

record WormEntry =
  worm_seq :: u64
  worm_module_id :: string
  worm_instance_id :: "string option"
  worm_tier :: "SandboxTier option"
  worm_authorized :: bool
  worm_reason :: "string option"
  worm_shadow :: "ShadowMarshalOutcome option"
  worm_prev_hash :: bytes
  worm_entry_hash :: bytes

definition flag_byte :: "bool \<Rightarrow> u8" where
  "flag_byte b = (if b then 1 else 0)"

text \<open>The bytes fed to the hasher, in the order of the \<open>update\<close> calls.\<close>

definition hash_input ::
    "bytes \<Rightarrow> u64 \<Rightarrow> string \<Rightarrow> string option \<Rightarrow> SandboxTier option \<Rightarrow> bool \<Rightarrow> string option \<Rightarrow>
     ShadowMarshalOutcome option \<Rightarrow> bytes" where
  "hash_input prev_hash seq module_id instance_id tier authorized reason shadow =
     prev_hash @ to_le 8 (unat seq) @ as_bytes module_id @
     [flag_byte (instance_id \<noteq> None)] @ (case instance_id of Some i \<Rightarrow> as_bytes i | None \<Rightarrow> []) @
     [flag_byte (tier \<noteq> None)] @ (case tier of Some t \<Rightarrow> as_bytes (tier_str t) | None \<Rightarrow> []) @
     [flag_byte authorized] @ (case reason of Some r \<Rightarrow> as_bytes r | None \<Rightarrow> []) @
     [flag_byte (shadow \<noteq> None)] @ (case shadow of Some o' \<Rightarrow> as_bytes (shadow_str o') | None \<Rightarrow> [])"

definition compute_hash ::
    "crypto \<Rightarrow> bytes \<Rightarrow> u64 \<Rightarrow> string \<Rightarrow> string option \<Rightarrow> SandboxTier option \<Rightarrow> bool \<Rightarrow> string option \<Rightarrow>
     ShadowMarshalOutcome option \<Rightarrow> bytes" where
  "compute_hash C prev_hash seq module_id instance_id tier authorized reason shadow =
     sha256 C (hash_input prev_hash seq module_id instance_id tier authorized reason shadow)"

record WormLog =
  worm_entries :: "WormEntry list"

text \<open>\<open>[0u8; 32]\<close>, the hash before the first entry.\<close>

definition ZERO_HASH :: bytes where
  "ZERO_HASH = replicate 32 0"

lemma length_ZERO_HASH [simp]: "length ZERO_HASH = 32"
  by (simp add: ZERO_HASH_def)

definition worm_new :: WormLog where
  "worm_new = \<lparr>worm_entries = []\<rparr>"

definition worm_record ::
    "crypto \<Rightarrow> string \<Rightarrow> string option \<Rightarrow> SandboxTier option \<Rightarrow> bool \<Rightarrow> string option \<Rightarrow>
     ShadowMarshalOutcome option \<Rightarrow> WormLog \<Rightarrow> WormLog" where
  "worm_record C module_id instance_id tier authorized reason shadow log =
     (let seq = of_nat (length (worm_entries log));
          prev_hash = (if worm_entries log = [] then ZERO_HASH else worm_entry_hash (last (worm_entries log)));
          entry_hash = compute_hash C prev_hash seq module_id instance_id tier authorized reason shadow
      in log\<lparr>worm_entries := worm_entries log @
           [\<lparr>worm_seq = seq, worm_module_id = module_id, worm_instance_id = instance_id, worm_tier = tier,
             worm_authorized = authorized, worm_reason = reason, worm_shadow = shadow,
             worm_prev_hash = prev_hash, worm_entry_hash = entry_hash\<rparr>]\<rparr>)"

definition record_shadow_marshal_evaluation ::
    "crypto \<Rightarrow> string \<Rightarrow> string \<Rightarrow> ShadowMarshalOutcome \<Rightarrow> WormLog \<Rightarrow> WormLog" where
  "record_shadow_marshal_evaluation C module_id instance_id outcome =
     worm_record C module_id (Some instance_id) None False None (Some outcome)"

definition record_proxy_verification ::
    "crypto \<Rightarrow> string \<Rightarrow> string \<Rightarrow> bool \<Rightarrow> string option \<Rightarrow> WormLog \<Rightarrow> WormLog" where
  "record_proxy_verification C module_id instance_id authorized reason =
     worm_record C module_id (Some instance_id) None authorized reason None"

definition record_lifecycle_transition ::
    "crypto \<Rightarrow> string \<Rightarrow> string \<Rightarrow> string \<Rightarrow> bool \<Rightarrow> string option \<Rightarrow> WormLog \<Rightarrow> WormLog" where
  "record_lifecycle_transition C subject_id from_state to_state authorized reason =
     (let reason' =
        (case reason of
           Some r \<Rightarrow> r @ '' ['' @ from_state @ '' -> '' @ to_state @ '']''
         | None \<Rightarrow> ''['' @ from_state @ '' -> '' @ to_state @ '']'')
      in worm_record C subject_id None None authorized (Some reason') None)"

definition entry_input :: "WormEntry \<Rightarrow> bytes" where
  "entry_input e =
     hash_input (worm_prev_hash e) (worm_seq e) (worm_module_id e) (worm_instance_id e) (worm_tier e)
       (worm_authorized e) (worm_reason e) (worm_shadow e)"

fun verify_from :: "crypto \<Rightarrow> bytes \<Rightarrow> WormEntry list \<Rightarrow> bool" where
  "verify_from C prev_hash [] = True"
| "verify_from C prev_hash (e # es) =
     (if worm_prev_hash e \<noteq> prev_hash then False
      else if compute_hash C (worm_prev_hash e) (worm_seq e) (worm_module_id e) (worm_instance_id e)
                (worm_tier e) (worm_authorized e) (worm_reason e) (worm_shadow e) \<noteq> worm_entry_hash e
      then False
      else verify_from C (worm_entry_hash e) es)"

definition verify_chain :: "crypto \<Rightarrow> WormLog \<Rightarrow> bool" where
  "verify_chain C log = verify_from C ZERO_HASH (worm_entries log)"

subsection \<open>Allowlists\<close>

record BootAllowlist =
  boot_entries :: "ModuleManifestEntry list"
  boot_evidence :: WormLog

definition boot_new :: BootAllowlist where
  "boot_new = \<lparr>boot_entries = [], boot_evidence = worm_new\<rparr>"

definition boot_insert :: "ModuleManifestEntry \<Rightarrow> BootAllowlist \<Rightarrow> BootAllowlist" where
  "boot_insert e al = al\<lparr>boot_entries := boot_entries al @ [e]\<rparr>"

definition boot_find :: "BootAllowlist \<Rightarrow> string \<Rightarrow> ModuleManifestEntry option" where
  "boot_find al module_id = find (\<lambda>e. mod_id e = module_id) (boot_entries al)"

definition evaluate_module_load ::
    "crypto \<Rightarrow> BootAllowlist \<Rightarrow> bytes \<Rightarrow> string \<Rightarrow> bytes \<Rightarrow> (SandboxTier, CitadelError) result" where
  "evaluate_module_load C al verifying_key module_id module_bytes =
     (case boot_find al module_id of
        None \<Rightarrow> Err CitadelError.NotAllowlisted
      | Some entry \<Rightarrow>
          (case module_verify C entry verifying_key module_id (hex_encode C (sha256 C module_bytes)) of
             Err e \<Rightarrow> Err e
           | Ok _ \<Rightarrow> Ok (mod_tier entry)))"

definition authorize_module_load ::
    "crypto \<Rightarrow> bytes \<Rightarrow> string \<Rightarrow> bytes \<Rightarrow> BootAllowlist \<Rightarrow>
     (SandboxTier, CitadelError) result \<times> BootAllowlist" where
  "authorize_module_load C verifying_key module_id module_bytes al =
     (let result = evaluate_module_load C al verifying_key module_id module_bytes in
      (result,
       case result of
         Ok tier \<Rightarrow> al\<lparr>boot_evidence := worm_record C module_id None (Some tier) True None None (boot_evidence al)\<rparr>
       | Err err \<Rightarrow>
           al\<lparr>boot_evidence :=
             worm_record C module_id None None False (Some (display_CitadelError err)) None (boot_evidence al)\<rparr>))"

record InstanceAllowlist =
  inst_entries :: "InstanceManifestEntry list"
  inst_evidence :: WormLog

definition instances_new :: InstanceAllowlist where
  "instances_new = \<lparr>inst_entries = [], inst_evidence = worm_new\<rparr>"

definition instance_insert :: "InstanceManifestEntry \<Rightarrow> InstanceAllowlist \<Rightarrow> InstanceAllowlist" where
  "instance_insert e al = al\<lparr>inst_entries := inst_entries al @ [e]\<rparr>"

definition instance_find :: "InstanceAllowlist \<Rightarrow> string \<Rightarrow> string \<Rightarrow> InstanceManifestEntry option" where
  "instance_find al module_id instance_id =
     find (\<lambda>e. inst_module_id e = module_id \<and> inst_id e = instance_id) (inst_entries al)"

definition evaluate_instance_load ::
    "crypto \<Rightarrow> InstanceAllowlist \<Rightarrow> bytes \<Rightarrow> string \<Rightarrow> string \<Rightarrow> bytes \<Rightarrow> (SandboxTier, CitadelError) result" where
  "evaluate_instance_load C al verifying_key module_id instance_id module_bytes =
     (case instance_find al module_id instance_id of
        None \<Rightarrow> Err CitadelError.NotAllowlisted
      | Some entry \<Rightarrow>
          (case instance_verify C entry verifying_key module_id instance_id (hex_encode C (sha256 C module_bytes)) of
             Err e \<Rightarrow> Err e
           | Ok _ \<Rightarrow> Ok (inst_tier entry)))"

definition authorize_instance_load ::
    "crypto \<Rightarrow> bytes \<Rightarrow> string \<Rightarrow> string \<Rightarrow> bytes \<Rightarrow> InstanceAllowlist \<Rightarrow>
     (SandboxTier, CitadelError) result \<times> InstanceAllowlist" where
  "authorize_instance_load C verifying_key module_id instance_id module_bytes al =
     (let result = evaluate_instance_load C al verifying_key module_id instance_id module_bytes in
      (result,
       case result of
         Ok tier \<Rightarrow>
           al\<lparr>inst_evidence :=
             worm_record C module_id (Some instance_id) (Some tier) True None None (inst_evidence al)\<rparr>
       | Err err \<Rightarrow>
           al\<lparr>inst_evidence :=
             worm_record C module_id (Some instance_id) None False (Some (display_CitadelError err)) None
               (inst_evidence al)\<rparr>))"

subsection \<open>The chain\<close>

definition newest_hash :: "bytes \<Rightarrow> WormEntry list \<Rightarrow> bytes" where
  "newest_hash start es = (if es = [] then start else worm_entry_hash (last es))"

lemma newest_hash_Nil [simp]: "newest_hash p [] = p"
  by (simp add: newest_hash_def)

lemma newest_hash_snoc [simp]: "newest_hash p (es @ [e]) = worm_entry_hash e"
  by (simp add: newest_hash_def)

lemma newest_hash_Cons: "newest_hash p (e # es) = newest_hash (worm_entry_hash e) es"
  by (simp add: newest_hash_def)

lemma verify_from_Cons:
  "verify_from C p (e # es) \<longleftrightarrow>
     worm_prev_hash e = p \<and> sha256 C (entry_input e) = worm_entry_hash e \<and> verify_from C (worm_entry_hash e) es"
  by (simp add: compute_hash_def entry_input_def)

declare verify_from.simps(2) [simp del]

lemma verify_from_append:
  "verify_from C p (xs @ ys) \<longleftrightarrow> verify_from C p xs \<and> verify_from C (newest_hash p xs) ys"
  by (induction xs arbitrary: p) (auto simp: verify_from_Cons newest_hash_Cons)

lemma worm_record_appends:
  "\<exists>e. worm_entries (worm_record C m i t a r sh log) = worm_entries log @ [e] \<and>
       worm_seq e = of_nat (length (worm_entries log)) \<and> worm_module_id e = m \<and> worm_instance_id e = i \<and>
       worm_tier e = t \<and> worm_authorized e = a \<and> worm_reason e = r \<and> worm_shadow e = sh \<and>
       worm_prev_hash e = newest_hash ZERO_HASH (worm_entries log) \<and>
       worm_entry_hash e = sha256 C (entry_input e)"
  by (simp add: worm_record_def Let_def newest_hash_def entry_input_def compute_hash_def)

lemma worm_record_verifies [simp]: "verify_chain C (worm_record C m i t a r sh log) = verify_chain C log"
  using worm_record_appends [of C m i t a r sh log]
  by (auto simp: verify_chain_def verify_from_append verify_from_Cons)

lemma worm_record_length [simp]:
  "length (worm_entries (worm_record C m i t a r sh log)) = Suc (length (worm_entries log))"
  by (simp add: worm_record_def Let_def)

lemma worm_new_verifies [simp]: "verify_chain C worm_new"
  by (simp add: verify_chain_def worm_new_def)

text \<open>The operations that write to a log, as one type of call.\<close>

datatype WormCall =
    ShadowMarshal string string ShadowMarshalOutcome
  | ProxyVerification string string bool "string option"
  | LifecycleTransition string string string bool "string option"

fun worm_call :: "crypto \<Rightarrow> WormCall \<Rightarrow> WormLog \<Rightarrow> WormLog" where
  "worm_call C (ShadowMarshal m i sh) = record_shadow_marshal_evaluation C m i sh"
| "worm_call C (ProxyVerification m i a r) = record_proxy_verification C m i a r"
| "worm_call C (LifecycleTransition s f t a r) = record_lifecycle_transition C s f t a r"

definition worm_ok :: "crypto \<Rightarrow> WormLog \<Rightarrow> bool" where
  "worm_ok C log \<longleftrightarrow>
     verify_chain C log \<and> map worm_seq (worm_entries log) = map of_nat [0..<length (worm_entries log)]"

lemmas worm_record_defs =
  record_shadow_marshal_evaluation_def record_proxy_verification_def record_lifecycle_transition_def

lemma worm_record_ok: "worm_ok C log \<Longrightarrow> worm_ok C (worm_record C m i t a r sh log)"
  using worm_record_appends [of C m i t a r sh log] by (auto simp: worm_ok_def)

lemma worm_call_ok: "worm_ok C log \<Longrightarrow> worm_ok C (worm_call C call log)"
  by (cases call) (auto simp: worm_record_defs Let_def worm_record_ok)

interpretation worm_machine: machine worm_new "worm_call C" "worm_ok C" for C
  by unfold_locales (simp add: worm_ok_def worm_new_def verify_chain_def, rule worm_call_ok)

subsection \<open>Tamper evidence\<close>

text \<open>
  The hash has no collision on the inputs in \<open>S\<close>, and none of them hashes to the all-zero start.
\<close>

definition collision_free :: "crypto \<Rightarrow> bytes set \<Rightarrow> bool" where
  "collision_free C S \<longleftrightarrow> inj_on (sha256 C) S \<and> ZERO_HASH \<notin> sha256 C ` S"

lemma collision_freeD:
  "collision_free C S \<Longrightarrow> sha256 C a = sha256 C b \<Longrightarrow> a \<in> S \<Longrightarrow> b \<in> S \<Longrightarrow> a = b"
  by (auto simp: collision_free_def inj_on_def)

lemma collision_free_mono: "collision_free C S \<Longrightarrow> T \<subseteq> S \<Longrightarrow> collision_free C T"
  by (auto simp: collision_free_def intro: inj_on_subset)

lemma entry_input_fields:
  assumes "entry_input a = entry_input b" "length (worm_prev_hash a) = length (worm_prev_hash b)"
  shows "worm_prev_hash a = worm_prev_hash b \<and> worm_seq a = worm_seq b"
proof -
  obtain x y where
    "entry_input a = worm_prev_hash a @ to_le 8 (unat (worm_seq a)) @ x"
    "entry_input b = worm_prev_hash b @ to_le 8 (unat (worm_seq b)) @ y"
    by (simp add: entry_input_def hash_input_def)
  with assms show ?thesis by (simp add: to_le_unat_inj)
qed

lemma newest_hash_length:
  assumes "crypto_laws C" "verify_from C ZERO_HASH es"
  shows "length (newest_hash ZERO_HASH es) = 32"
proof (cases es rule: rev_cases)
  case (snoc zs z)
  then have "worm_entry_hash z = sha256 C (entry_input z)"
    using assms(2) by (simp add: verify_from_append verify_from_Cons)
  then show ?thesis using assms(1) snoc by (simp add: crypto_laws_def)
qed simp

lemma same_newest_same_inputs:
  assumes "crypto_laws C" "collision_free C (entry_input ` (set xs \<union> set ys))"
    and "verify_from C ZERO_HASH xs" "verify_from C ZERO_HASH ys"
    and "newest_hash ZERO_HASH xs = newest_hash ZERO_HASH ys"
  shows "map entry_input xs = map entry_input ys \<and> map worm_entry_hash xs = map worm_entry_hash ys"
  using assms(2-)
proof (induction xs arbitrary: ys rule: rev_induct)
  case Nil
  then show ?case
  proof (cases ys rule: rev_cases)
    case (snoc zs z)
    then have "sha256 C (entry_input z) = ZERO_HASH"
      using Nil by (simp add: verify_from_append verify_from_Cons)
    then show ?thesis using Nil snoc by (force simp: collision_free_def)
  qed simp
next
  case (snoc x xs)
  then have x: "sha256 C (entry_input x) = worm_entry_hash x"
    "worm_prev_hash x = newest_hash ZERO_HASH xs" "verify_from C ZERO_HASH xs"
    by (simp_all add: verify_from_append verify_from_Cons)
  show ?case
  proof (cases ys rule: rev_cases)
    case Nil
    then have "ZERO_HASH = sha256 C (entry_input x)" using snoc x by simp
    then show ?thesis using snoc.prems(1) by (simp add: collision_free_def)
  next
    case y: (snoc zs y)
    then have y': "sha256 C (entry_input y) = worm_entry_hash y"
      "worm_prev_hash y = newest_hash ZERO_HASH zs" "verify_from C ZERO_HASH zs"
      using snoc.prems by (simp_all add: verify_from_append verify_from_Cons)
    have hash: "worm_entry_hash x = worm_entry_hash y" using snoc.prems(4) y by simp
    then have "sha256 C (entry_input x) = sha256 C (entry_input y)" by (simp only: x(1) y'(1))
    then have input: "entry_input x = entry_input y"
      by (rule collision_freeD [OF snoc.prems(1)]) (simp_all add: y)
    have "newest_hash ZERO_HASH xs = newest_hash ZERO_HASH zs"
      using entry_input_fields [OF input] x(2,3) y'(2,3) newest_hash_length [OF assms(1)] by simp
    moreover have "collision_free C (entry_input ` (set xs \<union> set zs))"
      by (rule collision_free_mono [OF snoc.prems(1)]) (auto simp: y)
    ultimately have "map entry_input xs = map entry_input zs \<and> map worm_entry_hash xs = map worm_entry_hash zs"
      using snoc.IH x(3) y'(3) by blast
    then show ?thesis using hash input y by simp
  qed
qed

text \<open>
  An entry whose hash input can be read in one way only: its texts hold neither of the two bytes that
  separate the hashed fields, and a reason that is present is not empty.
\<close>

definition flag_free :: "string \<Rightarrow> bool" where
  "flag_free s \<longleftrightarrow> CHR 0x00 \<notin> set s \<and> CHR 0x01 \<notin> set s"

definition readable_entry :: "WormEntry \<Rightarrow> bool" where
  "readable_entry e \<longleftrightarrow>
     flag_free (worm_module_id e) \<and> pred_option flag_free (worm_instance_id e) \<and>
     pred_option flag_free (worm_reason e) \<and> worm_reason e \<noteq> Some []"

lemma flag_byte_inj: "flag_byte a = flag_byte b \<longleftrightarrow> a = b"
  by (simp add: flag_byte_def)

definition opt_bytes :: "string option \<Rightarrow> bytes" where
  "opt_bytes t = (case t of Some s \<Rightarrow> as_bytes s | None \<Rightarrow> [])"

lemma as_bytes_flag_free:
  assumes "flag_free s"
  shows "flag_byte f \<notin> set (as_bytes s)"
proof
  assume "flag_byte f \<in> set (as_bytes s)"
  then obtain c where "c \<in> set s" "(of_char c :: u8) = of_char (if f then CHR 0x01 else CHR 0x00)"
    by (auto simp: as_bytes_def flag_byte_def split: if_splits)
  with assms show False unfolding of_char_byte_inj by (auto simp: flag_free_def split: if_splits)
qed

lemma opt_bytes_flag_free: "pred_option flag_free t \<Longrightarrow> flag_byte f \<notin> set (opt_bytes t)"
  by (cases t) (simp_all add: opt_bytes_def as_bytes_flag_free)

lemma split_at_flag:
  "(\<And>h. flag_byte h \<notin> set xs) \<Longrightarrow> (\<And>h. flag_byte h \<notin> set ys) \<Longrightarrow>
   xs @ flag_byte f # as = ys @ flag_byte g # bs \<Longrightarrow> xs = ys \<and> f = g \<and> as = bs"
proof (induction xs arbitrary: ys)
  case Nil
  then show ?case by (cases ys) (auto simp: flag_byte_inj)
next
  case (Cons x xs)
  then show ?case by (cases ys) auto
qed

lemma entry_input_fielded:
  "entry_input e =
     worm_prev_hash e @ to_le 8 (unat (worm_seq e)) @ as_bytes (worm_module_id e) @
     flag_byte (worm_instance_id e \<noteq> None) # opt_bytes (worm_instance_id e) @
     flag_byte (worm_tier e \<noteq> None) # opt_bytes (map_option tier_str (worm_tier e)) @
     flag_byte (worm_authorized e) # opt_bytes (worm_reason e) @
     flag_byte (worm_shadow e \<noteq> None) # opt_bytes (map_option shadow_str (worm_shadow e))"
  by (cases "worm_tier e"; cases "worm_shadow e") (simp_all add: entry_input_def hash_input_def opt_bytes_def)

lemma tier_flag_free: "pred_option flag_free (map_option tier_str t)"
  by (cases t; cases "the t") (simp_all add: flag_free_def)

lemma opt_bytes_inj: "opt_bytes a = opt_bytes b \<Longrightarrow> (a = None \<longleftrightarrow> b = None) \<Longrightarrow> a = b"
  by (cases a; cases b) (simp_all add: opt_bytes_def as_bytes_inj)

lemma opt_bytes_inj_nonempty: "opt_bytes a = opt_bytes b \<Longrightarrow> a \<noteq> Some [] \<Longrightarrow> b \<noteq> Some [] \<Longrightarrow> a = b"
  by (cases a; cases b) (auto simp: opt_bytes_def as_bytes_def as_bytes_inj [unfolded as_bytes_def])

lemma map_option_inj: "(\<And>x y. f x = f y \<longleftrightarrow> x = y) \<Longrightarrow> map_option f a = map_option f b \<longleftrightarrow> a = b"
  by (cases a; cases b) simp_all

lemma shadow_str_inj: "shadow_str a = shadow_str b \<longleftrightarrow> a = b"
  by (cases a; cases b) simp_all

lemma tier_text_inj: "tier_str a = tier_str b \<longleftrightarrow> a = b"
  by (cases a; cases b) simp_all

lemma readable_input_inj:
  assumes r: "readable_entry a" "readable_entry b" and same: "entry_input a = entry_input b"
    and len: "length (worm_prev_hash a) = length (worm_prev_hash b)" and hash: "worm_entry_hash a = worm_entry_hash b"
  shows "a = b"
proof -
  have head: "worm_prev_hash a = worm_prev_hash b" "worm_seq a = worm_seq b"
    using entry_input_fields [OF same len] by simp_all
  have ff: "flag_byte h \<notin> set (as_bytes (worm_module_id e))" "flag_byte h \<notin> set (opt_bytes (worm_instance_id e))"
    "flag_byte h \<notin> set (opt_bytes (worm_reason e))" if "e = a \<or> e = b" for h e
    using that r by (auto simp: readable_entry_def as_bytes_flag_free opt_bytes_flag_free)
  note tf = opt_bytes_flag_free [OF tier_flag_free]
  have s0: "as_bytes (worm_module_id a) @ flag_byte (worm_instance_id a \<noteq> None) # opt_bytes (worm_instance_id a) @
     flag_byte (worm_tier a \<noteq> None) # opt_bytes (map_option tier_str (worm_tier a)) @
     flag_byte (worm_authorized a) # opt_bytes (worm_reason a) @
     flag_byte (worm_shadow a \<noteq> None) # opt_bytes (map_option shadow_str (worm_shadow a)) =
    as_bytes (worm_module_id b) @ flag_byte (worm_instance_id b \<noteq> None) # opt_bytes (worm_instance_id b) @
     flag_byte (worm_tier b \<noteq> None) # opt_bytes (map_option tier_str (worm_tier b)) @
     flag_byte (worm_authorized b) # opt_bytes (worm_reason b) @
     flag_byte (worm_shadow b \<noteq> None) # opt_bytes (map_option shadow_str (worm_shadow b))"
    using same head unfolding entry_input_fielded by simp
  note s1 = split_at_flag [OF ff(1) ff(1) s0, simplified]
  note s2 = split_at_flag [OF ff(2) ff(2) s1 [THEN conjunct2, THEN conjunct2], simplified]
  note s3 = split_at_flag [OF tf tf s2 [THEN conjunct2, THEN conjunct2]]
  note s4 = split_at_flag [OF ff(3) ff(3) s3 [THEN conjunct2, THEN conjunct2], simplified]
  have "worm_module_id a = worm_module_id b" using s1 by (simp add: as_bytes_inj)
  moreover have "worm_instance_id a = worm_instance_id b" using s1 s2 by (auto intro: opt_bytes_inj)
  moreover have "worm_tier a = worm_tier b"
    using s2 s3 opt_bytes_inj [of "map_option tier_str (worm_tier a)" "map_option tier_str (worm_tier b)"]
    by (auto simp: map_option_inj [of tier_str, OF tier_text_inj])
  moreover have "worm_reason a = worm_reason b" using s4 r by (auto simp: readable_entry_def intro: opt_bytes_inj_nonempty)
  moreover have "worm_shadow a = worm_shadow b"
    using s4 opt_bytes_inj [of "map_option shadow_str (worm_shadow a)" "map_option shadow_str (worm_shadow b)"]
    by (auto simp: map_option_inj [of shadow_str, OF shadow_str_inj])
  ultimately show "a = b" using head hash s3 by (intro WormEntry.equality) auto
qed

lemma verified_prev_length:
  assumes "crypto_laws C"
  shows "verify_from C p es \<Longrightarrow> length p = 32 \<Longrightarrow> e \<in> set es \<Longrightarrow> length (worm_prev_hash e) = 32"
proof (induction es arbitrary: p)
  case (Cons x es)
  have "length (sha256 C (entry_input x)) = 32" using assms by (simp add: crypto_laws_def)
  then have "length (worm_entry_hash x) = 32" using Cons.prems(1) by (simp add: verify_from_Cons)
  then show ?case using Cons by (auto simp: verify_from_Cons)
qed simp

subsection \<open>The interface of a recording gate\<close>

definition denial :: "('a, CitadelError) result \<Rightarrow> string option" where
  "denial r = (case r of Ok _ \<Rightarrow> None | Err e \<Rightarrow> Some (display_CitadelError e))"

text \<open>
  A gate answers a question and writes exactly one evidence entry that says what it answered.  Any
  number of questions then leaves one entry per question, in order, in a chain that still verifies.
\<close>

locale evidence_gate =
  fixes C :: crypto
    and ask :: "'q \<Rightarrow> 's \<Rightarrow> (SandboxTier, CitadelError) result \<times> 's"
    and evidence :: "'s \<Rightarrow> WormLog"
    and subject :: "'q \<Rightarrow> string \<times> string option"
  assumes ask_records:
    "ask q s = (r, s') \<Longrightarrow>
     evidence s' = worm_record C (fst (subject q)) (snd (subject q)) (ok r) (is_ok r) (denial r) None (evidence s)"
begin

lemma asks_record:
  assumes "run_calls ask qs s = (rs, s')"
  shows "length rs = length qs \<and>
    (\<exists>new. worm_entries (evidence s') = worm_entries (evidence s) @ new \<and>
      map (\<lambda>e. (worm_module_id e, worm_instance_id e)) new = map subject qs \<and>
      map (\<lambda>e. (worm_tier e, worm_authorized e, worm_reason e)) new = map (\<lambda>r. (ok r, is_ok r, denial r)) rs) \<and>
    verify_chain C (evidence s') = verify_chain C (evidence s)"
  using assms
proof (induction qs arbitrary: s rs)
  case (Cons q qs)
  obtain r t where r: "ask q s = (r, t)" by (cases "ask q s")
  obtain rs' where rs': "run_calls ask qs t = (rs', s')" "rs = r # rs'"
    using Cons.prems r by (cases "run_calls ask qs t") auto
  obtain e where e: "worm_entries (evidence t) = worm_entries (evidence s) @ [e]"
    "worm_module_id e = fst (subject q)" "worm_instance_id e = snd (subject q)" "worm_tier e = ok r"
    "worm_authorized e = is_ok r" "worm_reason e = denial r"
    using worm_record_appends [of C "fst (subject q)" "snd (subject q)" "ok r" "is_ok r" "denial r" None "evidence s"]
    unfolding ask_records [OF r] by blast
  have chain: "verify_chain C (evidence t) = verify_chain C (evidence s)" by (simp add: ask_records [OF r])
  obtain new where new: "worm_entries (evidence s') = worm_entries (evidence t) @ new"
    "map (\<lambda>e. (worm_module_id e, worm_instance_id e)) new = map subject qs"
    "map (\<lambda>e. (worm_tier e, worm_authorized e, worm_reason e)) new = map (\<lambda>r. (ok r, is_ok r, denial r)) rs'"
    using Cons.IH [OF rs'(1)] by blast
  show ?case
    using Cons.IH [OF rs'(1)] rs'(2) e new chain by (auto intro!: exI [of _ "e # new"])
qed simp

end

interpretation boot_gate: evidence_gate C "\<lambda>(vk, m, b). authorize_module_load C vk m b" boot_evidence
  "\<lambda>(vk, m, b). (m, None)" for C
  by unfold_locales
     (auto simp: authorize_module_load_def Let_def denial_def split: result.splits)

interpretation instance_gate: evidence_gate C "\<lambda>(vk, m, i, b). authorize_instance_load C vk m i b" inst_evidence
  "\<lambda>(vk, m, i, b). (m, Some i)" for C
  by unfold_locales
     (auto simp: authorize_instance_load_def Let_def denial_def split: result.splits)

subsection \<open>Signed texts\<close>

lemma tier_str_inj: "tier_str a = tier_str b \<longleftrightarrow> a = b"
  by (cases a; cases b) simp_all

definition sep_free :: "string \<Rightarrow> bool" where
  "sep_free s \<longleftrightarrow> CHR ''|'' \<notin> set s"

definition plain_instance :: "InstanceManifestEntry \<Rightarrow> bool" where
  "plain_instance e \<longleftrightarrow> sep_free (inst_module_id e) \<and> sep_free (inst_id e) \<and> sep_free (inst_sha256_hex e)"

definition plain_module :: "ModuleManifestEntry \<Rightarrow> bool" where
  "plain_module e \<longleftrightarrow> sep_free (mod_id e) \<and> sep_free (mod_sha256_hex e)"

lemma instance_canonical_inj:
  assumes "plain_instance a" "plain_instance b" "instance_canonical a = instance_canonical b"
  shows "inst_module_id a = inst_module_id b \<and> inst_id a = inst_id b \<and>
         inst_sha256_hex a = inst_sha256_hex b \<and> inst_tier a = inst_tier b"
  using assms by (auto simp: instance_canonical_def plain_instance_def sep_free_def append_sep_inj tier_str_inj)

lemma module_canonical_inj:
  assumes "plain_module a" "plain_module b" "module_canonical a = module_canonical b"
  shows "mod_id a = mod_id b \<and> mod_sha256_hex a = mod_sha256_hex b \<and> mod_tier a = mod_tier b"
  using assms by (auto simp: module_canonical_def plain_module_def sep_free_def append_sep_inj tier_str_inj)

lemma canonical_kinds_disjoint: "module_canonical m \<noteq> instance_canonical e"
  by (simp add: module_canonical_def instance_canonical_def)

lemma authorize_instance_Ok:
  "fst (authorize_instance_load C vk m i b al) = Ok tier \<longleftrightarrow>
     (\<exists>e. instance_find al m i = Some e \<and> inst_sha256_hex e = hex_encode C (sha256 C b) \<and>
          signature_checks C vk (instance_canonical e) (inst_signature e) \<and> inst_tier e = tier)"
  by (auto simp: authorize_instance_load_def evaluate_instance_load_def instance_verify_def Let_def
      instance_find_def split: option.splits result.splits if_splits dest: find_Some_set)

lemma authorize_module_Ok:
  "fst (authorize_module_load C vk m b al) = Ok tier \<longleftrightarrow>
     (\<exists>e. boot_find al m = Some e \<and> mod_sha256_hex e = hex_encode C (sha256 C b) \<and>
          signature_checks C vk (module_canonical e) (mod_signature e) \<and> mod_tier e = tier)"
  by (auto simp: authorize_module_load_def evaluate_module_load_def module_verify_def Let_def
      boot_find_def split: option.splits result.splits if_splits dest: find_Some_set)

subsection \<open>What the hashed bytes leave open\<close>

text \<open>
  Three limits of the format.  A missing reason and an empty reason hash alike; dropping the newest
  entries of a chain leaves a chain that verifies; and an identifier that contains the separator
  can be signed as one pair of module and instance and read as another.
\<close>

theorem reason_presence_not_hashed:
  "hash_input p s m i t a None sh = hash_input p s m i t a (Some []) sh"
  by (simp add: hash_input_def as_bytes_def)

theorem truncated_chain_verifies:
  "verify_chain C \<lparr>worm_entries = xs @ ys\<rparr> \<Longrightarrow> verify_chain C \<lparr>worm_entries = xs\<rparr>"
  by (simp add: verify_chain_def verify_from_append)

theorem instance_text_ambiguous:
  "\<exists>a b. instance_canonical a = instance_canonical b \<and> inst_module_id a \<noteq> inst_module_id b"
proof (intro exI conjI)
  let ?e = "\<lambda>m i. \<lparr>inst_module_id = m, inst_id = i, inst_sha256_hex = [], inst_tier = T1Critical,
                  inst_key_id = [], inst_signature = []\<rparr>"
  show "instance_canonical (?e ''a|b'' ''c'') = instance_canonical (?e ''a'' ''b|c'')"
    by (simp add: instance_canonical_def)
qed simp

subsection \<open>Properties\<close>

text \<open>Every log built by the recording operations verifies, and its entries are numbered in order.\<close>

theorem worm_runs_ok: "worm_ok C (fold (worm_call C) calls worm_new)"
  by (rule worm_machine.run_inv)


definition sample_log :: "bool \<Rightarrow> WormLog" where
  "sample_log enabled =
     record_lifecycle_transition plain_crypto ''sim:0:1'' ''Disabled'' (if enabled then ''Enabled'' else ''Deleted'')
       True None worm_new"

lemma sample_log_facts:
  "verify_chain plain_crypto (sample_log n)" "list_all readable_entry (worm_entries (sample_log n))"
  "\<exists>e. worm_entries (sample_log n) = [e]"
proof -
  show "verify_chain plain_crypto (sample_log n)"
    by (simp add: sample_log_def record_lifecycle_transition_def Let_def)
qed (simp_all add: sample_log_def record_lifecycle_transition_def worm_record_def worm_new_def Let_def
      readable_entry_def flag_free_def)

lemma sample_log_hashes:
  "sha256 plain_crypto (entry_input (hd (worm_entries (sample_log True)))) \<noteq> ZERO_HASH"
  "sha256 plain_crypto (entry_input (hd (worm_entries (sample_log False)))) \<noteq> ZERO_HASH"
  "sha256 plain_crypto (entry_input (hd (worm_entries (sample_log True)))) \<noteq>
   sha256 plain_crypto (entry_input (hd (worm_entries (sample_log False))))"
  by code_simp+

lemma sample_logs_collision_free:
  "collision_free plain_crypto
     (entry_input ` (set (worm_entries (sample_log True)) \<union> set (worm_entries (sample_log False))))"
proof -
  obtain d e where "worm_entries (sample_log True) = [d]" "worm_entries (sample_log False) = [e]"
    using sample_log_facts(3) by blast
  then show ?thesis using sample_log_hashes by (auto simp: collision_free_def inj_on_def)
qed

lemma sample_logs_differ: "sample_log True \<noteq> sample_log False"
  using sample_log_hashes(3) by metis


text \<open>
  The evidence log of the boot allowlist is complete and truthful: whatever sequence of module
  loads is asked for, the log gains exactly one entry per question, in order, naming the module
  asked about, authorized exactly when the load was, with the granted tier or the refusal's text,
  and a chain that verified still does.
\<close>

theorem allowlist_evidence_complete:
  assumes "run_calls (\<lambda>(vk, m, b). authorize_module_load C vk m b) qs al = (rs, al')"
  shows "length rs = length qs \<and>
    (\<exists>new. worm_entries (boot_evidence al') = worm_entries (boot_evidence al) @ new \<and>
      map (\<lambda>e. (worm_module_id e, worm_instance_id e)) new = map (\<lambda>(vk, m, b). (m, None)) qs \<and>
      map (\<lambda>e. (worm_tier e, worm_authorized e, worm_reason e)) new = map (\<lambda>r. (ok r, is_ok r, denial r)) rs) \<and>
    verify_chain C (boot_evidence al') = verify_chain C (boot_evidence al)"
  by (rule boot_gate.asks_record [OF assms])

theorem allowlist_evidence_complete_witness:
  "\<exists>new. length new = 2 \<and>
     worm_entries (boot_evidence (snd (run_calls (\<lambda>(vk, m, b). authorize_module_load plain_crypto vk m b)
       [([], ''blk'', []), ([], ''net'', [1])] boot_new))) = worm_entries (boot_evidence boot_new) @ new"
proof -
  let ?f = "\<lambda>(vk, m, b). authorize_module_load plain_crypto vk m b"
  let ?qs = "[([], ''blk'', []), ([], ''net'', [1])] :: (bytes \<times> string \<times> bytes) list"
  obtain new where "worm_entries (boot_evidence (snd (run_calls ?f ?qs boot_new))) = worm_entries (boot_evidence boot_new) @ new"
    "map (\<lambda>e. (worm_module_id e, worm_instance_id e)) new = map (\<lambda>(vk, m, b). (m, None)) ?qs"
    using allowlist_evidence_complete [OF prod.collapse [symmetric], of plain_crypto ?qs boot_new] by blast
  then show ?thesis using map_eq_imp_length_eq by fastforce
qed


definition sample_instance :: InstanceManifestEntry where
  "sample_instance = \<lparr>inst_module_id = ''grid'', inst_id = ''a'', inst_sha256_hex = replicate 32 CHR 0x00,
     inst_tier = T3Untrusted, inst_key_id = ''k'', inst_signature = replicate 64 CHR 0x00\<rparr>"

lemma sample_instance_fields:
  "inst_module_id sample_instance = ''grid''" "inst_id sample_instance = ''a''"
  "inst_sha256_hex sample_instance = replicate 32 CHR 0x00" "inst_tier sample_instance = T3Untrusted"
  by (simp_all add: sample_instance_def)

definition grant_crypto :: crypto where
  "grant_crypto = plain_crypto\<lparr>sig_verify := (\<lambda>k m s. m = as_bytes (instance_canonical sample_instance))\<rparr>"

definition sample_allowlist :: InstanceAllowlist where
  "sample_allowlist = \<lparr>inst_entries = [sample_instance], inst_evidence = worm_new\<rparr>"

lemma sample_digest: "hex_encode grant_crypto (sha256 grant_crypto []) = replicate 32 CHR 0x00"
  by (simp add: grant_crypto_def plain_crypto_def pad_def of_bytes_def numeral_eq_Suc char_of_def)

lemma sample_granted: "fst (authorize_instance_load grant_crypto [] ''grid'' ''a'' [] sample_allowlist) = Ok T3Untrusted"
proof -
  have "signature_checks grant_crypto [] (instance_canonical sample_instance) (inst_signature sample_instance)"
    by (simp add: grant_crypto_def signature_checks_def plain_crypto_def sample_instance_def)
  then show ?thesis
    unfolding authorize_instance_Ok sample_digest
    by (auto simp: instance_find_def sample_instance_fields sample_allowlist_def)
qed


end
