(* ===== verification/MarshalWire.thy ===== *)
theory MarshalWire
  imports Prelude
begin

text \<open>
  The wire format between the kernel and the MARSHAL proxy, \<open>ipc/src/marshal.rs\<close>.  Bytes are
  \<open>u8\<close>; a Rust \<open>String\<close> is its UTF-8 bytes, with the standard library's validity check
  written out.  The interface of a message format is the locale \<open>message_codec\<close>: whoever
  reads a byte stream one byte at a time and retries the decoder gets exactly the messages that
  were written.  The response format also has the three-way streaming verdict, whose documented
  guarantees are proved.
\<close>

subsection \<open>Text on the wire\<close>

definition cont_byte :: "u8 \<Rightarrow> bool" where
  "cont_byte b \<longleftrightarrow> 0x80 \<le> b \<and> b \<le> 0xBF"

text \<open>\<open>core::str::from_utf8\<close>: the well-formed byte sequences of the Unicode standard.\<close>

fun utf8_valid :: "bytes \<Rightarrow> bool" where
  "utf8_valid [] = True"
| "utf8_valid (b # bs) =
     (if b < 0x80 then utf8_valid bs
      else if 0xC2 \<le> b \<and> b \<le> 0xDF then
        (case bs of c # r \<Rightarrow> cont_byte c \<and> utf8_valid r | _ \<Rightarrow> False)
      else if 0xE0 \<le> b \<and> b \<le> 0xEF then
        (case bs of
           c # d # r \<Rightarrow>
             cont_byte c \<and> (b = 0xE0 \<longrightarrow> 0xA0 \<le> c) \<and> (b = 0xED \<longrightarrow> c \<le> 0x9F) \<and>
             cont_byte d \<and> utf8_valid r
         | _ \<Rightarrow> False)
      else if 0xF0 \<le> b \<and> b \<le> 0xF4 then
        (case bs of
           c # d # e # r \<Rightarrow>
             cont_byte c \<and> (b = 0xF0 \<longrightarrow> 0x90 \<le> c) \<and> (b = 0xF4 \<longrightarrow> c \<le> 0x8F) \<and>
             cont_byte d \<and> cont_byte e \<and> utf8_valid r
         | _ \<Rightarrow> False)
      else False)"

definition MAX_JSON_LEN :: nat where
  "MAX_JSON_LEN = 16384"

definition MAX_MESSAGE_LEN :: nat where
  "MAX_MESSAGE_LEN = 256"

definition encode_bytes :: "bytes \<Rightarrow> bytes" where
  "encode_bytes bs = to_le 4 (length bs) @ bs"

definition decode_bytes :: "bytes \<Rightarrow> (bytes \<times> nat) option" where
  "decode_bytes buf =
     (if length buf < 4 then None
      else
        let len = from_le (take 4 buf) in
        if MAX_JSON_LEN < len then None
        else if length buf < 4 + len then None
        else Some (take len (drop 4 buf), 4 + len))"

definition encode_string :: "bytes \<Rightarrow> bytes" where
  "encode_string s = to_le 2 (length s) @ s"

definition decode_string :: "bytes \<Rightarrow> (bytes \<times> nat) option" where
  "decode_string buf =
     (if length buf < 2 then None
      else
        let len = from_le (take 2 buf) in
        if MAX_MESSAGE_LEN < len then None
        else if length buf < 2 + len then None
        else if utf8_valid (take len (drop 2 buf)) then Some (take len (drop 2 buf), 2 + len)
        else None)"

subsection \<open>Messages\<close>

record MarshalRequest =
  kerkese_json :: bytes

datatype MarshalOutcome = Execute | Refuse | HardStop

datatype MarshalError =
    Unreachable bytes
  | Timeout
  | BadResponse bytes
  | Other bytes
  | PolicyRefused bytes

datatype MarshalResponse = Decision MarshalOutcome bytes | Error MarshalError

datatype ResponseDecode = Complete MarshalResponse nat | Incomplete | Malformed

definition request_encode :: "MarshalRequest \<Rightarrow> bytes" where
  "request_encode m = encode_bytes (kerkese_json m)"

definition request_decode :: "bytes \<Rightarrow> (MarshalRequest \<times> nat) option" where
  "request_decode buf = map_option (\<lambda>(j, n). (\<lparr>kerkese_json = j\<rparr>, n)) (decode_bytes buf)"

fun outcome_is_blocked :: "MarshalOutcome \<Rightarrow> bool" where
  "outcome_is_blocked MarshalOutcome.Execute = False"
| "outcome_is_blocked _ = True"

fun to_byte :: "MarshalOutcome \<Rightarrow> u8" where
  "to_byte MarshalOutcome.Execute = 0"
| "to_byte MarshalOutcome.Refuse = 1"
| "to_byte MarshalOutcome.HardStop = 2"

definition from_byte :: "u8 \<Rightarrow> MarshalOutcome option" where
  "from_byte b =
     (if b = 0 then Some MarshalOutcome.Execute
      else if b = 1 then Some MarshalOutcome.Refuse
      else if b = 2 then Some MarshalOutcome.HardStop
      else None)"

fun error_tag :: "MarshalError \<Rightarrow> u8" where
  "error_tag (MarshalError.Unreachable _) = 0"
| "error_tag MarshalError.Timeout = 1"
| "error_tag (MarshalError.BadResponse _) = 2"
| "error_tag (MarshalError.Other _) = 3"
| "error_tag (MarshalError.PolicyRefused _) = 4"

definition error_encode :: "MarshalError \<Rightarrow> bytes" where
  "error_encode e = error_tag e #
     (case e of
        MarshalError.Unreachable msg \<Rightarrow> encode_string msg
      | MarshalError.BadResponse msg \<Rightarrow> encode_string msg
      | MarshalError.Other msg \<Rightarrow> encode_string msg
      | MarshalError.PolicyRefused msg \<Rightarrow> encode_string msg
      | MarshalError.Timeout \<Rightarrow> [])"

fun error_decode :: "bytes \<Rightarrow> (MarshalError \<times> nat) option" where
  "error_decode [] = None"
| "error_decode (tag # rest) =
     (if tag = 0 then map_option (\<lambda>(msg, n). (MarshalError.Unreachable msg, 1 + n)) (decode_string rest)
      else if tag = 1 then Some (MarshalError.Timeout, 1)
      else if tag = 2 then map_option (\<lambda>(msg, n). (MarshalError.BadResponse msg, 1 + n)) (decode_string rest)
      else if tag = 3 then map_option (\<lambda>(msg, n). (MarshalError.Other msg, 1 + n)) (decode_string rest)
      else if tag = 4 then map_option (\<lambda>(msg, n). (MarshalError.PolicyRefused msg, 1 + n)) (decode_string rest)
      else None)"

fun response_encode :: "MarshalResponse \<Rightarrow> bytes" where
  "response_encode (Decision outcome decision_json) = 0 # to_byte outcome # encode_bytes decision_json"
| "response_encode (Error err) = 1 # error_encode err"

fun response_decode :: "bytes \<Rightarrow> (MarshalResponse \<times> nat) option" where
  "response_decode [] = None"
| "response_decode (tag # rest) =
     (if tag = 0 then
        (case rest of
           [] \<Rightarrow> None
         | b # rest2 \<Rightarrow>
             (case from_byte b of
                None \<Rightarrow> None
              | Some outcome \<Rightarrow>
                  map_option (\<lambda>(j, n). (Decision outcome j, 2 + n)) (decode_bytes rest2)))
      else if tag = 1 then map_option (\<lambda>(e, n). (Error e, 1 + n)) (error_decode rest)
      else None)"

subsection \<open>The streaming verdict\<close>

text \<open>\<open>Step<T>\<close>: \<open>Ok None\<close> is "need more bytes", \<open>Err\<close> is "malformed".\<close>

type_synonym 'a Step = "('a option, unit) result"

definition status_bytes :: "bytes \<Rightarrow> nat Step" where
  "status_bytes buf =
     (if length buf < 4 then Ok None
      else
        let len = from_le (take 4 buf) in
        if MAX_JSON_LEN < len then Err ()
        else if length buf < 4 + len then Ok None
        else Ok (Some (4 + len)))"

definition status_string :: "bytes \<Rightarrow> nat Step" where
  "status_string buf =
     (if length buf < 2 then Ok None
      else
        let len = from_le (take 2 buf) in
        if MAX_MESSAGE_LEN < len then Err ()
        else if length buf < 2 + len then Ok None
        else if \<not> utf8_valid (take len (drop 2 buf)) then Err ()
        else Ok (Some (2 + len)))"

fun error_status :: "bytes \<Rightarrow> nat Step" where
  "error_status [] = Ok None"
| "error_status (tag # rest) =
     (if tag = 1 then Ok (Some 1)
      else if tag = 0 \<or> tag = 2 \<or> tag = 3 \<or> tag = 4
      then map_ok (map_option (\<lambda>n. 1 + n)) (status_string rest)
      else Err ())"

fun decode_status :: "bytes \<Rightarrow> ResponseDecode" where
  "decode_status [] = Incomplete"
| "decode_status (tag # rest) =
     (let verdict :: unit Step =
        (if tag = 0 then
           (case rest of
              [] \<Rightarrow> Ok None
            | b # rest2 \<Rightarrow>
                if from_byte b = None then Err ()
                else map_ok (map_option (\<lambda>_. ())) (status_bytes rest2))
         else if tag = 1 then map_ok (map_option (\<lambda>_. ())) (error_status rest)
         else Err ())
      in case verdict of
           Err _ \<Rightarrow> Malformed
         | Ok None \<Rightarrow> Incomplete
         | Ok (Some _) \<Rightarrow>
             (case response_decode (tag # rest) of
                Some (resp, n) \<Rightarrow> Complete resp n
              | None \<Rightarrow> Malformed))"

text \<open>A reader that appends one byte at a time and retries the decoder, as the receivers do.\<close>

fun accumulate :: "(bytes \<Rightarrow> ('m \<times> nat) option) \<Rightarrow> bytes \<Rightarrow> bytes \<Rightarrow> ('m \<times> bytes) option" where
  "accumulate decode buf stream =
     (case decode buf of
        Some (m, _) \<Rightarrow> Some (m, stream)
      | None \<Rightarrow> (case stream of [] \<Rightarrow> None | b # rest \<Rightarrow> accumulate decode (buf @ [b]) rest))"

declare accumulate.simps [simp del]

subsection \<open>The interface of a message format\<close>

locale message_codec =
  fixes encode :: "'m \<Rightarrow> bytes" and decode :: "bytes \<Rightarrow> ('m \<times> nat) option" and valid :: "'m \<Rightarrow> bool"
  assumes round_trip: "valid m \<Longrightarrow> decode (encode m @ rest) = Some (m, length (encode m))"
    and decode_extend: "decode buf = Some (m, n) \<Longrightarrow> n \<le> length buf \<and> decode (buf @ rest) = Some (m, n)"
begin

lemma prefix_undecodable:
  assumes "valid m" "encode m = p @ q" "q \<noteq> []"
  shows "decode p = None"
proof (cases "decode p")
  case (Some mn)
  obtain m' n where "decode p = Some (m', n)" using Some by (cases mn) auto
  from decode_extend [OF this, of q] round_trip [OF assms(1), of "[]"] assms(2,3) show ?thesis by auto
qed

lemma prefix_free:
  assumes "valid a" "valid b" "encode a @ x = encode b @ y"
  shows "a = b \<and> x = y"
  using round_trip [OF assms(1), of x] round_trip [OF assms(2), of y] assms(3) by auto

lemma read_message:
  assumes "valid m"
  shows "encode m = p @ q \<Longrightarrow> accumulate decode p (q @ rest) = Some (m, rest)"
proof (induction q arbitrary: p)
  case Nil
  then have "decode p = Some (m, length p)" using round_trip [OF assms, of "[]"] by simp
  then show ?case by (simp add: accumulate.simps [of decode p])
next
  case (Cons b q)
  then have "decode p = None" by (intro prefix_undecodable [OF assms]) auto
  moreover have "accumulate decode (p @ [b]) (q @ rest) = Some (m, rest)" using Cons by simp
  ultimately show ?case by (simp add: accumulate.simps [of decode p])
qed

end

subsection \<open>Length-prefixed fields\<close>

lemma bytes_status_decode:
  "status_bytes buf = Ok (Some n) \<longleftrightarrow> (\<exists>j. decode_bytes buf = Some (j, n))"
  "status_bytes buf = Ok None \<or> status_bytes buf = Err () \<longleftrightarrow> decode_bytes buf = None"
  by (auto simp: status_bytes_def decode_bytes_def Let_def)

lemma string_status_decode:
  "status_string buf = Ok (Some n) \<longleftrightarrow> (\<exists>j. decode_string buf = Some (j, n))"
  "status_string buf = Ok None \<or> status_string buf = Err () \<longleftrightarrow> decode_string buf = None"
  by (auto simp: status_string_def decode_string_def Let_def)

lemma decode_bytes_extend:
  "decode_bytes buf = Some (j, n) \<Longrightarrow> n \<le> length buf \<and> decode_bytes (buf @ rest) = Some (j, n)"
  by (auto simp: decode_bytes_def Let_def split: if_splits)

lemma decode_string_extend:
  "decode_string buf = Some (j, n) \<Longrightarrow> n \<le> length buf \<and> decode_string (buf @ rest) = Some (j, n)"
  by (auto simp: decode_string_def Let_def split: if_splits)

lemma status_bytes_mono: "status_bytes buf = Err () \<Longrightarrow> status_bytes (buf @ rest) = Err ()"
  by (auto simp: status_bytes_def Let_def split: if_splits)

lemma status_string_mono: "status_string buf = Err () \<Longrightarrow> status_string (buf @ rest) = Err ()"
  by (auto simp: status_string_def Let_def split: if_splits)

lemma decode_encode_bytes:
  assumes "length j \<le> MAX_JSON_LEN"
  shows "decode_bytes (encode_bytes j @ rest) = Some (j, length (encode_bytes j))"
proof -
  have "from_le (to_le 4 (length j)) = length j"
    using assms by (intro from_le_to_le) (simp add: MAX_JSON_LEN_def)
  then show ?thesis using assms by (simp add: decode_bytes_def encode_bytes_def Let_def)
qed

lemma decode_encode_string:
  assumes "length j \<le> MAX_MESSAGE_LEN" "utf8_valid j"
  shows "decode_string (encode_string j @ rest) = Some (j, length (encode_string j))"
proof -
  have "from_le (to_le 2 (length j)) = length j"
    using assms by (intro from_le_to_le) (simp add: MAX_MESSAGE_LEN_def)
  then show ?thesis using assms by (simp add: decode_string_def encode_string_def Let_def)
qed

subsection \<open>The two message formats\<close>

definition valid_request :: "MarshalRequest \<Rightarrow> bool" where
  "valid_request m \<longleftrightarrow> length (kerkese_json m) \<le> MAX_JSON_LEN"

definition valid_text :: "bytes \<Rightarrow> bool" where
  "valid_text t \<longleftrightarrow> length t \<le> MAX_MESSAGE_LEN \<and> utf8_valid t"

fun valid_error :: "MarshalError \<Rightarrow> bool" where
  "valid_error (MarshalError.Unreachable t) = valid_text t"
| "valid_error MarshalError.Timeout = True"
| "valid_error (MarshalError.BadResponse t) = valid_text t"
| "valid_error (MarshalError.Other t) = valid_text t"
| "valid_error (MarshalError.PolicyRefused t) = valid_text t"

fun valid_response :: "MarshalResponse \<Rightarrow> bool" where
  "valid_response (Decision _ j) = (length j \<le> MAX_JSON_LEN)"
| "valid_response (Error e) = valid_error e"

lemma from_to_byte [simp]: "from_byte (to_byte outcome) = Some outcome"
  by (cases outcome) (simp_all add: from_byte_def)

lemma error_round_trip:
  "valid_error e \<Longrightarrow> error_decode (error_encode e @ rest) = Some (e, length (error_encode e))"
  by (cases e) (auto simp: error_encode_def valid_text_def decode_encode_string)

lemma error_decode_extend:
  assumes "error_decode buf = Some (e, n)"
  shows "n \<le> length buf \<and> error_decode (buf @ rest) = Some (e, n)"
proof (cases buf)
  case (Cons t r)
  have "decode_string r = Some (j, k) \<Longrightarrow> k \<le> length r \<and> decode_string (r @ rest) = Some (j, k)" for j k
    by (rule decode_string_extend)
  with Cons assms show ?thesis by (cases "decode_string r") (auto split: if_splits)
qed (use assms in simp)

lemma response_decode_extend:
  assumes "response_decode buf = Some (m, n)"
  shows "n \<le> length buf \<and> response_decode (buf @ rest) = Some (m, n)"
proof (cases buf)
  case (Cons t r)
  have err: "error_decode r = Some (e, k) \<Longrightarrow> k \<le> length r \<and> error_decode (r @ rest) = Some (e, k)" for e k
    by (rule error_decode_extend)
  have byt: "decode_bytes q = Some (j, k) \<Longrightarrow> k \<le> length q \<and> decode_bytes (q @ rest) = Some (j, k)" for q j k
    by (rule decode_bytes_extend)
  show ?thesis
  proof (cases r)
    case Nil
    with Cons assms show ?thesis by (auto split: if_splits)
  next
    case r: (Cons b q)
    with Cons assms err byt [of q] show ?thesis
      by (cases "error_decode r"; cases "decode_bytes q") (auto split: if_splits option.splits)
  qed
qed (use assms in simp)

interpretation request_codec: message_codec request_encode request_decode valid_request
proof unfold_locales
  fix m rest
  show "valid_request m \<Longrightarrow> request_decode (request_encode m @ rest) = Some (m, length (request_encode m))"
    by (simp add: request_decode_def request_encode_def valid_request_def decode_encode_bytes)
next
  fix buf m n rest
  show "request_decode buf = Some (m, n) \<Longrightarrow> n \<le> length buf \<and> request_decode (buf @ rest) = Some (m, n)"
    using decode_bytes_extend [of buf "kerkese_json m" n rest] by (auto simp: request_decode_def)
qed

interpretation response_codec: message_codec response_encode response_decode valid_response
proof unfold_locales
  fix m rest
  show "valid_response m \<Longrightarrow> response_decode (response_encode m @ rest) = Some (m, length (response_encode m))"
    by (cases m) (simp_all add: decode_encode_bytes error_round_trip)
next
  fix buf m n rest
  show "response_decode buf = Some (m, n) \<Longrightarrow> n \<le> length buf \<and> response_decode (buf @ rest) = Some (m, n)"
    by (rule response_decode_extend)
qed

subsection \<open>The verdict agrees with the decoder\<close>

lemma error_status_decode:
  "error_status buf = Ok (Some n) \<Longrightarrow> \<exists>e. error_decode buf = Some (e, n)"
  "error_decode buf = Some (e, n) \<Longrightarrow> error_status buf = Ok (Some n)"
proof -
  have str: "decode_string r = Some (j, k) \<Longrightarrow> status_string r = Ok (Some k)" for r j k
    using string_status_decode(1) by blast
  show "error_status buf = Ok (Some n) \<Longrightarrow> \<exists>e. error_decode buf = Some (e, n)"
  proof (cases buf)
    case (Cons t r)
    moreover assume "error_status buf = Ok (Some n)"
    ultimately show ?thesis
      by (cases "status_string r") (auto split: if_splits option.splits simp: string_status_decode(1))
  qed simp
  show "error_decode buf = Some (e, n) \<Longrightarrow> error_status buf = Ok (Some n)"
    by (cases buf) (auto split: if_splits dest: str)
qed

lemma error_status_mono: "error_status buf = Err () \<Longrightarrow> error_status (buf @ rest) = Err ()"
proof (cases buf)
  case (Cons t r)
  moreover assume "error_status buf = Err ()"
  ultimately show ?thesis
    by (cases "status_string r") (auto split: if_splits simp: status_string_mono)
qed simp

text \<open>The framing verdict of \<open>decode_status\<close>, named for the proofs.\<close>

fun framing :: "bytes \<Rightarrow> unit Step" where
  "framing [] = Ok None"
| "framing (tag # rest) =
     (if tag = 0 then
        (case rest of
           [] \<Rightarrow> Ok None
         | b # rest2 \<Rightarrow>
             if from_byte b = None then Err ()
             else map_ok (map_option (\<lambda>_. ())) (status_bytes rest2))
      else if tag = 1 then map_ok (map_option (\<lambda>_. ())) (error_status rest)
      else Err ())"

lemma decode_status_framing:
  "decode_status buf =
     (case framing buf of
        Err _ \<Rightarrow> Malformed
      | Ok None \<Rightarrow> Incomplete
      | Ok (Some _) \<Rightarrow> (case response_decode buf of Some (resp, n) \<Rightarrow> Complete resp n | None \<Rightarrow> Malformed))"
proof (cases buf)
  case (Cons t r)
  show ?thesis unfolding Cons decode_status.simps framing.simps Let_def by (rule refl)
qed simp

lemma framing_mono: "framing buf = Err () \<Longrightarrow> framing (buf @ rest) = Err ()"
proof (cases buf)
  case (Cons t r)
  assume e: "framing buf = Err ()"
  show ?thesis
  proof (cases "t = 0")
    case True
    with e Cons show ?thesis
      by (cases r; cases "status_bytes (tl r)") (auto split: if_splits simp: status_bytes_mono)
  next
    case False
    with e Cons show ?thesis
      by (cases "error_status r") (auto split: if_splits simp: error_status_mono)
  qed
qed simp

lemma framing_complete: "framing buf = Ok (Some ()) \<longleftrightarrow> response_decode buf \<noteq> None"
proof (cases buf)
  case (Cons t r)
  have some: "map_ok (map_option (\<lambda>_. ())) v = Ok (Some ()) \<longleftrightarrow> (\<exists>n. v = Ok (Some n))" for v :: "nat Step"
    by (cases v) (auto simp: map_option_case split: option.splits)
  have err: "map_ok (map_option (\<lambda>_. ())) (error_status r) = Ok (Some ()) \<longleftrightarrow> error_decode r \<noteq> None"
    unfolding some using error_status_decode [of r] by (cases "error_decode r") auto
  have byt: "map_ok (map_option (\<lambda>_. ())) (status_bytes q) = Ok (Some ()) \<longleftrightarrow> decode_bytes q \<noteq> None" for q
    unfolding some using bytes_status_decode(1) [of q] by (cases "decode_bytes q") auto
  show ?thesis
    using err byt [of "tl r"] by (cases r) (auto simp: Cons split: option.splits if_splits)
qed simp

lemma status_complete_iff: "decode_status buf = Complete m n \<longleftrightarrow> response_decode buf = Some (m, n)"
  using framing_complete [of buf]
  by (auto simp: decode_status_framing split: result.splits option.splits)

lemma status_malformed_iff: "decode_status buf = Malformed \<longleftrightarrow> framing buf = Err ()"
  using framing_complete [of buf]
  by (auto simp: decode_status_framing split: result.splits option.splits)

lemma status_malformed_mono: "decode_status buf = Malformed \<Longrightarrow> decode_status (buf @ rest) = Malformed"
  unfolding status_malformed_iff by (rule framing_mono)

lemma status_prefix_incomplete:
  assumes "valid_response m" "response_encode m = p @ q" "q \<noteq> []"
  shows "decode_status p = Incomplete"
proof (cases "decode_status p")
  case (Complete m' n)
  then show ?thesis
    using response_codec.prefix_undecodable [OF assms] by (simp add: status_complete_iff)
next
  case Malformed
  then have "decode_status (response_encode m) = Malformed" using assms(2) by (simp add: status_malformed_mono)
  moreover have "decode_status (response_encode m) = Complete m (length (response_encode m))"
    using response_codec.round_trip [OF assms(1), of "[]"] by (simp add: status_complete_iff)
  ultimately show ?thesis by simp
qed

subsection \<open>Properties\<close>

text \<open>
  C24.  The reply format round-trips through a byte stream: a receiver that appends one byte at a
  time and retries the decoder obtains exactly the response that was encoded, after exactly its own
  bytes and never earlier, and leaves the rest of the stream in place.  This holds for every
  response whose fields respect the wire bounds.
\<close>

theorem response_stream_roundtrip:
  assumes "valid_response m"
  shows "accumulate response_decode [] (response_encode m @ rest) = Some (m, rest)"
  using response_codec.read_message [OF assms, of "[]"] by simp

theorem response_stream_roundtrip_witness:
  "accumulate response_decode [] (response_encode (Error (MarshalError.PolicyRefused [110, 111])) @ [1, 2, 3])
   = Some (Error (MarshalError.PolicyRefused [110, 111]), [1, 2, 3])"
  by (rule response_stream_roundtrip) (simp add: valid_text_def MAX_MESSAGE_LEN_def)

text \<open>
  The streaming verdict keeps its documented guarantees: it is complete exactly when the
  decoder succeeds, with identical contents; a malformed buffer stays malformed whatever follows;
  and every proper prefix of a valid encoding is merely incomplete.  So a garbled reply can never
  be mistaken for one that is still arriving, nor the reverse.
\<close>

theorem decode_status_guarantees:
  "(decode_status buf = Complete m n \<longleftrightarrow> response_decode buf = Some (m, n)) \<and>
   (decode_status buf = Malformed \<longrightarrow> decode_status (buf @ rest) = Malformed) \<and>
   (valid_response r \<and> response_encode r = buf @ rest \<and> rest \<noteq> [] \<longrightarrow> decode_status buf = Incomplete)"
  using status_complete_iff status_malformed_mono status_prefix_incomplete by blast

theorem decode_status_guarantees_witness:
  "decode_status ([7] @ [0, 0]) = Malformed \<and> decode_status [1, 4, 2, 0, 110] = Incomplete"
proof
  have "decode_status [7] = Malformed" by (simp add: Let_def)
  then show "decode_status ([7] @ [0, 0]) = Malformed"
    using decode_status_guarantees [of "[7]" "Error MarshalError.Timeout" 0 "[0, 0]"] by blast
  have "response_encode (Error (MarshalError.PolicyRefused [110, 111])) = [1, 4, 2, 0, 110] @ [111]"
    by (simp add: error_encode_def encode_string_def numeral_2_eq_2)
  then show "decode_status [1, 4, 2, 0, 110] = Incomplete"
    using decode_status_guarantees [of "[1, 4, 2, 0, 110]" "Error MarshalError.Timeout" 0 "[111]"
        "Error (MarshalError.PolicyRefused [110, 111])"]
    by (simp add: valid_text_def MAX_MESSAGE_LEN_def)
qed

end
