(* ===== verification/MarshalAction.thy ===== *)
theory MarshalAction
  imports Citadel MarshalWire
begin

text \<open>
  Governed actions and the enforcement decision: \<open>kernel-arm/src/marshal_action.rs\<close>, the evaluation
  of an action over the network in \<open>kernel-arm/src/marshal_transport.rs\<close>, and the wrappers of
  \<open>kernel-arm/src/esim_marshal.rs\<close>.  What happens outside the kernel during an evaluation (the
  network device, the driver process it loads, the remote proxy's reply) is a parameter: a function
  from the evaluation's number, the remote address, the local port and the request bytes to an
  \<open>Excursion\<close>, everything the kernel can observe of it.
\<close>

subsection \<open>Actions\<close>

datatype MarshalAction =
    Esim string usize u8
  | MvnoBind u64 usize u8
  | MvnoSuspend u64
  | MvnoReactivate u64
  | DataResetUsage u64

definition quoted :: "string \<Rightarrow> string" where
  "quoted s = [CHR 0x22] @ s @ [CHR 0x22]"

fun action_type :: "MarshalAction \<Rightarrow> string" where
  "action_type (Esim op _ _) = ''esim.'' @ op"
| "action_type (MarshalAction.MvnoBind _ _ _) = ''mvno.bind_profile''"
| "action_type (MarshalAction.MvnoSuspend _) = ''mvno.suspend_account''"
| "action_type (MarshalAction.MvnoReactivate _) = ''mvno.reactivate_account''"
| "action_type (DataResetUsage _) = ''data.reset_usage''"

definition json_head :: "MarshalAction \<Rightarrow> string" where
  "json_head a = ''{'' @ quoted ''type'' @ '':'' @ quoted (action_type a) @ '',''"

fun action_json :: "MarshalAction \<Rightarrow> string" where
  "action_json (Esim op slot profile) =
     json_head (Esim op slot profile) @ quoted ''slot'' @ '':'' @ show_word slot @ '','' @
     quoted ''profile'' @ '':'' @ show_word profile @ ''}''"
| "action_json (MarshalAction.MvnoBind account slot profile) =
     json_head (MarshalAction.MvnoBind account slot profile) @
     quoted ''account'' @ '':'' @ show_word account @ '','' @ quoted ''slot'' @ '':'' @ show_word slot @ '','' @
     quoted ''profile'' @ '':'' @ show_word profile @ ''}''"
| "action_json (MarshalAction.MvnoSuspend account) =
     json_head (MarshalAction.MvnoSuspend account) @ quoted ''account'' @ '':'' @ show_word account @ ''}''"
| "action_json (MarshalAction.MvnoReactivate account) =
     json_head (MarshalAction.MvnoReactivate account) @ quoted ''account'' @ '':'' @ show_word account @ ''}''"
| "action_json (DataResetUsage account) =
     json_head (DataResetUsage account) @ quoted ''account'' @ '':'' @ show_word account @ ''}''"

fun execution_id :: "MarshalAction \<Rightarrow> string" where
  "execution_id (Esim op slot profile) = ''esim-'' @ op @ ''-'' @ show_word slot @ ''-'' @ show_word profile"
| "execution_id (MarshalAction.MvnoBind account slot profile) =
     ''mvno-bind-'' @ show_word account @ ''-'' @ show_word slot @ ''-'' @ show_word profile"
| "execution_id (MarshalAction.MvnoSuspend account) = ''mvno-suspend-'' @ show_word account"
| "execution_id (MarshalAction.MvnoReactivate account) = ''mvno-reactivate-'' @ show_word account"
| "execution_id (DataResetUsage account) = ''data-reset-'' @ show_word account"

fun action_label :: "MarshalAction \<Rightarrow> string" where
  "action_label (Esim op slot profile) = op @ '' slot='' @ show_word slot @ '' profile='' @ show_word profile"
| "action_label (MarshalAction.MvnoBind account slot profile) =
     ''mvno.bind_profile account='' @ show_word account @ '' slot='' @ show_word slot @ '' profile='' @ show_word profile"
| "action_label (MarshalAction.MvnoSuspend account) = ''mvno.suspend_account account='' @ show_word account"
| "action_label (MarshalAction.MvnoReactivate account) = ''mvno.reactivate_account account='' @ show_word account"
| "action_label (DataResetUsage account) = ''data.reset_usage account='' @ show_word account"

datatype UnreachablePolicy = FailOpen | FailClosed

fun unreachable_policy :: "MarshalAction \<Rightarrow> UnreachablePolicy" where
  "unreachable_policy (Esim op _ _) = (if op = ''enable'' then FailOpen else FailClosed)"
| "unreachable_policy (MarshalAction.MvnoBind _ _ _) = FailOpen"
| "unreachable_policy (MarshalAction.MvnoSuspend _) = FailOpen"
| "unreachable_policy (MarshalAction.MvnoReactivate _) = FailClosed"
| "unreachable_policy (DataResetUsage _) = FailClosed"

definition action_kerkese_json :: "MarshalAction \<Rightarrow> string \<Rightarrow> string" where
  "action_kerkese_json a who =
     ''{'' @ quoted ''kerkese_version'' @ '':'' @ quoted ''1.0'' @ '','' @ quoted ''dry_run'' @ '':true,'' @
     quoted ''action'' @ '':'' @ action_json a @ '','' @
     quoted ''actor'' @ '':{'' @ quoted ''user_id'' @ '':'' @ quoted who @ '','' @
     quoted ''role'' @ '':'' @ quoted ''operator'' @ ''},'' @
     quoted ''execution_id'' @ '':'' @ quoted (execution_id a) @ ''}''"

subsection \<open>The decision\<close>

datatype LocalFailure = SetupFailed | SpawnFailed | ExcursionFaulted

fun local_failure_str :: "LocalFailure \<Rightarrow> string" where
  "local_failure_str SetupFailed = ''SetupFailed''"
| "local_failure_str SpawnFailed = ''SpawnFailed''"
| "local_failure_str ExcursionFaulted = ''ExcursionFaulted''"

datatype GateOutcome = Remote ShadowMarshalOutcome | LocalFailed LocalFailure

datatype Blocked =
    BlockedRemote ShadowMarshalOutcome
  | BlockedLocal LocalFailure
  | BlockedUnreachable
  | BlockedFaulty

fun show_outcome :: "ShadowMarshalOutcome \<Rightarrow> string" where
  "show_outcome ShadowMarshalOutcome.Execute = ''Execute''"
| "show_outcome ShadowMarshalOutcome.Refuse = ''Refuse''"
| "show_outcome ShadowMarshalOutcome.HardStop = ''HardStop''"
| "show_outcome ShadowMarshalOutcome.Unreachable = ''Unreachable''"
| "show_outcome ShadowMarshalOutcome.Faulty = ''Faulty''"

fun display_Blocked :: "Blocked \<Rightarrow> string" where
  "display_Blocked (BlockedRemote o') = ''MARSHAL '' @ show_outcome o'"
| "display_Blocked (BlockedLocal l) = ''MARSHAL local failure: '' @ local_failure_str l"
| "display_Blocked BlockedUnreachable = ''MARSHAL unreachable: fail-closed for this action''"
| "display_Blocked BlockedFaulty = ''MARSHAL faulty reply: fail-closed''"

fun enforce :: "UnreachablePolicy \<Rightarrow> GateOutcome \<Rightarrow> (unit, Blocked) result" where
  "enforce policy (Remote ShadowMarshalOutcome.Execute) = Ok ()"
| "enforce policy (Remote ShadowMarshalOutcome.Unreachable) =
     (case policy of FailOpen \<Rightarrow> Ok () | FailClosed \<Rightarrow> Err BlockedUnreachable)"
| "enforce policy (Remote ShadowMarshalOutcome.Faulty) = Err BlockedFaulty"
| "enforce policy (Remote ShadowMarshalOutcome.Refuse) = Err (BlockedRemote ShadowMarshalOutcome.Refuse)"
| "enforce policy (Remote ShadowMarshalOutcome.HardStop) = Err (BlockedRemote ShadowMarshalOutcome.HardStop)"
| "enforce policy (LocalFailed l) = Err (BlockedLocal l)"

fun verdict_text :: "GateOutcome \<Rightarrow> string" where
  "verdict_text (Remote ShadowMarshalOutcome.Execute) = ''MARSHAL verdict: Execute''"
| "verdict_text (Remote ShadowMarshalOutcome.Unreachable) = ''MARSHAL verdict: Unreachable (fail-open: not governed)''"
| "verdict_text (Remote ShadowMarshalOutcome.Faulty) = ''MARSHAL verdict: Faulty (blocked: fail-closed)''"
| "verdict_text (Remote o') = ''MARSHAL verdict: '' @ show_outcome o' @ '' (blocked)''"
| "verdict_text (LocalFailed l) = ''MARSHAL verdict: local failure '' @ local_failure_str l @ '' (blocked)''"

fun reason_with_verdict :: "string option \<Rightarrow> string \<Rightarrow> string" where
  "reason_with_verdict (Some b) verdict = b @ ''; '' @ verdict"
| "reason_with_verdict None verdict = verdict"

fun classify_response :: "MarshalResponse option \<Rightarrow> ShadowMarshalOutcome" where
  "classify_response (Some (Decision outcome _)) =
     (case outcome of
        MarshalOutcome.Execute \<Rightarrow> ShadowMarshalOutcome.Execute
      | MarshalOutcome.Refuse \<Rightarrow> ShadowMarshalOutcome.Refuse
      | MarshalOutcome.HardStop \<Rightarrow> ShadowMarshalOutcome.HardStop)"
| "classify_response (Some (Error (MarshalError.PolicyRefused _))) = ShadowMarshalOutcome.Refuse"
| "classify_response (Some (Error (MarshalError.BadResponse _))) = ShadowMarshalOutcome.Faulty"
| "classify_response (Some (Error (MarshalError.Other _))) = ShadowMarshalOutcome.Faulty"
| "classify_response (Some (Error (MarshalError.Unreachable _))) = ShadowMarshalOutcome.Unreachable"
| "classify_response (Some (Error MarshalError.Timeout)) = ShadowMarshalOutcome.Unreachable"
| "classify_response None = ShadowMarshalOutcome.Unreachable"

fun classify_decode :: "ResponseDecode \<Rightarrow> ShadowMarshalOutcome" where
  "classify_decode (Complete resp _) = classify_response (Some resp)"
| "classify_decode Malformed = ShadowMarshalOutcome.Faulty"
| "classify_decode Incomplete = ShadowMarshalOutcome.Unreachable"

definition MARSHAL_LOCAL_PORT_BASE :: u16 where
  "MARSHAL_LOCAL_PORT_BASE = 49153"

definition MARSHAL_LOCAL_PORT_SPAN :: u16 where
  "MARSHAL_LOCAL_PORT_SPAN = 16000"

definition marshal_local_port :: "u64 \<Rightarrow> u16" where
  "marshal_local_port n = MARSHAL_LOCAL_PORT_BASE + ucast (n mod ucast MARSHAL_LOCAL_PORT_SPAN)"

subsection \<open>Evaluation\<close>

definition MARSHAL_BUFFER_CAPACITY :: nat where
  "MARSHAL_BUFFER_CAPACITY = 2 * 4096"

text \<open>
  What one evaluation observes: whether a network device was found; whether loading the driver
  process gave a response region; whether its thread could be spawned; the value of \<open>FINISHED\<close>
  after each number of yields; whether the process faulted; the status and length it reported; and
  the bytes of the response region.  (The debug hook \<open>DEBUG_FORCE_LOCAL_FAILURE\<close> is the constant
  \<open>None\<close> and has no branch here.)
\<close>

record Excursion =
  exc_net :: bool
  exc_setup :: "(bool, unit) result"
  exc_spawn :: bool
  exc_finished :: "nat \<Rightarrow> bool"
  exc_faulted :: bool
  exc_status :: u64
  exc_response_len :: u64
  exc_response :: bytes

type_synonym network = "u64 \<Rightarrow> bytes \<times> u16 \<Rightarrow> u16 \<Rightarrow> bytes \<Rightarrow> Excursion"

record MarshalState =
  marshal_proxy :: "(bytes \<times> u16) option"
  evaluation_counter :: u64

fun wait_finished :: "(nat \<Rightarrow> bool) \<Rightarrow> nat \<Rightarrow> nat \<Rightarrow> bool" where
  "wait_finished finished yields 0 = finished yields"
| "wait_finished finished yields (Suc budget) =
     (if finished yields then True else wait_finished finished (Suc yields) budget)"

definition evaluate_configured ::
    "network \<Rightarrow> MarshalAction \<Rightarrow> string \<Rightarrow> bytes \<times> u16 \<Rightarrow> MarshalState \<Rightarrow> GateOutcome \<times> MarshalState" where
  "evaluate_configured net action who remote s =
     (let encoded = request_encode \<lparr>kerkese_json = as_bytes (action_kerkese_json action who)\<rparr>;
          n = evaluation_counter s;
          exc = net n remote (marshal_local_port n) encoded
      in if \<not> exc_net exc then (Remote ShadowMarshalOutcome.Unreachable, s)
         else
           let s = s\<lparr>evaluation_counter := n + 1\<rparr> in
           (case exc_setup exc of
              Err _ \<Rightarrow> LocalFailed SetupFailed
            | Ok has_region \<Rightarrow>
                if \<not> has_region then LocalFailed SetupFailed
                else if \<not> exc_spawn exc then LocalFailed SpawnFailed
                else if \<not> wait_finished (exc_finished exc) 0 64 then Remote ShadowMarshalOutcome.Unreachable
                else if exc_faulted exc then LocalFailed ExcursionFaulted
                else if exc_status exc \<noteq> 0 \<or> exc_response_len exc = 0 then Remote ShadowMarshalOutcome.Unreachable
                else
                  let len = min (unat (exc_response_len exc)) MARSHAL_BUFFER_CAPACITY in
                  Remote (classify_decode (decode_status (take len (exc_response exc)))),
            s))"

definition marshal_evaluate ::
    "network \<Rightarrow> MarshalAction \<Rightarrow> string \<Rightarrow> MarshalState \<Rightarrow> GateOutcome \<times> MarshalState" where
  "marshal_evaluate net action who s =
     (case marshal_proxy s of
        None \<Rightarrow> (Remote ShadowMarshalOutcome.Unreachable, s)
      | Some remote \<Rightarrow> evaluate_configured net action who remote s)"

definition esim_evaluate ::
    "network \<Rightarrow> string \<Rightarrow> usize \<Rightarrow> u8 \<Rightarrow> string \<Rightarrow> MarshalState \<Rightarrow> GateOutcome \<times> MarshalState" where
  "esim_evaluate net operation slot profile who = marshal_evaluate net (Esim operation slot profile) who"

subsection \<open>What an evaluation amounts to\<close>

definition excursion_of :: "network \<Rightarrow> MarshalAction \<Rightarrow> string \<Rightarrow> bytes \<times> u16 \<Rightarrow> MarshalState \<Rightarrow> Excursion" where
  "excursion_of net a who remote s =
     net (evaluation_counter s) remote (marshal_local_port (evaluation_counter s))
       (request_encode \<lparr>kerkese_json = as_bytes (action_kerkese_json a who)\<rparr>)"

definition reply_bytes :: "Excursion \<Rightarrow> bytes" where
  "reply_bytes exc = take (min (unat (exc_response_len exc)) MARSHAL_BUFFER_CAPACITY) (exc_response exc)"

text \<open>The driver process was loaded and started.\<close>

definition launched :: "Excursion \<Rightarrow> bool" where
  "launched exc \<longleftrightarrow> exc_net exc \<and> exc_setup exc = Ok True \<and> exc_spawn exc"

text \<open>It finished in time, did not fault, and reported a reply.\<close>

definition replied :: "Excursion \<Rightarrow> bool" where
  "replied exc \<longleftrightarrow>
     launched exc \<and> (\<exists>k\<le>64. exc_finished exc k) \<and> \<not> exc_faulted exc \<and>
     exc_status exc = 0 \<and> exc_response_len exc \<noteq> 0"

text \<open>Nothing answered: no device, no report in time, a failed connection, or a report of nothing.\<close>

definition no_answer :: "Excursion \<Rightarrow> bool" where
  "no_answer exc \<longleftrightarrow>
     \<not> exc_net exc \<or>
     launched exc \<and>
       ((\<forall>k\<le>64. \<not> exc_finished exc k) \<or>
        \<not> exc_faulted exc \<and> (exc_status exc \<noteq> 0 \<or> exc_response_len exc = 0))"

lemma wait_finished_iff:
  "wait_finished f y budget \<longleftrightarrow> (\<exists>k. y \<le> k \<and> k \<le> y + budget \<and> f k)"
proof (induction budget arbitrary: y)
  case 0
  then show ?case by (auto dest: le_antisym)
next
  case (Suc budget)
  show ?case
  proof (cases "f y")
    case False
    then have "(\<exists>k. y \<le> k \<and> k \<le> y + Suc budget \<and> f k) \<longleftrightarrow> (\<exists>k. Suc y \<le> k \<and> k \<le> Suc y + budget \<and> f k)"
      by (metis Suc_leD Suc_leI add_Suc add_Suc_right le_neq_implies_less)
    with False Suc show ?thesis by simp
  qed auto
qed

lemma evaluate_replied:
  assumes "marshal_proxy s = Some remote" "replied (excursion_of net a who remote s)"
  shows "fst (marshal_evaluate net a who s) =
         Remote (classify_decode (decode_status (reply_bytes (excursion_of net a who remote s))))"
proof -
  let ?e = "excursion_of net a who remote s"
  have "wait_finished (exc_finished ?e) 0 64" using assms(2) by (auto simp: replied_def wait_finished_iff)
  then show ?thesis
    using assms by (simp add: marshal_evaluate_def evaluate_configured_def excursion_of_def [symmetric]
        replied_def launched_def reply_bytes_def Let_def)
qed

lemma evaluate_no_answer:
  assumes "marshal_proxy s = Some remote" "no_answer (excursion_of net a who remote s)"
  shows "fst (marshal_evaluate net a who s) = Remote ShadowMarshalOutcome.Unreachable"
  using assms by (auto simp: marshal_evaluate_def evaluate_configured_def excursion_of_def [symmetric]
      no_answer_def launched_def wait_finished_iff Let_def)

lemma evaluate_failed:
  assumes "marshal_proxy s = Some remote"
    "\<not> replied (excursion_of net a who remote s)" "\<not> no_answer (excursion_of net a who remote s)"
  shows "\<exists>l. fst (marshal_evaluate net a who s) = LocalFailed l"
  using assms by (auto simp: marshal_evaluate_def evaluate_configured_def excursion_of_def [symmetric]
      no_answer_def replied_def launched_def wait_finished_iff Let_def split: result.splits)

lemma enforce_Ok:
  "enforce policy out = Ok () \<longleftrightarrow>
     out = Remote ShadowMarshalOutcome.Execute \<or> out = Remote ShadowMarshalOutcome.Unreachable \<and> policy = FailOpen"
proof (cases out)
  case (Remote o')
  then show ?thesis by (cases o'; cases policy) simp_all
qed simp

lemma classify_decode_Execute:
  "classify_decode d = ShadowMarshalOutcome.Execute \<longleftrightarrow> (\<exists>j n. d = Complete (Decision MarshalOutcome.Execute j) n)"
proof (cases d)
  case (Complete r n)
  then show ?thesis
  proof (cases r)
    case (Decision out j)
    with Complete show ?thesis by (cases out) simp_all
  next
    case (Error e)
    with Complete show ?thesis by (cases e) simp_all
  qed
qed simp_all

lemma classify_decode_Unreachable:
  "classify_decode d = ShadowMarshalOutcome.Unreachable \<longleftrightarrow>
     d = Incomplete \<or> (\<exists>n. d = Complete (Error MarshalError.Timeout) n) \<or>
     (\<exists>t n. d = Complete (Error (MarshalError.Unreachable t)) n)"
proof (cases d)
  case (Complete r n)
  then show ?thesis
  proof (cases r)
    case (Decision out j)
    with Complete show ?thesis by (cases out) simp_all
  next
    case (Error e)
    with Complete show ?thesis by (cases e) simp_all
  qed
qed simp_all

subsection \<open>Requests name their action\<close>

text \<open>The operations the kernel passes (\<open>enable\<close>, \<open>delete\<close>) contain no quote, comma or dash.\<close>

fun plain_op :: "MarshalAction \<Rightarrow> bool" where
  "plain_op (Esim op _ _) = (CHR 0x22 \<notin> set op \<and> CHR ''-'' \<notin> set op)"
| "plain_op _ = True"

lemma quote_not_digit: "CHR 0x22 \<notin> set (show_word w)" "CHR '','' \<notin> set (show_word w)" "CHR ''}'' \<notin> set (show_word w)"
  "CHR ''-'' \<notin> set (show_word w)"
  by (rule digit_sep, simp add: is_digit_def)+

lemma action_json_prefix_free:
  assumes "plain_op a" "plain_op b" "action_json a @ x = action_json b @ y"
  shows "a = b"
proof -
  have ty: "action_type a = action_type b"
  proof -
    have "CHR 0x22 \<notin> set (action_type a)" "CHR 0x22 \<notin> set (action_type b)"
      using assms(1,2) by (cases a; cases b; simp)+
    moreover have "\<exists>p. action_json c = ''{'' @ quoted ''type'' @ '':'' @ [CHR 0x22] @ action_type c @ CHR 0x22 # p" for c
      by (cases c) (simp_all add: json_head_def quoted_def)
    then obtain p q where
      "action_json a = ''{'' @ quoted ''type'' @ '':'' @ [CHR 0x22] @ action_type a @ CHR 0x22 # p"
      "action_json b = ''{'' @ quoted ''type'' @ '':'' @ [CHR 0x22] @ action_type b @ CHR 0x22 # q"
      by blast
    ultimately show ?thesis using assms(3) by (simp add: append_sep_inj)
  qed
  then show ?thesis
    using assms(3)
    by (cases a; cases b)
       (simp_all add: json_head_def quoted_def append_sep_inj quote_not_digit show_word_inj)
qed

lemma kerkese_json_inj:
  assumes "plain_op a" "plain_op b" "action_kerkese_json a who = action_kerkese_json b who"
  shows "a = b"
  using assms by (auto simp: action_kerkese_json_def intro: action_json_prefix_free)

lemma marshal_local_port_value: "unat (marshal_local_port n) = 49153 + unat n mod 16000"
proof -
  have "unat n mod 16000 < 16000" by simp
  then have "unat (ucast (n mod 16000) :: u16) = unat n mod 16000"
    by (simp add: unsigned_ucast_eq unat_mod take_bit_nat_eq_self)
  then show ?thesis
    by (simp add: marshal_local_port_def MARSHAL_LOCAL_PORT_BASE_def MARSHAL_LOCAL_PORT_SPAN_def unat_word_ariths)
qed

subsection \<open>Properties\<close>

text \<open>
  C29.  The gate opens exactly in two cases.  An action passes evaluation and enforcement if and only
  if a reply came back that decodes to an Execute decision, or the action is one of those whose
  policy is fail-open and nothing answered: no proxy is configured, the excursion got no answer, or
  the reply was cut short or reports that MARSHAL itself was unreachable or timed out.  Every local
  failure, every refusal and every garbled reply blocks every action.
\<close>

theorem gate_opens_iff:
  "enforce (unreachable_policy a) (fst (marshal_evaluate net a who s)) = Ok () \<longleftrightarrow>
     (case marshal_proxy s of
        None \<Rightarrow> unreachable_policy a = FailOpen
      | Some remote \<Rightarrow>
          let exc = excursion_of net a who remote s; d = decode_status (reply_bytes exc) in
          replied exc \<and> (\<exists>j n. d = Complete (Decision MarshalOutcome.Execute j) n) \<or>
          unreachable_policy a = FailOpen \<and>
            (no_answer exc \<or>
             replied exc \<and>
               (d = Incomplete \<or> (\<exists>n. d = Complete (Error MarshalError.Timeout) n) \<or>
                (\<exists>t n. d = Complete (Error (MarshalError.Unreachable t)) n))))"
proof (cases "marshal_proxy s")
  case None
  then show ?thesis by (simp add: marshal_evaluate_def split: UnreachablePolicy.split)
next
  case (Some remote)
  let ?exc = "excursion_of net a who remote s"
  show ?thesis
  proof (cases "replied ?exc")
    case True
    then have "\<not> no_answer ?exc" by (auto simp: replied_def no_answer_def launched_def)
    with True show ?thesis
      by (simp add: Some evaluate_replied [OF Some True] enforce_Ok classify_decode_Execute
          classify_decode_Unreachable Let_def conj_commute)
  next
    case False
    show ?thesis
    proof (cases "no_answer ?exc")
      case True
      with False show ?thesis 
        by (simp add: Some evaluate_no_answer [OF Some True] Let_def split: UnreachablePolicy.split)
    next
      case no: False
      from evaluate_failed [OF Some False no] obtain l where "fst (marshal_evaluate net a who s) = LocalFailed l" by blast
      with False no show ?thesis by (simp add: Some Let_def)
    qed
  qed
qed

text \<open>
  The actions that go ahead when nobody could be asked: enabling a profile, binding and suspending.
\<close>

definition may_go_unasked :: "MarshalAction \<Rightarrow> bool" where
  "may_go_unasked a \<longleftrightarrow>
     (\<exists>slot p. a = Esim ''enable'' slot p) \<or> (\<exists>acct slot p. a = MarshalAction.MvnoBind acct slot p) \<or>
     (\<exists>acct. a = MarshalAction.MvnoSuspend acct)"

lemma unreachable_policy_iff: "unreachable_policy a = (if may_go_unasked a then FailOpen else FailClosed)"
  by (cases a) (auto simp: may_go_unasked_def)


definition sample_network :: "bytes \<Rightarrow> network" where
  "sample_network reply = (\<lambda>n remote port request.
     \<lparr>exc_net = True, exc_setup = Ok True, exc_spawn = True, exc_finished = (\<lambda>k. 1 \<le> k), exc_faulted = False,
      exc_status = 0, exc_response_len = of_nat (length reply), exc_response = reply\<rparr>)"


text \<open>
  A request names its action: two governed actions whose request texts are equal are the same
  action, with the same operation, slot, profile and account (operation names contain no quote).
\<close>

theorem request_names_action:
  assumes "plain_op a" "plain_op b"
  shows "action_kerkese_json a who = action_kerkese_json b who \<longleftrightarrow> a = b"
  using kerkese_json_inj [OF assms] by blast

theorem request_names_action_witness:
  "action_kerkese_json (Esim ''enable'' 1 23) ''el0'' \<noteq> action_kerkese_json (Esim ''enable'' 12 3) ''el0''"
  using request_names_action [of "Esim ''enable'' 1 23" "Esim ''enable'' 12 3" "''el0''"] by simp

subsection \<open>A reply larger than the buffer\<close>

text \<open>
  The kernel's response buffer holds 8192 bytes, while the wire format allows a decision document of
  16384.  A refusal with a longer document is cut off at the buffer's end, reads as still incomplete,
  and is classified as if nothing had answered; a fail-open action then proceeds.
\<close>

theorem oversized_refusal_fails_open:
  assumes "marshal_proxy s = Some remote" "length j \<le> MAX_JSON_LEN" "MARSHAL_BUFFER_CAPACITY < 6 + length j"
    and "replied (excursion_of net a who remote s)"
    and "MARSHAL_BUFFER_CAPACITY \<le> unat (exc_response_len (excursion_of net a who remote s))"
    and "take MARSHAL_BUFFER_CAPACITY (exc_response (excursion_of net a who remote s)) =
         take MARSHAL_BUFFER_CAPACITY (response_encode (Decision MarshalOutcome.Refuse j))"
    and "unreachable_policy a = FailOpen"
  shows "enforce (unreachable_policy a) (fst (marshal_evaluate net a who s)) = Ok ()"
proof -
  let ?r = "Decision MarshalOutcome.Refuse j" and ?k = MARSHAL_BUFFER_CAPACITY
  have "length (response_encode ?r) = 6 + length j" by (simp add: encode_bytes_def)
  then have "drop ?k (response_encode ?r) \<noteq> []" using assms(3) by simp
  moreover have "valid_response ?r" using assms(2) by simp
  ultimately have "decode_status (take ?k (response_encode ?r)) = Incomplete"
    by (intro status_prefix_incomplete [where m = ?r and q = "drop ?k (response_encode ?r)"])
       (simp_all del: response_encode.simps)
  moreover have "reply_bytes (excursion_of net a who remote s) = take ?k (response_encode ?r)"
    using assms(5,6) by (simp add: reply_bytes_def min_absorb2 del: response_encode.simps)
  ultimately show ?thesis
    using assms(7) by (simp add: evaluate_replied [OF assms(1,4)] enforce_Ok del: response_encode.simps)
qed

end
