(* ===== verification/DataCodes.thy ===== *)
theory DataCodes
  imports DataState Reconcile Mvno MarshalAction
begin

text \<open>
  The glue of the data system calls: return codes, argument packing, adapters between the live state
  and the policy engine's types, demo tables and description texts of
  \<open>kernel-arm/src/data_codes.rs\<close>, and the reconciler's snapshot of \<open>kernel-arm/src/data.rs\<close>.
  Shown: codes and packed arguments read back uniquely, tick conversion is exact where it does not
  saturate, and the snapshot shows the reconciler exactly the live accounts, profiles and sessions.
\<close>

subsection \<open>Return codes\<close>

definition USAGE_NONE :: u64 where "USAGE_NONE = 0"
definition USAGE_NOTIFY :: u64 where "USAGE_NOTIFY = 1"
definition USAGE_THROTTLE :: u64 where "USAGE_THROTTLE = 2"
definition USAGE_SUSPEND_REQUESTED :: u64 where "USAGE_SUSPEND_REQUESTED = 3"
definition USAGE_DENIED :: u64 where "USAGE_DENIED = 4"
definition USAGE_NO_ENTITLEMENT :: u64 where "USAGE_NO_ENTITLEMENT = 5"
definition USAGE_NO_SUCH_ACCOUNT :: u64 where "USAGE_NO_SUCH_ACCOUNT = 6"
definition USAGE_TABLE_FULL :: u64 where "USAGE_TABLE_FULL = 7"
definition USAGE_NOT_ACTIVE :: u64 where "USAGE_NOT_ACTIVE = 8"
definition USAGE_NO_PROFILE :: u64 where "USAGE_NO_PROFILE = 9"

lemmas usage_codes =
  USAGE_NONE_def USAGE_NOTIFY_def USAGE_THROTTLE_def USAGE_SUSPEND_REQUESTED_def USAGE_DENIED_def
  USAGE_NO_ENTITLEMENT_def USAGE_NO_SUCH_ACCOUNT_def USAGE_TABLE_FULL_def USAGE_NOT_ACTIVE_def USAGE_NO_PROFILE_def

fun usage_feed_refusal :: "AccountStatus \<Rightarrow> bool \<Rightarrow> u64 option" where
  "usage_feed_refusal AccountStatus.Active bound = (if bound then None else Some USAGE_NO_PROFILE)"
| "usage_feed_refusal AccountStatus.Suspended bound = Some USAGE_NOT_ACTIVE"
| "usage_feed_refusal AccountStatus.Closed bound = Some USAGE_NOT_ACTIVE"

fun action_request_code :: "ActionRequest option \<Rightarrow> u64" where
  "action_request_code None = USAGE_NONE"
| "action_request_code (Some ActionRequest.NotifyOnly) = USAGE_NOTIFY"
| "action_request_code (Some ActionRequest.Throttle) = USAGE_THROTTLE"
| "action_request_code (Some ActionRequest.SuspendAccount) = USAGE_SUSPEND_REQUESTED"

definition action_request_from_code :: "u64 \<Rightarrow> ActionRequest option option" where
  "action_request_from_code code =
     (if code = USAGE_NONE then Some None
      else if code = USAGE_NOTIFY then Some (Some ActionRequest.NotifyOnly)
      else if code = USAGE_THROTTLE then Some (Some ActionRequest.Throttle)
      else if code = USAGE_SUSPEND_REQUESTED then Some (Some ActionRequest.SuspendAccount)
      else None)"

definition SESSION_ALLOW :: u64 where "SESSION_ALLOW = 0"
definition SESSION_ALLOW_THROTTLED :: u64 where "SESSION_ALLOW_THROTTLED = 1"
definition SESSION_DENY_ACCOUNT_SUSPENDED :: u64 where "SESSION_DENY_ACCOUNT_SUSPENDED = 2"
definition SESSION_DENY_ACCOUNT_CLOSED :: u64 where "SESSION_DENY_ACCOUNT_CLOSED = 3"
definition SESSION_DENY_PROFILE_NOT_ENABLED :: u64 where "SESSION_DENY_PROFILE_NOT_ENABLED = 4"
definition SESSION_DENY_ROAMING_NOT_ALLOWED :: u64 where "SESSION_DENY_ROAMING_NOT_ALLOWED = 5"
definition SESSION_DENY_CAP_EXCEEDED :: u64 where "SESSION_DENY_CAP_EXCEEDED = 6"
definition SESSION_REFUSED_CAPABILITY :: u64 where "SESSION_REFUSED_CAPABILITY = 7"
definition SESSION_REFUSED_NO_ENTITLEMENT :: u64 where "SESSION_REFUSED_NO_ENTITLEMENT = 8"
definition SESSION_REFUSED_NO_SUCH_ACCOUNT :: u64 where "SESSION_REFUSED_NO_SUCH_ACCOUNT = 9"
definition SESSION_REFUSED_PROFILE_NOT_BOUND :: u64 where "SESSION_REFUSED_PROFILE_NOT_BOUND = 10"
definition SESSION_REFUSED_UNKNOWN_PROFILE :: u64 where "SESSION_REFUSED_UNKNOWN_PROFILE = 11"
definition SESSION_REFUSED_BAD_ARGUMENT :: u64 where "SESSION_REFUSED_BAD_ARGUMENT = 12"
definition SESSION_FAILED_TABLE_FULL :: u64 where "SESSION_FAILED_TABLE_FULL = 13"

lemmas session_codes =
  SESSION_ALLOW_def SESSION_ALLOW_THROTTLED_def SESSION_DENY_ACCOUNT_SUSPENDED_def SESSION_DENY_ACCOUNT_CLOSED_def
  SESSION_DENY_PROFILE_NOT_ENABLED_def SESSION_DENY_ROAMING_NOT_ALLOWED_def SESSION_DENY_CAP_EXCEEDED_def
  SESSION_REFUSED_CAPABILITY_def SESSION_REFUSED_NO_ENTITLEMENT_def SESSION_REFUSED_NO_SUCH_ACCOUNT_def
  SESSION_REFUSED_PROFILE_NOT_BOUND_def SESSION_REFUSED_UNKNOWN_PROFILE_def SESSION_REFUSED_BAD_ARGUMENT_def
  SESSION_FAILED_TABLE_FULL_def

fun session_decision_code :: "SessionDecision \<Rightarrow> u64" where
  "session_decision_code SessionDecision.Allow = SESSION_ALLOW"
| "session_decision_code SessionDecision.AllowThrottled = SESSION_ALLOW_THROTTLED"
| "session_decision_code (SessionDecision.Deny DenyReason.AccountSuspended) = SESSION_DENY_ACCOUNT_SUSPENDED"
| "session_decision_code (SessionDecision.Deny DenyReason.AccountClosed) = SESSION_DENY_ACCOUNT_CLOSED"
| "session_decision_code (SessionDecision.Deny (DenyReason.ProfileNotEnabled _)) = SESSION_DENY_PROFILE_NOT_ENABLED"
| "session_decision_code (SessionDecision.Deny DenyReason.RoamingDataNotAllowed) = SESSION_DENY_ROAMING_NOT_ALLOWED"
| "session_decision_code (SessionDecision.Deny DenyReason.CapExceeded) = SESSION_DENY_CAP_EXCEEDED"

definition CLOSE_OK :: u64 where "CLOSE_OK = 0"
definition CLOSE_DENIED :: u64 where "CLOSE_DENIED = 1"
definition CLOSE_NOT_OPEN :: u64 where "CLOSE_NOT_OPEN = 2"
definition CLOSE_BAD_ARGUMENT :: u64 where "CLOSE_BAD_ARGUMENT = 3"

definition RECONCILE_DENIED :: u64 where "RECONCILE_DENIED = - 1"

definition RESET_OK :: u64 where "RESET_OK = 0"
definition RESET_DENIED_CAPABILITY :: u64 where "RESET_DENIED_CAPABILITY = 1"
definition RESET_DENIED_MARSHAL :: u64 where "RESET_DENIED_MARSHAL = 2"
definition RESET_DENIED_LOCAL_FAILURE :: u64 where "RESET_DENIED_LOCAL_FAILURE = 3"
definition RESET_NO_ENTITLEMENT :: u64 where "RESET_NO_ENTITLEMENT = 4"
definition RESET_NO_SUCH_ACCOUNT :: u64 where "RESET_NO_SUCH_ACCOUNT = 5"
definition RESET_DENIED_UNREACHABLE :: u64 where "RESET_DENIED_UNREACHABLE = 6"
definition RESET_PERIOD_ACTIVE :: u64 where "RESET_PERIOD_ACTIVE = 7"
definition RESET_CLOCK_BEFORE_START :: u64 where "RESET_CLOCK_BEFORE_START = 8"
definition RESET_BAD_MODE :: u64 where "RESET_BAD_MODE = 9"
definition RESET_EARLY_COOLDOWN :: u64 where "RESET_EARLY_COOLDOWN = 10"
definition RESET_DENIED_FAULTY :: u64 where "RESET_DENIED_FAULTY = 11"
definition RESET_MODE_NORMAL :: u64 where "RESET_MODE_NORMAL = 0"
definition RESET_MODE_EARLY :: u64 where "RESET_MODE_EARLY = 1"

lemmas reset_codes =
  RESET_OK_def RESET_DENIED_CAPABILITY_def RESET_DENIED_MARSHAL_def RESET_DENIED_LOCAL_FAILURE_def
  RESET_NO_ENTITLEMENT_def RESET_NO_SUCH_ACCOUNT_def RESET_DENIED_UNREACHABLE_def RESET_PERIOD_ACTIVE_def
  RESET_CLOCK_BEFORE_START_def RESET_BAD_MODE_def RESET_EARLY_COOLDOWN_def RESET_DENIED_FAULTY_def

datatype ResetMode = Normal | Early

definition reset_mode_from_arg :: "u64 \<Rightarrow> ResetMode option" where
  "reset_mode_from_arg arg =
     (if arg = RESET_MODE_NORMAL then Some ResetMode.Normal
      else if arg = RESET_MODE_EARLY then Some ResetMode.Early
      else None)"

fun is_early :: "ResetMode \<Rightarrow> bool" where
  "is_early ResetMode.Early = True"
| "is_early ResetMode.Normal = False"

fun reset_refusal_code :: "ResetRefusal \<Rightarrow> u64" where
  "reset_refusal_code (ResetRefusal.PeriodActive _) = RESET_PERIOD_ACTIVE"
| "reset_refusal_code (ResetRefusal.ClockBeforeStart _ _) = RESET_CLOCK_BEFORE_START"
| "reset_refusal_code (ResetRefusal.EarlyCooldown _) = RESET_EARLY_COOLDOWN"

fun reset_blocked_code :: "Blocked \<Rightarrow> u64" where
  "reset_blocked_code (BlockedRemote _) = RESET_DENIED_MARSHAL"
| "reset_blocked_code (BlockedLocal _) = RESET_DENIED_LOCAL_FAILURE"
| "reset_blocked_code BlockedUnreachable = RESET_DENIED_UNREACHABLE"
| "reset_blocked_code BlockedFaulty = RESET_DENIED_FAULTY"

definition reset_gate_code :: "UnreachablePolicy \<Rightarrow> GateOutcome \<Rightarrow> u64" where
  "reset_gate_code policy outcome =
     (case enforce policy outcome of Ok _ \<Rightarrow> RESET_OK | Err b \<Rightarrow> reset_blocked_code b)"

definition PERIOD_ACTIVE :: u64 where "PERIOD_ACTIVE = 0"
definition PERIOD_RESET_REQUESTED :: u64 where "PERIOD_RESET_REQUESTED = 1"
definition PERIOD_CLOCK_BEFORE_START :: u64 where "PERIOD_CLOCK_BEFORE_START = 2"
definition PERIOD_NO_PERIOD :: u64 where "PERIOD_NO_PERIOD = 3"
definition PERIOD_DENIED :: u64 where "PERIOD_DENIED = 4"

fun period_assessment_code :: "PeriodAssessment \<Rightarrow> u64" where
  "period_assessment_code (PeriodAssessment.Active _ _) = PERIOD_ACTIVE"
| "period_assessment_code (PeriodAssessment.Elapsed _ _) = PERIOD_RESET_REQUESTED"
| "period_assessment_code (PeriodAssessment.ClockBeforeStart _ _) = PERIOD_CLOCK_BEFORE_START"

subsection \<open>Argument packing\<close>

unbundle bit_operations_syntax

definition ROAMING_FLAG :: u64 where
  "ROAMING_FLAG = push_bit 8 1"

definition pack_profile_roaming :: "u8 \<Rightarrow> bool \<Rightarrow> u64" where
  "pack_profile_roaming profile roaming = ucast profile OR (if roaming then ROAMING_FLAG else 0)"

definition unpack_profile_roaming :: "u64 \<Rightarrow> (u8 \<times> bool) option" where
  "unpack_profile_roaming arg =
     (if drop_bit 9 arg \<noteq> 0 then None
      else Some (ucast (arg AND 0xff), arg AND ROAMING_FLAG \<noteq> 0))"

subsection \<open>Adapters\<close>

fun standing_for_data :: "AccountStatus \<Rightarrow> AccountStandingForData" where
  "standing_for_data AccountStatus.Active = AccountStandingForData.Active"
| "standing_for_data AccountStatus.Suspended = AccountStandingForData.Suspended"
| "standing_for_data AccountStatus.Closed = AccountStandingForData.Closed"

fun standing_for_reconcile :: "AccountStatus \<Rightarrow> Standing" where
  "standing_for_reconcile AccountStatus.Active = Standing.Active"
| "standing_for_reconcile AccountStatus.Suspended = Standing.Suspended"
| "standing_for_reconcile AccountStatus.Closed = Standing.Closed"

fun lifecycle_for_data :: "ProfileState \<Rightarrow> ProfileLifecycleForData" where
  "lifecycle_for_data ProfileState.Created = ProfileLifecycleForData.Created"
| "lifecycle_for_data ProfileState.Disabled = ProfileLifecycleForData.Disabled"
| "lifecycle_for_data ProfileState.Enabled = ProfileLifecycleForData.Enabled"
| "lifecycle_for_data ProfileState.Deleted = ProfileLifecycleForData.Deleted"

fun lifecycle_for_reconcile :: "ProfileState \<Rightarrow> ReconcileProfile" where
  "lifecycle_for_reconcile ProfileState.Created = ReconcileProfile.Created"
| "lifecycle_for_reconcile ProfileState.Disabled = ReconcileProfile.Disabled"
| "lifecycle_for_reconcile ProfileState.Enabled = ReconcileProfile.Enabled"
| "lifecycle_for_reconcile ProfileState.Deleted = ReconcileProfile.Deleted"

subsection \<open>Demo tables\<close>

definition demo_entitlement :: "u64 \<Rightarrow> DataEntitlement option" where
  "demo_entitlement acct = (if acct \<le> 2 then ok (entitlement_new (Some 1000) 80 False 150) else None)"

definition DEMO_PERIOD_MILLIS :: u64 where "DEMO_PERIOD_MILLIS = 500"
definition DEMO_LONG_PERIOD_MILLIS :: u64 where "DEMO_LONG_PERIOD_MILLIS = 86400000"
definition DEMO_GRACE_MILLIS :: u64 where "DEMO_GRACE_MILLIS = 20000"
definition DEMO_INSTALL_PERIOD_MILLIS :: u64 where "DEMO_INSTALL_PERIOD_MILLIS = DEMO_LONG_PERIOD_MILLIS"

definition millis_to_ticks :: "u64 \<Rightarrow> u64 \<Rightarrow> u64" where
  "millis_to_ticks freq_hz millis =
     (let t = saturating_mul freq_hz millis div 1000
      in if t = 0 \<and> millis \<noteq> 0 then 1 else t)"

definition demo_install_period_ticks :: "u64 \<Rightarrow> u64" where
  "demo_install_period_ticks freq_hz = millis_to_ticks freq_hz DEMO_INSTALL_PERIOD_MILLIS"

definition demo_early_reset_cooldown_ticks :: "u64 \<Rightarrow> u64" where
  "demo_early_reset_cooldown_ticks freq_hz = millis_to_ticks freq_hz DEMO_EARLY_RESET_COOLDOWN_MILLIS"

definition demo_period :: "u64 \<Rightarrow> u64 \<Rightarrow> BillingPeriod option" where
  "demo_period acct freq_hz =
     (if acct = 0 then ok (period_new 0 (millis_to_ticks freq_hz DEMO_PERIOD_MILLIS))
      else if acct = 1 then ok (period_new 0 (millis_to_ticks freq_hz DEMO_LONG_PERIOD_MILLIS))
      else None)"

subsection \<open>Descriptions\<close>

fun describe_period_assessment :: "PeriodAssessment \<Rightarrow> string" where
  "describe_period_assessment (PeriodAssessment.Active elapsed remaining) =
     ''active: '' @ show_word elapsed @ '' ticks in, '' @ show_word remaining @ '' remaining; no reset requested''"
| "describe_period_assessment (PeriodAssessment.Elapsed overdue missed) =
     ''elapsed: overdue '' @ show_word overdue @ '' ticks, '' @ show_word missed @
     '' period(s) missed; reset REQUESTED (advisory: nothing was reset)''"
| "describe_period_assessment (PeriodAssessment.ClockBeforeStart start now) =
     ''clock before start: now '' @ show_word now @ '' < period start '' @ show_word start @
     ''; anomaly, no reset requested''"

fun describe_reset_assessment :: "PeriodAssessment option \<Rightarrow> string" where
  "describe_reset_assessment None =
     ''no billing period for this account (this first reset is not period-gated and installs one)''"
| "describe_reset_assessment (Some (PeriodAssessment.Active elapsed remaining)) =
     ''period active: '' @ show_word elapsed @ '' ticks in, '' @ show_word remaining @ '' remaining''"
| "describe_reset_assessment (Some (PeriodAssessment.Elapsed overdue missed)) =
     ''period elapsed: overdue '' @ show_word overdue @ '' ticks, '' @ show_word missed @ '' period(s) missed''"
| "describe_reset_assessment (Some (PeriodAssessment.ClockBeforeStart start now)) =
     ''clock before start: now '' @ show_word now @ '' < period start '' @ show_word start"

fun describe_reset_mode :: "ResetMode \<Rightarrow> PeriodAssessment option \<Rightarrow> string" where
  "describe_reset_mode ResetMode.Normal a = ''NORMAL reset; '' @ describe_reset_assessment a"
| "describe_reset_mode ResetMode.Early a =
     ''EARLY (override) reset under data:reset-early, not waiting for the billing period to elapse; '' @
     describe_reset_assessment a"

fun describe_period_started :: "PeriodStarted \<Rightarrow> string" where
  "describe_period_started PeriodStarted.NoPeriod = ''no billing period for this account; none started''"
| "describe_period_started (PeriodStarted.Installed p) =
     ''billing period INSTALLED at tick '' @ show_word (start_tick p) @ '' (length '' @ show_word (length_ticks p) @
     '' ticks) because the account had none; DEMO DATA; later resets are period-gated''"
| "describe_period_started (PeriodStarted.Started p) =
     ''next billing period started at tick '' @ show_word (start_tick p) @ '' (length '' @ show_word (length_ticks p) @
     '' ticks); reset request cleared''"
| "describe_period_started (PeriodStarted.Rejected e) =
     ''next billing period NOT started ('' @ display_PeriodError e @ ''); old period and request kept''"

definition cap_text :: "DataEntitlement \<Rightarrow> string" where
  "cap_text e = (case cap_bytes e of Some c \<Rightarrow> show_word c | None \<Rightarrow> ''unlimited'')"

fun show_AccountStandingForData :: "AccountStandingForData \<Rightarrow> string" where
  "show_AccountStandingForData AccountStandingForData.Active = ''Active''"
| "show_AccountStandingForData AccountStandingForData.Suspended = ''Suspended''"
| "show_AccountStandingForData AccountStandingForData.Closed = ''Closed''"

fun show_ProfileLifecycleForData :: "ProfileLifecycleForData \<Rightarrow> string" where
  "show_ProfileLifecycleForData ProfileLifecycleForData.Created = ''Created''"
| "show_ProfileLifecycleForData ProfileLifecycleForData.Disabled = ''Disabled''"
| "show_ProfileLifecycleForData ProfileLifecycleForData.Enabled = ''Enabled''"
| "show_ProfileLifecycleForData ProfileLifecycleForData.Deleted = ''Deleted''"

fun show_NetworkClass :: "NetworkClass \<Rightarrow> string" where
  "show_NetworkClass NetworkClass.Home = ''Home''"
| "show_NetworkClass NetworkClass.Roaming = ''Roaming''"

fun show_UsageBand :: "UsageBand \<Rightarrow> string" where
  "show_UsageBand UsageBand.Normal = ''Normal''"
| "show_UsageBand UsageBand.Throttled = ''Throttled''"
| "show_UsageBand UsageBand.CapReached = ''CapReached''"
| "show_UsageBand UsageBand.Anomalous = ''Anomalous''"

fun show_DenyReason :: "DenyReason \<Rightarrow> string" where
  "show_DenyReason DenyReason.AccountSuspended = ''AccountSuspended''"
| "show_DenyReason DenyReason.AccountClosed = ''AccountClosed''"
| "show_DenyReason (DenyReason.ProfileNotEnabled l) = ''ProfileNotEnabled('' @ show_ProfileLifecycleForData l @ '')''"
| "show_DenyReason DenyReason.RoamingDataNotAllowed = ''RoamingDataNotAllowed''"
| "show_DenyReason DenyReason.CapExceeded = ''CapExceeded''"

fun show_SessionDecision :: "SessionDecision \<Rightarrow> string" where
  "show_SessionDecision SessionDecision.Allow = ''Allow''"
| "show_SessionDecision SessionDecision.AllowThrottled = ''AllowThrottled''"
| "show_SessionDecision (SessionDecision.Deny r) = ''Deny('' @ show_DenyReason r @ '')''"

fun show_ActionRequest :: "ActionRequest \<Rightarrow> string" where
  "show_ActionRequest ActionRequest.NotifyOnly = ''NotifyOnly''"
| "show_ActionRequest ActionRequest.Throttle = ''Throttle''"
| "show_ActionRequest ActionRequest.SuspendAccount = ''SuspendAccount''"

definition show_request :: "ActionRequest option \<Rightarrow> string" where
  "show_request r = (case r of None \<Rightarrow> ''None'' | Some a \<Rightarrow> ''Some('' @ show_ActionRequest a @ '')'')"

definition describe_session_record :: "PolicyDecisionRecord \<Rightarrow> string" where
  "describe_session_record r =
     (let q = pdr_request r; e = sr_entitlement q in
      ''standing='' @ show_AccountStandingForData (sr_standing q) @
      '' lifecycle='' @ show_ProfileLifecycleForData (sr_lifecycle q) @
      '' network='' @ show_NetworkClass (sr_network q) @
      '' used='' @ show_word (used_bytes (sr_usage q)) @
      '' cap='' @ cap_text e @
      '' throttle='' @ show_word (throttle_at_percent e) @
      ''% escalate='' @ show_word (escalate_at_percent e) @
      ''% roaming_ok='' @ show_bool (roaming_data_allowed e) @
      '' band='' @ show_UsageBand (ua_band (pdr_assessment r)) @
      '' decision='' @ show_SessionDecision (pdr_decision r))"

definition describe_usage_assessment :: "DataEntitlement \<Rightarrow> DataUsage \<Rightarrow> UsageAssessment \<Rightarrow> string" where
  "describe_usage_assessment e usage a =
     ''used='' @ show_word (used_bytes usage) @
     '' cap='' @ cap_text e @
     '' throttle='' @ show_word (throttle_at_percent e) @
     ''% escalate='' @ show_word (escalate_at_percent e) @
     ''% band='' @ show_UsageBand (ua_band a) @
     '' request='' @ show_request (ua_escalation a)"

subsection \<open>The reconciler's snapshot\<close>

record ProfileRow =
  row_slot :: usize
  row_profile :: u8
  row_state :: ProfileState
  row_owner :: "u64 option"

definition observed_account ::
    "UsageEntry list \<Rightarrow> (u64 \<Rightarrow> DataEntitlement option) \<Rightarrow> u64 \<times> AccountStatus \<Rightarrow> ObservedAccount" where
  "observed_account usage entitlement_of a =
     (let ent = entitlement_of (fst a); row = find (\<lambda>u. ue_account u = fst a) usage in
      \<lparr>oa_id = fst a, oa_standing = standing_for_reconcile (snd a),
       oa_data_cap_bytes = Option.bind ent cap_bytes,
       oa_escalate_at_percent = map_option escalate_at_percent ent,
       oa_used_bytes = (case row of Some u \<Rightarrow> used_bytes (ue_usage u) | None \<Rightarrow> 0),
       oa_last_used_bytes = Option.bind row ue_last_used\<rparr>)"

definition observed_profile :: "ProfileRow \<Rightarrow> ObservedProfile" where
  "observed_profile p =
     \<lparr>opr_slot = row_slot p, opr_profile = row_profile p,
      opr_lifecycle = lifecycle_for_reconcile (row_state p), opr_owner = row_owner p\<rparr>"

definition observed_session :: "(u64 \<Rightarrow> DataEntitlement option) \<Rightarrow> DataSession \<Rightarrow> ObservedSession" where
  "observed_session entitlement_of s =
     \<lparr>os_account = ds_account s, os_slot = ds_slot s, os_profile = ds_profile s, os_roaming = ds_roaming s,
      os_roaming_allowed =
        (case entitlement_of (ds_account s) of Some e \<Rightarrow> roaming_data_allowed e | None \<Rightarrow> False)\<rparr>"

definition build_observed ::
    "(u64 \<times> AccountStatus) list \<Rightarrow> ProfileRow list \<Rightarrow> UsageEntry list \<Rightarrow> DataSession list \<Rightarrow>
     (u64 \<Rightarrow> DataEntitlement option) \<Rightarrow> Observed" where
  "build_observed accounts rows usage sess entitlement_of =
     \<lparr>ob_accounts = map (observed_account usage entitlement_of) accounts,
      ob_profiles = map observed_profile rows,
      ob_sessions = map (observed_session entitlement_of) sess\<rparr>"

definition MAX_SLOT_SCAN :: nat where
  "MAX_SLOT_SCAN = 16"

definition profile_row :: "AccountRegistry \<Rightarrow> usize \<Rightarrow> EsimProfile \<Rightarrow> ProfileRow" where
  "profile_row reg slot p =
     \<lparr>row_slot = slot, row_profile = ep_id p, row_state = ep_state p, row_owner = mvno_owner_of reg slot (ep_id p)\<rparr>"

fun profile_rows :: "AccountRegistry \<Rightarrow> slots \<Rightarrow> nat list \<Rightarrow> ProfileRow list" where
  "profile_rows reg sim [] = []"
| "profile_rows reg sim (slot # rest) =
     (case sim_profiles sim (of_nat slot) of
        Ok ps \<Rightarrow> map (profile_row reg (of_nat slot)) ps @ profile_rows reg sim rest
      | Err SimError.NoSuchSlot \<Rightarrow> []
      | Err _ \<Rightarrow> profile_rows reg sim rest)"

definition snapshot_for_reconcile :: "AccountRegistry \<Rightarrow> slots \<Rightarrow> DataState \<Rightarrow> Observed \<times> UsageEntry list" where
  "snapshot_for_reconcile reg sim d =
     (let rows = profile_rows reg sim [0..<MAX_SLOT_SCAN];
          (usage, sess) = data_snapshot d
      in (build_observed (mvno_accounts reg) rows usage sess demo_entitlement, usage))"

definition assess_period_of :: "DataState \<Rightarrow> u64 \<Rightarrow> u64 \<Rightarrow> PeriodAssessment option" where
  "assess_period_of d acct now = map_option (\<lambda>p. assess_period p now) (period_of d acct)"

subsection \<open>Codes read back uniquely\<close>

lemma action_code_iff: "action_request_from_code code = Some r \<longleftrightarrow> code = action_request_code r"
proof (cases r)
  case (Some a)
  then show ?thesis by (cases a) (auto simp: action_request_from_code_def usage_codes)
qed (auto simp: action_request_from_code_def usage_codes)

lemma bit_ROAMING_FLAG: "bit ROAMING_FLAG n \<longleftrightarrow> n = 8"
proof -
  have "ROAMING_FLAG = 2 ^ 8" by (simp add: ROAMING_FLAG_def)
  moreover have "bit (2 ^ 8 :: u64) n \<longleftrightarrow> n = 8" by (subst bit_exp_iff) auto
  ultimately show ?thesis by (simp only:)
qed

lemma bit_pack:
  "bit (pack_profile_roaming p r) n \<longleftrightarrow> bit p n \<or> r \<and> n = 8"
  by (auto simp: pack_profile_roaming_def bit_or_iff bit_ucast_iff bit_ROAMING_FLAG dest: bit_imp_le_length)

lemma bit_ff: "bit (0xff :: u64) n \<longleftrightarrow> n < 8"
proof -
  have "(0xff :: u64) = mask 8" by (simp add: mask_eq_exp_minus_1)
  moreover have "bit (mask 8 :: u64) n \<longleftrightarrow> n < 8" by (subst bit_mask_iff) auto
  ultimately show ?thesis by (simp only:)
qed

lemma roaming_bit: "arg AND ROAMING_FLAG \<noteq> 0 \<longleftrightarrow> bit arg 8"
proof
  assume "arg AND ROAMING_FLAG \<noteq> 0"
  then obtain n where "bit (arg AND ROAMING_FLAG) n" by (metis bit_word_eqI bit_0_eq bot_apply bot_bool_def)
  then show "bit arg 8" by (auto simp: bit_and_iff bit_ROAMING_FLAG)
next
  assume "bit arg 8"
  then have "bit (arg AND ROAMING_FLAG) 8" by (simp add: bit_and_iff bit_ROAMING_FLAG)
  then show "arg AND ROAMING_FLAG \<noteq> 0" by auto
qed

lemma unpack_iff: "unpack_profile_roaming arg = Some (p, r) \<longleftrightarrow> arg = pack_profile_roaming p r"
proof
  assume u: "unpack_profile_roaming arg = Some (p, r)"
  then have z: "drop_bit 9 arg = 0" and p: "p = ucast (arg AND 0xff)" and r: "r \<longleftrightarrow> arg AND ROAMING_FLAG \<noteq> 0"
    by (auto simp: unpack_profile_roaming_def split: if_splits)
  have high: "\<not> bit arg (9 + n)" for n
    using z by (metis bit_drop_bit_eq bit_0_eq bot_apply bot_bool_def comp_apply)
  have flag: "r \<longleftrightarrow> bit arg 8" unfolding r by (rule roaming_bit)
  have low: "bit p n \<longleftrightarrow> n < 8 \<and> bit arg n" for n
    unfolding p unsigned_and_eq bit_and_iff bit_ucast_iff bit_ff by auto
  show "arg = pack_profile_roaming p r"
  proof (rule bit_word_eqI)
    fix n assume "n < LENGTH(64)"
    show "bit arg n \<longleftrightarrow> bit (pack_profile_roaming p r) n"
    proof (cases "n < 9")
      case True
      then consider "n < 8" | "n = 8" by linarith
      then show ?thesis by cases (auto simp: bit_pack low flag)
    next
      case False
      then have "\<not> bit arg n" using high [of "n - 9"] by simp
      then show ?thesis using False by (auto simp: bit_pack dest: bit_imp_le_length)
    qed
  qed
next
  assume arg: "arg = pack_profile_roaming p r"
  have "drop_bit 9 arg = 0"
    by (rule bit_word_eqI) (auto simp: arg bit_drop_bit_eq bit_pack dest: bit_imp_le_length)
  moreover have "bit (ucast (arg AND 0xff) :: u8) n \<longleftrightarrow> bit p n" if "n < 8" for n
    unfolding arg unsigned_and_eq bit_and_iff bit_ucast_iff bit_ff bit_pack using that by auto
  then have "ucast (arg AND 0xff) = p" by (intro bit_word_eqI) simp_all
  moreover have "arg AND ROAMING_FLAG \<noteq> 0 \<longleftrightarrow> r"
    unfolding roaming_bit by (auto simp: arg bit_pack dest: bit_imp_le_length)
  ultimately show "unpack_profile_roaming arg = Some (p, r)"
    using \<open>ucast (arg AND 0xff) = p\<close> by (simp add: unpack_profile_roaming_def)
qed

lemma session_allowed_code:
  "session_decision_code d \<le> SESSION_ALLOW_THROTTLED \<longleftrightarrow>
     d = SessionDecision.Allow \<or> d = SessionDecision.AllowThrottled"
proof (cases d)
  case (Deny r)
  then show ?thesis by (cases r) (simp_all add: session_codes word_le_nat_alt)
qed (simp_all add: session_codes)

lemma reset_gate_code_OK: "reset_gate_code policy out = RESET_OK \<longleftrightarrow> enforce policy out = Ok ()"
  by (cases "enforce policy out") (auto simp: reset_gate_code_def reset_codes elim: reset_blocked_code.elims)

lemma millis_to_ticks_exact:
  assumes "unat freq_hz * unat millis < 2 ^ 64"
  shows "unat (millis_to_ticks freq_hz millis) =
         (if millis = 0 then 0 else max 1 (unat freq_hz * unat millis div 1000))"
proof -
  have "unat (saturating_mul freq_hz millis) = unat freq_hz * unat millis"
    using assms by (simp add: saturating_mul_def unat_word_ariths)
  then have t: "unat (saturating_mul freq_hz millis div 1000) = unat freq_hz * unat millis div 1000"
    by (simp add: unat_div)
  then have "saturating_mul freq_hz millis div 1000 = 0 \<longleftrightarrow> unat freq_hz * unat millis div 1000 = 0"
    by (simp add: word_unat_eq_iff)
  with t show ?thesis by (auto simp: millis_to_ticks_def Let_def max_def)
qed

lemma millis_to_ticks_pos: "millis \<noteq> 0 \<Longrightarrow> millis_to_ticks f millis \<noteq> 0"
  by (simp add: millis_to_ticks_def Let_def)

subsection \<open>Properties\<close>

text \<open>
  The data calls' register encodings are unambiguous.  A packed profile-and-roaming argument is
  accepted exactly when it is the packing of some profile and flag, and then yields them; and a usage
  return code decodes to a request exactly when it is the code of that request, so a refusal code is
  never read as a request.
\<close>

theorem data_abi_roundtrip:
  "(unpack_profile_roaming arg = Some (p, r) \<longleftrightarrow> arg = pack_profile_roaming p r) \<and>
   (action_request_from_code code = Some req \<longleftrightarrow> code = action_request_code req)"
  by (simp add: unpack_iff action_code_iff)

end
