(* ===== verification/AuditChain.thy ===== *)
theory AuditChain
  imports Citadel
begin

text \<open>
  The bounded audit chain, \<open>kernel-arm/src/audit_chain.rs\<close>: ten event classes, each with a quota
  of individual entries and up to eight summary entries once the quota is used up, over the
  hash-chained log of \<open>Citadel\<close>; and the reconciler's memory of its previous pass.  Shown: the
  kernel's own self-check holds after every sequence of events, no event is lost from the books, a
  flood in one class takes no room from another, summaries follow the powers of four, and a
  persistent finding is reported once.
\<close>

subsection \<open>Classes\<close>

datatype AuditClass =
    Applied
  | DataActivity
  | GateBlocked
  | GateFailClosed
  | CapDenialEsim
  | CapDenialMvno
  | CapDenialData
  | Rejected
  | Incident
  | CleanPass

definition CLASS_COUNT :: nat where
  "CLASS_COUNT = 10"

definition QUOTAS :: "nat list" where
  "QUOTAS = [128, 64, 24, 24, 16, 16, 16, 48, 32, 8]"

definition MAX_SUMMARY_COMMITS :: u32 where
  "MAX_SUMMARY_COMMITS = 8"

definition SUMMARY_GROWTH :: u64 where
  "SUMMARY_GROWTH = 4"

definition REASON_LIMIT :: nat where
  "REASON_LIMIT = 120"

fun total_capacity_from :: "nat \<Rightarrow> nat \<Rightarrow> nat" where
  "total_capacity_from 0 acc = acc"
| "total_capacity_from (Suc k) acc =
     total_capacity_from k (acc + (QUOTAS ! (CLASS_COUNT - Suc k) + unat MAX_SUMMARY_COMMITS))"

definition TOTAL_CAPACITY :: nat where
  "TOTAL_CAPACITY = total_capacity_from CLASS_COUNT 0"

definition SUMMARY_SUBJECT_PREFIX :: string where
  "SUMMARY_SUBJECT_PREFIX = ''audit:summary:''"

definition ALL_CLASSES :: "AuditClass list" where
  "ALL_CLASSES =
     [AuditClass.Applied, AuditClass.DataActivity, AuditClass.GateBlocked, AuditClass.GateFailClosed,
      AuditClass.CapDenialEsim, AuditClass.CapDenialMvno, AuditClass.CapDenialData, AuditClass.Rejected,
      AuditClass.Incident, AuditClass.CleanPass]"

fun class_index :: "AuditClass \<Rightarrow> nat" where
  "class_index AuditClass.Applied = 0"
| "class_index AuditClass.DataActivity = 1"
| "class_index AuditClass.GateBlocked = 2"
| "class_index AuditClass.GateFailClosed = 3"
| "class_index AuditClass.CapDenialEsim = 4"
| "class_index AuditClass.CapDenialMvno = 5"
| "class_index AuditClass.CapDenialData = 6"
| "class_index AuditClass.Rejected = 7"
| "class_index AuditClass.Incident = 8"
| "class_index AuditClass.CleanPass = 9"

fun class_name :: "AuditClass \<Rightarrow> string" where
  "class_name AuditClass.Applied = ''applied''"
| "class_name AuditClass.DataActivity = ''data-activity''"
| "class_name AuditClass.GateBlocked = ''gate-blocked''"
| "class_name AuditClass.GateFailClosed = ''gate-fail-closed''"
| "class_name AuditClass.CapDenialEsim = ''cap-denial.esim''"
| "class_name AuditClass.CapDenialMvno = ''cap-denial.mvno''"
| "class_name AuditClass.CapDenialData = ''cap-denial.data''"
| "class_name AuditClass.Rejected = ''rejected''"
| "class_name AuditClass.Incident = ''incident''"
| "class_name AuditClass.CleanPass = ''clean-pass''"

definition quota :: "AuditClass \<Rightarrow> nat" where
  "quota c = QUOTAS ! class_index c"

subsection \<open>State\<close>

datatype AuditOutcome =
    Recorded AuditClass
  | Coalesced AuditClass u64 bool string

record ClassStats =
  stats_class :: AuditClass
  stats_quota :: nat
  stats_recorded :: nat
  stats_dropped :: u64
  stats_summaries :: u32
  stats_last_reason :: string

record ClassState =
  cls_recorded :: nat
  cls_dropped :: u64
  cls_summaries :: u32
  cls_next_commit_at :: u64
  cls_last_reason :: string

definition class_new :: ClassState where
  "class_new = \<lparr>cls_recorded = 0, cls_dropped = 0, cls_summaries = 0, cls_next_commit_at = 1, cls_last_reason = []\<rparr>"

fun char_boundary_below :: "string \<Rightarrow> nat \<Rightarrow> nat" where
  "char_boundary_below s 0 = 0"
| "char_boundary_below s (Suc k) = (if is_char_boundary s (Suc k) then Suc k else char_boundary_below s k)"

definition truncate_text :: "string \<Rightarrow> nat \<Rightarrow> string" where
  "truncate_text s limit =
     (if length s \<le> limit then s else take (char_boundary_below s limit) s @ ''...'')"

record BoundedAudit =
  audit_log :: WormLog
  audit_classes :: "ClassState list"

definition audit_new :: BoundedAudit where
  "audit_new = \<lparr>audit_log = worm_new, audit_classes = replicate CLASS_COUNT class_new\<rparr>"

definition summary_text :: "AuditClass \<Rightarrow> ClassState \<Rightarrow> string" where
  "summary_text c st =
     ''class '' @ class_name c @ '' coalesced '' @ show_word (cls_dropped st) @
     '' event(s), not individually recorded (quota '' @ dec (quota c) @ '', recorded '' @
     dec (cls_recorded st) @ ''); last: '' @ cls_last_reason st"

definition coalesce :: "crypto \<Rightarrow> AuditClass \<Rightarrow> string \<Rightarrow> BoundedAudit \<Rightarrow> AuditOutcome \<times> BoundedAudit" where
  "coalesce C c reason a =
     (let i = class_index c;
          st = (audit_classes a ! i);
          st = st\<lparr>cls_dropped := saturating_add (cls_dropped st) 1,
                  cls_last_reason := truncate_text reason REASON_LIMIT\<rparr>
      in if cls_summaries st < MAX_SUMMARY_COMMITS \<and> cls_next_commit_at st \<le> cls_dropped st then
           let subject = SUMMARY_SUBJECT_PREFIX @ class_name c;
               text = summary_text c st;
               st = st\<lparr>cls_summaries := cls_summaries st + 1,
                       cls_next_commit_at := saturating_mul (cls_next_commit_at st) SUMMARY_GROWTH\<rparr>;
               log = record_lifecycle_transition C subject ''individual entries''
                       (''coalesced ('' @ show_word (cls_dropped st) @ '')'') False (Some text) (audit_log a)
           in (Coalesced c (cls_dropped st) True (cls_last_reason st),
               a\<lparr>audit_log := log, audit_classes := (audit_classes a)[i := st]\<rparr>)
         else (Coalesced c (cls_dropped st) False (cls_last_reason st),
               a\<lparr>audit_classes := (audit_classes a)[i := st]\<rparr>))"

definition audit_record ::
    "crypto \<Rightarrow> AuditClass \<Rightarrow> string \<Rightarrow> string \<Rightarrow> string \<Rightarrow> bool \<Rightarrow> string option \<Rightarrow> BoundedAudit \<Rightarrow>
     AuditOutcome \<times> BoundedAudit" where
  "audit_record C c subject from_state to_state authorized reason a =
     (let i = class_index c in
      if cls_recorded (audit_classes a ! i) < quota c \<and> length (worm_entries (audit_log a)) < TOTAL_CAPACITY then
        (Recorded c,
         a\<lparr>audit_log := record_lifecycle_transition C subject from_state to_state authorized reason (audit_log a),
           audit_classes := (audit_classes a)
             [i := (audit_classes a ! i)\<lparr>cls_recorded := cls_recorded (audit_classes a ! i) + 1\<rparr>]\<rparr>)
      else
        let summary =
          (case reason of
             Some r \<Rightarrow> subject @ '' ['' @ from_state @ '' -> '' @ to_state @ '']: '' @ r
           | None \<Rightarrow> subject @ '' ['' @ from_state @ '' -> '' @ to_state @ '']'')
        in coalesce C c summary a)"

definition note_coalesced :: "crypto \<Rightarrow> AuditClass \<Rightarrow> string \<Rightarrow> BoundedAudit \<Rightarrow> AuditOutcome \<times> BoundedAudit" where
  "note_coalesced C c reason a = coalesce C c reason a"

definition audit_len :: "BoundedAudit \<Rightarrow> nat" where
  "audit_len a = length (worm_entries (audit_log a))"

definition last_entry :: "BoundedAudit \<Rightarrow> (bool \<times> string option) option" where
  "last_entry a =
     (if worm_entries (audit_log a) = [] then None
      else let e = last (worm_entries (audit_log a)) in Some (worm_authorized e, worm_reason e))"

definition audit_stats :: "BoundedAudit \<Rightarrow> AuditClass \<Rightarrow> ClassStats" where
  "audit_stats a c =
     (let st = audit_classes a ! class_index c in
      \<lparr>stats_class = c, stats_quota = quota c, stats_recorded = cls_recorded st, stats_dropped = cls_dropped st,
       stats_summaries = cls_summaries st, stats_last_reason = cls_last_reason st\<rparr>)"

definition total_dropped :: "BoundedAudit \<Rightarrow> u64" where
  "total_dropped a = foldl (\<lambda>acc st. saturating_add acc (cls_dropped st)) 0 (audit_classes a)"

definition starts_with :: "string \<Rightarrow> string \<Rightarrow> bool" where
  "starts_with p s \<longleftrightarrow> take (length p) s = p"

fun books :: "BoundedAudit \<Rightarrow> AuditClass list \<Rightarrow> nat \<Rightarrow> nat \<Rightarrow> (nat \<times> nat) option" where
  "books a [] appended summaries = Some (appended, summaries)"
| "books a (c # cs) appended summaries =
     (let st = audit_classes a ! class_index c in
      if quota c < cls_recorded st \<or> MAX_SUMMARY_COMMITS < cls_summaries st then None
      else books a cs (appended + (cls_recorded st + unat (cls_summaries st)))
             (summaries + unat (cls_summaries st)))"

definition audit_verify :: "crypto \<Rightarrow> BoundedAudit \<Rightarrow> bool" where
  "audit_verify C a =
     (if \<not> verify_chain C (audit_log a) then False
      else
        case books a ALL_CLASSES 0 0 of
          None \<Rightarrow> False
        | Some (appended, summaries) \<Rightarrow>
            let in_chain = worm_entries (audit_log a);
                summary_entries = length (filter (\<lambda>e. starts_with SUMMARY_SUBJECT_PREFIX (worm_module_id e)) in_chain)
            in length in_chain = appended \<and> length in_chain \<le> TOTAL_CAPACITY \<and> summary_entries = summaries)"

subsection \<open>The reconciler's memory\<close>

datatype CleanPass = Record u64 | Coalesce u64

record PassPlan =
  plan_fresh :: "bool list"
  plan_clean :: "CleanPass option"

record ReconcileMemory =
  mem_prev :: "string set"
  mem_last_clean :: bool
  mem_passes :: u64
  mem_clean_passes :: u64

definition memory_new :: ReconcileMemory where
  "memory_new = \<lparr>mem_prev = {}, mem_last_clean = False, mem_passes = 0, mem_clean_passes = 0\<rparr>"

fun fresh_scan :: "string set \<Rightarrow> string set \<Rightarrow> string list \<Rightarrow> bool list \<times> string set" where
  "fresh_scan prev current [] = ([], current)"
| "fresh_scan prev current (key # keys) =
     (let new = key \<notin> prev;
          first_here = key \<notin> current;
          (fresh, current') = fresh_scan prev (insert key current) keys
      in ((new \<and> first_here) # fresh, current'))"

definition observe :: "string list \<Rightarrow> ReconcileMemory \<Rightarrow> PassPlan \<times> ReconcileMemory" where
  "observe keys m =
     (let m = m\<lparr>mem_passes := saturating_add (mem_passes m) 1\<rparr>;
          (fresh, current) = fresh_scan (mem_prev m) {} keys;
          (clean, m) =
            (if keys = [] then
               let m = m\<lparr>mem_clean_passes := saturating_add (mem_clean_passes m) 1\<rparr>
               in (Some (if mem_last_clean m then Coalesce (mem_clean_passes m) else Record (mem_clean_passes m)), m)
             else (None, m))
      in (\<lparr>plan_fresh = fresh, plan_clean = clean\<rparr>, m\<lparr>mem_last_clean := (keys = []), mem_prev := current\<rparr>))"

subsection \<open>One class at a time\<close>

definition class_of :: "BoundedAudit \<Rightarrow> AuditClass \<Rightarrow> ClassState" where
  "class_of a c = audit_classes a ! class_index c"

definition class_coalesce :: "string \<Rightarrow> ClassState \<Rightarrow> ClassState" where
  "class_coalesce reason st =
     (let st' = st\<lparr>cls_dropped := saturating_add (cls_dropped st) 1,
                   cls_last_reason := truncate_text reason REASON_LIMIT\<rparr>
      in if cls_summaries st < MAX_SUMMARY_COMMITS \<and> cls_next_commit_at st \<le> cls_dropped st'
         then st'\<lparr>cls_summaries := cls_summaries st + 1,
                  cls_next_commit_at := saturating_mul (cls_next_commit_at st) SUMMARY_GROWTH\<rparr>
         else st')"

lemma class_index_inj: "class_index c = class_index d \<longleftrightarrow> c = d"
  by (cases c; cases d) simp_all

lemma class_index_bound: "class_index c < CLASS_COUNT"
  by (cases c) (simp_all add: CLASS_COUNT_def)

lemma all_classes: "set ALL_CLASSES = UNIV"
  using AuditClass.exhaust by (auto simp: ALL_CLASSES_def)

lemma total_capacity_value: "TOTAL_CAPACITY = 456"
  by code_simp

lemma quota_room: "sum_list (map (\<lambda>c. quota c + 8) ALL_CLASSES) = TOTAL_CAPACITY"
  by code_simp

lemma quota_pos: "0 < quota c"
  by (cases c) (simp_all add: quota_def QUOTAS_def)

lemma class_of_update:
  "length (audit_classes a) = CLASS_COUNT \<Longrightarrow> audit_classes a' = (audit_classes a)[class_index c := st] \<Longrightarrow>
   class_of a' d = (if d = c then st else class_of a d)"
  using class_index_bound [of c] by (auto simp: class_of_def class_index_inj nth_list_update)

lemma sum_classes_step:
  "(\<And>d. d \<noteq> c \<Longrightarrow> f d = g d) \<Longrightarrow> f c = g c + k \<Longrightarrow>
   sum_list (map f ALL_CLASSES) = sum_list (map g ALL_CLASSES) + k" for f g :: "AuditClass \<Rightarrow> nat"
  by (cases c) (simp_all add: ALL_CLASSES_def)

lemma sum_classes_less:
  fixes f g :: "AuditClass \<Rightarrow> nat"
  assumes "\<And>d. f d \<le> g d" "f c < g c"
  shows "sum_list (map f ALL_CLASSES) < sum_list (map g ALL_CLASSES)"
proof -
  have "sum_list (map f ALL_CLASSES) + (g c - f c) \<le> sum_list (map (\<lambda>d. f d + (g d - f d)) ALL_CLASSES)"
    by (cases c) (simp_all add: ALL_CLASSES_def)
  also have "\<dots> = sum_list (map g ALL_CLASSES)" using assms(1) by simp
  finally show ?thesis using assms(2) by simp
qed

subsection \<open>Invariants\<close>

text \<open>
  A class's books: the quota is respected, at most eight summaries, and the summaries committed so
  far are exactly those whose threshold, a power of four, the count of coalesced events has reached.
\<close>

definition class_wf :: "AuditClass \<Rightarrow> ClassState \<Rightarrow> bool" where
  "class_wf c st \<longleftrightarrow>
     cls_recorded st \<le> quota c \<and> unat (cls_summaries st) \<le> 8 \<and>
     unat (cls_next_commit_at st) = 4 ^ unat (cls_summaries st) \<and>
     (unat (cls_summaries st) < 8 \<longrightarrow> unat (cls_dropped st) < 4 ^ unat (cls_summaries st)) \<and>
     (0 < unat (cls_summaries st) \<longrightarrow> 4 ^ (unat (cls_summaries st) - 1) \<le> unat (cls_dropped st))"

definition audit_wf :: "crypto \<Rightarrow> BoundedAudit \<Rightarrow> bool" where
  "audit_wf C a \<longleftrightarrow>
     length (audit_classes a) = CLASS_COUNT \<and> (\<forall>c. class_wf c (class_of a c)) \<and> worm_ok C (audit_log a) \<and>
     audit_len a =
       sum_list (map (\<lambda>c. cls_recorded (class_of a c) + unat (cls_summaries (class_of a c))) ALL_CLASSES)"

lemma class_coalesce_wf:
  assumes "class_wf c st"
  shows "class_wf c (class_coalesce reason st)"
    and "unat (cls_summaries (class_coalesce reason st)) =
         unat (cls_summaries st) + of_bool (cls_summaries (class_coalesce reason st) \<noteq> cls_summaries st)"
    and "cls_recorded (class_coalesce reason st) = cls_recorded st"
proof -
  let ?s = "unat (cls_summaries st)"
  let ?d = "unat (saturating_add (cls_dropped st) 1)"
  have wf: "cls_recorded st \<le> quota c" "?s \<le> 8" "unat (cls_next_commit_at st) = 4 ^ ?s"
    "?s < 8 \<longrightarrow> unat (cls_dropped st) < 4 ^ ?s" "0 < ?s \<longrightarrow> 4 ^ (?s - 1) \<le> unat (cls_dropped st)"
    using assms by (simp_all add: class_wf_def)
  have d: "?d = min (unat (cls_dropped st) + 1) (2 ^ 64 - 1)"
    using unat_saturating_add [of "cls_dropped st" 1] by simp
  have mono: "unat (cls_dropped st) \<le> ?d" using d unat_bound [of "cls_dropped st"] by simp
  have lt: "cls_summaries st < MAX_SUMMARY_COMMITS \<longleftrightarrow> ?s < 8"
    by (simp add: word_less_nat_alt MAX_SUMMARY_COMMITS_def)
  have le: "cls_next_commit_at st \<le> saturating_add (cls_dropped st) 1 \<longleftrightarrow> 4 ^ ?s \<le> ?d"
    by (simp add: word_le_nat_alt wf(3))
  have inc: "unat (cls_summaries st + 1) = ?s + 1" if "?s < 8"
    using that by (simp add: unat_word_ariths)
  have growth: "unat (saturating_mul (cls_next_commit_at st) SUMMARY_GROWTH) = 4 ^ (?s + 1)" if "?s < 8"
  proof -
    have "(4 :: nat) ^ (?s + 1) \<le> 4 ^ 8" using that by (intro power_increasing) simp_all
    then have "unat (cls_next_commit_at st) * unat SUMMARY_GROWTH < 2 ^ 64"
      by (simp add: wf(3) SUMMARY_GROWTH_def)
    then show ?thesis
      by (simp add: saturating_mul_def unat_word_ariths wf(3) SUMMARY_GROWTH_def)
  qed
  show "class_wf c (class_coalesce reason st)"
  proof (cases "?s < 8 \<and> 4 ^ ?s \<le> ?d")
    case True
    then have st: "class_coalesce reason st =
        st\<lparr>cls_dropped := saturating_add (cls_dropped st) 1, cls_last_reason := truncate_text reason REASON_LIMIT,
           cls_summaries := cls_summaries st + 1,
           cls_next_commit_at := saturating_mul (cls_next_commit_at st) SUMMARY_GROWTH\<rparr>"
      by (simp add: class_coalesce_def lt le)
    have "?d < 4 ^ (?s + 1)" using True wf(4) d by simp
    then show ?thesis using True wf(1) inc growth by (simp add: st class_wf_def)
  next
    case False
    then have st: "class_coalesce reason st =
        st\<lparr>cls_dropped := saturating_add (cls_dropped st) 1, cls_last_reason := truncate_text reason REASON_LIMIT\<rparr>"
      by (auto simp: class_coalesce_def lt le)
    show ?thesis using False wf mono by (auto simp: st class_wf_def)
  qed
  show "unat (cls_summaries (class_coalesce reason st)) =
         ?s + of_bool (cls_summaries (class_coalesce reason st) \<noteq> cls_summaries st)"
    using inc by (auto simp: class_coalesce_def Let_def lt le)
  show "cls_recorded (class_coalesce reason st) = cls_recorded st"
    by (simp add: class_coalesce_def Let_def)
qed

text \<open>The effect of coalescing an event, seen from the books.\<close>

lemma coalesce_classes:
  "coalesce C c reason a = (out, a') \<Longrightarrow>
   audit_classes a' = (audit_classes a)[class_index c := class_coalesce reason (class_of a c)]"
  by (auto simp: coalesce_def Let_def class_coalesce_def class_of_def split: if_splits)

lemma coalesce_log:
  assumes "coalesce C c reason a = (out, a')"
  shows "cls_summaries (class_coalesce reason (class_of a c)) = cls_summaries (class_of a c) \<and>
           audit_log a' = audit_log a \<or>
         cls_summaries (class_coalesce reason (class_of a c)) \<noteq> cls_summaries (class_of a c) \<and>
         (\<exists>t r. audit_log a' =
            record_lifecycle_transition C (SUMMARY_SUBJECT_PREFIX @ class_name c) ''individual entries'' t False (Some r)
              (audit_log a))"
  using assms by (auto simp: coalesce_def Let_def class_coalesce_def class_of_def split: if_splits) blast

lemma coalesce_effect:
  assumes "length (audit_classes a) = CLASS_COUNT" "coalesce C c reason a = (out, a')"
  shows "length (audit_classes a') = CLASS_COUNT"
    and "class_of a' d = (if d = c then class_coalesce reason (class_of a c) else class_of a d)"
  using coalesce_classes [OF assms(2)] assms(1) by (simp_all add: class_of_update)

text \<open>While a class has quota left the chain has room, so an event is either recorded or counted.\<close>

lemma room_left:
  assumes "audit_wf C a" "cls_recorded (class_of a c) < quota c"
  shows "audit_len a < TOTAL_CAPACITY"
proof -
  have wf: "class_wf d (class_of a d)" for d using assms(1) by (simp add: audit_wf_def)
  have "sum_list (map (\<lambda>c. cls_recorded (class_of a c) + unat (cls_summaries (class_of a c))) ALL_CLASSES)
      < sum_list (map (\<lambda>c. quota c + 8) ALL_CLASSES)"
  proof (rule sum_classes_less [where c = c])
    show "cls_recorded (class_of a d) + unat (cls_summaries (class_of a d)) \<le> quota d + 8" for d
      using wf [of d] by (simp add: class_wf_def add_mono)
    show "cls_recorded (class_of a c) + unat (cls_summaries (class_of a c)) < quota c + 8"
      using wf [of c] assms(2) by (simp add: class_wf_def)
  qed
  then show ?thesis using assms(1) by (simp add: audit_wf_def quota_room)
qed

lemma lifecycle_appends:
  "\<exists>e. worm_entries (record_lifecycle_transition C s f t a r log) = worm_entries log @ [e] \<and>
       worm_module_id e = s \<and> worm_authorized e = a \<and>
       worm_instance_id e = None \<and> worm_tier e = None \<and> worm_shadow e = None \<and>
       worm_reason e = Some ((case r of Some x \<Rightarrow> x @ '' ['' | None \<Rightarrow> ''['') @ f @ '' -> '' @ t @ '']'')"
  by (cases r) (simp_all add: record_lifecycle_transition_def worm_record_def Let_def)

lemma lifecycle_ok: "worm_ok C log \<Longrightarrow> worm_ok C (record_lifecycle_transition C s f t a r log)"
  by (simp add: record_lifecycle_transition_def Let_def worm_record_ok)

lemma coalesce_wf:
  assumes wf: "audit_wf C a" and co: "coalesce C c reason a = (out, a')"
  shows "audit_wf C a'"
proof -
  have len: "length (audit_classes a) = CLASS_COUNT" using wf by (simp add: audit_wf_def)
  have cls: "class_of a' d = (if d = c then class_coalesce reason (class_of a c) else class_of a d)" for d
    by (rule coalesce_effect(2) [OF len co])
  have c: "class_wf c (class_of a c)" using wf by (simp add: audit_wf_def)
  let ?k = "of_bool (cls_summaries (class_coalesce reason (class_of a c)) \<noteq> cls_summaries (class_of a c)) :: nat"
  have log: "worm_ok C (audit_log a') \<and> audit_len a' = audit_len a + ?k"
    using coalesce_log [OF co] wf lifecycle_ok
      lifecycle_appends [of C "SUMMARY_SUBJECT_PREFIX @ class_name c" "''individual entries''" _ False _ "audit_log a"]
    by (auto simp: audit_wf_def audit_len_def) (metis length_append_singleton)
  have "sum_list (map (\<lambda>c. cls_recorded (class_of a' c) + unat (cls_summaries (class_of a' c))) ALL_CLASSES) =
      sum_list (map (\<lambda>c. cls_recorded (class_of a c) + unat (cls_summaries (class_of a c))) ALL_CLASSES) + ?k"
    using class_coalesce_wf(2,3) [OF c, of reason] by (intro sum_classes_step [where c = c]) (simp_all add: cls)
  then show ?thesis
    using wf log class_coalesce_wf(1) [OF c] coalesce_effect(1) [OF len co] by (simp add: audit_wf_def cls)
qed

lemma record_effect:
  assumes "audit_wf C a" "audit_record C c s f t au r a = (out, a')"
  shows "(if cls_recorded (class_of a c) < quota c
          then audit_log a' = record_lifecycle_transition C s f t au r (audit_log a) \<and>
               (\<forall>d. class_of a' d =
                  (if d = c then (class_of a c)\<lparr>cls_recorded := cls_recorded (class_of a c) + 1\<rparr> else class_of a d)) \<and>
               length (audit_classes a') = CLASS_COUNT \<and> out = Recorded c
          else \<exists>reason. coalesce C c reason a = (out, a'))"
proof (cases "cls_recorded (class_of a c) < quota c")
  case True
  have len: "length (audit_classes a) = CLASS_COUNT" using assms(1) by (simp add: audit_wf_def)
  have a': "out = Recorded c" "a' = a\<lparr>audit_log := record_lifecycle_transition C s f t au r (audit_log a),
      audit_classes := (audit_classes a)[class_index c := (class_of a c)\<lparr>cls_recorded := cls_recorded (class_of a c) + 1\<rparr>]\<rparr>"
    using assms(2) True room_left [OF assms(1) True] by (auto simp: audit_record_def class_of_def audit_len_def Let_def)
  then have "audit_classes a' = (audit_classes a)[class_index c := (class_of a c)\<lparr>cls_recorded := cls_recorded (class_of a c) + 1\<rparr>]"
    by simp
  from class_of_update [OF len this] a' len True show ?thesis by simp
next
  case False
  then show ?thesis using assms(2) by (auto simp: audit_record_def class_of_def Let_def)
qed

lemma record_wf:
  assumes "audit_wf C a" "audit_record C c s f t au r a = (out, a')"
  shows "audit_wf C a'"
proof (cases "cls_recorded (class_of a c) < quota c")
  case True
  have cls: "class_of a' d =
      (if d = c then (class_of a c)\<lparr>cls_recorded := cls_recorded (class_of a c) + 1\<rparr> else class_of a d)" for d
    using record_effect [OF assms] True by simp
  have log: "audit_log a' = record_lifecycle_transition C s f t au r (audit_log a)"
    and len: "length (audit_classes a') = CLASS_COUNT"
    using record_effect [OF assms] True by simp_all
  have "audit_len a' = audit_len a + 1"
    using lifecycle_appends [of C s f t au r "audit_log a"] by (auto simp: audit_len_def log)
  moreover have "sum_list (map (\<lambda>c. cls_recorded (class_of a' c) + unat (cls_summaries (class_of a' c))) ALL_CLASSES) =
      sum_list (map (\<lambda>c. cls_recorded (class_of a c) + unat (cls_summaries (class_of a c))) ALL_CLASSES) + 1"
    by (intro sum_classes_step [where c = c]) (simp_all add: cls)
  moreover have "class_wf d (class_of a' d)" for d
    using assms(1) True by (auto simp: audit_wf_def cls class_wf_def)
  ultimately show ?thesis using assms(1) len by (simp add: audit_wf_def log lifecycle_ok)
next
  case False
  then show ?thesis using record_effect [OF assms] coalesce_wf [OF assms(1)] by auto
qed

text \<open>The two ways an event reaches the chain.\<close>

datatype AuditCall =
    Event AuditClass string string string bool "string option"
  | Note AuditClass string

fun audit_call :: "crypto \<Rightarrow> AuditCall \<Rightarrow> BoundedAudit \<Rightarrow> BoundedAudit" where
  "audit_call C (Event c s f t au r) a = snd (audit_record C c s f t au r a)"
| "audit_call C (Note c r) a = snd (note_coalesced C c r a)"

lemma audit_new_wf: "audit_wf C audit_new"
proof -
  have "class_of audit_new c = class_new" for c
    using class_index_bound [of c] by (simp add: class_of_def audit_new_def)
  then show ?thesis
    by (simp add: audit_wf_def audit_new_def class_wf_def class_new_def audit_len_def worm_ok_def worm_new_def
        verify_chain_def ALL_CLASSES_def)
qed

interpretation audit_machine: machine audit_new "audit_call C" "audit_wf C" for C
proof unfold_locales
  show "audit_wf C audit_new" by (rule audit_new_wf)
  fix a call assume "audit_wf C a"
  then show "audit_wf C (audit_call C call a)"
    by (cases call) (auto simp: note_coalesced_def intro: record_wf coalesce_wf prod.collapse [symmetric])
qed

lemma books_balance:
  "(\<And>c. c \<in> set cs \<Longrightarrow> class_wf c (class_of a c)) \<Longrightarrow>
   books a cs m n =
     Some (m + sum_list (map (\<lambda>c. cls_recorded (class_of a c) + unat (cls_summaries (class_of a c))) cs),
           n + sum_list (map (\<lambda>c. unat (cls_summaries (class_of a c))) cs))"
proof (induction cs arbitrary: m n)
  case (Cons c cs)
  have "class_wf c (class_of a c)" using Cons.prems by simp
  then have "\<not> quota c < cls_recorded (class_of a c)" "\<not> MAX_SUMMARY_COMMITS < cls_summaries (class_of a c)"
    by (auto simp: class_wf_def word_less_nat_alt MAX_SUMMARY_COMMITS_def)
  with Cons show ?case by (simp add: class_of_def Let_def)
qed simp

definition summaries_marked :: "BoundedAudit \<Rightarrow> bool" where
  "summaries_marked a \<longleftrightarrow>
     length (filter (\<lambda>e. starts_with SUMMARY_SUBJECT_PREFIX (worm_module_id e)) (worm_entries (audit_log a))) =
     sum_list (map (\<lambda>c. unat (cls_summaries (class_of a c))) ALL_CLASSES)"

lemma audit_verify_iff:
  assumes "audit_wf C a"
  shows "audit_verify C a \<longleftrightarrow> summaries_marked a"
proof -
  have wf: "class_wf c (class_of a c)" for c using assms by (simp add: audit_wf_def)
  have "sum_list (map (\<lambda>c. cls_recorded (class_of a c) + unat (cls_summaries (class_of a c))) ALL_CLASSES)
      \<le> sum_list (map (\<lambda>c. quota c + 8) ALL_CLASSES)"
    using wf by (intro sum_list_mono add_mono) (simp_all add: class_wf_def)
  moreover have "verify_chain C (audit_log a)"
    "length (worm_entries (audit_log a)) =
     sum_list (map (\<lambda>c. cls_recorded (class_of a c) + unat (cls_summaries (class_of a c))) ALL_CLASSES)"
    using assms by (simp_all add: audit_wf_def worm_ok_def audit_len_def)
  ultimately show ?thesis
    by (simp add: audit_verify_def books_balance [OF wf] summaries_marked_def quota_room Let_def)
qed

fun plain_subject :: "AuditCall \<Rightarrow> bool" where
  "plain_subject (Event c s f t au r) = (\<not> starts_with SUMMARY_SUBJECT_PREFIX s)"
| "plain_subject (Note c r) = True"

lemma coalesce_marked:
  assumes "audit_wf C a" "summaries_marked a" "coalesce C c reason a = (out, a')"
  shows "summaries_marked a'"
proof -
  have len: "length (audit_classes a) = CLASS_COUNT" and c: "class_wf c (class_of a c)"
    using assms(1) by (simp_all add: audit_wf_def)
  note cls = coalesce_effect(2) [OF len assms(3)]
  let ?k = "of_bool (cls_summaries (class_coalesce reason (class_of a c)) \<noteq> cls_summaries (class_of a c)) :: nat"
  have "sum_list (map (\<lambda>c. unat (cls_summaries (class_of a' c))) ALL_CLASSES) =
      sum_list (map (\<lambda>c. unat (cls_summaries (class_of a c))) ALL_CLASSES) + ?k"
    using class_coalesce_wf(2) [OF c, of reason] by (intro sum_classes_step [where c = c]) (simp_all add: cls)
  moreover have "length (filter (\<lambda>e. starts_with SUMMARY_SUBJECT_PREFIX (worm_module_id e)) (worm_entries (audit_log a'))) =
      length (filter (\<lambda>e. starts_with SUMMARY_SUBJECT_PREFIX (worm_module_id e)) (worm_entries (audit_log a))) + ?k"
    using coalesce_log [OF assms(3)]
  proof (elim disjE conjE exE)
    fix t r
    assume "audit_log a' = record_lifecycle_transition C (SUMMARY_SUBJECT_PREFIX @ class_name c) ''individual entries'' t
      False (Some r) (audit_log a)"
    moreover obtain e where
      "worm_entries (record_lifecycle_transition C (SUMMARY_SUBJECT_PREFIX @ class_name c) ''individual entries'' t
        False (Some r) (audit_log a)) = worm_entries (audit_log a) @ [e]"
      "worm_module_id e = SUMMARY_SUBJECT_PREFIX @ class_name c"
      using lifecycle_appends by blast
    moreover assume "cls_summaries (class_coalesce reason (class_of a c)) \<noteq> cls_summaries (class_of a c)"
    ultimately show ?thesis by (simp add: starts_with_def)
  qed simp
  ultimately show ?thesis using assms(2) by (simp add: summaries_marked_def)
qed

lemma record_marked:
  assumes "audit_wf C a" "summaries_marked a" "\<not> starts_with SUMMARY_SUBJECT_PREFIX s"
    and "audit_record C c s f t au r a = (out, a')"
  shows "summaries_marked a'"
proof (cases "cls_recorded (class_of a c) < quota c")
  case True
  have "cls_summaries (class_of a' d) = cls_summaries (class_of a d)" for d
    using record_effect [OF assms(1,4)] True by simp
  moreover obtain e where "worm_entries (audit_log a') = worm_entries (audit_log a) @ [e]" "worm_module_id e = s"
    using record_effect [OF assms(1,4)] True lifecycle_appends [of C s f t au r "audit_log a"] by auto
  ultimately show ?thesis using assms(2,3) by (simp add: summaries_marked_def)
next
  case False
  then show ?thesis using record_effect [OF assms(1,4)] coalesce_marked [OF assms(1,2)] by auto
qed

lemma calls_marked:
  "audit_wf C a \<Longrightarrow> summaries_marked a \<Longrightarrow> list_all plain_subject calls \<Longrightarrow>
   summaries_marked (fold (audit_call C) calls a)"
proof (induction calls arbitrary: a)
  case (Cons call calls)
  have "summaries_marked (audit_call C call a)"
    using Cons.prems by (cases call) (auto simp: note_coalesced_def intro: record_marked coalesce_marked prod.collapse [symmetric])
  then show ?case using Cons audit_machine.step_inv by simp
qed simp

subsection \<open>The books of a class\<close>

definition event_count :: "AuditClass \<Rightarrow> AuditCall list \<Rightarrow> nat" where
  "event_count c calls = length (filter (\<lambda>x. case x of Event d _ _ _ _ _ \<Rightarrow> d = c | Note _ _ \<Rightarrow> False) calls)"

definition note_count :: "AuditClass \<Rightarrow> AuditCall list \<Rightarrow> nat" where
  "note_count c calls = length (filter (\<lambda>x. case x of Event _ _ _ _ _ _ \<Rightarrow> False | Note d _ \<Rightarrow> d = c) calls)"

lemma class_coalesce_dropped:
  "cls_recorded (class_coalesce reason st) = cls_recorded st"
  "unat (cls_dropped (class_coalesce reason st)) = min (2 ^ 64 - 1) (unat (cls_dropped st) + 1)"
  using unat_saturating_add [of "cls_dropped st" 1] by (simp_all add: class_coalesce_def Let_def min.commute)

lemma class_accounting:
  "cls_recorded (class_of (fold (audit_call C) calls audit_new) c) = min (quota c) (event_count c calls) \<and>
   unat (cls_dropped (class_of (fold (audit_call C) calls audit_new) c)) =
     min (2 ^ 64 - 1) (event_count c calls - quota c + note_count c calls)"
proof (induction calls rule: rev_induct)
  case Nil
  then show ?case
    using class_index_bound [of c] by (simp add: class_of_def audit_new_def class_new_def event_count_def note_count_def)
next
  case (snoc call calls)
  let ?a = "fold (audit_call C) calls audit_new"
  have wf: "audit_wf C ?a" by (rule audit_machine.run_inv)
  then have len: "length (audit_classes ?a) = CLASS_COUNT" by (simp add: audit_wf_def)
  have co: "class_of (snd (coalesce C d reason ?a)) c =
      (if c = d then class_coalesce reason (class_of ?a d) else class_of ?a c)" for d reason
    by (rule coalesce_effect(2) [OF len prod.collapse [symmetric]])
  show ?case
  proof (cases call)
    case (Event d s f t au r)
    show ?thesis
    proof (cases "cls_recorded (class_of ?a d) < quota d")
      case True
      then have "class_of (audit_call C call ?a) c =
          (if c = d then (class_of ?a d)\<lparr>cls_recorded := cls_recorded (class_of ?a d) + 1\<rparr> else class_of ?a c)"
        using record_effect [OF wf prod.collapse [symmetric], of d s f t au r] Event by simp
      then show ?thesis using snoc True Event by (auto simp: event_count_def note_count_def)
    next
      case False
      then obtain reason where "coalesce C d reason ?a =
          (fst (audit_record C d s f t au r ?a), snd (audit_record C d s f t au r ?a))"
        using record_effect [OF wf prod.collapse [symmetric], of d s f t au r] by auto
      then have "audit_call C call ?a = snd (coalesce C d reason ?a)" using Event by simp
      then have "class_of (audit_call C call ?a) c =
          (if c = d then class_coalesce reason (class_of ?a d) else class_of ?a c)" by (simp add: co)
      then show ?thesis using snoc False Event by (auto simp: event_count_def note_count_def class_coalesce_dropped)
    qed
  next
    case (Note d reason)
    then have "class_of (audit_call C call ?a) c =
        (if c = d then class_coalesce reason (class_of ?a d) else class_of ?a c)"
      by (simp add: note_coalesced_def co)
    then show ?thesis using snoc Note by (auto simp: event_count_def note_count_def class_coalesce_dropped)
  qed
qed

lemma summaries_are_powers:
  assumes "class_wf c st"
  shows "unat (cls_summaries st) = card {i. i < 8 \<and> 4 ^ i \<le> unat (cls_dropped st)}"
proof -
  let ?s = "unat (cls_summaries st)"
  have "{i. i < 8 \<and> 4 ^ i \<le> unat (cls_dropped st)} = {..<?s}"
  proof (intro set_eqI iffI; clarsimp)
    fix i assume "i < 8" "4 ^ i \<le> unat (cls_dropped st)"
    show "i < ?s"
    proof (rule ccontr)
      assume "\<not> i < ?s"
      then have "(4 :: nat) ^ ?s \<le> 4 ^ i" "unat (cls_dropped st) < 4 ^ ?s"
        using assms \<open>i < 8\<close> by (auto simp: class_wf_def intro: power_increasing)
      then show False using \<open>4 ^ i \<le> unat (cls_dropped st)\<close> by linarith
    qed
  next
    fix i assume i: "i < ?s"
    then have "(4 :: nat) ^ i \<le> 4 ^ (?s - 1)" by (intro power_increasing) simp_all
    moreover have "4 ^ (?s - 1) \<le> unat (cls_dropped st)" "?s \<le> 8" using assms i by (simp_all add: class_wf_def)
    ultimately show "i < 8 \<and> 4 ^ i \<le> unat (cls_dropped st)" using i by linarith
  qed
  then show ?thesis by simp
qed

lemma fresh_scan_eq:
  "fresh_scan prev current keys =
     (map (\<lambda>i. keys ! i \<notin> prev \<and> keys ! i \<notin> current \<union> set (take i keys)) [0..<length keys], current \<union> set keys)"
proof (induction keys arbitrary: current)
  case (Cons key keys)
  have "map (\<lambda>i. keys ! i \<notin> prev \<and> keys ! i \<notin> insert key current \<union> set (take i keys)) [0..<length keys] =
      map (\<lambda>i. (key # keys) ! i \<notin> prev \<and> (key # keys) ! i \<notin> current \<union> set (take i (key # keys))) [1..<Suc (length keys)]"
    by (rule nth_equalityI) (auto simp del: upt_Suc)
  then show ?case
    using Cons.IH [of "insert key current"] by (simp add: upt_conv_Cons del: upt_Suc)
qed simp

lemma audit_verify_bound: "audit_verify C a \<Longrightarrow> audit_len a \<le> 456"
  by (auto simp: audit_verify_def audit_len_def total_capacity_value Let_def split: if_splits option.splits)

subsection \<open>Properties\<close>

text \<open>
  The kernel's self-check of its audit chain never fails: after every sequence of events, in
  whatever classes and order, as long as no event's subject imitates a summary entry, the hash chain
  verifies, the counters agree with the chain, and the chain holds at most 456 entries.
\<close>

theorem audit_self_check:
  assumes "list_all plain_subject calls"
  shows "audit_verify C (fold (audit_call C) calls audit_new) \<and>
         audit_len (fold (audit_call C) calls audit_new) \<le> 456"
proof -
  let ?a = "fold (audit_call C) calls audit_new"
  have "class_of audit_new c = class_new" for c
    using class_index_bound [of c] by (simp add: class_of_def audit_new_def)
  then have "summaries_marked audit_new"
    by (simp add: summaries_marked_def class_new_def ALL_CLASSES_def) (simp add: audit_new_def worm_new_def)
  then have "summaries_marked ?a" using calls_marked [OF audit_new_wf] assms by blast
  then have "audit_verify C ?a" by (simp add: audit_verify_iff [OF audit_machine.run_inv])
  then show ?thesis using audit_verify_bound by simp
qed

theorem audit_self_check_witness:
  "audit_verify plain_crypto
     (fold (audit_call plain_crypto)
        [Event AuditClass.Applied ''sim:0:1'' ''Disabled'' ''Enabled'' True None, Note AuditClass.CleanPass ''clean'']
        audit_new)"
  using audit_self_check [where C = plain_crypto and
      calls = "[Event AuditClass.Applied ''sim:0:1'' ''Disabled'' ''Enabled'' True None, Note AuditClass.CleanPass ''clean'']"]
  by (simp add: starts_with_def SUMMARY_SUBJECT_PREFIX_def)

text \<open>
  C27.  Every event is accounted for and classes do not borrow from each other.  After any sequence
  of events, the number of individual entries of a class is the number of its own events up to its
  own quota, the coalesced count is exactly its remaining events (up to the largest 64-bit number),
  and the number of its summary entries is the number of powers of four, among the first eight,
  that this count has reached.  Events of other classes have no influence.
\<close>

theorem audit_books_exact:
  "let a = fold (audit_call C) calls audit_new; st = class_of a c in
   cls_recorded st = min (quota c) (event_count c calls) \<and>
   unat (cls_dropped st) = min (2 ^ 64 - 1) (event_count c calls - quota c + note_count c calls) \<and>
   unat (cls_summaries st) = card {i. i < 8 \<and> 4 ^ i \<le> unat (cls_dropped st)}"
proof -
  have "class_wf c (class_of (fold (audit_call C) calls audit_new) c)"
    using audit_machine.run_inv [of C calls] by (simp add: audit_wf_def)
  from summaries_are_powers [OF this] class_accounting [of C calls c] show ?thesis by (simp add: Let_def)
qed

text \<open>
  The reconciler's memory reports a finding exactly when it is new: the i-th key of a pass is
  fresh if and only if the previous pass did not report it and it does not occur earlier in this
  pass; a clean pass is written out only after a pass that was not clean; and what is remembered is
  exactly this pass's keys.
\<close>

theorem observe_exact:
  "plan_fresh (fst (observe keys m)) =
     map (\<lambda>i. keys ! i \<notin> mem_prev m \<and> keys ! i \<notin> set (take i keys)) [0..<length keys] \<and>
   plan_clean (fst (observe keys m)) =
     (if keys \<noteq> [] then None
      else if mem_last_clean m then Some (Coalesce (saturating_add (mem_clean_passes m) 1))
      else Some (Record (saturating_add (mem_clean_passes m) 1))) \<and>
   mem_prev (snd (observe keys m)) = set keys \<and> mem_last_clean (snd (observe keys m)) = (keys = [])"
  by (simp add: observe_def fresh_scan_eq Let_def)

end
