(* ===== verification/Capability.thy ===== *)
theory Capability
  imports Crypto
begin

text \<open>
  Capability tokens.  The first part is \<open>capability-manager/src/lib.rs\<close>: signed tokens and the
  revocation list.  The second is \<open>kernel-arm/src/capabilities.rs\<close>: the names of the kernel's
  resources, the memory-window rights, and the check every gated system call makes against the set
  of tokens the EL0 context holds.  Shown: a check passes exactly when an unexpired token for that
  very resource is held, no two resources share a name, a memory window granted by a token contains
  every window it admits, and the revocation index never forgets a revoked token.
\<close>

subsection \<open>Tokens\<close>

record CapabilityToken =
  tok_subject :: string
  tok_resource :: string
  tok_issued_at :: u64
  tok_expires_at :: u64
  tok_key_id :: string
  tok_signature :: string

datatype CapabilityError = Expired | WrongResource | InvalidSignature

fun display_CapabilityError :: "CapabilityError \<Rightarrow> string" where
  "display_CapabilityError CapabilityError.Expired = ''capability token expired''"
| "display_CapabilityError CapabilityError.WrongResource = ''capability token is not authorized for this resource''"
| "display_CapabilityError CapabilityError.InvalidSignature = ''capability token signature invalid''"

definition token_canonical :: "CapabilityToken \<Rightarrow> string" where
  "token_canonical t =
     ''v1|'' @ tok_subject t @ ''|'' @ tok_resource t @ ''|'' @ show_word (tok_issued_at t) @ ''|'' @
     show_word (tok_expires_at t)"

definition token_issue ::
    "crypto \<Rightarrow> string \<Rightarrow> string \<Rightarrow> u64 \<Rightarrow> u64 \<Rightarrow> string \<Rightarrow> bytes \<Rightarrow> CapabilityToken" where
  "token_issue C subject resource issued_at expires_at key_id signing_key =
     (let token = \<lparr>tok_subject = subject, tok_resource = resource, tok_issued_at = issued_at,
                   tok_expires_at = expires_at, tok_key_id = key_id, tok_signature = []\<rparr>
      in token\<lparr>tok_signature := signature_of C signing_key (token_canonical token)\<rparr>)"

definition token_verify ::
    "crypto \<Rightarrow> CapabilityToken \<Rightarrow> bytes \<Rightarrow> string \<Rightarrow> u64 \<Rightarrow> (unit, CapabilityError) result" where
  "token_verify C t verifying_key resource now =
     (if tok_expires_at t < now then Err CapabilityError.Expired
      else if tok_resource t \<noteq> resource then Err CapabilityError.WrongResource
      else if signature_checks C verifying_key (token_canonical t) (tok_signature t) then Ok ()
      else Err CapabilityError.InvalidSignature)"

subsection \<open>Revocation\<close>

record RevocationList =
  revoked_signatures :: "string set"
  revoked_fingerprints :: "u64 set"

definition revocation_new :: RevocationList where
  "revocation_new = \<lparr>revoked_signatures = {}, revoked_fingerprints = {}\<rparr>"

definition signature_fingerprint :: "crypto \<Rightarrow> string \<Rightarrow> u64 option" where
  "signature_fingerprint C signature_hex =
     (if 16 \<le> length signature_hex \<and> is_char_boundary signature_hex 16 then
        (case hex_decode C (take 16 signature_hex) of
           Some bs \<Rightarrow> if length bs = 8 then Some (of_nat (from_le bs)) else None
         | None \<Rightarrow> None)
      else None)"

definition revoke :: "crypto \<Rightarrow> CapabilityToken \<Rightarrow> RevocationList \<Rightarrow> RevocationList" where
  "revoke C t l =
     (let l = (case signature_fingerprint C (tok_signature t) of
                 Some fp \<Rightarrow> l\<lparr>revoked_fingerprints := insert fp (revoked_fingerprints l)\<rparr>
               | None \<Rightarrow> l)
      in l\<lparr>revoked_signatures := insert (tok_signature t) (revoked_signatures l)\<rparr>)"

definition is_revoked :: "RevocationList \<Rightarrow> CapabilityToken \<Rightarrow> bool" where
  "is_revoked l t \<longleftrightarrow> tok_signature t \<in> revoked_signatures l"

definition is_fingerprint_revoked :: "RevocationList \<Rightarrow> u64 \<Rightarrow> bool" where
  "is_fingerprint_revoked l fp \<longleftrightarrow> fp \<in> revoked_fingerprints l"

subsection \<open>The kernel's resource names\<close>

definition DEMO_SEED :: bytes where
  "DEMO_SEED =
     [0x30, 0x31, 0x32, 0x33, 0x34, 0x35, 0x36, 0x37, 0x38, 0x39, 0x3a, 0x3b, 0x3c, 0x3d, 0x3e, 0x3f,
      0x40, 0x41, 0x42, 0x43, 0x44, 0x45, 0x46, 0x47, 0x48, 0x49, 0x4a, 0x4b, 0x4c, 0x4d, 0x4e, 0x4f]"

text \<open>\<open>SigningKey::from_bytes\<close> wraps the seed, so a signing key is its seed.\<close>

definition demo_signing_key :: bytes where
  "demo_signing_key = DEMO_SEED"

definition demo_verifying_key :: "crypto \<Rightarrow> bytes" where
  "demo_verifying_key C = public_key C demo_signing_key"

definition ril_resource :: "usize \<Rightarrow> string" where
  "ril_resource channel = ''ril:'' @ show_word channel"

definition ipc_resource :: "usize \<Rightarrow> string" where
  "ipc_resource channel = ''ipc:'' @ show_word channel"

definition sim_resource :: "usize \<Rightarrow> string" where
  "sim_resource slot = ''sim:'' @ show_word slot"

definition sim_profile_resource :: "usize \<Rightarrow> u8 \<Rightarrow> string" where
  "sim_profile_resource slot profile = ''sim:'' @ show_word slot @ '':'' @ show_word profile"

definition sim_delete_resource :: "usize \<Rightarrow> u8 \<Rightarrow> string" where
  "sim_delete_resource slot profile = ''sim:delete:'' @ show_word slot @ '':'' @ show_word profile"

definition mvno_account_resource :: "u64 \<Rightarrow> string" where
  "mvno_account_resource account = ''mvno:account:'' @ show_word account"

definition mvno_suspend_resource :: "u64 \<Rightarrow> string" where
  "mvno_suspend_resource account = ''mvno:suspend:'' @ show_word account"

definition data_session_resource :: "u64 \<Rightarrow> string" where
  "data_session_resource account = ''data:session:'' @ show_word account"

definition data_usage_resource :: "u64 \<Rightarrow> string" where
  "data_usage_resource account = ''data:usage:'' @ show_word account"

definition data_reset_resource :: "u64 \<Rightarrow> string" where
  "data_reset_resource account = ''data:reset:'' @ show_word account"

definition data_reset_early_resource :: "u64 \<Rightarrow> string" where
  "data_reset_early_resource account = ''data:reset-early:'' @ show_word account"

definition data_reconcile_resource :: string where
  "data_reconcile_resource = ''data:reconcile''"

definition mmio_window_resource :: "usize \<Rightarrow> usize \<Rightarrow> string" where
  "mmio_window_resource base len = ''mmio:'' @ show_hex base @ '':'' @ show_hex len"

subsection \<open>Memory windows\<close>

text \<open>\<open>usize::from_str_radix(s, 16)\<close>: an optional plus sign, then at least one digit, no overflow.\<close>

definition hex_value :: "char \<Rightarrow> nat option" where
  "hex_value c =
     (let n = (of_char c :: nat) in
      if 48 \<le> n \<and> n < 58 then Some (n - 48)
      else if 97 \<le> n \<and> n < 103 then Some (n - 87)
      else if 65 \<le> n \<and> n < 71 then Some (n - 55)
      else None)"

fun hex_digits_value :: "string \<Rightarrow> nat \<Rightarrow> nat option" where
  "hex_digits_value [] acc = Some acc"
| "hex_digits_value (c # cs) acc =
     (case hex_value c of
        None \<Rightarrow> None
      | Some d \<Rightarrow> if acc * 16 + d < 2 ^ 64 then hex_digits_value cs (acc * 16 + d) else None)"

definition from_str_radix_16 :: "string \<Rightarrow> usize option" where
  "from_str_radix_16 s =
     (case s of
        [] \<Rightarrow> None
      | c # cs \<Rightarrow>
          let digits = (if c = CHR ''+'' then cs else s)
          in if digits = [] then None else map_option of_nat (hex_digits_value digits 0))"

definition strip_prefix :: "string \<Rightarrow> string \<Rightarrow> string option" where
  "strip_prefix p s = (if take (length p) s = p then Some (drop (length p) s) else None)"

definition split_once :: "char \<Rightarrow> string \<Rightarrow> (string \<times> string) option" where
  "split_once c s =
     (if c \<in> set s then Some (takeWhile (\<lambda>x. x \<noteq> c) s, tl (dropWhile (\<lambda>x. x \<noteq> c) s)) else None)"

definition parse_mmio_window :: "string \<Rightarrow> (usize \<times> usize) option" where
  "parse_mmio_window resource =
     (case strip_prefix ''mmio:'' resource of
        None \<Rightarrow> None
      | Some rest \<Rightarrow>
     (case split_once CHR '':'' rest of
        None \<Rightarrow> None
      | Some (base_str, len_str) \<Rightarrow>
     (case strip_prefix ''0x'' base_str of
        None \<Rightarrow> None
      | Some b \<Rightarrow>
     (case from_str_radix_16 b of
        None \<Rightarrow> None
      | Some base \<Rightarrow>
     (case strip_prefix ''0x'' len_str of
        None \<Rightarrow> None
      | Some l \<Rightarrow>
     (case from_str_radix_16 l of
        None \<Rightarrow> None
      | Some len \<Rightarrow> Some (base, len)))))))"

definition VIRTIO_MMIO_BASE :: usize where
  "VIRTIO_MMIO_BASE = 0x0a000000"

definition VIRTIO_MMIO_SLOT_STRIDE :: usize where
  "VIRTIO_MMIO_SLOT_STRIDE = 0x200"

definition virtio_mmio_slot_resource :: "usize \<Rightarrow> string" where
  "virtio_mmio_slot_resource slot =
     mmio_window_resource (VIRTIO_MMIO_BASE + slot * VIRTIO_MMIO_SLOT_STRIDE) VIRTIO_MMIO_SLOT_STRIDE"

definition mmio_window_contains :: "usize \<Rightarrow> usize \<Rightarrow> usize \<Rightarrow> usize \<Rightarrow> bool" where
  "mmio_window_contains granted_base granted_len requested_base requested_len =
     (case (checked_add granted_base granted_len, checked_add requested_base requested_len) of
        (Some granted_end, Some requested_end) \<Rightarrow> granted_base \<le> requested_base \<and> requested_end \<le> granted_end
      | _ \<Rightarrow> False)"

definition check_mmio_window ::
    "crypto \<Rightarrow> CapabilityToken \<Rightarrow> usize \<Rightarrow> usize \<Rightarrow> u64 \<Rightarrow> (unit, CapabilityError) result" where
  "check_mmio_window C t requested_base requested_len now =
     (case token_verify C t (demo_verifying_key C) (tok_resource t) now of
        Err e \<Rightarrow> Err e
      | Ok _ \<Rightarrow>
          (case parse_mmio_window (tok_resource t) of
             Some (granted_base, granted_len) \<Rightarrow>
               if mmio_window_contains granted_base granted_len requested_base requested_len then Ok ()
               else Err CapabilityError.WrongResource
           | None \<Rightarrow> Err CapabilityError.WrongResource))"

subsection \<open>The tokens the EL0 context holds\<close>

text \<open>
  \<open>CURRENT_CAPABILITIES\<close> is the list of held tokens, oldest first.  The expiry is 60 seconds of
  timer ticks after issue, in 64-bit arithmetic that wraps as the release build does.
\<close>

type_synonym held_tokens = "CapabilityToken list"

definition issue_mmio_token :: "crypto \<Rightarrow> u64 \<Rightarrow> string \<Rightarrow> u64 \<Rightarrow> CapabilityToken" where
  "issue_mmio_token C ticks_per_sec resource now =
     (let expires_at = now + 60 * ticks_per_sec
      in token_issue C ''el0:arm-demo'' resource now expires_at ''demo-key'' demo_signing_key)"

definition issue_and_hold :: "crypto \<Rightarrow> u64 \<Rightarrow> string \<Rightarrow> u64 \<Rightarrow> held_tokens \<Rightarrow> held_tokens" where
  "issue_and_hold C ticks_per_sec resource now held =
     (let expires_at = now + 60 * ticks_per_sec
      in held @ [token_issue C ''el0:arm-demo'' resource now expires_at ''demo-key'' demo_signing_key])"

fun check_scan ::
    "crypto \<Rightarrow> string \<Rightarrow> u64 \<Rightarrow> CapabilityError \<Rightarrow> held_tokens \<Rightarrow> (unit, CapabilityError) result" where
  "check_scan C resource now last_err [] = Err last_err"
| "check_scan C resource now last_err (t # ts) =
     (case token_verify C t (demo_verifying_key C) resource now of
        Ok _ \<Rightarrow> Ok ()
      | Err e \<Rightarrow> check_scan C resource now e ts)"

definition cap_check :: "crypto \<Rightarrow> held_tokens \<Rightarrow> string \<Rightarrow> u64 \<Rightarrow> (unit, CapabilityError) result" where
  "cap_check C held resource now =
     (if held = [] then Err CapabilityError.InvalidSignature
      else check_scan C resource now CapabilityError.InvalidSignature held)"

subsection \<open>Reading back what was printed\<close>

lemma hex_value_digit: "d < 16 \<Longrightarrow> hex_value (hex_digit d) = Some d"
  by (auto simp: hex_value_def hex_digit_def Let_def)

lemma hex_chars: "c \<in> set (hex n) \<Longrightarrow> hex_value c \<noteq> None"
proof (induction n rule: hex.induct)
  case (1 n)
  then show ?case by (subst (asm) (2) hex.simps) (auto simp: hex_value_digit split: if_splits)
qed

lemma hex_nonempty [simp]: "hex n \<noteq> []"
  by (subst hex.simps) simp

lemma hex_read: "n < 2 ^ 64 \<Longrightarrow> hex_digits_value (hex n @ cs) 0 = hex_digits_value cs n"
proof (induction n arbitrary: cs rule: hex.induct)
  case (1 n)
  show ?case
  proof (cases "n < 16")
    case True
    then show ?thesis by (subst hex.simps) (simp add: hex_value_digit)
  next
    case False
    have "hex_digits_value (hex (n div 16) @ hex_digit (n mod 16) # cs) 0 =
        hex_digits_value (hex_digit (n mod 16) # cs) (n div 16)"
      using 1 False by simp
    also have "\<dots> = hex_digits_value cs n" using 1(2) by (simp add: hex_value_digit)
    finally show ?thesis using False by (subst hex.simps) simp
  qed
qed

lemma from_str_radix_hex: "from_str_radix_16 (hex (unat w)) = Some w" for w :: usize
proof -
  have "unat w < 2 ^ 64" using unat_bound [of w] by simp
  then have v: "hex_digits_value (hex (unat w)) 0 = Some (unat w)" using hex_read [of "unat w" "[]"] by simp
  obtain c cs where c: "hex (unat w) = c # cs" by (cases "hex (unat w)") simp_all
  then have "hex_value c \<noteq> None" using hex_chars [of c "unat w"] by simp
  then have "c \<noteq> CHR ''+''" by (auto simp: hex_value_def)
  with v c show ?thesis by (simp add: from_str_radix_16_def Let_def)
qed

lemma split_once_append: "c \<notin> set a \<Longrightarrow> split_once c (a @ c # b) = Some (a, b)"
  by (auto simp: split_once_def takeWhile_append dropWhile_append)

lemma strip_prefix_append [simp]: "strip_prefix p (p @ s) = Some s"
  by (simp add: strip_prefix_def)

lemma parse_mmio_window_resource: "parse_mmio_window (mmio_window_resource base len) = Some (base, len)"
proof -
  have "hex_value CHR '':'' = None" by (simp add: hex_value_def)
  then have "CHR '':'' \<notin> set (hex n)" for n using hex_chars [of "CHR '':''" n] by auto
  then have "CHR '':'' \<notin> set (show_hex base)" by (simp add: show_hex_def)
  then have split: "split_once CHR '':'' (show_hex base @ CHR '':'' # show_hex len) = Some (show_hex base, show_hex len)"
    by (rule split_once_append)
  have strip: "strip_prefix ''0x'' (show_hex w) = Some (hex (unat w))" for w :: usize
    by (simp add: show_hex_def strip_prefix_def)
  have "strip_prefix ''mmio:'' (mmio_window_resource base len) = Some (show_hex base @ CHR '':'' # show_hex len)"
    by (simp add: mmio_window_resource_def strip_prefix_def)
  then show ?thesis by (simp add: parse_mmio_window_def split strip from_str_radix_hex)
qed

lemma mmio_window_contains_iff:
  "mmio_window_contains gb gl rb rl \<longleftrightarrow>
     unat gb + unat gl < 2 ^ 64 \<and> unat gb \<le> unat rb \<and> unat rb + unat rl \<le> unat gb + unat gl"
proof -
  have "unat (a + b) = unat a + unat b" if "unat a + unat b < 2 ^ 64" for a b :: usize
    using that by (simp add: unat_word_ariths)
  then show ?thesis
    by (auto simp: mmio_window_contains_def checked_add_def word_le_nat_alt)
qed

subsection \<open>Resources\<close>

text \<open>Everything the kernel names, as one type; its text is what the kernel passes to the check.\<close>

datatype Resource =
    Ril usize | Ipc usize | Sim usize | SimProfile usize u8 | SimDelete usize u8
  | MvnoAccount u64 | MvnoSuspend u64
  | DataSessions u64 | DataUsageFeed u64 | DataReset u64 | DataResetEarly u64 | DataReconcile
  | MmioWindow usize usize

fun resource_text :: "Resource \<Rightarrow> string" where
  "resource_text (Ril n) = ril_resource n"
| "resource_text (Ipc n) = ipc_resource n"
| "resource_text (Sim n) = sim_resource n"
| "resource_text (SimProfile n p) = sim_profile_resource n p"
| "resource_text (SimDelete n p) = sim_delete_resource n p"
| "resource_text (MvnoAccount a) = mvno_account_resource a"
| "resource_text (MvnoSuspend a) = mvno_suspend_resource a"
| "resource_text (DataSessions a) = data_session_resource a"
| "resource_text (DataUsageFeed a) = data_usage_resource a"
| "resource_text (DataReset a) = data_reset_resource a"
| "resource_text (DataResetEarly a) = data_reset_early_resource a"
| "resource_text DataReconcile = data_reconcile_resource"
| "resource_text (MmioWindow b l) = mmio_window_resource b l"

lemmas resource_defs =
  ril_resource_def ipc_resource_def sim_resource_def sim_profile_resource_def sim_delete_resource_def
  mvno_account_resource_def mvno_suspend_resource_def data_session_resource_def data_usage_resource_def
  data_reset_resource_def data_reset_early_resource_def data_reconcile_resource_def

lemma show_word_no_colon [simp]: "CHR '':'' \<notin> set (show_word w)"
  by (rule digit_sep) (simp add: is_digit_def)

lemma show_word_not_letter: "show_word w \<noteq> c # cs" if "\<not> is_digit c"
proof
  assume "show_word w = c # cs"
  then have "is_digit c" using show_word_digits [of c w] by simp
  with that show False by simp
qed

lemma show_word_append_colon: "show_word v \<noteq> show_word w @ CHR '':'' # cs"
proof
  assume "show_word v = show_word w @ CHR '':'' # cs"
  then have "CHR '':'' \<in> set (show_word v)" by simp
  then show False by simp
qed

lemma show_word_head:
  assumes "\<not> is_digit c"
  shows "show_word w @ x \<noteq> c # y"
proof
  assume eq: "show_word w @ x = c # y"
  obtain d ds where d: "show_word w = d # ds" by (cases "show_word w") simp_all
  then have "is_digit d" using show_word_digits [of d w] by simp
  with eq d assms show False by simp
qed

lemma mmio_window_resource_inj:
  "mmio_window_resource b l = mmio_window_resource b' l' \<longleftrightarrow> b = b' \<and> l = l'"
  by (metis parse_mmio_window_resource option.inject prod.inject)

text \<open>The text of a resource: the words in front of its numbers, and the numbers.\<close>

fun resource_key :: "Resource \<Rightarrow> nat" where
  "resource_key (Ril _) = 0" | "resource_key (Ipc _) = 1" | "resource_key (Sim _) = 2"
| "resource_key (SimProfile _ _) = 3" | "resource_key (SimDelete _ _) = 4"
| "resource_key (MvnoAccount _) = 5" | "resource_key (MvnoSuspend _) = 6"
| "resource_key (DataSessions _) = 7" | "resource_key (DataUsageFeed _) = 8"
| "resource_key (DataReset _) = 9" | "resource_key (DataResetEarly _) = 10" | "resource_key DataReconcile = 11"
| "resource_key (MmioWindow _ _) = 12"

lemma letter_not_digit:
  "\<not> is_digit CHR ''d''" "\<not> is_digit CHR ''-''" "\<not> is_digit CHR '':''"
  by (simp_all add: is_digit_def)

lemma resource_text_kind: "resource_text r = resource_text r' \<Longrightarrow> resource_key r = resource_key r'"
  by (cases r; cases r')
     (simp_all add: resource_defs mmio_window_resource_def show_word_append_colon
       show_word_append_colon [symmetric] show_word_head show_word_head [symmetric] letter_not_digit
       show_word_not_letter show_word_not_letter [symmetric])

lemma resource_text_inj: "resource_text r = resource_text r' \<longleftrightarrow> r = r'"
proof
  assume eq: "resource_text r = resource_text r'"
  then have "resource_key r = resource_key r'" by (rule resource_text_kind)
  with eq show "r = r'"
    by (cases r; cases r') (auto simp: resource_defs show_word_inj append_sep_inj mmio_window_resource_inj)
qed simp

subsection \<open>Checks\<close>

lemma token_verify_Ok:
  "token_verify C t vk r now = Ok () \<longleftrightarrow>
     now \<le> tok_expires_at t \<and> tok_resource t = r \<and> signature_checks C vk (token_canonical t) (tok_signature t)"
  by (auto simp: token_verify_def not_less)

lemma check_scan_Ok:
  "check_scan C r now e held = Ok () \<longleftrightarrow> (\<exists>t\<in>set held. token_verify C t (demo_verifying_key C) r now = Ok ())"
  by (induction held arbitrary: e) (auto split: result.splits)

lemma cap_check_Ok:
  "cap_check C held r now = Ok () \<longleftrightarrow> (\<exists>t\<in>set held. token_verify C t (demo_verifying_key C) r now = Ok ())"
  by (auto simp: cap_check_def check_scan_Ok)

lemma issued_token_verifies:
  assumes "crypto_laws C"
  shows "token_verify C (token_issue C s r i e k demo_signing_key) (demo_verifying_key C) r' now = Ok () \<longleftrightarrow>
         now \<le> e \<and> r = r'"
proof -
  let ?t = "token_issue C s r i e k demo_signing_key"
  have "tok_signature ?t = signature_of C demo_signing_key (token_canonical ?t)"
    by (simp add: token_issue_def token_canonical_def Let_def)
  then have "signature_checks C (demo_verifying_key C) (token_canonical ?t) (tok_signature ?t)"
    by (simp add: demo_verifying_key_def own_signature_checks [OF assms])
  then show ?thesis by (auto simp: token_verify_Ok token_issue_def Let_def)
qed

text \<open>The held set after a list of grants: ticks per second, resource, and time of issue.\<close>

definition granted :: "crypto \<Rightarrow> (u64 \<times> Resource \<times> u64) list \<Rightarrow> held_tokens" where
  "granted C grants = fold (\<lambda>(f, r, n). issue_and_hold C f (resource_text r) n) grants []"

lemma granted_eq:
  "granted C grants =
     map (\<lambda>(f, r, n). token_issue C ''el0:arm-demo'' (resource_text r) n (n + 60 * f) ''demo-key'' demo_signing_key) grants"
proof -
  have "fold (\<lambda>(f, r, n). issue_and_hold C f (resource_text r) n) grants held = held @
     map (\<lambda>(f, r, n). token_issue C ''el0:arm-demo'' (resource_text r) n (n + 60 * f) ''demo-key'' demo_signing_key) grants"
    for held
    by (induction grants arbitrary: held) (auto simp: issue_and_hold_def Let_def)
  then show ?thesis by (simp add: granted_def)
qed

text \<open>
  What a gated system call relies on: a check that passes says that a token for this resource was
  issued and has not expired, and the converse.
\<close>

locale capability_gate =
  fixes check :: "'h \<Rightarrow> 'r \<Rightarrow> u64 \<Rightarrow> bool" and grants :: "'h \<Rightarrow> ('r \<times> u64) set"
  assumes check_iff: "check h r now \<longleftrightarrow> (\<exists>e. (r, e) \<in> grants h \<and> now \<le> e)"
begin

lemma needs_grant: "check h r now \<Longrightarrow> r \<in> fst ` grants h"
  by (force simp: check_iff)

lemma expires: "check h r later \<Longrightarrow> now \<le> later \<Longrightarrow> check h r now"
  by (auto simp: check_iff intro: order_trans)

lemma grants_add: "grants h \<subseteq> grants h' \<Longrightarrow> check h r now \<Longrightarrow> check h' r now"
  by (auto simp: check_iff)

end

lemma cap_check_granted:
  assumes "crypto_laws C"
  shows "cap_check C (granted C grants) (resource_text r) now = Ok () \<longleftrightarrow>
         (\<exists>f n. (f, r, n) \<in> set grants \<and> now \<le> n + 60 * f)"
  by (force simp: cap_check_Ok granted_eq issued_token_verifies [OF assms] resource_text_inj)

text \<open>The kernel's check provides the interface under every lawful choice of the cryptographic libraries.\<close>

locale lawful_crypto =
  fixes C :: crypto
  assumes laws: "crypto_laws C"

sublocale lawful_crypto \<subseteq> gate: capability_gate
  "\<lambda>grants r now. cap_check C (granted C grants) (resource_text r) now = Ok ()"
  "\<lambda>grants. (\<lambda>(f, r, n). (r, n + 60 * f)) ` set grants"
  by unfold_locales (force simp: cap_check_granted [OF laws])

interpretation plain: lawful_crypto plain_crypto
  by unfold_locales (rule plain_crypto_laws)

subsection \<open>Properties\<close>

text \<open>
  C28.  A capability check passes exactly when the context was granted that very resource and the
  grant has not expired.  For every list of grants made with the kernel's key, checking a resource
  succeeds if and only if one of the grants names this resource (the same kind of right, on the same
  numbers) and its expiry is not in the past: no token for another resource, however its numbers are
  chosen, can stand in.
\<close>

theorem capability_check_exact:
  assumes "crypto_laws C"
  shows "cap_check C (granted C grants) (resource_text r) now = Ok () \<longleftrightarrow>
         (\<exists>f n. (f, r, n) \<in> set grants \<and> now \<le> n + 60 * f)"
  by (rule cap_check_granted [OF assms])

theorem capability_check_exact_witness:
  "cap_check plain_crypto (granted plain_crypto [(1, SimProfile 0 1, 10)]) (resource_text (SimProfile 0 1)) 70 = Ok () \<and>
   cap_check plain_crypto (granted plain_crypto [(1, SimProfile 0 1, 10)]) (resource_text (SimDelete 0 1)) 70 \<noteq> Ok ()"
  using capability_check_exact [OF plain_crypto_laws, of "[(1, SimProfile 0 1, 10)]" _ 70] by (simp del: resource_text.simps)

text \<open>
  A memory-window token admits exactly the sub-windows of the window it was issued for, until
  it expires: the requested range must lie inside the granted one as a range of integers, with the
  granted range not wrapping around the address space.
\<close>

theorem mmio_window_exact:
  assumes "crypto_laws C"
  shows "check_mmio_window C (issue_mmio_token C f (mmio_window_resource gb gl) issued) rb rl now = Ok () \<longleftrightarrow>
     now \<le> issued + 60 * f \<and> unat gb + unat gl < 2 ^ 64 \<and>
     unat gb \<le> unat rb \<and> unat rb + unat rl \<le> unat gb + unat gl"
proof -
  let ?t = "issue_mmio_token C f (mmio_window_resource gb gl) issued"
  have r: "tok_resource ?t = mmio_window_resource gb gl"
    by (simp add: issue_mmio_token_def token_issue_def Let_def)
  have "token_verify C ?t (demo_verifying_key C) (mmio_window_resource gb gl) now = Ok () \<longleftrightarrow> now \<le> issued + 60 * f"
    by (simp add: issue_mmio_token_def Let_def issued_token_verifies [OF assms])
  then show ?thesis
    by (auto simp: check_mmio_window_def r parse_mmio_window_resource mmio_window_contains_iff split: result.splits)
qed

theorem mmio_window_exact_witness:
  "check_mmio_window plain_crypto
     (issue_mmio_token plain_crypto 1 (mmio_window_resource 0x0a003e00 0x200) 5) 0x0a003e00 0x100 20 = Ok ()"
  using mmio_window_exact [OF plain_crypto_laws, of 1 "0x0a003e00" "0x200" 5 "0x0a003e00" "0x100" 20] by simp

text \<open>
  Revocation fails closed.  After any sequence of revocations, a token is revoked exactly when
  one with its signature was revoked, and every revoked token whose signature has a fingerprint is
  found by the fingerprint index the scalar system call consults.
\<close>

theorem revocation_fails_closed:
  "(is_revoked (fold (revoke C) ts revocation_new) t \<longleftrightarrow> tok_signature t \<in> tok_signature ` set ts) \<and>
   (is_revoked (fold (revoke C) ts revocation_new) t \<and> signature_fingerprint C (tok_signature t) = Some fp
      \<longrightarrow> is_fingerprint_revoked (fold (revoke C) ts revocation_new) fp)"
proof -
  have sigs: "revoked_signatures (fold (revoke C) ts l) = revoked_signatures l \<union> tok_signature ` set ts" for l
    by (induction ts arbitrary: l) (auto simp: revoke_def Let_def split: option.splits)
  have fps: "revoked_fingerprints (fold (revoke C) ts l) =
      revoked_fingerprints l \<union> {fp. \<exists>t\<in>set ts. signature_fingerprint C (tok_signature t) = Some fp}" for l
    by (induction ts arbitrary: l) (auto simp: revoke_def Let_def split: option.splits)
  show ?thesis
    by (auto simp: is_revoked_def is_fingerprint_revoked_def sigs fps revocation_new_def)
qed

definition sample_token :: CapabilityToken where
  "sample_token =
     \<lparr>tok_subject = ''el0'', tok_resource = ''sim:0'', tok_issued_at = 1, tok_expires_at = 2, tok_key_id = ''k'',
      tok_signature = ''0123456789abcdef''\<rparr>"

theorem revocation_fails_closed_witness:
  "is_fingerprint_revoked
     (fold (revoke (plain_crypto\<lparr>hex_decode := (\<lambda>s. Some (as_bytes (take 8 s)))\<rparr>)) [sample_token] revocation_new)
     (of_nat (from_le (as_bytes ''01234567'')))"
proof -
  let ?C = "plain_crypto\<lparr>hex_decode := (\<lambda>s. Some (as_bytes (take 8 s)))\<rparr>"
  have "signature_fingerprint ?C (tok_signature sample_token) = Some (of_nat (from_le (as_bytes ''01234567'')))"
    by (simp add: signature_fingerprint_def sample_token_def is_char_boundary_def)
  with revocation_fails_closed [of ?C "[sample_token]" sample_token] show ?thesis by simp
qed

end
