(* ===== verification/Channels.thy ===== *)
theory Channels
  imports Prelude
begin

text \<open>
  The single-byte mailboxes of \<open>kernel-arm/src/ril_channel.rs\<close> and
  \<open>kernel-arm/src/ipc_channel.rs\<close>: two separate arrays of four optional bytes, each behind its
  own locks.  Both implement the contract \<open>mailboxes\<close>: what a receive returns is the byte of the
  last send to that very channel that no receive has taken yet.
\<close>

type_synonym channels = "u8 option list"

definition CHANNEL_COUNT :: nat where
  "CHANNEL_COUNT = 4"

definition CHANNELS :: channels where
  "CHANNELS = replicate CHANNEL_COUNT None"

definition ril_send :: "channels \<Rightarrow> usize \<Rightarrow> u8 \<Rightarrow> (unit, unit) result \<times> channels" where
  "ril_send cs channel byte =
     (if unat channel < length cs then (Ok (), cs[unat channel := Some byte]) else (Err (), cs))"

definition ril_recv :: "channels \<Rightarrow> usize \<Rightarrow> u8 option \<times> channels" where
  "ril_recv cs channel =
     (if unat channel < length cs then (cs ! unat channel, cs[unat channel := None]) else (None, cs))"

definition ipc_send :: "channels \<Rightarrow> usize \<Rightarrow> u8 \<Rightarrow> (unit, unit) result \<times> channels" where
  "ipc_send cs channel byte =
     (if unat channel < length cs then (Ok (), cs[unat channel := Some byte]) else (Err (), cs))"

definition ipc_recv :: "channels \<Rightarrow> usize \<Rightarrow> u8 option \<times> channels" where
  "ipc_recv cs channel =
     (if unat channel < length cs then (cs ! unat channel, cs[unat channel := None]) else (None, cs))"

subsection \<open>The contract\<close>

datatype MailCall = Send usize u8 | Recv usize

fun mail_step ::
    "(channels \<Rightarrow> usize \<Rightarrow> u8 \<Rightarrow> (unit, unit) result \<times> channels) \<Rightarrow> (channels \<Rightarrow> usize \<Rightarrow> u8 option \<times> channels) \<Rightarrow>
     MailCall \<Rightarrow> channels \<Rightarrow> channels" where
  "mail_step send recv (Send i b) cs = snd (send cs i b)"
| "mail_step send recv (Recv i) cs = snd (recv cs i)"

text \<open>The byte a channel holds after the calls, given what it held before them.\<close>

fun undelivered :: "nat \<Rightarrow> usize \<Rightarrow> MailCall list \<Rightarrow> u8 option \<Rightarrow> u8 option" where
  "undelivered n i [] held = held"
| "undelivered n i (Send j b # calls) held =
     undelivered n i calls (if j = i \<and> unat j < n then Some b else held)"
| "undelivered n i (Recv j # calls) held = undelivered n i calls (if j = i then None else held)"

locale mailboxes =
  fixes send :: "channels \<Rightarrow> usize \<Rightarrow> u8 \<Rightarrow> (unit, unit) result \<times> channels"
    and recv :: "channels \<Rightarrow> usize \<Rightarrow> u8 option \<times> channels"
  assumes send_result: "fst (send cs i b) = (if unat i < length cs then Ok () else Err ())"
    and send_effect: "fst (recv (snd (send cs i b)) j) =
      (if j = i \<and> unat i < length cs then Some b else fst (recv cs j))"
    and recv_effect: "fst (recv (snd (recv cs i)) j) = (if j = i then None else fst (recv cs j))"
    and send_length: "length (snd (send cs i b)) = length cs"
    and recv_length: "length (snd (recv cs i)) = length cs"
begin

lemma step_length: "length (mail_step send recv call cs) = length cs"
  by (cases call) (simp_all add: send_length recv_length)

lemma recv_after: "fst (recv (fold (mail_step send recv) calls cs) i) =
    undelivered (length cs) i calls (fst (recv cs i))"
proof (induction calls arbitrary: cs)
  case (Cons call calls)
  then show ?case
    by (cases call) (auto simp: step_length send_effect recv_effect send_length recv_length)
qed simp

end

interpretation ril: mailboxes ril_send ril_recv
  by unfold_locales (auto simp: ril_send_def ril_recv_def nth_list_update word_unat_eq_iff)

interpretation ipc: mailboxes ipc_send ipc_recv
  by unfold_locales (auto simp: ipc_send_def ipc_recv_def nth_list_update word_unat_eq_iff)

subsection \<open>Properties\<close>

text \<open>
  C10.  A channel delivers the last byte sent to it that has not been taken, whatever is sent or
  received on the other channels: after any calls on the fresh mailboxes, what a receive returns is
  determined by the calls naming that channel alone.  The radio and the general channels both do so.
\<close>

theorem mailbox_delivery:
  "fst (ril_recv (fold (mail_step ril_send ril_recv) calls CHANNELS) i) = undelivered CHANNEL_COUNT i calls None \<and>
   fst (ipc_recv (fold (mail_step ipc_send ipc_recv) calls CHANNELS) i) = undelivered CHANNEL_COUNT i calls None"
proof -
  have "fst (ril_recv CHANNELS i) = None" "fst (ipc_recv CHANNELS i) = None" "length CHANNELS = CHANNEL_COUNT"
    by (auto simp: ril_recv_def ipc_recv_def CHANNELS_def)
  then show ?thesis using ril.recv_after [of calls CHANNELS i] ipc.recv_after [of calls CHANNELS i] by simp
qed

end
