(* ===== verification/Kernel.thy ===== *)
theory Kernel
  imports DataCodes AuditChain Capability Channels "HOL-Library.State_Monad"
begin

text \<open>
  The state the system-call layer works on and the helpers every system call uses
  (\<open>kernel-arm/src/svc.rs\<close>): the capability check, the audit events, the governance gate.  The
  kernel's statics are one record \<open>World\<close>; the three that hold the governed state (eSIM slots,
  account registry, data tables) form its field \<open>w_core\<close>.  Code runs in the state monad over
  \<open>World\<close>.  What the hardware and the outside provide (timer, registers, cryptography, the
  network) is the record \<open>Env\<close>, a parameter of every operation; the n-th read of a hardware
  register sees the n-th value.  Diagnostic lines on the serial port are not modelled; the bytes EL0
  writes with \<open>SYS_WRITE\<close> are.
\<close>

subsection \<open>Environment and state\<close>

record Registers =
  reg_spsr :: u64
  reg_elr :: u64
  reg_root :: usize

record Env =
  env_crypto :: crypto
  env_net :: network
  env_ticks :: "nat \<Rightarrow> u64"
  env_freq :: u64
  env_regs :: "nat \<Rightarrow> Registers"

record Core =
  c_slots :: slots
  c_registry :: AccountRegistry
  c_data :: DataState

text \<open>What a finished EL0 excursion reported, one record for each of its three kinds.\<close>

record ExcursionReport =
  el0_payload :: "u64 \<times> u64 \<times> u64"
  el0_regs :: Registers
  net_result :: u64
  net_regs :: Registers
  marshal_status :: u64
  marshal_response_len :: u64

record World =
  w_core :: Core
  w_audit :: "BoundedAudit option"
  w_memory :: ReconcileMemory
  w_held :: held_tokens
  w_marshal :: MarshalState
  w_ril :: channels
  w_ipc :: channels
  w_console :: bytes
  w_continuation :: usize
  w_observed :: ExcursionReport
  w_reads :: nat

type_synonym 'a svc = "(World, 'a) state"

definition core_new :: Core where
  "core_new = \<lparr>c_slots = SLOTS, c_registry = registry_new, c_data = data_new\<rparr>"

definition no_registers :: Registers where
  "no_registers = \<lparr>reg_spsr = 0, reg_elr = 0, reg_root = 0\<rparr>"

definition world_new :: World where
  "world_new =
     \<lparr>w_core = core_new, w_audit = None, w_memory = memory_new, w_held = [],
      w_marshal = \<lparr>marshal_proxy = None, evaluation_counter = 0\<rparr>,
      w_ril = CHANNELS, w_ipc = CHANNELS, w_console = [], w_continuation = 0,
      w_observed = \<lparr>el0_payload = (0, 0, 0), el0_regs = no_registers, net_result = 0, net_regs = no_registers,
                    marshal_status = 0, marshal_response_len = 0\<rparr>,
      w_reads = 0\<rparr>"

subsection \<open>Access to the locked statics\<close>

text \<open>Each takes one lock for the duration of the function it is given.\<close>

definition on_slots :: "(slots \<Rightarrow> 'a \<times> slots) \<Rightarrow> 'a svc" where
  "on_slots f = State (\<lambda>w. let (r, x) = f (c_slots (w_core w)) in (r, w\<lparr>w_core := (w_core w)\<lparr>c_slots := x\<rparr>\<rparr>))"

definition on_registry :: "(AccountRegistry \<Rightarrow> 'a \<times> AccountRegistry) \<Rightarrow> 'a svc" where
  "on_registry f =
     State (\<lambda>w. let (r, x) = f (c_registry (w_core w)) in (r, w\<lparr>w_core := (w_core w)\<lparr>c_registry := x\<rparr>\<rparr>))"

definition on_data :: "(DataState \<Rightarrow> 'a \<times> DataState) \<Rightarrow> 'a svc" where
  "on_data f = State (\<lambda>w. let (r, x) = f (c_data (w_core w)) in (r, w\<lparr>w_core := (w_core w)\<lparr>c_data := x\<rparr>\<rparr>))"

definition on_ril :: "(channels \<Rightarrow> 'a \<times> channels) \<Rightarrow> 'a svc" where
  "on_ril f = State (\<lambda>w. let (r, x) = f (w_ril w) in (r, w\<lparr>w_ril := x\<rparr>))"

definition on_ipc :: "(channels \<Rightarrow> 'a \<times> channels) \<Rightarrow> 'a svc" where
  "on_ipc f = State (\<lambda>w. let (r, x) = f (w_ipc w) in (r, w\<lparr>w_ipc := x\<rparr>))"

definition on_marshal :: "(MarshalState \<Rightarrow> 'a \<times> MarshalState) \<Rightarrow> 'a svc" where
  "on_marshal f = State (\<lambda>w. let (r, x) = f (w_marshal w) in (r, w\<lparr>w_marshal := x\<rparr>))"

definition on_memory :: "(ReconcileMemory \<Rightarrow> 'a \<times> ReconcileMemory) \<Rightarrow> 'a svc" where
  "on_memory f = State (\<lambda>w. let (r, x) = f (w_memory w) in (r, w\<lparr>w_memory := x\<rparr>))"

definition view :: "(World \<Rightarrow> 'a) \<Rightarrow> 'a svc" where
  "view f = State (\<lambda>w. (f w, w))"

definition view_core :: "(Core \<Rightarrow> 'a) \<Rightarrow> 'a svc" where
  "view_core f = view (\<lambda>w. f (w_core w))"

subsection \<open>Timer and capability check\<close>

definition now_ticks :: "Env \<Rightarrow> u64 svc" where
  "now_ticks E = State (\<lambda>w. (env_ticks E (w_reads w), w\<lparr>w_reads := w_reads w + 1\<rparr>))"

definition frequency_hz :: "Env \<Rightarrow> u64" where
  "frequency_hz E = env_freq E"

definition check :: "Env \<Rightarrow> string \<Rightarrow> (unit, CapabilityError) result svc" where
  "check E resource = do {
     now \<leftarrow> now_ticks E;
     view (\<lambda>w. cap_check (env_crypto E) (w_held w) resource now)
   }"

subsection \<open>Audit\<close>

definition audit_event ::
    "Env \<Rightarrow> AuditClass \<Rightarrow> string \<Rightarrow> string \<Rightarrow> string \<Rightarrow> bool \<Rightarrow> string option \<Rightarrow> AuditOutcome svc" where
  "audit_event E cls subject from_state to_state authorized reason =
     State (\<lambda>w.
       let a = (case w_audit w of Some a \<Rightarrow> a | None \<Rightarrow> audit_new);
           (outcome, a') = audit_record (env_crypto E) cls subject from_state to_state authorized reason a
       in (outcome, w\<lparr>w_audit := Some a'\<rparr>))"

definition audit_coalesce :: "Env \<Rightarrow> AuditClass \<Rightarrow> string \<Rightarrow> AuditOutcome svc" where
  "audit_coalesce E cls reason =
     State (\<lambda>w.
       let a = (case w_audit w of Some a \<Rightarrow> a | None \<Rightarrow> audit_new);
           (outcome, a') = note_coalesced (env_crypto E) cls reason a
       in (outcome, w\<lparr>w_audit := Some a'\<rparr>))"

definition audit_chain_summary :: "Env \<Rightarrow> (nat \<times> bool) svc" where
  "audit_chain_summary E =
     view (\<lambda>w. case w_audit w of
                 Some log \<Rightarrow> (audit_len log, audit_verify (env_crypto E) log)
               | None \<Rightarrow> (0, True))"

definition audit_last_entry :: "(bool \<times> string option) option svc" where
  "audit_last_entry = view (\<lambda>w. Option.bind (w_audit w) last_entry)"

definition applied_or_rejected :: "bool \<Rightarrow> AuditClass" where
  "applied_or_rejected authorized = (if authorized then AuditClass.Applied else AuditClass.Rejected)"

definition audit_transition ::
    "Env \<Rightarrow> usize \<Rightarrow> u8 \<Rightarrow> ProfileState \<Rightarrow> ProfileState \<Rightarrow> (unit, SimError) result \<Rightarrow> string option \<Rightarrow> unit svc" where
  "audit_transition E slot profile_id from_state to_state result verdict = do {
     let subject = sim_profile_resource slot profile_id;
     let (authorized, reason) =
       (case result of Ok _ \<Rightarrow> (True, None) | Err e \<Rightarrow> (False, Some (display_SimError e)));
     let reason = (case verdict of Some v \<Rightarrow> Some (reason_with_verdict reason v) | None \<Rightarrow> reason);
     _ \<leftarrow> audit_event E (applied_or_rejected authorized) subject
            (show_ProfileState from_state) (show_ProfileState to_state) authorized reason;
     State_Monad.return ()
   }"

definition audit_capability_denial :: "Env \<Rightarrow> AuditClass \<Rightarrow> string \<Rightarrow> string \<Rightarrow> string \<Rightarrow> unit svc" where
  "audit_capability_denial E cls label resource why = do {
     _ \<leftarrow> audit_event E cls resource ''capability check'' ''denied'' False
            (Some (label @ '': capability denied: '' @ why));
     State_Monad.return ()
   }"

fun show_AccountStatus :: "AccountStatus \<Rightarrow> string" where
  "show_AccountStatus AccountStatus.Active = ''Active''"
| "show_AccountStatus AccountStatus.Suspended = ''Suspended''"
| "show_AccountStatus AccountStatus.Closed = ''Closed''"

definition show_ProfileKey :: "ProfileKey \<Rightarrow> string" where
  "show_ProfileKey k =
     ''ProfileKey { slot: '' @ show_word (pk_slot k) @ '', profile: '' @ show_word (pk_profile k) @ '' }''"

fun show_AccountError :: "AccountError \<Rightarrow> string" where
  "show_AccountError RegistryFull = ''RegistryFull''"
| "show_AccountError AccountFull = ''AccountFull''"
| "show_AccountError NoSuchAccount = ''NoSuchAccount''"
| "show_AccountError AccountError.AccountClosed = ''AccountClosed''"
| "show_AccountError (AccountNotActive s) = ''AccountNotActive('' @ show_AccountStatus s @ '')''"
| "show_AccountError (InvalidTransition s t) =
     ''InvalidTransition { from: '' @ show_AccountStatus s @ '', to: '' @ show_AccountStatus t @ '' }''"
| "show_AccountError (AlreadyBound a) = ''AlreadyBound(AccountId('' @ show_word (account_no a) @ ''))''"
| "show_AccountError NotBound = ''NotBound''"
| "show_AccountError (UnknownProfile k) = ''UnknownProfile('' @ show_ProfileKey k @ '')''"
| "show_AccountError (ProfileDeleted k) = ''ProfileDeleted('' @ show_ProfileKey k @ '')''"
| "show_AccountError (ProfileEnabled k) = ''ProfileEnabled('' @ show_ProfileKey k @ '')''"

fun audit_outcome :: "('a, AccountError) result \<Rightarrow> bool \<times> string option" where
  "audit_outcome (Ok _) = (True, None)"
| "audit_outcome (Err e) = (False, Some (show_AccountError e))"

fun audit_closed_sessions :: "Env \<Rightarrow> DataSession list \<Rightarrow> string \<Rightarrow> unit svc" where
  "audit_closed_sessions E [] what = State_Monad.return ()"
| "audit_closed_sessions E (r # rows) what = do {
     _ \<leftarrow> audit_event E AuditClass.DataActivity (data_session_resource (ds_account r)) ''Open''
            (''Closed (kernel cleanup after '' @ what @ '')'') True
            (Some (''slot '' @ show_word (ds_slot r) @ '' profile '' @ show_word (ds_profile r)));
     audit_closed_sessions E rows what
   }"

definition audit_data_session :: "Env \<Rightarrow> u64 \<Rightarrow> bool \<Rightarrow> string \<Rightarrow> string \<Rightarrow> unit svc" where
  "audit_data_session E acct authorized to_state reason = do {
     _ \<leftarrow> audit_event E (if authorized then AuditClass.DataActivity else AuditClass.Rejected)
            (data_session_resource acct) ''Closed'' to_state authorized (Some reason);
     State_Monad.return ()
   }"

subsection \<open>The governance gate\<close>

definition MARSHAL_PRINCIPAL :: string where
  "MARSHAL_PRINCIPAL = ''el0:arm-demo''"

fun blocked_class :: "Blocked \<Rightarrow> AuditClass" where
  "blocked_class (BlockedRemote _) = AuditClass.GateBlocked"
| "blocked_class (BlockedLocal _) = AuditClass.GateFailClosed"
| "blocked_class BlockedUnreachable = AuditClass.GateFailClosed"
| "blocked_class BlockedFaulty = AuditClass.GateFailClosed"

definition enforce_gate ::
    "Env \<Rightarrow> UnreachablePolicy \<Rightarrow> GateOutcome \<Rightarrow> string \<Rightarrow> string \<Rightarrow> string \<Rightarrow> (GateOutcome, Blocked) result svc" where
  "enforce_gate E policy outcome subject from_state to_state =
     (case enforce policy outcome of
        Ok _ \<Rightarrow> State_Monad.return (Ok outcome)
      | Err blocked \<Rightarrow> do {
          _ \<leftarrow> audit_event E (blocked_class blocked) subject from_state to_state False (Some (display_Blocked blocked));
          State_Monad.return (Err blocked)
        })"

definition marshal_gate ::
    "Env \<Rightarrow> MarshalAction \<Rightarrow> string \<Rightarrow> string \<Rightarrow> string \<Rightarrow> (GateOutcome, Blocked) result svc" where
  "marshal_gate E action subject from_state to_state = do {
     outcome \<leftarrow> on_marshal (marshal_evaluate (env_net E) action MARSHAL_PRINCIPAL);
     enforce_gate E (unreachable_policy action) outcome subject from_state to_state
   }"

text \<open>The same gate as the eSIM calls spell it out: \<open>esim_marshal::evaluate\<close>, then \<open>enforce_gate\<close>.\<close>

definition esim_gate ::
    "Env \<Rightarrow> string \<Rightarrow> usize \<Rightarrow> u8 \<Rightarrow> ProfileState \<Rightarrow> ProfileState \<Rightarrow> (GateOutcome, Blocked) result svc" where
  "esim_gate E op slot profile_id from_state to_state = do {
     outcome \<leftarrow> on_marshal (esim_evaluate (env_net E) op slot profile_id MARSHAL_PRINCIPAL);
     enforce_gate E (unreachable_policy (Esim op slot profile_id)) outcome (sim_profile_resource slot profile_id)
       (show_ProfileState from_state) (show_ProfileState to_state)
   }"

subsection \<open>Finished excursions\<close>

datatype SvcReturn = ToEl0 u64 | ResumeEl1 usize

definition take_continuation :: "usize option svc" where
  "take_continuation = State (\<lambda>w.
     (if w_continuation w = 0 then None else Some (w_continuation w), w\<lparr>w_continuation := 0\<rparr>))"

definition observe_excursion :: "(ExcursionReport \<Rightarrow> ExcursionReport) \<Rightarrow> unit svc" where
  "observe_excursion f = State (\<lambda>w. ((), w\<lparr>w_observed := f (w_observed w)\<rparr>))"

definition read_registers :: "Env \<Rightarrow> Registers svc" where
  "read_registers E = State (\<lambda>w. (env_regs E (w_reads w), w\<lparr>w_reads := w_reads w + 1\<rparr>))"

definition el0_finish :: "Env \<Rightarrow> u64 \<Rightarrow> u64 \<Rightarrow> u64 \<Rightarrow> SvcReturn svc" where
  "el0_finish E magic observed stack_byte = do {
     c \<leftarrow> take_continuation;
     case c of
       None \<Rightarrow> State_Monad.return (ToEl0 (- 1))
     | Some saved_sp \<Rightarrow> do {
         regs \<leftarrow> read_registers E;
         observe_excursion (\<lambda>x. x\<lparr>el0_payload := (magic, observed, stack_byte), el0_regs := regs\<rparr>);
         State_Monad.return (ResumeEl1 saved_sp)
       }
   }"

definition tcp_finish :: "Env \<Rightarrow> u64 \<Rightarrow> SvcReturn svc" where
  "tcp_finish E code = do {
     c \<leftarrow> take_continuation;
     case c of
       None \<Rightarrow> State_Monad.return (ToEl0 (- 1))
     | Some saved_sp \<Rightarrow> do {
         regs \<leftarrow> read_registers E;
         observe_excursion (\<lambda>x. x\<lparr>net_result := code, net_regs := regs\<rparr>);
         State_Monad.return (ResumeEl1 saved_sp)
       }
   }"

definition marshal_finish :: "u64 \<Rightarrow> u64 \<Rightarrow> SvcReturn svc" where
  "marshal_finish status response_len = do {
     c \<leftarrow> take_continuation;
     case c of
       None \<Rightarrow> State_Monad.return (ToEl0 (- 1))
     | Some saved_sp \<Rightarrow> do {
         observe_excursion (\<lambda>x. x\<lparr>marshal_status := status, marshal_response_len := response_len\<rparr>);
         State_Monad.return (ResumeEl1 saved_sp)
       }
   }"

end
