(* ===== verification/Syscalls.thy ===== *)
theory Syscalls
  imports Kernel
begin

text \<open>
  The system calls of \<open>kernel-arm/src/svc.rs\<close>: one definition per arm of \<open>dispatch\<close> or
  handler function, in the order of the source.  Each arm makes its checks in the source's order and
  returns the code EL0 sees; every audit event is there with its class, subject and text.
\<close>

definition SYS_WRITE :: u64 where "SYS_WRITE = 1"
definition SYS_RIL_ACCESS :: u64 where "SYS_RIL_ACCESS = 2"
definition SYS_RIL_SEND :: u64 where "SYS_RIL_SEND = 3"
definition SYS_RIL_RECV :: u64 where "SYS_RIL_RECV = 4"
definition SYS_SIM_CREATE :: u64 where "SYS_SIM_CREATE = 5"
definition SYS_SIM_INSTALL :: u64 where "SYS_SIM_INSTALL = 6"
definition SYS_SIM_ENABLE :: u64 where "SYS_SIM_ENABLE = 7"
definition SYS_SIM_DISABLE :: u64 where "SYS_SIM_DISABLE = 8"
definition SYS_SIM_DELETE :: u64 where "SYS_SIM_DELETE = 9"
definition SYS_SIM_STATUS :: u64 where "SYS_SIM_STATUS = 10"
definition SYS_IPC_SEND :: u64 where "SYS_IPC_SEND = 11"
definition SYS_IPC_RECV :: u64 where "SYS_IPC_RECV = 12"
definition SYS_EL0_PROOF_DONE :: u64 where "SYS_EL0_PROOF_DONE = 13"
definition SYS_NET_PROOF_DONE :: u64 where "SYS_NET_PROOF_DONE = 14"
definition SYS_MARSHAL_PROOF_DONE :: u64 where "SYS_MARSHAL_PROOF_DONE = 15"
definition SYS_MVNO_BIND :: u64 where "SYS_MVNO_BIND = 16"
definition SYS_MVNO_SUSPEND :: u64 where "SYS_MVNO_SUSPEND = 17"
definition SYS_MVNO_REACTIVATE :: u64 where "SYS_MVNO_REACTIVATE = 18"
definition SYS_DATA_ACCOUNT :: u64 where "SYS_DATA_ACCOUNT = 19"
definition SYS_DATA_SESSION_OPEN :: u64 where "SYS_DATA_SESSION_OPEN = 20"
definition SYS_DATA_SESSION_CLOSE :: u64 where "SYS_DATA_SESSION_CLOSE = 21"
definition SYS_DATA_RECONCILE :: u64 where "SYS_DATA_RECONCILE = 22"
definition SYS_DATA_RESET :: u64 where "SYS_DATA_RESET = 23"
definition SYS_DATA_PERIOD :: u64 where "SYS_DATA_PERIOD = 24"

lemmas sys_numbers =
  SYS_WRITE_def SYS_RIL_ACCESS_def SYS_RIL_SEND_def SYS_RIL_RECV_def SYS_SIM_CREATE_def SYS_SIM_INSTALL_def
  SYS_SIM_ENABLE_def SYS_SIM_DISABLE_def SYS_SIM_DELETE_def SYS_SIM_STATUS_def SYS_IPC_SEND_def SYS_IPC_RECV_def
  SYS_EL0_PROOF_DONE_def SYS_NET_PROOF_DONE_def SYS_MARSHAL_PROOF_DONE_def SYS_MVNO_BIND_def SYS_MVNO_SUSPEND_def
  SYS_MVNO_REACTIVATE_def SYS_DATA_ACCOUNT_def SYS_DATA_SESSION_OPEN_def SYS_DATA_SESSION_CLOSE_def
  SYS_DATA_RECONCILE_def SYS_DATA_RESET_def SYS_DATA_PERIOD_def

definition RIL_RECV_EMPTY :: u64 where "RIL_RECV_EMPTY = 256"
definition RIL_RECV_DENIED :: u64 where "RIL_RECV_DENIED = 257"
definition IPC_RECV_EMPTY :: u64 where "IPC_RECV_EMPTY = 256"
definition IPC_RECV_DENIED :: u64 where "IPC_RECV_DENIED = 257"
definition SIM_STATUS_DENIED :: u64 where "SIM_STATUS_DENIED = 4"
definition SIM_CREATE_FAILED :: u64 where "SIM_CREATE_FAILED = 256"

subsection \<open>Console and channels\<close>

definition svc_write :: "u64 \<Rightarrow> u64 svc" where
  "svc_write arg1 = State (\<lambda>w. (0, w\<lparr>w_console := w_console w @ [ucast arg1]\<rparr>))"

definition svc_ril_access :: "Env \<Rightarrow> usize \<Rightarrow> u64 svc" where
  "svc_ril_access E channel = do {
     authority \<leftarrow> check E (ril_resource channel);
     case authority of
       Ok _ \<Rightarrow> State_Monad.return 0
     | Err e \<Rightarrow> State_Monad.return 1
   }"

definition svc_ril_send :: "Env \<Rightarrow> usize \<Rightarrow> u8 \<Rightarrow> u64 svc" where
  "svc_ril_send E channel byte = do {
     authority \<leftarrow> check E (ril_resource channel);
     case authority of
       Ok _ \<Rightarrow> do {
         sent \<leftarrow> on_ril (\<lambda>cs. ril_send cs channel byte);
         case sent of Ok _ \<Rightarrow> State_Monad.return 0 | Err _ \<Rightarrow> State_Monad.return 1
       }
     | Err e \<Rightarrow> State_Monad.return 1
   }"

definition svc_ril_recv :: "Env \<Rightarrow> usize \<Rightarrow> u64 svc" where
  "svc_ril_recv E channel = do {
     authority \<leftarrow> check E (ril_resource channel);
     case authority of
       Ok _ \<Rightarrow> do {
         received \<leftarrow> on_ril (\<lambda>cs. ril_recv cs channel);
         case received of Some byte \<Rightarrow> State_Monad.return (ucast byte) | None \<Rightarrow> State_Monad.return RIL_RECV_EMPTY
       }
     | Err e \<Rightarrow> State_Monad.return RIL_RECV_DENIED
   }"

definition svc_ipc_send :: "Env \<Rightarrow> usize \<Rightarrow> u8 \<Rightarrow> u64 svc" where
  "svc_ipc_send E channel byte = do {
     authority \<leftarrow> check E (ipc_resource channel);
     case authority of
       Ok _ \<Rightarrow> do {
         sent \<leftarrow> on_ipc (\<lambda>cs. ipc_send cs channel byte);
         case sent of Ok _ \<Rightarrow> State_Monad.return 0 | Err _ \<Rightarrow> State_Monad.return 1
       }
     | Err e \<Rightarrow> State_Monad.return 1
   }"

definition svc_ipc_recv :: "Env \<Rightarrow> usize \<Rightarrow> u64 svc" where
  "svc_ipc_recv E channel = do {
     authority \<leftarrow> check E (ipc_resource channel);
     case authority of
       Ok _ \<Rightarrow> do {
         received \<leftarrow> on_ipc (\<lambda>cs. ipc_recv cs channel);
         case received of Some byte \<Rightarrow> State_Monad.return (ucast byte) | None \<Rightarrow> State_Monad.return IPC_RECV_EMPTY
       }
     | Err e \<Rightarrow> State_Monad.return IPC_RECV_DENIED
   }"

subsection \<open>eSIM lifecycle\<close>

definition sim_label :: "string \<Rightarrow> usize \<Rightarrow> u8 \<Rightarrow> string" where
  "sim_label name slot profile_id = name @ '' slot '' @ show_word slot @ '' profile '' @ show_word profile_id"

definition svc_sim_create :: "Env \<Rightarrow> usize \<Rightarrow> u64 svc" where
  "svc_sim_create E slot = do {
     authority \<leftarrow> check E (sim_resource slot);
     case authority of
       Ok _ \<Rightarrow> do {
         created \<leftarrow> on_slots (\<lambda>S. sim_create S slot);
         case created of
           Ok profile_id \<Rightarrow> State_Monad.return (ucast profile_id)
         | Err e \<Rightarrow> State_Monad.return SIM_CREATE_FAILED
       }
     | Err e \<Rightarrow> do {
         audit_capability_denial E AuditClass.CapDenialEsim (''SYS_SIM_CREATE slot '' @ show_word slot)
           (sim_resource slot) (display_CapabilityError e);
         State_Monad.return SIM_CREATE_FAILED
       }
   }"

definition svc_sim_install :: "Env \<Rightarrow> usize \<Rightarrow> u8 \<Rightarrow> u64 \<Rightarrow> u64 svc" where
  "svc_sim_install E slot profile_id identity = do {
     authority \<leftarrow> check E (sim_profile_resource slot profile_id);
     case authority of
       Ok _ \<Rightarrow> do {
         result \<leftarrow> on_slots (\<lambda>S. sim_install S slot profile_id identity);
         audit_transition E slot profile_id ProfileState.Created ProfileState.Disabled result None;
         case result of Ok _ \<Rightarrow> State_Monad.return 0 | Err e \<Rightarrow> State_Monad.return 1
       }
     | Err e \<Rightarrow> do {
         audit_capability_denial E AuditClass.CapDenialEsim (sim_label ''SYS_SIM_INSTALL'' slot profile_id)
           (sim_profile_resource slot profile_id) (display_CapabilityError e);
         State_Monad.return 1
       }
   }"

definition svc_sim_enable :: "Env \<Rightarrow> usize \<Rightarrow> u8 \<Rightarrow> u64 svc" where
  "svc_sim_enable E slot profile_id = do {
     authority \<leftarrow> check E (sim_profile_resource slot profile_id);
     case authority of
       Ok _ \<Rightarrow> do {
         gate \<leftarrow> view_core (\<lambda>c. gate_enable (c_registry c) slot profile_id);
         case gate of
           Err e \<Rightarrow> do {
             _ \<leftarrow> audit_event E AuditClass.Rejected (sim_profile_resource slot profile_id)
                    (show_ProfileState ProfileState.Disabled) (show_ProfileState ProfileState.Enabled) False
                    (Some (''refused by the MVNO enable gate: '' @ show_AccountError e));
             State_Monad.return 1
           }
         | Ok _ \<Rightarrow> do {
             allowed \<leftarrow> esim_gate E ''enable'' slot profile_id ProfileState.Disabled ProfileState.Enabled;
             case allowed of
               Err blocked \<Rightarrow> State_Monad.return 1
             | Ok outcome \<Rightarrow> do {
                 result \<leftarrow> on_slots (\<lambda>S. sim_enable S slot profile_id);
                 audit_transition E slot profile_id ProfileState.Disabled ProfileState.Enabled result
                   (Some (verdict_text outcome));
                 case result of Ok _ \<Rightarrow> State_Monad.return 0 | Err e \<Rightarrow> State_Monad.return 1
               }
           }
       }
     | Err e \<Rightarrow> do {
         audit_capability_denial E AuditClass.CapDenialEsim (sim_label ''SYS_SIM_ENABLE'' slot profile_id)
           (sim_profile_resource slot profile_id) (display_CapabilityError e);
         State_Monad.return 1
       }
   }"

definition svc_sim_disable :: "Env \<Rightarrow> usize \<Rightarrow> u8 \<Rightarrow> u64 svc" where
  "svc_sim_disable E slot profile_id = do {
     authority \<leftarrow> check E (sim_profile_resource slot profile_id);
     case authority of
       Ok _ \<Rightarrow> do {
         result \<leftarrow> on_slots (\<lambda>S. sim_disable S slot profile_id);
         audit_transition E slot profile_id ProfileState.Enabled ProfileState.Disabled result None;
         case result of
           Ok _ \<Rightarrow> do {
             closed \<leftarrow> on_data (\<lambda>d. close_sessions_for_profile d slot profile_id);
             audit_closed_sessions E closed ''operator SIM disable'';
             State_Monad.return 0
           }
         | Err e \<Rightarrow> State_Monad.return 1
       }
     | Err e \<Rightarrow> do {
         audit_capability_denial E AuditClass.CapDenialEsim (sim_label ''SYS_SIM_DISABLE'' slot profile_id)
           (sim_profile_resource slot profile_id) (display_CapabilityError e);
         State_Monad.return 1
       }
   }"

definition release_binding_after_delete :: "Env \<Rightarrow> usize \<Rightarrow> u8 \<Rightarrow> unit svc" where
  "release_binding_after_delete E slot profile_id = do {
     S \<leftarrow> view_core c_slots;
     released \<leftarrow> on_registry (\<lambda>r. mvno_unbind r S slot profile_id);
     (case released of
        Ok None \<Rightarrow> State_Monad.return ()
      | Ok (Some owner) \<Rightarrow> do {
          _ \<leftarrow> audit_event E AuditClass.Applied (sim_profile_resource slot profile_id)
                 (''Bound(account '' @ show_word (account_no owner) @ '')'') ''Unbound'' True None;
          State_Monad.return ()
        }
      | Err e \<Rightarrow> do {
          _ \<leftarrow> audit_event E AuditClass.Rejected (sim_profile_resource slot profile_id) ''Bound'' ''Unbound'' False
                 (Some (show_AccountError e));
          State_Monad.return ()
        });
     closed \<leftarrow> on_data (\<lambda>d. close_sessions_for_profile d slot profile_id);
     audit_closed_sessions E closed ''SIM delete''
   }"

definition svc_sim_delete :: "Env \<Rightarrow> usize \<Rightarrow> u8 \<Rightarrow> u64 svc" where
  "svc_sim_delete E slot profile_id = do {
     authority \<leftarrow> check E (sim_delete_resource slot profile_id);
     case authority of
       Ok _ \<Rightarrow> do {
         allowed \<leftarrow> esim_gate E ''delete'' slot profile_id ProfileState.Disabled ProfileState.Deleted;
         case allowed of
           Err blocked \<Rightarrow> State_Monad.return 1
         | Ok outcome \<Rightarrow> do {
             result \<leftarrow> on_slots (\<lambda>S. sim_delete S slot profile_id);
             audit_transition E slot profile_id ProfileState.Disabled ProfileState.Deleted result
               (Some (verdict_text outcome));
             case result of
               Ok _ \<Rightarrow> do { release_binding_after_delete E slot profile_id; State_Monad.return 0 }
             | Err e \<Rightarrow> State_Monad.return 1
           }
       }
     | Err e \<Rightarrow> do {
         audit_capability_denial E AuditClass.CapDenialEsim (sim_label ''SYS_SIM_DELETE'' slot profile_id)
           (sim_delete_resource slot profile_id) (display_CapabilityError e);
         State_Monad.return 1
       }
   }"

definition svc_sim_status :: "Env \<Rightarrow> usize \<Rightarrow> u8 \<Rightarrow> u64 svc" where
  "svc_sim_status E slot profile_id = do {
     authority \<leftarrow> check E (sim_profile_resource slot profile_id);
     case authority of
       Ok _ \<Rightarrow> do {
         state \<leftarrow> view_core (\<lambda>c. profile_state (c_slots c) slot profile_id);
         case state of
           Ok s \<Rightarrow> State_Monad.return (as_status_code s)
         | Err e \<Rightarrow> State_Monad.return SIM_STATUS_DENIED
       }
     | Err e \<Rightarrow> do {
         audit_capability_denial E AuditClass.CapDenialEsim (sim_label ''SYS_SIM_STATUS'' slot profile_id)
           (sim_profile_resource slot profile_id) (display_CapabilityError e);
         State_Monad.return SIM_STATUS_DENIED
       }
   }"

subsection \<open>Accounts\<close>

fun bind_authority ::
    "string \<Rightarrow> string \<Rightarrow> (unit, CapabilityError) result \<Rightarrow> (unit, CapabilityError) result \<Rightarrow> (unit, string) result" where
  "bind_authority account_res profile_res (Ok _) (Ok _) = Ok ()"
| "bind_authority account_res profile_res (Err e) (Ok _) =
     Err (''resource '' @ account_res @ '': '' @ display_CapabilityError e)"
| "bind_authority account_res profile_res (Ok _) (Err e) =
     Err (''resource '' @ profile_res @ '': '' @ display_CapabilityError e)"
| "bind_authority account_res profile_res (Err a) (Err p) =
     Err (''resource '' @ account_res @ '': '' @ display_CapabilityError a @
          ''; resource '' @ profile_res @ '': '' @ display_CapabilityError p)"

definition bound_text :: "u64 \<Rightarrow> string" where
  "bound_text acct = ''Bound(account '' @ show_word acct @ '')''"

definition svc_mvno_bind :: "Env \<Rightarrow> u64 \<Rightarrow> usize \<Rightarrow> u8 \<Rightarrow> u64 svc" where
  "svc_mvno_bind E acct slot profile_id = do {
     let account_res = mvno_account_resource acct;
     let profile_res = sim_profile_resource slot profile_id;
     account_check \<leftarrow> check E account_res;
     profile_check \<leftarrow> check E profile_res;
     case bind_authority account_res profile_res account_check profile_check of
       Ok _ \<Rightarrow> do {
         allowed \<leftarrow> marshal_gate E (MarshalAction.MvnoBind acct slot profile_id)
                      (sim_profile_resource slot profile_id) ''Unbound'' (bound_text acct);
         case allowed of
           Err blocked \<Rightarrow> State_Monad.return 1
         | Ok outcome \<Rightarrow> do {
             S \<leftarrow> view_core c_slots;
             result \<leftarrow> on_registry (\<lambda>r. mvno_bind r S acct slot profile_id);
             let (authorized, reason) = audit_outcome result;
             _ \<leftarrow> audit_event E (applied_or_rejected authorized) (sim_profile_resource slot profile_id)
                    ''Unbound'' (bound_text acct) authorized
                    (Some (reason_with_verdict reason (verdict_text outcome)));
             case result of Ok _ \<Rightarrow> State_Monad.return 0 | Err e \<Rightarrow> State_Monad.return 1
           }
       }
     | Err e \<Rightarrow> do {
         audit_capability_denial E AuditClass.CapDenialMvno
           (''SYS_MVNO_BIND account '' @ show_word acct @ '' slot '' @ show_word slot @
            '' profile '' @ show_word profile_id)
           account_res e;
         State_Monad.return 1
       }
   }"

text \<open>The loop of \<open>suspend_account\<close>: the result is whether every forced disable succeeded.\<close>

fun force_disable_all :: "Env \<Rightarrow> bool \<Rightarrow> ProfileKey list \<Rightarrow> bool svc" where
  "force_disable_all E good [] = State_Monad.return good"
| "force_disable_all E good (k # ks) = do {
     disabled \<leftarrow> on_slots (\<lambda>S. sim_disable S (pk_slot k) (pk_profile k));
     let (authorized, reason) =
       (case disabled of Ok _ \<Rightarrow> (True, None) | Err e \<Rightarrow> (False, Some (display_SimError e)));
     _ \<leftarrow> audit_event E (applied_or_rejected authorized) (sim_profile_resource (pk_slot k) (pk_profile k))
            ''Enabled'' ''Disabled (forced by MVNO suspend)'' authorized reason;
     force_disable_all E (case disabled of Ok _ \<Rightarrow> good | Err _ \<Rightarrow> False) ks
   }"

definition suspend_account :: "Env \<Rightarrow> u64 \<Rightarrow> string \<Rightarrow> u64 svc" where
  "suspend_account E acct verdict = do {
     S \<leftarrow> view_core c_slots;
     result \<leftarrow> on_registry (\<lambda>r. mvno_suspend r S acct);
     let (authorized, reason) = audit_outcome result;
     _ \<leftarrow> audit_event E (applied_or_rejected authorized) (mvno_account_resource acct) ''Active'' ''Suspended''
            authorized (Some (reason_with_verdict reason verdict));
     case result of
       Err e \<Rightarrow> State_Monad.return 1
     | Ok forced \<Rightarrow> do {
         good \<leftarrow> force_disable_all E True forced;
         closed \<leftarrow> on_data (\<lambda>d. close_sessions_for_account d acct);
         audit_closed_sessions E closed ''MVNO suspend'';
         leaked \<leftarrow> view_core (\<lambda>c. mvno_audit (c_registry c) (c_slots c));
         (entries, chain_ok) \<leftarrow> audit_chain_summary E;
         State_Monad.return (if good \<and> leaked = [] \<and> chain_ok then 0 else 1)
       }
   }"

definition svc_mvno_suspend :: "Env \<Rightarrow> u64 \<Rightarrow> u64 svc" where
  "svc_mvno_suspend E acct = do {
     authority \<leftarrow> check E (mvno_suspend_resource acct);
     case authority of
       Ok _ \<Rightarrow> do {
         allowed \<leftarrow> marshal_gate E (MarshalAction.MvnoSuspend acct) (mvno_account_resource acct) ''Active'' ''Suspended'';
         case allowed of
           Err blocked \<Rightarrow> State_Monad.return 1
         | Ok outcome \<Rightarrow> suspend_account E acct (verdict_text outcome)
       }
     | Err e \<Rightarrow> do {
         audit_capability_denial E AuditClass.CapDenialMvno (''SYS_MVNO_SUSPEND account '' @ show_word acct)
           (mvno_suspend_resource acct) (display_CapabilityError e);
         State_Monad.return 1
       }
   }"

definition svc_mvno_reactivate :: "Env \<Rightarrow> u64 \<Rightarrow> u64 svc" where
  "svc_mvno_reactivate E acct = do {
     authority \<leftarrow> check E (mvno_account_resource acct);
     case authority of
       Ok _ \<Rightarrow> do {
         allowed \<leftarrow> marshal_gate E (MarshalAction.MvnoReactivate acct) (mvno_account_resource acct) ''Suspended'' ''Active'';
         case allowed of
           Err blocked \<Rightarrow> State_Monad.return 1
         | Ok outcome \<Rightarrow> do {
             result \<leftarrow> on_registry (\<lambda>r. mvno_reactivate r acct);
             let (authorized, reason) = audit_outcome result;
             _ \<leftarrow> audit_event E (applied_or_rejected authorized) (mvno_account_resource acct)
                    ''Suspended'' ''Active'' authorized (Some (reason_with_verdict reason (verdict_text outcome)));
             case result of Ok _ \<Rightarrow> State_Monad.return 0 | Err e \<Rightarrow> State_Monad.return 1
           }
       }
     | Err e \<Rightarrow> do {
         audit_capability_denial E AuditClass.CapDenialMvno (''SYS_MVNO_REACTIVATE account '' @ show_word acct)
           (mvno_account_resource acct) (display_CapabilityError e);
         State_Monad.return 1
       }
   }"

subsection \<open>Data\<close>

definition data_account :: "Env \<Rightarrow> u64 \<Rightarrow> u64 \<Rightarrow> u64 svc" where
  "data_account E acct bytes = do {
     let resource = data_usage_resource acct;
     authority \<leftarrow> check E resource;
     case authority of
       Err e \<Rightarrow> do {
         audit_capability_denial E AuditClass.CapDenialData (''SYS_DATA_ACCOUNT account '' @ show_word acct)
           resource (display_CapabilityError e);
         State_Monad.return USAGE_DENIED
       }
     | Ok _ \<Rightarrow>
     (case demo_entitlement acct of
       None \<Rightarrow> do {
         _ \<leftarrow> audit_event E AuditClass.Rejected resource ''Metered'' ''Metered'' False
                (Some ''refused: no data entitlement for this account'');
         State_Monad.return USAGE_NO_ENTITLEMENT
       }
     | Some entitlement \<Rightarrow> do {
     status \<leftarrow> view_core (\<lambda>c. standing (c_registry c) acct);
     case status of
       None \<Rightarrow> do {
         _ \<leftarrow> audit_event E AuditClass.Rejected resource ''Metered'' ''Metered'' False
                (Some ''refused: no such account in the registry'');
         State_Monad.return USAGE_NO_SUCH_ACCOUNT
       }
     | Some status \<Rightarrow> do {
     bound \<leftarrow> view_core (\<lambda>c. has_bound_profile (c_registry c) acct);
     case usage_feed_refusal status bound of
       Some code \<Rightarrow> do {
         let why = (if code = USAGE_NOT_ACTIVE
                    then ''account is '' @ show_AccountStatus status @ '', not Active''
                    else ''account has no bound profile'');
         _ \<leftarrow> audit_event E AuditClass.Rejected resource ''Metered'' ''Metered'' False
                (Some (''refused: '' @ why @ ''; bytes '' @ show_word bytes @ '' not counted''));
         State_Monad.return code
       }
     | None \<Rightarrow> do {
     fed \<leftarrow> on_data (\<lambda>d. feed_usage d acct bytes);
     case fed of
       Err _ \<Rightarrow> do {
         _ \<leftarrow> audit_event E AuditClass.Rejected resource ''Metered'' ''Metered'' False
                (Some ''refused: usage table full, bytes not counted'');
         State_Monad.return USAGE_TABLE_FULL
       }
     | Ok (before, after) \<Rightarrow> do {
         let assessment = evaluate_usage entitlement after;
         let described = describe_usage_assessment entitlement after assessment;
         _ \<leftarrow> audit_event E AuditClass.DataActivity resource
                (''used '' @ show_word (used_bytes before)) (''used '' @ show_word (used_bytes after)) True
                (Some (''usage fed '' @ show_word bytes @ '' bytes; '' @ described));
         (case ua_escalation assessment of
            None \<Rightarrow> State_Monad.return ()
          | Some request \<Rightarrow> do {
              _ \<leftarrow> audit_event E AuditClass.DataActivity resource
                     (''band '' @ show_UsageBand (ua_band assessment))
                     (''REQUEST '' @ show_ActionRequest request @ '' (advisory; nothing was performed by this syscall)'')
                     True
                     (Some ''policy engine request to the caller, to be carried out through the governed path'');
              State_Monad.return ()
            });
         State_Monad.return (action_request_code (ua_escalation assessment))
       }
     }}})
   }"

text \<open>Recording what the policy engine decided, the last part of \<open>data_session_open\<close>.\<close>

definition session_outcome :: "Env \<Rightarrow> u64 \<Rightarrow> OpenOutcome \<Rightarrow> u64 svc" where
  "session_outcome E acct outcome = do {
     let described = describe_session_record (oo_record outcome);
     let decision = pdr_decision (oo_record outcome);
     case decision of
       SessionDecision.Deny reason \<Rightarrow> do {
         audit_data_session E acct False ''Open'' (''denied '' @ show_DenyReason reason @ ''; '' @ described);
         State_Monad.return (session_decision_code decision)
       }
     | _ \<Rightarrow>
         (if oo_recorded outcome = SessionRecorded.TableFull then do {
            audit_data_session E acct False ''Open''
              (''allowed by policy but not recorded: session table full; '' @ described);
            State_Monad.return SESSION_FAILED_TABLE_FULL
          }
          else do {
            let to_state = (if decision = SessionDecision.AllowThrottled then ''Open (throttled)'' else ''Open'');
            audit_data_session E acct True to_state (''allowed; '' @ described);
            State_Monad.return (session_decision_code decision)
          })
   }"

definition data_session_open :: "Env \<Rightarrow> u64 \<Rightarrow> usize \<Rightarrow> u64 \<Rightarrow> u64 svc" where
  "data_session_open E acct slot packed = do {
     let resource = data_session_resource acct;
     authority \<leftarrow> check E resource;
     case authority of
       Err e \<Rightarrow> do {
         audit_capability_denial E AuditClass.CapDenialData
           (''SYS_DATA_SESSION_OPEN account '' @ show_word acct @ '' slot '' @ show_word slot)
           resource (display_CapabilityError e);
         State_Monad.return SESSION_REFUSED_CAPABILITY
       }
     | Ok _ \<Rightarrow>
     (case unpack_profile_roaming packed of
       None \<Rightarrow> do {
         audit_data_session E acct False ''Open'' (''refused: malformed packed argument '' @ show_hex packed);
         State_Monad.return SESSION_REFUSED_BAD_ARGUMENT
       }
     | Some (profile, roaming) \<Rightarrow>
     (case demo_entitlement acct of
       None \<Rightarrow> do {
         audit_data_session E acct False ''Open'' (''refused: no data entitlement for account '' @ show_word acct);
         State_Monad.return SESSION_REFUSED_NO_ENTITLEMENT
       }
     | Some entitlement \<Rightarrow> do {
     status \<leftarrow> view_core (\<lambda>c. standing (c_registry c) acct);
     case status of
       None \<Rightarrow> do {
         audit_data_session E acct False ''Open'' (''refused: no such account '' @ show_word acct);
         State_Monad.return SESSION_REFUSED_NO_SUCH_ACCOUNT
       }
     | Some status \<Rightarrow> do {
     owner \<leftarrow> view_core (\<lambda>c. mvno_owner_of (c_registry c) slot profile);
     if owner \<noteq> Some acct then do {
       let who = (case owner of
                    None \<Rightarrow> ''bound to no account''
                  | Some o' \<Rightarrow> ''bound to account '' @ show_word o');
       audit_data_session E acct False ''Open''
         (''refused: slot '' @ show_word slot @ '' profile '' @ show_word profile @ '' is '' @ who @
          '', not account '' @ show_word acct);
       State_Monad.return SESSION_REFUSED_PROFILE_NOT_BOUND
     } else do {
     state \<leftarrow> view_core (\<lambda>c. profile_state (c_slots c) slot profile);
     case state of
       Err e \<Rightarrow> do {
         audit_data_session E acct False ''Open''
           (''refused: no lifecycle for slot '' @ show_word slot @ '' profile '' @ show_word profile @
            '' ('' @ display_SimError e @ '')'');
         State_Monad.return SESSION_REFUSED_UNKNOWN_PROFILE
       }
     | Ok state \<Rightarrow> do {
         outcome \<leftarrow> on_data (\<lambda>d. decide_and_open d acct slot profile roaming (standing_for_data status)
                       (lifecycle_for_data state) entitlement);
         session_outcome E acct outcome
       }
     }}}))
   }"

definition data_session_close :: "Env \<Rightarrow> u64 \<Rightarrow> usize \<Rightarrow> u64 \<Rightarrow> u64 svc" where
  "data_session_close E acct slot arg = do {
     authority \<leftarrow> check E (data_session_resource acct);
     case authority of
       Err e \<Rightarrow> do {
         audit_capability_denial E AuditClass.CapDenialData
           (''SYS_DATA_SESSION_CLOSE account '' @ show_word acct @ '' slot '' @ show_word slot)
           (data_session_resource acct) (display_CapabilityError e);
         State_Monad.return CLOSE_DENIED
       }
     | Ok _ \<Rightarrow>
     (case unpack_profile_roaming arg of
       None \<Rightarrow> State_Monad.return CLOSE_BAD_ARGUMENT
     | Some (profile, roaming) \<Rightarrow>
         if roaming then State_Monad.return CLOSE_BAD_ARGUMENT
         else do {
           closed \<leftarrow> on_data (\<lambda>d. close_session d acct slot profile);
           if closed then do {
             _ \<leftarrow> audit_event E AuditClass.DataActivity (data_session_resource acct) ''Open''
                    ''Closed (by caller via SYS_DATA_SESSION_CLOSE)'' True
                    (Some (''slot '' @ show_word slot @ '' profile '' @ show_word profile));
             State_Monad.return CLOSE_OK
           } else do {
             _ \<leftarrow> audit_event E AuditClass.Rejected (data_session_resource acct) ''Closed'' ''Closed'' False
                    (Some (''slot '' @ show_word slot @ '' profile '' @ show_word profile @ '': no such open session''));
             State_Monad.return CLOSE_NOT_OPEN
           }
         })
   }"

subsection \<open>Reconciliation\<close>

fun show_PeriodIncidentKind :: "PeriodIncidentKind \<Rightarrow> string" where
  "show_PeriodIncidentKind TooManyPeriods = ''TooManyPeriods''"
| "show_PeriodIncidentKind PeriodIncidentKind.DuplicateAccount = ''DuplicateAccount''"
| "show_PeriodIncidentKind PeriodIncidentKind.ClockBeforeStart = ''ClockBeforeStart''"
| "show_PeriodIncidentKind PeriodElapsedNoReset = ''PeriodElapsedNoReset''"

definition incident_key :: "Incident \<Rightarrow> string" where
  "incident_key i =
     display_IncidentKind (in_kind i) @ ''|'' @ display_Subject (in_subject i) @ ''|'' @
     display_Fact (in_expected i) @ ''|'' @ display_Fact (in_observed i)"

definition period_incident_key :: "PeriodIncident \<Rightarrow> string" where
  "period_incident_key i =
     ''period|'' @ show_PeriodIncidentKind (pi_kind i) @ ''|'' @ show_word (pi_account i) @ ''|'' @
     show_word (pi_expected i)"

definition EVIDENCE :: string where
  "EVIDENCE = ''RECONCILER EVIDENCE (observed drift, not a denial; nothing was corrected): ''"

text \<open>The two loops over the findings; the flags say which the plan calls fresh.\<close>

fun audit_incidents :: "Env \<Rightarrow> (bool \<times> Incident) list \<Rightarrow> unit svc" where
  "audit_incidents E [] = State_Monad.return ()"
| "audit_incidents E ((fresh, i) # rest) =
     (if fresh then do {
        _ \<leftarrow> audit_event E AuditClass.Incident (data_reconcile_resource @ '':'' @ display_Subject (in_subject i))
               (''expected '' @ display_Fact (in_expected i)) (''observed '' @ display_Fact (in_observed i)) False
               (Some (EVIDENCE @ display_IncidentKind (in_kind i)));
        audit_incidents E rest
      }
      else audit_incidents E rest)"

fun audit_period_incidents :: "Env \<Rightarrow> (bool \<times> PeriodIncident) list \<Rightarrow> unit svc" where
  "audit_period_incidents E [] = State_Monad.return ()"
| "audit_period_incidents E ((fresh, i) # rest) =
     (if fresh then do {
        _ \<leftarrow> audit_event E AuditClass.Incident (data_reconcile_resource @ '':period:'' @ show_word (pi_account i))
               (''expected '' @ show_word (pi_expected i)) (''observed '' @ show_word (pi_observed i)) False
               (Some (EVIDENCE @ ''billing period: '' @ display_PeriodIncident i));
        audit_period_incidents E rest
      }
      else audit_period_incidents E rest)"

fun audit_clean_pass :: "Env \<Rightarrow> CleanPass option \<Rightarrow> unit svc" where
  "audit_clean_pass E (Some (Record n)) = do {
     _ \<leftarrow> audit_event E AuditClass.CleanPass data_reconcile_resource ''reconcile pass: findings or none yet''
            ''reconcile pass: clean'' True
            (Some (''RECONCILER EVIDENCE: pass ran and found no incident (clean pass #'' @ show_word n @
                   ''); consecutive clean passes are counted, not appended''));
     State_Monad.return ()
   }"
| "audit_clean_pass E (Some (Coalesce n)) = do {
     _ \<leftarrow> audit_coalesce E AuditClass.CleanPass
            (''reconcile clean pass #'' @ show_word n @ '', unchanged since the last recorded clean pass'');
     State_Monad.return ()
   }"
| "audit_clean_pass E None = State_Monad.return ()"

definition data_reconcile :: "Env \<Rightarrow> u64 svc" where
  "data_reconcile E = do {
     let resource = data_reconcile_resource;
     authority \<leftarrow> check E resource;
     case authority of
       Err e \<Rightarrow> do {
         audit_capability_denial E AuditClass.CapDenialData ''SYS_DATA_RECONCILE'' resource (display_CapabilityError e);
         State_Monad.return RECONCILE_DENIED
       }
     | Ok _ \<Rightarrow> do {
         (observed, rows) \<leftarrow> view_core (\<lambda>c. snapshot_for_reconcile (c_registry c) (c_slots c) (c_data c));
         let incidents = reconcile observed;
         ps \<leftarrow> view_core (\<lambda>c. period_snapshot (c_data c));
         now \<leftarrow> now_ticks E;
         let period_incidents = check_periods ps now (millis_to_ticks (frequency_hz E) DEMO_GRACE_MILLIS);
         let keys = map incident_key incidents @ map period_incident_key period_incidents;
         plan \<leftarrow> on_memory (observe keys);
         audit_incidents E (zip (plan_fresh plan) incidents);
         audit_period_incidents E (zip (drop (length incidents) (plan_fresh plan)) period_incidents);
         audit_clean_pass E (plan_clean plan);
         on_data (\<lambda>d. ((), mark_observed d rows));
         State_Monad.return (of_nat (length incidents + length period_incidents))
       }
   }"

subsection \<open>Billing periods\<close>

definition data_period :: "Env \<Rightarrow> u64 \<Rightarrow> u64 svc" where
  "data_period E acct = do {
     let resource = data_session_resource acct;
     authority \<leftarrow> check E resource;
     case authority of
       Err e \<Rightarrow> do {
         audit_capability_denial E AuditClass.CapDenialData (''SYS_DATA_PERIOD account '' @ show_word acct)
           resource (display_CapabilityError e);
         State_Monad.return PERIOD_DENIED
       }
     | Ok _ \<Rightarrow> do {
         now \<leftarrow> now_ticks E;
         advice \<leftarrow> on_data (\<lambda>d. advise_period d acct now);
         case advice of
           None \<Rightarrow> State_Monad.return PERIOD_NO_PERIOD
         | Some advice \<Rightarrow> do {
             (if pa_first_request advice then do {
                _ \<leftarrow> audit_event E AuditClass.DataActivity resource ''billing period in progress''
                       ''REQUEST ResetUsage (advisory; nothing was performed by this syscall)'' True
                       (Some (''billing period elapsed; request to the caller to issue the governed SYS_DATA_RESET; first requested at tick '' @
                              show_word now @ ''; '' @ describe_period_assessment (pa_assessment advice)));
                State_Monad.return ()
              }
              else State_Monad.return ());
             State_Monad.return (period_assessment_code (pa_assessment advice))
           }
       }
   }"

definition PERIOD_IN_FORCE :: string where
  "PERIOD_IN_FORCE = ''usage period in force''"

text \<open>The last part of \<open>data_reset\<close>: after the capability, the local checks and the gate.\<close>

definition apply_reset :: "Env \<Rightarrow> u64 \<Rightarrow> string \<Rightarrow> string \<Rightarrow> string \<Rightarrow> u64 svc" where
  "apply_reset E acct resource mode_text verdict = do {
     now \<leftarrow> now_ticks E;
     (before, after, started, recorded) \<leftarrow>
       on_data (\<lambda>d. reset_usage_and_period d acct now (Some (demo_install_period_ticks (frequency_hz E))));
     _ \<leftarrow> audit_event E AuditClass.Applied resource
            (''used '' @ show_word (used_bytes before)) (''used '' @ show_word (used_bytes after)) True
            (Some (reason_with_verdict
               (Some (''usage period reset (new period); reconciler memory cleared; no session, standing or profile changed; '' @
                      mode_text @ ''; '' @ describe_period_started started))
               verdict));
     State_Monad.return RESET_OK
   }"

definition data_reset :: "Env \<Rightarrow> u64 \<Rightarrow> u64 \<Rightarrow> u64 svc" where
  "data_reset E acct mode_arg =
     (case reset_mode_from_arg mode_arg of
       None \<Rightarrow> State_Monad.return RESET_BAD_MODE
     | Some mode \<Rightarrow> do {
     let early = is_early mode;
     let label = (if early then ''SYS_DATA_RESET(early)'' else ''SYS_DATA_RESET'');
     let resource = (if early then data_reset_early_resource acct else data_reset_resource acct);
     authority \<leftarrow> check E resource;
     case authority of
       Err e \<Rightarrow> do {
         audit_capability_denial E AuditClass.CapDenialData (label @ '' account '' @ show_word acct)
           resource (display_CapabilityError e);
         State_Monad.return RESET_DENIED_CAPABILITY
       }
     | Ok _ \<Rightarrow>
     if demo_entitlement acct = None then do {
       _ \<leftarrow> audit_event E AuditClass.Rejected resource PERIOD_IN_FORCE PERIOD_IN_FORCE False
              (Some ''refused: no data entitlement for this account'');
       State_Monad.return RESET_NO_ENTITLEMENT
     } else do {
     status \<leftarrow> view_core (\<lambda>c. standing (c_registry c) acct);
     if status = None then do {
       _ \<leftarrow> audit_event E AuditClass.Rejected resource PERIOD_IN_FORCE PERIOD_IN_FORCE False
              (Some ''refused: no such account in the registry'');
       State_Monad.return RESET_NO_SUCH_ACCOUNT
     } else do {
     gate_now \<leftarrow> now_ticks E;
     assessment \<leftarrow> view_core (\<lambda>c. assess_period_of (c_data c) acct gate_now);
     last_tick \<leftarrow> view_core (\<lambda>c. last_reset_tick (c_data c) acct);
     let mode_text = describe_reset_mode mode assessment;
     case reset_permitted_at assessment early last_tick gate_now (demo_early_reset_cooldown_ticks (frequency_hz E)) of
       Err refusal \<Rightarrow> do {
         _ \<leftarrow> audit_event E AuditClass.Rejected resource PERIOD_IN_FORCE PERIOD_IN_FORCE False
                (Some (''refused: '' @ display_ResetRefusal refusal @ ''; '' @ mode_text));
         State_Monad.return (reset_refusal_code refusal)
       }
     | Ok _ \<Rightarrow> do {
     allowed \<leftarrow> marshal_gate E (DataResetUsage acct) resource PERIOD_IN_FORCE
                  (if early then ''new usage period (counter reset; EARLY override)''
                   else ''new usage period (counter reset)'');
     case allowed of
       Err blocked \<Rightarrow> State_Monad.return (reset_blocked_code blocked)
     | Ok outcome \<Rightarrow> apply_reset E acct resource mode_text (verdict_text outcome)
     }}}})"

subsection \<open>Dispatch\<close>

definition to_el0 :: "u64 svc \<Rightarrow> SvcReturn svc" where
  "to_el0 m = do { r \<leftarrow> m; State_Monad.return (ToEl0 r) }"

definition dispatch :: "Env \<Rightarrow> u64 \<Rightarrow> u64 \<Rightarrow> u64 \<Rightarrow> u64 \<Rightarrow> SvcReturn svc" where
  "dispatch E num arg1 arg2 arg3 =
     (if num = SYS_WRITE then to_el0 (svc_write arg1)
      else if num = SYS_RIL_ACCESS then to_el0 (svc_ril_access E arg1)
      else if num = SYS_RIL_SEND then to_el0 (svc_ril_send E arg1 (ucast arg2))
      else if num = SYS_RIL_RECV then to_el0 (svc_ril_recv E arg1)
      else if num = SYS_SIM_CREATE then to_el0 (svc_sim_create E arg1)
      else if num = SYS_SIM_INSTALL then to_el0 (svc_sim_install E arg1 (ucast arg2) arg3)
      else if num = SYS_SIM_ENABLE then to_el0 (svc_sim_enable E arg1 (ucast arg2))
      else if num = SYS_SIM_DISABLE then to_el0 (svc_sim_disable E arg1 (ucast arg2))
      else if num = SYS_SIM_DELETE then to_el0 (svc_sim_delete E arg1 (ucast arg2))
      else if num = SYS_SIM_STATUS then to_el0 (svc_sim_status E arg1 (ucast arg2))
      else if num = SYS_IPC_SEND then to_el0 (svc_ipc_send E arg1 (ucast arg2))
      else if num = SYS_IPC_RECV then to_el0 (svc_ipc_recv E arg1)
      else if num = SYS_MVNO_BIND then to_el0 (svc_mvno_bind E arg1 arg2 (ucast arg3))
      else if num = SYS_MVNO_SUSPEND then to_el0 (svc_mvno_suspend E arg1)
      else if num = SYS_MVNO_REACTIVATE then to_el0 (svc_mvno_reactivate E arg1)
      else if num = SYS_DATA_ACCOUNT then to_el0 (data_account E arg1 arg2)
      else if num = SYS_DATA_SESSION_OPEN then to_el0 (data_session_open E arg1 arg2 arg3)
      else if num = SYS_DATA_SESSION_CLOSE then to_el0 (data_session_close E arg1 arg2 arg3)
      else if num = SYS_DATA_RECONCILE then to_el0 (data_reconcile E)
      else if num = SYS_DATA_RESET then to_el0 (data_reset E arg1 arg2)
      else if num = SYS_DATA_PERIOD then to_el0 (data_period E arg1)
      else if num = SYS_EL0_PROOF_DONE then el0_finish E arg1 arg2 arg3
      else if num = SYS_NET_PROOF_DONE then tcp_finish E arg1
      else if num = SYS_MARSHAL_PROOF_DONE then marshal_finish arg1 arg2
      else State_Monad.return (ToEl0 (- 1)))"

text \<open>Every handler, for proofs that go through all of them.\<close>

lemmas syscall_defs =
  dispatch_def to_el0_def svc_ril_access_def svc_ril_send_def svc_ril_recv_def svc_ipc_send_def
    svc_ipc_recv_def svc_sim_create_def svc_sim_install_def svc_sim_enable_def svc_sim_disable_def svc_sim_delete_def
    release_binding_after_delete_def svc_sim_status_def svc_mvno_bind_def svc_mvno_suspend_def suspend_account_def
    svc_mvno_reactivate_def data_account_def data_session_open_def session_outcome_def data_session_close_def
    data_reconcile_def data_period_def data_reset_def apply_reset_def el0_finish_def tcp_finish_def marshal_finish_def

end
