(* ===== verification/StateLogic.thy ===== *)
theory StateLogic
  imports Prelude "HOL-Library.State_Monad"
begin

text \<open>
  Reasoning about programs in the state monad, shared by the system-call layer and the block
  driver: weakest preconditions (\<open>wp\<close>, collected in \<open>wp_rules\<close>) and kept invariants
  (\<open>keeps\<close>, collected in \<open>keep_rules\<close>).
\<close>

subsection \<open>Weakest preconditions\<close>

definition wp :: "('s, 'a) state \<Rightarrow> ('a \<Rightarrow> 's \<Rightarrow> bool) \<Rightarrow> 's \<Rightarrow> bool" where
  "wp m Q s \<longleftrightarrow> Q (fst (run_state m s)) (snd (run_state m s))"

named_theorems wp_rules \<open>introduction rules of the weakest-precondition calculus\<close>

lemma wp_return [wp_rules]: "Q a s \<Longrightarrow> wp (State_Monad.return a) Q s"
  by (simp add: wp_def)

lemma wp_bind [wp_rules]: "wp m (\<lambda>a. wp (f a) Q) s \<Longrightarrow> wp (State_Monad.bind m f) Q s"
  by (simp add: wp_def split_beta)

lemma wp_if [wp_rules]: "(b \<Longrightarrow> wp m Q s) \<Longrightarrow> (\<not> b \<Longrightarrow> wp n Q s) \<Longrightarrow> wp (if b then m else n) Q s"
  by simp

lemma wp_result [wp_rules]:
  "(\<And>a. x = Ok a \<Longrightarrow> wp (m a) Q s) \<Longrightarrow> (\<And>e. x = Err e \<Longrightarrow> wp (n e) Q s) \<Longrightarrow>
   wp (case x of Ok a \<Rightarrow> m a | Err e \<Rightarrow> n e) Q s"
  by (cases x) simp_all

lemma wp_option [wp_rules]:
  "(x = None \<Longrightarrow> wp m Q s) \<Longrightarrow> (\<And>a. x = Some a \<Longrightarrow> wp (n a) Q s) \<Longrightarrow>
   wp (case x of None \<Rightarrow> m | Some a \<Rightarrow> n a) Q s"
  by (cases x) simp_all

lemma wp_prod [wp_rules]: "(\<And>a b. x = (a, b) \<Longrightarrow> wp (m a b) Q s) \<Longrightarrow> wp (case x of (a, b) \<Rightarrow> m a b) Q s"
  by (cases x) simp

lemma wp_Let [wp_rules]: "wp (m x) Q s \<Longrightarrow> wp (Let x m) Q s"
  by simp

lemma wp_mono: "wp m P s \<Longrightarrow> (\<And>a t. P a t \<Longrightarrow> Q a t) \<Longrightarrow> wp m Q s"
  by (simp add: wp_def)

lemma wp_run: "wp m Q s \<Longrightarrow> \<exists>a t. run_state m s = (a, t) \<and> Q a t"
  by (cases "run_state m s") (simp add: wp_def)

text \<open>The \<open>?\<close> operator on a program with state.\<close>

definition try_bind :: "('s, ('a, 'e) result) state \<Rightarrow> ('a \<Rightarrow> ('s, ('b, 'e) result) state) \<Rightarrow> ('s, ('b, 'e) result) state" where
  "try_bind m f = do { r \<leftarrow> m; case r of Ok a \<Rightarrow> f a | Err e \<Rightarrow> State_Monad.return (Err e) }"

lemma try_return [simp]: "try_bind (State_Monad.return (Ok a)) f = f a"
  by (simp add: try_bind_def)

lemma wp_try [wp_rules]:
  "wp m (\<lambda>r t. (\<forall>a. r = Ok a \<longrightarrow> wp (f a) Q t) \<and> (\<forall>e. r = Err e \<longrightarrow> Q (Err e) t)) s \<Longrightarrow> wp (try_bind m f) Q s"
  unfolding try_bind_def by (rule wp_bind, erule wp_mono) (auto split: result.split intro: wp_return)

subsection \<open>Kept invariants\<close>

definition keeps :: "('s \<Rightarrow> bool) \<Rightarrow> ('s, 'a) state \<Rightarrow> bool" where
  "keeps I m \<longleftrightarrow> (\<forall>s. I s \<longrightarrow> I (snd (run_state m s)))"

named_theorems keep_rules \<open>introduction rules for kept invariants\<close>

lemma keeps_return [keep_rules]: "keeps I (State_Monad.return a)"
  by (simp add: keeps_def)

lemma keeps_bind [keep_rules]: "keeps I m \<Longrightarrow> (\<And>a. keeps I (f a)) \<Longrightarrow> keeps I (State_Monad.bind m f)"
  by (simp add: keeps_def split_beta)

lemma keeps_if [keep_rules]: "keeps I m \<Longrightarrow> keeps I n \<Longrightarrow> keeps I (if b then m else n)"
  by simp

lemma keeps_result [keep_rules]:
  "(\<And>a. keeps I (m a)) \<Longrightarrow> (\<And>e. keeps I (n e)) \<Longrightarrow> keeps I (case x of Ok a \<Rightarrow> m a | Err e \<Rightarrow> n e)"
  by (cases x) simp_all

lemma keeps_option [keep_rules]:
  "keeps I m \<Longrightarrow> (\<And>a. keeps I (n a)) \<Longrightarrow> keeps I (case x of None \<Rightarrow> m | Some a \<Rightarrow> n a)"
  by (cases x) simp_all

lemma keeps_prod [keep_rules]: "(\<And>a b. keeps I (m a b)) \<Longrightarrow> keeps I (case x of (a, b) \<Rightarrow> m a b)"
  by (cases x) simp

lemma keeps_Let [keep_rules]: "keeps I (m x) \<Longrightarrow> keeps I (Let x m)"
  by simp

lemma wp_keeps: "I w \<Longrightarrow> keeps I m \<Longrightarrow> wp m (\<lambda>r w'. I w' \<longrightarrow> Q r w') w \<Longrightarrow> wp m Q w"
  by (simp add: wp_def keeps_def)

end
