(* ===== verification/Mediation.thy ===== *)
theory Mediation
  imports Syscalls StateLogic
begin

text \<open>
  Complete mediation.  What a system call may do to the governed state is specified without any
  audit, text or monad: a request needs certain capabilities, must be admitted by local rules, may
  need the governance gate, and then has an effect.  \<open>dispatch\<close> refines this: the state it
  leaves is exactly the effect of the request when all of them agree, and the state it found
  otherwise.  The proof runs through a weakest-precondition calculus for the helpers of
  \<open>Kernel\<close>.
\<close>

subsection \<open>Weakest preconditions\<close>

lemma wp_decision [wp_rules]:
  "(x = SessionDecision.Allow \<Longrightarrow> wp m Q s) \<Longrightarrow> (x = SessionDecision.AllowThrottled \<Longrightarrow> wp n Q s) \<Longrightarrow>
   (\<And>r. x = SessionDecision.Deny r \<Longrightarrow> wp (d r) Q s) \<Longrightarrow>
   wp (case x of SessionDecision.Allow \<Rightarrow> m | SessionDecision.AllowThrottled \<Rightarrow> n | SessionDecision.Deny r \<Rightarrow> d r) Q s"
  by (cases x) simp_all

lemma wp_view [wp_rules]: "Q (f w) w \<Longrightarrow> wp (view f) Q w"
  by (simp add: wp_def view_def)

lemma wp_view_core [wp_rules]: "Q (f (w_core w)) w \<Longrightarrow> wp (view_core f) Q w"
  by (simp add: wp_def view_def view_core_def)

lemma wp_on_slots [wp_rules]:
  "(\<And>r x. f (c_slots (w_core w)) = (r, x) \<Longrightarrow> Q r (w\<lparr>w_core := (w_core w)\<lparr>c_slots := x\<rparr>\<rparr>)) \<Longrightarrow> wp (on_slots f) Q w"
  by (simp add: wp_def on_slots_def split_beta)

lemma wp_on_registry [wp_rules]:
  "(\<And>r x. f (c_registry (w_core w)) = (r, x) \<Longrightarrow> Q r (w\<lparr>w_core := (w_core w)\<lparr>c_registry := x\<rparr>\<rparr>)) \<Longrightarrow>
   wp (on_registry f) Q w"
  by (simp add: wp_def on_registry_def split_beta)

lemma wp_on_data [wp_rules]:
  "(\<And>r x. f (c_data (w_core w)) = (r, x) \<Longrightarrow> Q r (w\<lparr>w_core := (w_core w)\<lparr>c_data := x\<rparr>\<rparr>)) \<Longrightarrow> wp (on_data f) Q w"
  by (simp add: wp_def on_data_def split_beta)

lemma wp_on_ril [wp_rules]: "(\<And>r x. f (w_ril w) = (r, x) \<Longrightarrow> Q r (w\<lparr>w_ril := x\<rparr>)) \<Longrightarrow> wp (on_ril f) Q w"
  by (simp add: wp_def on_ril_def split_beta)

lemma wp_on_ipc [wp_rules]: "(\<And>r x. f (w_ipc w) = (r, x) \<Longrightarrow> Q r (w\<lparr>w_ipc := x\<rparr>)) \<Longrightarrow> wp (on_ipc f) Q w"
  by (simp add: wp_def on_ipc_def split_beta)

lemma wp_on_memory [wp_rules]:
  "(\<And>r x. f (w_memory w) = (r, x) \<Longrightarrow> Q r (w\<lparr>w_memory := x\<rparr>)) \<Longrightarrow> wp (on_memory f) Q w"
  by (simp add: wp_def on_memory_def split_beta)

lemma wp_on_marshal [wp_rules]:
  "Q (fst (f (w_marshal w))) (w\<lparr>w_marshal := snd (f (w_marshal w))\<rparr>) \<Longrightarrow> wp (on_marshal f) Q w"
  by (simp add: wp_def on_marshal_def split_beta)

lemma wp_now_ticks [wp_rules]:
  "Q (env_ticks E (w_reads w)) (w\<lparr>w_reads := w_reads w + 1\<rparr>) \<Longrightarrow> wp (now_ticks E) Q w"
  by (simp add: wp_def now_ticks_def)

lemma wp_check [wp_rules]:
  "Q (cap_check (env_crypto E) (w_held w) r (env_ticks E (w_reads w))) (w\<lparr>w_reads := w_reads w + 1\<rparr>) \<Longrightarrow>
   wp (check E r) Q w"
  unfolding check_def by (intro wp_rules) simp

text \<open>Auditing changes nothing but the audit chain.\<close>

lemma wp_audit_event [wp_rules]:
  "(\<And>out a. Q out (w\<lparr>w_audit := Some a\<rparr>)) \<Longrightarrow> wp (audit_event E c s f t au r) Q w"
  by (simp add: wp_def audit_event_def Let_def split_beta)

lemma wp_audit_coalesce [wp_rules]:
  "(\<And>out a. Q out (w\<lparr>w_audit := Some a\<rparr>)) \<Longrightarrow> wp (audit_coalesce E c r) Q w"
  by (simp add: wp_def audit_coalesce_def Let_def split_beta)

lemma wp_audit_chain_summary [wp_rules]: "(\<And>r. Q r w) \<Longrightarrow> wp (audit_chain_summary E) Q w"
  unfolding audit_chain_summary_def by (intro wp_view)

lemma wp_audit_transition [wp_rules]:
  "(\<And>a. Q () (w\<lparr>w_audit := Some a\<rparr>)) \<Longrightarrow> wp (audit_transition E slot p f t r v) Q w"
  unfolding audit_transition_def by (intro wp_rules) simp

lemma wp_audit_capability_denial [wp_rules]:
  "(\<And>a. Q () (w\<lparr>w_audit := Some a\<rparr>)) \<Longrightarrow> wp (audit_capability_denial E c l r e) Q w"
  unfolding audit_capability_denial_def by (intro wp_rules) simp

lemma wp_audit_data_session [wp_rules]:
  "(\<And>a. Q () (w\<lparr>w_audit := Some a\<rparr>)) \<Longrightarrow> wp (audit_data_session E acct au t r) Q w"
  unfolding audit_data_session_def by (intro wp_rules) simp

lemma audit_self [simp]: "w\<lparr>w_audit := w_audit w\<rparr> = w"
  by simp

lemma wp_audit_closed_sessions [wp_rules]:
  "(\<And>a. Q () (w\<lparr>w_audit := a\<rparr>)) \<Longrightarrow> wp (audit_closed_sessions E rows what) Q w"
proof (induction rows arbitrary: w)
  case Nil
  from Nil [of "w_audit w"] show ?case by (auto intro!: wp_rules)
next
  case (Cons r rows)
  show ?case
    unfolding audit_closed_sessions.simps by (intro wp_rules Cons.IH) (simp add: Cons.prems)
qed

lemma wp_audit_incidents [wp_rules]:
  "(\<And>a. Q () (w\<lparr>w_audit := a\<rparr>)) \<Longrightarrow> wp (audit_incidents E rows) Q w"
proof (induction rows arbitrary: w)
  case Nil
  from Nil [of "w_audit w"] show ?case by (auto intro!: wp_rules)
next
  case (Cons r rows)
  show ?case
    by (cases r) (simp only: audit_incidents.simps, intro wp_rules Cons.IH, simp_all add: Cons.prems)
qed

lemma wp_audit_period_incidents [wp_rules]:
  "(\<And>a. Q () (w\<lparr>w_audit := a\<rparr>)) \<Longrightarrow> wp (audit_period_incidents E rows) Q w"
proof (induction rows arbitrary: w)
  case Nil
  from Nil [of "w_audit w"] show ?case by (auto intro!: wp_rules)
next
  case (Cons r rows)
  show ?case
    by (cases r) (simp only: audit_period_incidents.simps, intro wp_rules Cons.IH, simp_all add: Cons.prems)
qed

lemma wp_audit_clean_pass [wp_rules]:
  assumes "\<And>a. Q () (w\<lparr>w_audit := a\<rparr>)"
  shows "wp (audit_clean_pass E p) Q w"
proof (cases p)
  case None
  with assms [of "w_audit w"] show ?thesis by (auto intro!: wp_rules)
next
  case (Some c)
  then show ?thesis by (cases c) (simp_all only: audit_clean_pass.simps, (intro wp_rules, simp add: assms)+)
qed

text \<open>The gate: it opens on what \<open>enforce\<close> accepts and changes only audit and evaluation counter.\<close>

definition gate_ok :: "Env \<Rightarrow> World \<Rightarrow> MarshalAction \<Rightarrow> bool" where
  "gate_ok E w action \<longleftrightarrow>
     enforce (unreachable_policy action) (fst (marshal_evaluate (env_net E) action MARSHAL_PRINCIPAL (w_marshal w))) = Ok ()"

lemma wp_enforce_gate [wp_rules]:
  "(enforce p out = Ok () \<Longrightarrow> Q (Ok out) w) \<Longrightarrow>
   (\<And>b a. enforce p out = Err b \<Longrightarrow> Q (Err b) (w\<lparr>w_audit := Some a\<rparr>)) \<Longrightarrow>
   wp (enforce_gate E p out s f t) Q w"
  unfolding enforce_gate_def by (intro wp_rules) auto

lemma wp_marshal_gate [wp_rules]:
  "(\<And>out m. gate_ok E w action \<Longrightarrow> Q (Ok out) (w\<lparr>w_marshal := m\<rparr>)) \<Longrightarrow>
   (\<And>b a m. \<not> gate_ok E w action \<Longrightarrow> Q (Err b) (w\<lparr>w_marshal := m, w_audit := a\<rparr>)) \<Longrightarrow>
   wp (marshal_gate E action s f t) Q w"
  unfolding marshal_gate_def gate_ok_def by (intro wp_rules) auto

lemma wp_esim_gate [wp_rules]:
  "(\<And>out m. gate_ok E w (Esim op slot p) \<Longrightarrow> Q (Ok out) (w\<lparr>w_marshal := m\<rparr>)) \<Longrightarrow>
   (\<And>b a m. \<not> gate_ok E w (Esim op slot p) \<Longrightarrow> Q (Err b) (w\<lparr>w_marshal := m, w_audit := a\<rparr>)) \<Longrightarrow>
   wp (esim_gate E op slot p f t) Q w"
  unfolding esim_gate_def gate_ok_def esim_evaluate_def by (intro wp_rules) auto

subsection \<open>Requests\<close>

text \<open>What EL0 can ask of the governed state, with the arguments decoded.\<close>

datatype Request =
    ReqCreate usize
  | ReqInstall usize u8 u64
  | ReqEnable usize u8
  | ReqDisable usize u8
  | ReqDelete usize u8
  | ReqBind u64 usize u8
  | ReqSuspend u64
  | ReqReactivate u64
  | ReqFeed u64 u64
  | ReqOpen u64 usize u8 bool
  | ReqClose u64 usize u8
  | ReqReconcile
  | ReqReset u64 bool
  | ReqPeriod u64

definition request_of :: "u64 \<Rightarrow> u64 \<Rightarrow> u64 \<Rightarrow> u64 \<Rightarrow> Request option" where
  "request_of num a1 a2 a3 =
     (if num = SYS_SIM_CREATE then Some (ReqCreate a1)
      else if num = SYS_SIM_INSTALL then Some (ReqInstall a1 (ucast a2) a3)
      else if num = SYS_SIM_ENABLE then Some (ReqEnable a1 (ucast a2))
      else if num = SYS_SIM_DISABLE then Some (ReqDisable a1 (ucast a2))
      else if num = SYS_SIM_DELETE then Some (ReqDelete a1 (ucast a2))
      else if num = SYS_MVNO_BIND then Some (ReqBind a1 a2 (ucast a3))
      else if num = SYS_MVNO_SUSPEND then Some (ReqSuspend a1)
      else if num = SYS_MVNO_REACTIVATE then Some (ReqReactivate a1)
      else if num = SYS_DATA_ACCOUNT then Some (ReqFeed a1 a2)
      else if num = SYS_DATA_SESSION_OPEN then
        map_option (\<lambda>(p, r). ReqOpen a1 a2 p r) (unpack_profile_roaming a3)
      else if num = SYS_DATA_SESSION_CLOSE then
        (case unpack_profile_roaming a3 of Some (p, False) \<Rightarrow> Some (ReqClose a1 a2 p) | _ \<Rightarrow> None)
      else if num = SYS_DATA_RECONCILE then Some ReqReconcile
      else if num = SYS_DATA_RESET then map_option (\<lambda>m. ReqReset a1 (is_early m)) (reset_mode_from_arg a2)
      else if num = SYS_DATA_PERIOD then Some (ReqPeriod a1)
      else None)"

text \<open>The capabilities a request needs, in the order they are checked.\<close>

fun needs :: "Request \<Rightarrow> string list" where
  "needs (ReqCreate slot) = [sim_resource slot]"
| "needs (ReqInstall slot p v) = [sim_profile_resource slot p]"
| "needs (ReqEnable slot p) = [sim_profile_resource slot p]"
| "needs (ReqDisable slot p) = [sim_profile_resource slot p]"
| "needs (ReqDelete slot p) = [sim_delete_resource slot p]"
| "needs (ReqBind acct slot p) = [mvno_account_resource acct, sim_profile_resource slot p]"
| "needs (ReqSuspend acct) = [mvno_suspend_resource acct]"
| "needs (ReqReactivate acct) = [mvno_account_resource acct]"
| "needs (ReqFeed acct b) = [data_usage_resource acct]"
| "needs (ReqOpen acct slot p r) = [data_session_resource acct]"
| "needs (ReqClose acct slot p) = [data_session_resource acct]"
| "needs ReqReconcile = [data_reconcile_resource]"
| "needs (ReqReset acct early) = [if early then data_reset_early_resource acct else data_reset_resource acct]"
| "needs (ReqPeriod acct) = [data_session_resource acct]"

text \<open>The action put to the governance authority, if the request is governed.\<close>

fun governed :: "Request \<Rightarrow> MarshalAction option" where
  "governed (ReqEnable slot p) = Some (Esim ''enable'' slot p)"
| "governed (ReqDelete slot p) = Some (Esim ''delete'' slot p)"
| "governed (ReqBind acct slot p) = Some (MarshalAction.MvnoBind acct slot p)"
| "governed (ReqSuspend acct) = Some (MarshalAction.MvnoSuspend acct)"
| "governed (ReqReactivate acct) = Some (MarshalAction.MvnoReactivate acct)"
| "governed (ReqReset acct early) = Some (DataResetUsage acct)"
| "governed _ = None"

text \<open>
  The local rules; \<open>tick n\<close> is the timer as the call reads it for the n-th time (the capability
  checks are the first reads).
\<close>

fun admits :: "u64 \<Rightarrow> Request \<Rightarrow> (nat \<Rightarrow> u64) \<Rightarrow> Core \<Rightarrow> bool" where
  "admits freq (ReqEnable slot p) tick c \<longleftrightarrow> gate_enable (c_registry c) slot p = Ok ()"
| "admits freq (ReqFeed acct b) tick c \<longleftrightarrow>
     demo_entitlement acct \<noteq> None \<and> standing (c_registry c) acct = Some AccountStatus.Active \<and>
     has_bound_profile (c_registry c) acct"
| "admits freq (ReqOpen acct slot p r) tick c \<longleftrightarrow>
     demo_entitlement acct \<noteq> None \<and> standing (c_registry c) acct \<noteq> None \<and>
     mvno_owner_of (c_registry c) slot p = Some acct \<and> is_ok (profile_state (c_slots c) slot p)"
| "admits freq (ReqReset acct early) tick c \<longleftrightarrow>
     demo_entitlement acct \<noteq> None \<and> standing (c_registry c) acct \<noteq> None \<and>
     reset_permitted_at (assess_period_of (c_data c) acct (tick 1)) early (last_reset_tick (c_data c) acct)
       (tick 1) (demo_early_reset_cooldown_ticks freq) = Ok ()"
| "admits freq _ tick c \<longleftrightarrow> True"

subsection \<open>Effects\<close>

definition disable_effect :: "usize \<Rightarrow> u8 \<Rightarrow> Core \<Rightarrow> Core" where
  "disable_effect slot p c =
     (case sim_disable (c_slots c) slot p of
        (Ok _, S) \<Rightarrow> c\<lparr>c_slots := S, c_data := snd (close_sessions_for_profile (c_data c) slot p)\<rparr>
      | (Err _, S) \<Rightarrow> c\<lparr>c_slots := S\<rparr>)"

definition delete_effect :: "usize \<Rightarrow> u8 \<Rightarrow> Core \<Rightarrow> Core" where
  "delete_effect slot p c =
     (case sim_delete (c_slots c) slot p of
        (Ok _, S) \<Rightarrow>
          \<lparr>c_slots = S, c_registry = snd (mvno_unbind (c_registry c) S slot p),
           c_data = snd (close_sessions_for_profile (c_data c) slot p)\<rparr>
      | (Err _, S) \<Rightarrow> c\<lparr>c_slots := S\<rparr>)"

definition suspend_effect :: "u64 \<Rightarrow> Core \<Rightarrow> Core" where
  "suspend_effect acct c =
     (case mvno_suspend (c_registry c) (c_slots c) acct of
        (Ok ks, r) \<Rightarrow>
          \<lparr>c_slots = fold force_disable ks (c_slots c), c_registry = r,
           c_data = snd (close_sessions_for_account (c_data c) acct)\<rparr>
      | (Err _, r) \<Rightarrow> c\<lparr>c_registry := r\<rparr>)"

definition open_effect :: "u64 \<Rightarrow> usize \<Rightarrow> u8 \<Rightarrow> bool \<Rightarrow> Core \<Rightarrow> Core" where
  "open_effect acct slot p roaming c =
     (case (standing (c_registry c) acct, profile_state (c_slots c) slot p, demo_entitlement acct) of
        (Some status, Ok state, Some entitlement) \<Rightarrow>
          c\<lparr>c_data := snd (decide_and_open (c_data c) acct slot p roaming (standing_for_data status)
              (lifecycle_for_data state) entitlement)\<rparr>
      | _ \<Rightarrow> c)"

fun effect :: "u64 \<Rightarrow> Request \<Rightarrow> (nat \<Rightarrow> u64) \<Rightarrow> Core \<Rightarrow> Core" where
  "effect freq (ReqCreate slot) tick c = c\<lparr>c_slots := snd (sim_create (c_slots c) slot)\<rparr>"
| "effect freq (ReqInstall slot p v) tick c = c\<lparr>c_slots := snd (sim_install (c_slots c) slot p v)\<rparr>"
| "effect freq (ReqEnable slot p) tick c = c\<lparr>c_slots := snd (sim_enable (c_slots c) slot p)\<rparr>"
| "effect freq (ReqDisable slot p) tick c = disable_effect slot p c"
| "effect freq (ReqDelete slot p) tick c = delete_effect slot p c"
| "effect freq (ReqBind acct slot p) tick c =
     c\<lparr>c_registry := snd (mvno_bind (c_registry c) (c_slots c) acct slot p)\<rparr>"
| "effect freq (ReqSuspend acct) tick c = suspend_effect acct c"
| "effect freq (ReqReactivate acct) tick c = c\<lparr>c_registry := snd (mvno_reactivate (c_registry c) acct)\<rparr>"
| "effect freq (ReqFeed acct b) tick c = c\<lparr>c_data := snd (feed_usage (c_data c) acct b)\<rparr>"
| "effect freq (ReqOpen acct slot p r) tick c = open_effect acct slot p r c"
| "effect freq (ReqClose acct slot p) tick c = c\<lparr>c_data := snd (close_session (c_data c) acct slot p)\<rparr>"
| "effect freq ReqReconcile tick c = c\<lparr>c_data := mark_observed (c_data c) (usage_rows (c_data c))\<rparr>"
| "effect freq (ReqReset acct early) tick c =
     c\<lparr>c_data := snd (reset_usage_and_period (c_data c) acct (tick 2) (Some (demo_install_period_ticks freq)))\<rparr>"
| "effect freq (ReqPeriod acct) tick c = c\<lparr>c_data := snd (advise_period (c_data c) acct (tick 1))\<rparr>"

subsection \<open>Authority\<close>

definition tick_of :: "Env \<Rightarrow> World \<Rightarrow> nat \<Rightarrow> u64" where
  "tick_of E w n = env_ticks E (w_reads w + n)"

definition holds :: "Env \<Rightarrow> World \<Rightarrow> nat \<Rightarrow> string \<Rightarrow> bool" where
  "holds E w n resource \<longleftrightarrow> cap_check (env_crypto E) (w_held w) resource (tick_of E w n) = Ok ()"

definition authorised :: "Env \<Rightarrow> World \<Rightarrow> Request \<Rightarrow> bool" where
  "authorised E w req \<longleftrightarrow>
     list_all (\<lambda>(n, resource). holds E w n resource) (enumerate 0 (needs req)) \<and>
     admits (env_freq E) req (tick_of E w) (w_core w) \<and>
     (case governed req of None \<Rightarrow> True | Some action \<Rightarrow> gate_ok E w action)"

definition core_after :: "Env \<Rightarrow> World \<Rightarrow> Request \<Rightarrow> Core" where
  "core_after E w req =
     (if authorised E w req then effect (env_freq E) req (tick_of E w) (w_core w) else w_core w)"

subsection \<open>Each handler against its request\<close>

lemma core_cong: "c\<lparr>c_slots := c_slots c\<rparr> = c" "c\<lparr>c_registry := c_registry c\<rparr> = c" "c\<lparr>c_data := c_data c\<rparr> = c" for c :: Core
  by simp_all

lemmas authority_simps = core_after_def authorised_def holds_def tick_of_def

lemma gate_ok_cong [simp]:
  "gate_ok E (w\<lparr>w_reads := n\<rparr>) = gate_ok E w"
  "gate_ok E (w\<lparr>w_audit := a\<rparr>) = gate_ok E w"
  "gate_ok E (w\<lparr>w_core := c\<rparr>) = gate_ok E w"
  by (simp_all add: gate_ok_def fun_eq_iff)

lemma create_core: "wp (svc_sim_create E slot) (\<lambda>_ w'. w_core w' = core_after E w (ReqCreate slot)) w"
  unfolding svc_sim_create_def by (intro wp_rules) (auto simp: authority_simps)

lemma install_core: "wp (svc_sim_install E slot p v) (\<lambda>_ w'. w_core w' = core_after E w (ReqInstall slot p v)) w"
  unfolding svc_sim_install_def by (intro wp_rules) (auto simp: authority_simps)

lemma enable_core: "wp (svc_sim_enable E slot p) (\<lambda>_ w'. w_core w' = core_after E w (ReqEnable slot p)) w"
  unfolding svc_sim_enable_def by (intro wp_rules) (auto simp: authority_simps)

lemma disable_core: "wp (svc_sim_disable E slot p) (\<lambda>_ w'. w_core w' = core_after E w (ReqDisable slot p)) w"
  unfolding svc_sim_disable_def by (intro wp_rules) (auto simp: authority_simps disable_effect_def)

lemma delete_core: "wp (svc_sim_delete E slot p) (\<lambda>_ w'. w_core w' = core_after E w (ReqDelete slot p)) w"
  unfolding svc_sim_delete_def release_binding_after_delete_def
  by (intro wp_rules) (auto simp: authority_simps delete_effect_def)

lemma bind_authority_Ok: "bind_authority a p x y = Ok u \<longleftrightarrow> x = Ok () \<and> y = Ok ()"
  by (cases x; cases y) simp_all

lemma bind_authority_Err: "bind_authority a p x y = Err e \<Longrightarrow> x \<noteq> Ok () \<or> y \<noteq> Ok ()"
  by (cases x; cases y) simp_all

lemma bind_core: "wp (svc_mvno_bind E acct slot p) (\<lambda>_ w'. w_core w' = core_after E w (ReqBind acct slot p)) w"
  unfolding svc_mvno_bind_def
  by (intro wp_rules) (auto simp: authority_simps bind_authority_Ok dest!: bind_authority_Err)

lemma wp_force_disable_all [wp_rules]:
  "(\<And>r a. Q r (w\<lparr>w_audit := a, w_core := (w_core w)\<lparr>c_slots := fold force_disable ks (c_slots (w_core w))\<rparr>\<rparr>)) \<Longrightarrow>
   wp (force_disable_all E good ks) Q w"
proof (induction ks arbitrary: good w)
  case Nil
  from Nil [of good "w_audit w"] show ?case by (auto intro!: wp_rules)
next
  case (Cons k ks)
  show ?case
    unfolding force_disable_all.simps
  proof (intro wp_rules Cons.IH, goal_cases)
    case (1 r x)
    then have "x = force_disable k (c_slots (w_core w))" by (simp add: force_disable_def)
    then show ?case using Cons.prems by simp
  qed
qed

lemma suspend_core: "wp (svc_mvno_suspend E acct) (\<lambda>_ w'. w_core w' = core_after E w (ReqSuspend acct)) w"
  unfolding svc_mvno_suspend_def suspend_account_def
  by (intro wp_rules) (auto simp: authority_simps suspend_effect_def)

lemma reactivate_core: "wp (svc_mvno_reactivate E acct) (\<lambda>_ w'. w_core w' = core_after E w (ReqReactivate acct)) w"
  unfolding svc_mvno_reactivate_def by (intro wp_rules) (auto simp: authority_simps)

lemma usage_refusal_None: "usage_feed_refusal st b = None \<longleftrightarrow> st = AccountStatus.Active \<and> b"
  by (cases st) auto

lemma feed_core: "wp (data_account E acct b) (\<lambda>_ w'. w_core w' = core_after E w (ReqFeed acct b)) w"
  unfolding data_account_def
  by (intro wp_rules) (auto simp: authority_simps usage_refusal_None)

lemma open_core:
  "wp (data_session_open E acct slot packed)
     (\<lambda>_ w'. w_core w' = (case map_option (\<lambda>(p, r). ReqOpen acct slot p r) (unpack_profile_roaming packed) of
        None \<Rightarrow> w_core w | Some req \<Rightarrow> core_after E w req)) w"
  unfolding data_session_open_def session_outcome_def
  by (intro wp_rules) (auto simp: authority_simps open_effect_def split: option.split)

lemma close_core:
  "wp (data_session_close E acct slot packed)
     (\<lambda>_ w'. w_core w' =
        (case (case unpack_profile_roaming packed of Some (p, False) \<Rightarrow> Some (ReqClose acct slot p) | _ \<Rightarrow> None) of
           None \<Rightarrow> w_core w | Some req \<Rightarrow> core_after E w req)) w"
  unfolding data_session_close_def
  by (intro wp_rules) (auto simp: authority_simps split: option.split bool.split)

lemma reconcile_core: "wp (data_reconcile E) (\<lambda>_ w'. w_core w' = core_after E w ReqReconcile) w"
  unfolding data_reconcile_def
  by (intro wp_rules) (auto simp: authority_simps snapshot_for_reconcile_def data_snapshot_def Let_def)

lemma period_core: "wp (data_period E acct) (\<lambda>_ w'. w_core w' = core_after E w (ReqPeriod acct)) w"
  unfolding data_period_def by (intro wp_rules) (auto simp: authority_simps)

lemma reset_core:
  "wp (data_reset E acct mode)
     (\<lambda>_ w'. w_core w' = (case map_option (\<lambda>m. ReqReset acct (is_early m)) (reset_mode_from_arg mode) of
        None \<Rightarrow> w_core w | Some req \<Rightarrow> core_after E w req)) w"
  unfolding data_reset_def apply_reset_def
  by (intro wp_rules) (auto simp: authority_simps frequency_hz_def)


text \<open>The calls that ask nothing of the governed state.\<close>

lemma channel_core:
  "wp (svc_ril_access E i) (\<lambda>_ w'. w_core w' = w_core w) w"
  "wp (svc_ril_send E i b) (\<lambda>_ w'. w_core w' = w_core w) w"
  "wp (svc_ril_recv E i) (\<lambda>_ w'. w_core w' = w_core w) w"
  "wp (svc_ipc_send E i b) (\<lambda>_ w'. w_core w' = w_core w) w"
  "wp (svc_ipc_recv E i) (\<lambda>_ w'. w_core w' = w_core w) w"
  "wp (svc_sim_status E i p) (\<lambda>_ w'. w_core w' = w_core w) w"
  "wp (svc_write a) (\<lambda>_ w'. w_core w' = w_core w) w"
  unfolding svc_ril_access_def svc_ril_send_def svc_ril_recv_def svc_ipc_send_def svc_ipc_recv_def svc_sim_status_def
  by ((intro wp_rules; simp) | simp add: wp_def svc_write_def)+

lemma finish_core:
  "wp (el0_finish E a b c) (\<lambda>_ w'. w_core w' = w_core w) w"
  "wp (tcp_finish E a) (\<lambda>_ w'. w_core w' = w_core w) w"
  "wp (marshal_finish a b) (\<lambda>_ w'. w_core w' = w_core w) w"
  by (simp_all add: wp_def el0_finish_def tcp_finish_def marshal_finish_def take_continuation_def
      observe_excursion_def read_registers_def)

lemma wp_to_el0: "wp m (\<lambda>r. Q (ToEl0 r)) w \<Longrightarrow> wp (to_el0 m) Q w"
  unfolding to_el0_def by (intro wp_rules) (simp add: wp_def)

lemmas handler_core =
  create_core install_core enable_core disable_core delete_core bind_core suspend_core reactivate_core feed_core
  open_core close_core reconcile_core period_core reset_core channel_core finish_core

lemma dispatch_core:
  "w_core (snd (run_state (dispatch E num a1 a2 a3) w)) =
     (case request_of num a1 a2 a3 of None \<Rightarrow> w_core w | Some req \<Rightarrow> core_after E w req)"
proof -
  have "wp (dispatch E num a1 a2 a3) (\<lambda>_ w'. w_core w' =
     (case request_of num a1 a2 a3 of None \<Rightarrow> w_core w | Some req \<Rightarrow> core_after E w req)) w"
    unfolding dispatch_def
    by (intro wp_if wp_to_el0) (simp_all add: request_of_def sys_numbers handler_core wp_return del: case_map_option)
  then show ?thesis by (simp add: wp_def)
qed

end
