(* ===== verification/Boot.thy ===== *)
theory Boot
  imports Kernel
begin

text \<open>
  The part of the boot sequence that provisions the governed state, from
  \<open>kernel-arm/src/nonsecure.rs\<close>: the governance proxy's address, the tokens the EL0 context
  will hold, the demo accounts and their billing periods.
\<close>

definition set_marshal_proxy :: "bytes \<Rightarrow> u16 \<Rightarrow> unit svc" where
  "set_marshal_proxy ip port = on_marshal (\<lambda>m. ((), m\<lparr>marshal_proxy := Some (ip, port)\<rparr>))"

definition clear_marshal_proxy :: "unit svc" where
  "clear_marshal_proxy = on_marshal (\<lambda>m. ((), m\<lparr>marshal_proxy := None\<rparr>))"

definition hold :: "Env \<Rightarrow> u64 \<Rightarrow> string \<Rightarrow> unit svc" where
  "hold E now resource =
     State (\<lambda>w. ((), w\<lparr>w_held := issue_and_hold (env_crypto E) (frequency_hz E) resource now (w_held w)\<rparr>))"

definition install_demo_period :: "Env \<Rightarrow> u64 \<Rightarrow> unit svc" where
  "install_demo_period E acct =
     (case demo_period acct (frequency_hz E) of
        Some p \<Rightarrow> do { _ \<leftarrow> on_data (\<lambda>d. set_period d acct p); State_Monad.return () }
      | None \<Rightarrow> State_Monad.return ())"

definition provision :: "Env \<Rightarrow> unit svc" where
  "provision E = do {
     set_marshal_proxy [10, 0, 2, 100] 9100;
     now \<leftarrow> now_ticks E;
     hold E now (ril_resource 0);
     hold E now (sim_resource 0);
     hold E now (sim_profile_resource 0 0);
     hold E now (sim_delete_resource 0 0);
     hold E now (sim_profile_resource 0 1);
     hold E now (mvno_account_resource 0);
     hold E now (mvno_suspend_resource 0);
     _ \<leftarrow> on_registry open_demo_account;
     _ \<leftarrow> on_registry open_second_demo_account;
     _ \<leftarrow> on_registry open_third_demo_account;
     hold E now (data_session_resource 0);
     hold E now (data_usage_resource 0);
     hold E now (data_usage_resource 1);
     hold E now data_reconcile_resource;
     hold E now (data_reset_resource 0);
     hold E now (data_reset_resource 1);
     hold E now (data_reset_early_resource 1);
     hold E now (data_reset_resource 2);
     install_demo_period E 0;
     install_demo_period E 1;
     hold E now (ipc_resource 0)
   }"

definition booted :: "Env \<Rightarrow> World" where
  "booted E = snd (run_state (provision E) world_new)"

end
