(* ===== verification/Governance.thy ===== *)
theory Governance
  imports Mediation Boot
begin

text \<open>
  The invariant that ties eSIM slots, account registry and data tables together, kept by every
  request the specification of \<open>Mediation\<close> admits: an enabled profile is bound to an active
  account, a bound profile exists and is not deleted, a data session runs on a profile its own
  active account owns and never roams, and the reconciler's memory of a counter is never ahead of
  the counter.
\<close>

subsection \<open>The coupling of the tables\<close>

definition key_of :: "DataSession \<Rightarrow> ProfileKey" where
  "key_of x = mvno_key (ds_slot x) (ds_profile x)"

definition session_grounded ::
    "(usize \<Rightarrow> u8 \<Rightarrow> ProfileState option) \<Rightarrow> (ProfileKey \<Rightarrow> AccountId option) \<Rightarrow>
     (AccountId \<Rightarrow> AccountStatus option) \<Rightarrow> DataSession \<Rightarrow> bool" where
  "session_grounded st ow ss x \<longleftrightarrow>
     ow (key_of x) = Some (AccountId (ds_account x)) \<and>
     ss (AccountId (ds_account x)) = Some AccountStatus.Active \<and>
     st (ds_slot x) (ds_profile x) \<in> {Some ProfileState.Enabled, Some ProfileState.Disabled} \<and>
     \<not> ds_roaming x"

definition coupled ::
    "(usize \<Rightarrow> u8 \<Rightarrow> ProfileState option) \<Rightarrow> (ProfileKey \<Rightarrow> AccountId option) \<Rightarrow>
     (AccountId \<Rightarrow> AccountStatus option) \<Rightarrow> DataSession set \<Rightarrow> bool" where
  "coupled st ow ss X \<longleftrightarrow>
     (\<forall>slot p. st slot p = Some ProfileState.Enabled \<longrightarrow>
        (\<exists>i. ow (mvno_key slot p) = Some i \<and> ss i = Some AccountStatus.Active)) \<and>
     (\<forall>slot p. ow (mvno_key slot p) \<noteq> None \<longrightarrow>
        st slot p \<noteq> None \<and> st slot p \<noteq> Some ProfileState.Deleted) \<and>
     (\<forall>x\<in>X. session_grounded st ow ss x)"

lemma mvno_key_eq [simp]: "mvno_key s p = mvno_key s' p' \<longleftrightarrow> s = s' \<and> p = p'"
  by (auto simp: mvno_key_def)

lemma mvno_key_sel [simp]: "pk_slot (mvno_key s p) = s" "pk_profile (mvno_key s p) = p"
  by (simp_all add: mvno_key_def)

lemma mvno_key_collapse [simp]: "mvno_key (pk_slot k) (pk_profile k) = k"
  by (simp add: mvno_key_def)

lemma coupled_subset: "coupled st ow ss X \<Longrightarrow> Y \<subseteq> X \<Longrightarrow> coupled st ow ss Y"
  by (auto simp: coupled_def)

lemma coupled_create:
  assumes "coupled st ow ss X" "st slot p = None"
    and "\<And>i. st' i = (if i = slot then (st slot)(p \<mapsto> ProfileState.Created) else st i)"
  shows "coupled st' ow ss X"
  using assms by (fastforce simp: coupled_def session_grounded_def key_of_def split: if_splits)

lemma coupled_install:
  assumes "coupled st ow ss X" "st slot p = Some ProfileState.Created"
    and "\<And>i. st' i = (if i = slot then (st slot)(p \<mapsto> ProfileState.Disabled) else st i)"
  shows "coupled st' ow ss X"
  using assms by (fastforce simp: coupled_def session_grounded_def key_of_def split: if_splits)

lemma coupled_enable:
  assumes "coupled st ow ss X" "st slot p = Some ProfileState.Disabled"
    and "\<And>i. st' i = (if i = slot then lifecycle_step Op.Enable p (st slot) else st i)"
    and "ow (mvno_key slot p) = Some a" "ss a = Some AccountStatus.Active"
  shows "coupled st' ow ss X"
  using assms unfolding coupled_def session_grounded_def key_of_def lifecycle_step_def
  by (auto split: if_splits)

lemma coupled_disable:
  assumes "coupled st ow ss X" "st slot p = Some ProfileState.Enabled"
    and "\<And>i. st' i = (if i = slot then lifecycle_step Op.Disable p (st slot) else st i)"
  shows "coupled st' ow ss X"
  using assms unfolding coupled_def session_grounded_def key_of_def lifecycle_step_def
  by (auto split: if_splits)

lemma coupled_delete:
  assumes "coupled st ow ss X" "st slot p = Some ProfileState.Disabled"
    and "\<And>i. st' i = (if i = slot then lifecycle_step Op.Delete p (st slot) else st i)"
    and "ow' = ow(mvno_key slot p := None)" "\<And>x. x \<in> Y \<Longrightarrow> x \<in> X \<and> \<not> (ds_slot x = slot \<and> ds_profile x = p)"
  shows "coupled st' ow' ss Y"
  using assms unfolding coupled_def session_grounded_def key_of_def lifecycle_step_def
  by (auto split: if_splits)

lemma coupled_bind:
  assumes "coupled st ow ss X" "ow (mvno_key slot p) = None"
    and "st slot p \<noteq> None" "st slot p \<noteq> Some ProfileState.Deleted"
  shows "coupled st (ow(mvno_key slot p \<mapsto> a)) ss X"
proof -
  have "st slot p \<noteq> Some ProfileState.Enabled" using assms by (fastforce simp: coupled_def)
  then show ?thesis using assms by (auto simp: coupled_def session_grounded_def key_of_def)
qed

lemma coupled_reactivate:
  assumes "coupled st ow ss X"
  shows "coupled st ow (ss(a \<mapsto> AccountStatus.Active)) X"
proof -
  have "\<exists>i. ow (mvno_key slot p) = Some i \<and> (ss(a \<mapsto> AccountStatus.Active)) i = Some AccountStatus.Active"
    if "st slot p = Some ProfileState.Enabled" for slot p
    using assms that by (fastforce simp: coupled_def)
  then show ?thesis using assms by (auto simp: coupled_def session_grounded_def)
qed

lemma coupled_suspend:
  assumes "coupled st ow ss X"
    and "\<And>slot p. st' slot p =
      (if ow (mvno_key slot p) = Some a \<and> st slot p = Some ProfileState.Enabled
       then Some ProfileState.Disabled else st slot p)"
    and "\<And>x. x \<in> Y \<Longrightarrow> x \<in> X \<and> AccountId (ds_account x) \<noteq> a"
  shows "coupled st' ow (ss(a \<mapsto> AccountStatus.Suspended)) Y"
proof -
  have "\<exists>i. ow (mvno_key slot p) = Some i \<and> (ss(a \<mapsto> AccountStatus.Suspended)) i = Some AccountStatus.Active"
    if "st' slot p = Some ProfileState.Enabled" for slot p
    using assms(1) that by (fastforce simp: coupled_def assms(2) split: if_splits)
  moreover have "session_grounded st' ow (ss(a \<mapsto> AccountStatus.Suspended)) x" if "x \<in> Y" for x
    using assms(1) assms(3) [OF that] by (auto simp: coupled_def session_grounded_def assms(2))
  moreover have "st' slot p \<noteq> None \<and> st' slot p \<noteq> Some ProfileState.Deleted"
    if "ow (mvno_key slot p) \<noteq> None" for slot p
    using assms(1) that by (auto simp: coupled_def assms(2))
  ultimately show ?thesis unfolding coupled_def by blast
qed

lemma coupled_open:
  assumes "coupled st ow ss X" "\<And>x. x \<in> Y \<Longrightarrow> x \<in> X \<or> session_grounded st ow ss x"
  shows "coupled st ow ss Y"
  using assms unfolding coupled_def by blast


subsection \<open>The invariant of the governed state\<close>

definition usage_remembered :: "UsageEntry \<Rightarrow> bool" where
  "usage_remembered e \<longleftrightarrow>
     (case ue_last_used e of None \<Rightarrow> True | Some u \<Rightarrow> u \<le> used_bytes (ue_usage e))"

definition core_inv :: "Core \<Rightarrow> bool" where
  "core_inv c \<longleftrightarrow>
     slots_wf (c_slots c) \<and> reg_wf (c_registry c) \<and> data_wf (c_data c) \<and>
     coupled (state_of (c_slots c)) (owner_of (c_registry c)) (status_of (c_registry c)) (set (sessions (c_data c))) \<and>
     list_all usage_remembered (usage_rows (c_data c))"

lemma core_inv_slots:
  assumes "core_inv c" "slots_wf S"
    and "coupled (state_of S) (owner_of (c_registry c)) (status_of (c_registry c)) (set (sessions (c_data c)))"
  shows "core_inv (c\<lparr>c_slots := S\<rparr>)"
  using assms by (simp add: core_inv_def)

lemma core_inv_data:
  assumes "core_inv c" "data_wf d" "set (sessions d) \<subseteq> set (sessions (c_data c))" "list_all usage_remembered (usage_rows d)"
  shows "core_inv (c\<lparr>c_data := d\<rparr>)"
  using assms by (auto simp: core_inv_def intro: coupled_subset)

lemma inv_create:
  assumes inv: "core_inv c"
  shows "core_inv (c\<lparr>c_slots := snd (sim_create (c_slots c) slot)\<rparr>)"
proof (cases rule: sim_create_cases [of "c_slots c" slot])
  case (Err e)
  with inv show ?thesis by simp
next
  case (Ok p S)
  have wf: "slots_wf (c_slots c)" using inv by (simp add: core_inv_def)
  have "slots_wf S" using sim_call_wf [OF wf, of "CallCreate slot"] Ok by simp
  moreover have "coupled (state_of S) (owner_of (c_registry c)) (status_of (c_registry c)) (set (sessions (c_data c)))"
    using inv by (intro coupled_create [OF _ sim_create_Ok [OF wf Ok]]) (simp add: core_inv_def)
  ultimately show ?thesis using core_inv_slots [OF inv] Ok by simp
qed

lemma inv_install:
  assumes inv: "core_inv c"
  shows "core_inv (c\<lparr>c_slots := snd (sim_install (c_slots c) slot p v)\<rparr>)"
proof -
  have wf: "slots_wf (c_slots c)" using inv by (simp add: core_inv_def)
  show ?thesis
  proof (cases rule: sim_install_cases [OF wf, of slot p v])
    case (1 e)
    with inv show ?thesis by simp
  next
    case (2 S)
    have "slots_wf S" using sim_call_wf [OF wf, of "CallInstall slot p v"] 2 by simp
    moreover have "coupled (state_of S) (owner_of (c_registry c)) (status_of (c_registry c)) (set (sessions (c_data c)))"
      using inv by (intro coupled_install [OF _ sim_install_Ok [OF wf 2]]) (simp add: core_inv_def)
    ultimately show ?thesis using core_inv_slots [OF inv] 2 by simp
  qed
qed

lemma inv_enable:
  assumes inv: "core_inv c" and gate: "gate_enable (c_registry c) slot p = Ok ()"
  shows "core_inv (c\<lparr>c_slots := snd (sim_enable (c_slots c) slot p)\<rparr>)"
proof (cases rule: sim_move_cases [of Op.Enable "c_slots c" slot p])
  case (Err e)
  with inv show ?thesis by (simp add: sim_moves)
next
  case (Ok S)
  have wf: "slots_wf (c_slots c)" using inv by (simp add: core_inv_def)
  note moved = sim_move_Ok(1,2) [OF wf _ Ok, simplified]
  have "slots_wf S" using sim_move_wf [OF wf, of Op.Enable slot p] Ok by simp
  moreover obtain a where "owner_of (c_registry c) (mvno_key slot p) = Some a"
      "status_of (c_registry c) a = Some AccountStatus.Active"
    using gate by (auto simp: gate_enable_iff)
  then have "coupled (state_of S) (owner_of (c_registry c)) (status_of (c_registry c)) (set (sessions (c_data c)))"
    using inv by (intro coupled_enable [OF _ moved]) (simp_all add: core_inv_def)
  ultimately show ?thesis using core_inv_slots [OF inv] Ok by (simp add: sim_moves)
qed

lemma inv_disable:
  assumes inv: "core_inv c"
  shows "core_inv (disable_effect slot p c)"
proof (cases rule: sim_move_cases [of Op.Disable "c_slots c" slot p])
  case (Err e)
  with inv show ?thesis by (simp add: disable_effect_def sim_moves)
next
  case (Ok S)
  have wf: "slots_wf (c_slots c)" using inv by (simp add: core_inv_def)
  note moved = sim_move_Ok(1,2) [OF wf _ Ok, simplified]
  have "slots_wf S" using sim_move_wf [OF wf, of Op.Disable slot p] Ok by simp
  moreover have "coupled (state_of S) (owner_of (c_registry c)) (status_of (c_registry c)) (set (sessions (c_data c)))"
    using inv by (intro coupled_disable [OF _ moved]) (simp add: core_inv_def)
  ultimately have "core_inv (c\<lparr>c_slots := S\<rparr>)" by (rule core_inv_slots [OF inv])
  then have "core_inv (c\<lparr>c_slots := S, c_data := snd (close_sessions_for_profile (c_data c) slot p)\<rparr>)"
    using inv by (intro core_inv_data) (auto simp: core_inv_def close_sessions_eq filter_sessions_wf)
  with Ok show ?thesis by (simp add: disable_effect_def sim_moves)
qed

text \<open>After a successful deletion the binding, if any, is released.\<close>

lemma unbind_released:
  assumes wf: "reg_wf r" and st: "state_of S slot p = Some ProfileState.Deleted"
  shows "reg_wf (snd (mvno_unbind r S slot p))"
    and "owner_of (snd (mvno_unbind r S slot p)) = (owner_of r)(mvno_key slot p := None)"
    and "status_of (snd (mvno_unbind r S slot p)) = status_of r"
proof -
  let ?ch = "Unbind (mvno_key slot p)"
  have "reg_wf (snd (mvno_unbind r S slot p)) \<and>
      owner_of (snd (mvno_unbind r S slot p)) = (owner_of r)(mvno_key slot p := None) \<and>
      status_of (snd (mvno_unbind r S slot p)) = status_of r"
  proof (cases "owner_of r (mvno_key slot p)")
    case None
    then show ?thesis using wf by (auto simp: mvno_unbind_def)
  next
    case (Some w)
    have "accepts r ?ch (lifecycle_view S)" using Some st by (simp add: lifecycle_view_state)
    then obtain a r' where ap: "apply_change r ?ch (lifecycle_view S) = (Ok a, r')"
      using apply_change_accepts [of r ?ch "lifecycle_view S"]
      by (cases rule: result_state_cases [of "apply_change r ?ch (lifecycle_view S)"]) auto
    then show ?thesis
      using Some apply_change_status [OF wf ap] apply_change_wf [OF wf, of ?ch "lifecycle_view S"]
      by (simp add: mvno_unbind_def unbind_profile_def Let_def)
  qed
  then show "reg_wf (snd (mvno_unbind r S slot p))"
    "owner_of (snd (mvno_unbind r S slot p)) = (owner_of r)(mvno_key slot p := None)"
    "status_of (snd (mvno_unbind r S slot p)) = status_of r" by simp_all
qed

lemma inv_delete:
  assumes inv: "core_inv c"
  shows "core_inv (delete_effect slot p c)"
proof (cases rule: sim_move_cases [of Op.Delete "c_slots c" slot p])
  case (Err e)
  with inv show ?thesis by (simp add: delete_effect_def sim_moves)
next
  case (Ok S)
  have wf: "slots_wf (c_slots c)" and rwf: "reg_wf (c_registry c)" using inv by (simp_all add: core_inv_def)
  note moved = sim_move_Ok(1,2) [OF wf _ Ok, simplified]
  have "slots_wf S" using sim_move_wf [OF wf, of Op.Delete slot p] Ok by simp
  moreover have "state_of S slot p = Some ProfileState.Deleted"
    using moved(2) [of slot] by (simp add: lifecycle_step_def)
  note unb = unbind_released [OF rwf this]
  have "coupled (state_of S) (owner_of (snd (mvno_unbind (c_registry c) S slot p)))
      (status_of (snd (mvno_unbind (c_registry c) S slot p)))
      (set (sessions (snd (close_sessions_for_profile (c_data c) slot p))))"
    unfolding unb(3)
    using inv by (intro coupled_delete [OF _ moved unb(2)]) (auto simp: core_inv_def close_sessions_eq)
  ultimately show ?thesis
    using inv Ok unb(1)
    by (simp add: core_inv_def delete_effect_def sim_moves close_sessions_eq filter_sessions_wf)
qed


lemma inv_bind:
  assumes inv: "core_inv c"
  shows "core_inv (c\<lparr>c_registry := snd (mvno_bind (c_registry c) (c_slots c) acct slot p)\<rparr>)"
proof -
  let ?r = "c_registry c" and ?ch = "Bind (AccountId acct) (mvno_key slot p)" and ?lc = "lifecycle_view (c_slots c)"
  have wf: "reg_wf ?r" using inv by (simp add: core_inv_def)
  have eq: "snd (mvno_bind ?r (c_slots c) acct slot p) = snd (apply_change ?r ?ch ?lc)"
    by (simp add: mvno_bind_def bind_profile_def Let_def split_beta)
  show ?thesis
  proof (cases rule: result_state_cases [of "apply_change ?r ?ch ?lc"])
    case (Err e r')
    with inv show ?thesis using apply_change_Err_same [OF Err] unfolding eq by simp
  next
    case (Ok a r')
    have acc: "accepts ?r ?ch ?lc" using apply_change_accepts [of ?r ?ch ?lc] Ok by simp
    have "reg_wf r'" using apply_change_wf [OF wf, of ?ch ?lc] Ok by simp
    moreover have "owner_of ?r (mvno_key slot p) = None" "state_of (c_slots c) slot p \<noteq> None"
        "state_of (c_slots c) slot p \<noteq> Some ProfileState.Deleted"
      using acc by (auto simp: lifecycle_view_state)
    then have "coupled (state_of (c_slots c)) (owner_of r') (status_of r') (set (sessions (c_data c)))"
      using inv coupled_bind [of "state_of (c_slots c)" "owner_of ?r" "status_of ?r" "set (sessions (c_data c))" slot p "AccountId acct"]
      by (simp add: apply_change_status [OF wf Ok] core_inv_def)
    ultimately show ?thesis using inv Ok unfolding eq by (simp add: core_inv_def)
  qed
qed

lemma inv_reactivate:
  assumes inv: "core_inv c"
  shows "core_inv (c\<lparr>c_registry := snd (mvno_reactivate (c_registry c) acct)\<rparr>)"
proof -
  let ?r = "c_registry c" and ?ch = "SetStatus (AccountId acct) AccountStatus.Active"
  have wf: "reg_wf ?r" using inv by (simp add: core_inv_def)
  have eq: "snd (mvno_reactivate ?r acct) = snd (apply_change ?r ?ch no_lifecycle)"
    by (simp add: mvno_reactivate_def reactivate_def Let_def split_beta)
  show ?thesis
  proof (cases rule: result_state_cases [of "apply_change ?r ?ch no_lifecycle"])
    case (Err e r')
    with inv show ?thesis using apply_change_Err_same [OF Err] unfolding eq by simp
  next
    case (Ok a r')
    have "reg_wf r'" using apply_change_wf [OF wf, of ?ch no_lifecycle] Ok by simp
    moreover have "coupled (state_of (c_slots c)) (owner_of r') (status_of r') (set (sessions (c_data c)))"
      using inv coupled_reactivate [of "state_of (c_slots c)" "owner_of ?r" "status_of ?r" "set (sessions (c_data c))" "AccountId acct"]
      by (simp add: apply_change_status [OF wf Ok] core_inv_def)
    ultimately show ?thesis using inv Ok unfolding eq by (simp add: core_inv_def)
  qed
qed

lemma fold_force_state:
  "slots_wf S \<Longrightarrow> slots_wf (fold force_disable ks S) \<and>
   state_of (fold force_disable ks S) i p =
     (if mvno_key i p \<in> set ks \<and> state_of S i p = Some ProfileState.Enabled
      then Some ProfileState.Disabled else state_of S i p)"
proof (induction ks arbitrary: S)
  case (Cons k ks)
  have "mvno_key i p = k \<longleftrightarrow> i = pk_slot k \<and> p = pk_profile k" by (auto simp: mvno_key_def)
  with Cons.IH [OF sim_store.disable_ok [OF Cons.prems, of k]] show ?case
    by (auto simp: force_disable_state [OF Cons.prems])
qed simp

lemma suspend_Err_same: "mvno_suspend r S acct = (Err e, r') \<Longrightarrow> r' = r"
  unfolding mvno_suspend_def suspend_def Let_def
  by (cases rule: result_state_cases [of "apply_change r (SetStatus (AccountId acct) AccountStatus.Suspended) (lifecycle_view S)"])
    (auto simp del: apply_change.simps dest: apply_change_Err_same)

text \<open>What a suspension that succeeds does to the tables.\<close>

lemma suspend_tables:
  assumes swf: "slots_wf S" and wf: "reg_wf r" and ok: "mvno_suspend r S acct = (Ok ks, r')"
  shows "reg_wf r'" and "owner_of r' = owner_of r"
    and "status_of r' = (status_of r)(AccountId acct \<mapsto> AccountStatus.Suspended)"
    and "state_of (fold force_disable ks S) slot p =
      (if owner_of r (mvno_key slot p) = Some (AccountId acct) \<and> state_of S slot p = Some ProfileState.Enabled
       then Some ProfileState.Disabled else state_of S slot p)"
proof -
  let ?ch = "SetStatus (AccountId acct) AccountStatus.Suspended"
  obtain a where a: "apply_change r ?ch (lifecycle_view S) = (Ok a, r')" "ks = ap_force_disable a"
    using ok by (auto simp: mvno_suspend_Ok)
  show "reg_wf r'" using apply_change_wf [OF wf, of ?ch "lifecycle_view S"] a(1) by simp
  show "owner_of r' = owner_of r" "status_of r' = (status_of r)(AccountId acct \<mapsto> AccountStatus.Suspended)"
    using apply_change_status [OF wf a(1)] by simp_all
  have "ks = filter (\<lambda>k. lifecycle_view S k = Some ProfileLifecycle.Enabled) (profiles_of r (AccountId acct))"
    using apply_change_forced [OF a(1)] a(2) by simp
  then show "state_of (fold force_disable ks S) slot p =
      (if owner_of r (mvno_key slot p) = Some (AccountId acct) \<and> state_of S slot p = Some ProfileState.Enabled
       then Some ProfileState.Disabled else state_of S slot p)"
    using fold_force_state [OF swf, of ks slot p] by (simp add: profiles_of_owner [OF wf] view_Enabled)
qed

lemma inv_suspend:
  assumes inv: "core_inv c"
  shows "core_inv (suspend_effect acct c)"
proof (cases rule: result_state_cases [of "mvno_suspend (c_registry c) (c_slots c) acct"])
  case (Err e r')
  with inv show ?thesis using suspend_Err_same [OF Err] by (simp add: suspend_effect_def)
next
  case (Ok ks r')
  have swf: "slots_wf (c_slots c)" and wf: "reg_wf (c_registry c)" using inv by (simp_all add: core_inv_def)
  note tables = suspend_tables [OF swf wf Ok]
  have "coupled (state_of (fold force_disable ks (c_slots c))) (owner_of r') (status_of r')
      (set (sessions (snd (close_sessions_for_account (c_data c) acct))))"
    unfolding tables(2,3)
    using inv
    by (intro coupled_suspend [where st = "state_of (c_slots c)" and X = "set (sessions (c_data c))"])
      (auto simp: core_inv_def close_sessions_eq tables(4))
  then show ?thesis
    using inv Ok tables(1) fold_force_state [OF swf, of ks]
    by (simp add: core_inv_def suspend_effect_def close_sessions_eq filter_sessions_wf)
qed

subsection \<open>The data tables\<close>

lemma set_update_first_found:
  "find P xs = Some x \<Longrightarrow> y \<in> set (update_first P f xs) \<Longrightarrow> y \<in> set xs \<or> y = f x"
  by (induction xs) (auto split: if_splits)

lemma remembered_feed:
  assumes "list_all usage_remembered (usage_rows d)"
  shows "list_all usage_remembered (usage_rows (snd (feed_usage d a b)))"
proof -
  have "usage_remembered (ue_usage_update (\<lambda>_. apply_usage (ue_usage e) b) e)" if "usage_remembered e" for e
    using that saturating_add_ge [of "used_bytes (ue_usage e)" b]
    by (auto simp: usage_remembered_def apply_usage_def split: option.splits)
  moreover have "usage_remembered \<lparr>ue_account = a, ue_usage = u, ue_last_used = None\<rparr>" for u
    by (simp add: usage_remembered_def)
  ultimately show ?thesis
    using assms
    by (cases "find (\<lambda>e. ue_account e = a) (usage_rows d)")
      (fastforce simp: feed_usage_def Let_def list_all_iff dest: set_update_first_found find_Some_set)+
qed

lemma remembered_reset:
  "list_all usage_remembered (usage_rows d) \<Longrightarrow> list_all usage_remembered (usage_rows (snd (reset_usage_of d a)))"
  by (auto simp: reset_usage_of_def list_all_iff usage_remembered_def split: option.splits dest!: set_update_first)

text \<open>Marking every row with its own counter, as the reconciler does.\<close>

lemma remembered_mark:
  assumes "distinct (map ue_account rows)" "list_all usage_remembered rows" "set obs \<subseteq> set rows"
  shows "list_all usage_remembered (fold mark_one obs rows)"
proof -
  have "list_all usage_remembered (fold mark_one obs rs)"
    if "list_all usage_remembered rs" "map (\<lambda>e. (ue_account e, ue_usage e)) rs = map (\<lambda>e. (ue_account e, ue_usage e)) rows" for rs
    using that assms(3)
  proof (induction obs arbitrary: rs)
    case (Cons ob obs)
    have same: "ue_usage e = ue_usage ob" if "e \<in> set rs" "ue_account e = ue_account ob" for e
    proof -
      have "(ue_account e, ue_usage e) \<in> (\<lambda>e. (ue_account e, ue_usage e)) ` set rows"
        using that(1) Cons.prems(2) by (metis (no_types, lifting) image_eqI list.set_map)
      then obtain e' where "e' \<in> set rows" "ue_account e' = ue_account e" "ue_usage e' = ue_usage e" by auto
      moreover from this have "e' = ob"
        using assms(1) Cons.prems(3) that(2) by (intro inj_onD [of ue_account "set rows"]) (auto simp: distinct_map)
      ultimately show ?thesis by simp
    qed
    have "list_all usage_remembered (mark_one ob rs)"
      using Cons.prems(1) same unfolding list_all_iff mark_one_def
      by (auto simp: usage_remembered_def dest!: set_update_first)
    moreover have "map (\<lambda>e. (ue_account e, ue_usage e)) (mark_one ob rs) = map (\<lambda>e. (ue_account e, ue_usage e)) rs"
      by (simp add: mark_one_def map_update_first)
    ultimately show ?case using Cons.IH [of "mark_one ob rs"] Cons.prems(2,3) by simp
  qed simp
  then show ?thesis using assms(2) by blast
qed

lemma demo_entitlement_home: "demo_entitlement acct = Some e \<Longrightarrow> \<not> roaming_data_allowed e"
  by (auto simp: demo_entitlement_def entitlement_new_def split: if_splits)

lemma lifecycle_for_data_Enabled: "lifecycle_for_data s = ProfileLifecycleForData.Enabled \<longleftrightarrow> s = ProfileState.Enabled"
  by (cases s) simp_all

lemma standing_for_data_Active: "standing_for_data s = AccountStandingForData.Active \<longleftrightarrow> s = AccountStatus.Active"
  by (cases s) simp_all

lemma decision_allows:
  "evaluate_session q \<in> {Allow, AllowThrottled} \<Longrightarrow>
   sr_standing q = AccountStandingForData.Active \<and> sr_lifecycle q = ProfileLifecycleForData.Enabled \<and>
   (sr_network q = Roaming \<longrightarrow> roaming_data_allowed (sr_entitlement q))"
  by (auto simp: evaluate_session_def split: AccountStandingForData.splits if_splits UsageBand.splits)

lemma record_session_rows:
  "x \<in> set (sessions (snd (record_session d y))) \<Longrightarrow>
   x \<in> set (sessions d) \<or> session_key x = session_key y \<and> ds_roaming x = ds_roaming y"
  by (auto simp: record_session_def same_session_def session_key_def split: option.splits if_splits
      dest!: set_update_first)

lemma inv_open:
  assumes inv: "core_inv c" and ow: "mvno_owner_of (c_registry c) slot p = Some acct"
  shows "core_inv (open_effect acct slot p roaming c)"
proof (cases "\<exists>status state e. standing (c_registry c) acct = Some status \<and>
    profile_state (c_slots c) slot p = Ok state \<and> demo_entitlement acct = Some e")
  case False
  then have "open_effect acct slot p roaming c = c"
    by (auto simp: open_effect_def split: option.splits result.splits)
  with inv show ?thesis by simp
next
  case True
  then obtain status state e where st: "standing (c_registry c) acct = Some status"
    "profile_state (c_slots c) slot p = Ok state" "demo_entitlement acct = Some e" by blast
  let ?d = "snd (decide_and_open (c_data c) acct slot p roaming (standing_for_data status) (lifecycle_for_data state) e)"
  let ?q = "\<lparr>sr_standing = standing_for_data status, sr_lifecycle = lifecycle_for_data state, sr_entitlement = e,
             sr_usage = usage_of (c_data c) acct, sr_network = (if roaming then Roaming else Home)\<rparr>"
  have eff: "open_effect acct slot p roaming c = c\<lparr>c_data := ?d\<rparr>" by (simp add: open_effect_def st)
  have new: "session_grounded (state_of (c_slots c)) (owner_of (c_registry c)) (status_of (c_registry c)) x"
    if "x \<in> set (sessions ?d)" "x \<notin> set (sessions (c_data c))" for x
  proof -
    have "?d \<noteq> c_data c" using that by auto
    then have allowed: "evaluate_session ?q \<in> {Allow, AllowThrottled}"
      by (auto simp: decide_and_open_def decide_def Let_def split: SessionDecision.splits)
    then have "?d = snd (record_session (c_data c) \<lparr>ds_account = acct, ds_slot = slot, ds_profile = p, ds_roaming = roaming\<rparr>)"
      by (auto simp: decide_and_open_def decide_def Let_def split_beta)
    then have x: "session_key x = (acct, slot, p) \<and> ds_roaming x = roaming"
      using record_session_rows [of x "c_data c" "\<lparr>ds_account = acct, ds_slot = slot, ds_profile = p, ds_roaming = roaming\<rparr>"] that
      by (simp add: session_key_def)
    have "status = AccountStatus.Active" "state = ProfileState.Enabled" "\<not> roaming"
      using decision_allows [OF allowed] demo_entitlement_home [OF st(3)]
      by (auto simp: lifecycle_for_data_Enabled standing_for_data_Active split: if_splits)
    moreover have "owner_of (c_registry c) (mvno_key slot p) = Some (AccountId acct)"
      using ow by (auto simp: mvno_owner_of_def)
    ultimately show ?thesis
      using st x by (simp add: session_grounded_def key_of_def session_key_def standing_def status_of_def state_of_def)
  qed
  have "coupled (state_of (c_slots c)) (owner_of (c_registry c)) (status_of (c_registry c)) (set (sessions ?d))"
  proof (rule coupled_open)
    show "coupled (state_of (c_slots c)) (owner_of (c_registry c)) (status_of (c_registry c)) (set (sessions (c_data c)))"
      using inv by (simp add: core_inv_def)
  qed (use new in blast)
  then show ?thesis
    using inv unfolding eff by (simp add: core_inv_def decide_and_open_wf frame_simps)
qed

lemma effect_inv:
  assumes inv: "core_inv c" and adm: "admits freq req tick c"
  shows "core_inv (effect freq req tick c)"
proof -
  have rem: "list_all usage_remembered (usage_rows (c_data c))" and dwf: "data_wf (c_data c)"
    using inv by (simp_all add: core_inv_def)
  show ?thesis
  proof (cases req)
    case ReqReconcile
    have "distinct (map ue_account (usage_rows (c_data c)))" using dwf by (simp add: data_wf_def table_ok_def)
    then have "list_all usage_remembered (usage_rows (mark_observed (c_data c) (usage_rows (c_data c))))"
      using remembered_mark [OF _ rem] by (simp add: mark_observed_def)
    moreover have "sessions (mark_observed (c_data c) (usage_rows (c_data c))) = sessions (c_data c)"
      by (simp add: mark_observed_def)
    ultimately show ?thesis using inv ReqReconcile by (simp add: core_inv_data mark_observed_wf dwf)
  qed (use inv adm rem dwf in \<open>simp_all add: inv_create inv_install inv_enable inv_disable inv_delete inv_bind
      inv_suspend inv_reactivate inv_open core_inv_data frame_simps feed_usage_wf remembered_feed
      reset_usage_and_period_wf remembered_reset advise_period_wf close_session_def Let_def filter_sessions_wf\<close>)
qed


subsection \<open>The audit trail and the mailboxes\<close>

lemma keeps_decision [keep_rules]:
  "keeps I m \<Longrightarrow> keeps I n \<Longrightarrow> (\<And>r. keeps I (d r)) \<Longrightarrow>
   keeps I (case x of SessionDecision.Allow \<Rightarrow> m | SessionDecision.AllowThrottled \<Rightarrow> n | SessionDecision.Deny r \<Rightarrow> d r)"
  by (cases x) simp_all

definition trail_ok :: "crypto \<Rightarrow> World \<Rightarrow> bool" where
  "trail_ok C w \<longleftrightarrow>
     (case w_audit w of None \<Rightarrow> True | Some a \<Rightarrow> audit_wf C a \<and> summaries_marked a) \<and>
     length (w_ril w) = CHANNEL_COUNT \<and> length (w_ipc w) = CHANNEL_COUNT"

lemma keeps_access [keep_rules]:
  "keeps (trail_ok C) (on_slots f1)"
  "keeps (trail_ok C) (on_registry f2)"
  "keeps (trail_ok C) (on_data f3)"
  "keeps (trail_ok C) (on_marshal f4)"
  "keeps (trail_ok C) (on_memory f5)"
  "keeps (trail_ok C) (view f6)"
  "keeps (trail_ok C) (view_core f7)"
  "keeps (trail_ok C) (now_ticks E)"
  "keeps (trail_ok C) (svc_write a)"
  "keeps (trail_ok C) take_continuation"
  "keeps (trail_ok C) (read_registers E)"
  "keeps (trail_ok C) (observe_excursion f8)"
  by (simp_all add: keeps_def trail_ok_def on_slots_def on_registry_def on_data_def on_marshal_def on_memory_def
      view_def view_core_def now_ticks_def svc_write_def take_continuation_def read_registers_def
      observe_excursion_def Let_def split_beta)

lemma keeps_ril [keep_rules]:
  "keeps (trail_ok C) (on_ril (\<lambda>cs. ril_send cs i b))" "keeps (trail_ok C) (on_ril (\<lambda>cs. ril_recv cs i))"
  by (simp_all add: keeps_def trail_ok_def on_ril_def Let_def split_beta ril.send_length ril.recv_length)

lemma keeps_ipc [keep_rules]:
  "keeps (trail_ok C) (on_ipc (\<lambda>cs. ipc_send cs i b))" "keeps (trail_ok C) (on_ipc (\<lambda>cs. ipc_recv cs i))"
  by (simp_all add: keeps_def trail_ok_def on_ipc_def Let_def split_beta ipc.send_length ipc.recv_length)

lemma new_marked: "summaries_marked audit_new"
proof -
  have "class_of audit_new c = class_new" for c
    using class_index_bound [of c] by (simp add: class_of_def audit_new_def)
  then show ?thesis by (simp add: summaries_marked_def class_new_def audit_new_def worm_new_def)
qed

definition plain :: "string \<Rightarrow> bool" where
  "plain s \<longleftrightarrow> \<not> starts_with SUMMARY_SUBJECT_PREFIX s"

definition chain_of :: "World \<Rightarrow> BoundedAudit" where
  "chain_of w = (case w_audit w of Some a \<Rightarrow> a | None \<Rightarrow> audit_new)"

lemma chain_ok: "trail_ok C w \<Longrightarrow> audit_wf C (chain_of w) \<and> summaries_marked (chain_of w)"
  using audit_new_wf [of C] new_marked by (auto simp: trail_ok_def chain_of_def split: option.splits)

lemma keeps_audit_event [keep_rules]:
  assumes "plain s"
  shows "keeps (trail_ok (env_crypto E)) (audit_event E c s f t au r)"
  unfolding keeps_def
proof (intro allI impI)
  fix w assume w: "trail_ok (env_crypto E) w"
  obtain out a where a: "audit_record (env_crypto E) c s f t au r (chain_of w) = (out, a)" by fastforce
  have "audit_wf (env_crypto E) a" "summaries_marked a"
    using chain_ok [OF w] record_wf [OF _ a] record_marked [OF _ _ _ a] assms by (simp_all add: plain_def)
  moreover have "run_state (audit_event E c s f t au r) w = (out, w\<lparr>w_audit := Some a\<rparr>)"
    using a by (simp add: audit_event_def Let_def chain_of_def)
  ultimately show "trail_ok (env_crypto E) (snd (run_state (audit_event E c s f t au r) w))"
    using w by (simp add: trail_ok_def)
qed

lemma keeps_audit_coalesce [keep_rules]: "keeps (trail_ok (env_crypto E)) (audit_coalesce E c r)"
  unfolding keeps_def
proof (intro allI impI)
  fix w assume w: "trail_ok (env_crypto E) w"
  obtain out a where a: "coalesce (env_crypto E) c r (chain_of w) = (out, a)" by fastforce
  have "audit_wf (env_crypto E) a" "summaries_marked a"
    using chain_ok [OF w] coalesce_wf [OF _ a] coalesce_marked [OF _ _ a] by simp_all
  moreover have "run_state (audit_coalesce E c r) w = (out, w\<lparr>w_audit := Some a\<rparr>)"
    using a by (simp add: audit_coalesce_def note_coalesced_def Let_def chain_of_def)
  ultimately show "trail_ok (env_crypto E) (snd (run_state (audit_coalesce E c r) w))"
    using w by (simp add: trail_ok_def)
qed

lemma plain_first: "s \<noteq> [] \<Longrightarrow> hd s \<noteq> CHR ''a'' \<Longrightarrow> plain s"
  by (cases s) (simp_all add: plain_def starts_with_def SUMMARY_SUBJECT_PREFIX_def)

lemma plain_resources [keep_rules]:
  "plain (sim_resource slot)" "plain (sim_profile_resource slot p)" "plain (sim_delete_resource slot p)"
  "plain (mvno_account_resource a)" "plain (mvno_suspend_resource a)" "plain (data_session_resource a)"
  "plain (data_usage_resource a)" "plain (data_reset_resource a)" "plain (data_reset_early_resource a)"
  "plain data_reconcile_resource" "plain (data_reconcile_resource @ t)"
  "plain (if b then data_reset_early_resource a else data_reset_resource a)"
  by (rule plain_first; simp add: sim_resource_def sim_profile_resource_def sim_delete_resource_def
      mvno_account_resource_def mvno_suspend_resource_def data_session_resource_def data_usage_resource_def
      data_reset_resource_def data_reset_early_resource_def data_reconcile_resource_def)+

lemma keeps_helpers [keep_rules]:
  "keeps (trail_ok (env_crypto E)) (check E r)"
  "keeps (trail_ok (env_crypto E)) (audit_chain_summary E)"
  "keeps (trail_ok (env_crypto E)) (audit_transition E slot p f t res v)"
  "keeps (trail_ok (env_crypto E)) (audit_data_session E acct au to r')"
  unfolding check_def audit_chain_summary_def audit_transition_def audit_data_session_def
  by (intro keep_rules)+

lemma keeps_denial [keep_rules]: "plain r \<Longrightarrow> keeps (trail_ok (env_crypto E)) (audit_capability_denial E c l r e)"
  unfolding audit_capability_denial_def by (intro keep_rules)

lemma keeps_gate [keep_rules]:
  "plain s \<Longrightarrow> keeps (trail_ok (env_crypto E)) (enforce_gate E p out s f t)"
  "plain s \<Longrightarrow> keeps (trail_ok (env_crypto E)) (marshal_gate E action s f t)"
  "keeps (trail_ok (env_crypto E)) (esim_gate E op slot pr f' t')"
  unfolding marshal_gate_def esim_gate_def enforce_gate_def by (intro keep_rules; assumption?)+

lemma keeps_closed_sessions [keep_rules]: "keeps (trail_ok (env_crypto E)) (audit_closed_sessions E rows what)"
  by (induction rows) (simp_all only: audit_closed_sessions.simps, (intro keep_rules; assumption?)+)

lemma keeps_incidents [keep_rules]:
  "keeps (trail_ok (env_crypto E)) (audit_incidents E rows)"
  "keeps (trail_ok (env_crypto E)) (audit_period_incidents E rows')"
proof -
  show "keeps (trail_ok (env_crypto E)) (audit_incidents E rows)"
  proof (induction rows)
    case (Cons r rows)
    then show ?case by (cases r) (simp only: audit_incidents.simps, intro keep_rules)
  qed (simp add: keeps_return)
  show "keeps (trail_ok (env_crypto E)) (audit_period_incidents E rows')"
  proof (induction rows')
    case (Cons r rows')
    then show ?case by (cases r) (simp only: audit_period_incidents.simps, intro keep_rules)
  qed (simp add: keeps_return)
qed

lemma keeps_clean_pass [keep_rules]: "keeps (trail_ok (env_crypto E)) (audit_clean_pass E p)"
  by (induction p rule: audit_clean_pass.induct) (simp_all only: audit_clean_pass.simps, (intro keep_rules)+)

lemma keeps_force_disable [keep_rules]: "keeps (trail_ok (env_crypto E)) (force_disable_all E good ks)"
  by (induction ks arbitrary: good) (simp_all only: force_disable_all.simps, (intro keep_rules; assumption?)+)

lemma dispatch_trail: "keeps (trail_ok (env_crypto E)) (dispatch E num a1 a2 a3)"
  unfolding syscall_defs
  by (intro keep_rules)


subsection \<open>The kernel as a machine\<close>

definition world_inv :: "Env \<Rightarrow> World \<Rightarrow> bool" where
  "world_inv E w \<longleftrightarrow> core_inv (w_core w) \<and> trail_ok (env_crypto E) w"

type_synonym syscall = "u64 \<times> u64 \<times> u64 \<times> u64"

definition syscall_step :: "Env \<Rightarrow> syscall \<Rightarrow> World \<Rightarrow> World" where
  "syscall_step E c w = (case c of (num, a1, a2, a3) \<Rightarrow> snd (run_state (dispatch E num a1 a2 a3) w))"

lemma core_after_inv: "core_inv (w_core w) \<Longrightarrow> core_inv (core_after E w req)"
  by (auto simp: core_after_def authorised_def effect_inv)

lemma syscall_step_inv: "world_inv E w \<Longrightarrow> world_inv E (syscall_step E c w)"
  using dispatch_trail [of E]
  by (auto simp: world_inv_def syscall_step_def dispatch_core core_after_inv keeps_def split: prod.split option.split)

lemma core_new_inv: "core_inv core_new"
proof -
  have "state_of SLOTS slot p = None" for slot p
    by (simp add: state_of_slot SLOTS_def slot_view_def slot_new_def)
  moreover have "owner_of registry_new k = None" for k by (simp add: owner_of_map_of registry_new_def)
  ultimately show ?thesis
    by (auto simp: core_inv_def core_new_def SLOTS_wf registry_new_wf data_new_wf coupled_def)
      (simp_all add: data_new_def)
qed

lemma inv_open_account:
  assumes inv: "core_inv c"
  shows "core_inv (c\<lparr>c_registry := snd (open_account (c_registry c) sub pl)\<rparr>)"
proof -
  let ?r = "c_registry c" and ?ch = "Open sub pl"
  have wf: "reg_wf ?r" using inv by (simp add: core_inv_def)
  have eq: "snd (open_account ?r sub pl) = snd (apply_change ?r ?ch no_lifecycle)"
    by (simp add: open_account_def Let_def split_beta)
  show ?thesis
  proof (cases rule: result_state_cases [of "apply_change ?r ?ch no_lifecycle"])
    case (Err e r')
    with inv show ?thesis using apply_change_Err_same [OF Err] unfolding eq by simp
  next
    case (Ok a r')
    have "reg_wf r'" using apply_change_wf [OF wf, of ?ch no_lifecycle] Ok by simp
    moreover have "coupled (state_of (c_slots c)) (owner_of r') (status_of r') (set (sessions (c_data c)))"
      using inv coupled_reactivate [of "state_of (c_slots c)" "owner_of ?r" "status_of ?r" "set (sessions (c_data c))" "ap_account a"]
      by (simp add: apply_change_status [OF wf Ok] core_inv_def)
    ultimately show ?thesis using inv Ok unfolding eq by (simp add: core_inv_def)
  qed
qed

lemma demo_period_length: "demo_period a f = Some p \<Longrightarrow> length_ticks p \<noteq> 0"
  by (auto simp: demo_period_def period_new_def split: if_splits)

definition core_kept :: "World \<Rightarrow> bool" where
  "core_kept w \<longleftrightarrow> core_inv (w_core w)"

lemma provision_keeps [keep_rules]:
  "keeps core_kept (set_marshal_proxy ip port)"
  "keeps core_kept (now_ticks E)"
  "keeps core_kept (hold E now r)"
  "keeps core_kept (on_registry open_demo_account)"
  "keeps core_kept (on_registry open_second_demo_account)"
  "keeps core_kept (on_registry open_third_demo_account)"
  "keeps core_kept (install_demo_period E a)"
proof -
  have "core_inv (c\<lparr>c_data := snd (set_period (c_data c) a p)\<rparr>)" if "core_inv c" "length_ticks p \<noteq> 0" for c p
    using that by (intro core_inv_data) (auto simp: core_inv_def frame_simps period_wf_kept)
  then show "keeps core_kept (install_demo_period E a)"
    by (auto simp: keeps_def core_kept_def install_demo_period_def on_data_def split_beta Let_def demo_period_length
        split: option.split)
qed (simp_all add: keeps_def core_kept_def set_marshal_proxy_def on_marshal_def now_ticks_def hold_def on_registry_def
    split_beta Let_def open_demo_account_def open_second_demo_account_def open_third_demo_account_def inv_open_account)

lemma provision_trail [keep_rules]:
  "keeps (trail_ok C) (set_marshal_proxy ip port)" "keeps (trail_ok C) (hold E now r)"
  "keeps (trail_ok C) (install_demo_period E a)"
  unfolding set_marshal_proxy_def install_demo_period_def
  by (intro keep_rules | simp add: keeps_def trail_ok_def hold_def)+

lemma booted_inv: "world_inv E (booted E)"
proof -
  have "keeps core_kept (provision E)" "keeps (trail_ok (env_crypto E)) (provision E)"
    unfolding provision_def by (intro keep_rules)+
  moreover have "core_kept world_new" "trail_ok (env_crypto E) world_new"
    by (simp_all add: core_kept_def world_new_def core_new_inv trail_ok_def CHANNELS_def)
  ultimately show ?thesis by (simp add: world_inv_def booted_def keeps_def core_kept_def)
qed

interpretation kernel: machine "booted E" "syscall_step E" "world_inv E" for E
  by unfold_locales (auto intro: booted_inv syscall_step_inv)

end
