(* ===== verification/Outcomes.thy ===== *)
theory Outcomes
  imports Governance
begin

text \<open>
  What the return codes of the system calls say.  For the profile and account calls that answer zero or one the code is zero
  exactly when the request was authorised and accepted, and any other code means that nothing
  changed; a suspension in particular always completes.  For a data session the code says whether
  the session is open afterwards.
\<close>

subsection \<open>Requests answered with zero or one\<close>

fun accepted :: "Request \<Rightarrow> Core \<Rightarrow> bool" where
  "accepted (ReqInstall slot p v) c = is_ok (fst (sim_install (c_slots c) slot p v))"
| "accepted (ReqEnable slot p) c = is_ok (fst (sim_enable (c_slots c) slot p))"
| "accepted (ReqDisable slot p) c = is_ok (fst (sim_disable (c_slots c) slot p))"
| "accepted (ReqDelete slot p) c = is_ok (fst (sim_delete (c_slots c) slot p))"
| "accepted (ReqBind acct slot p) c = is_ok (fst (mvno_bind (c_registry c) (c_slots c) acct slot p))"
| "accepted (ReqSuspend acct) c = is_ok (fst (mvno_suspend (c_registry c) (c_slots c) acct))"
| "accepted (ReqReactivate acct) c = is_ok (fst (mvno_reactivate (c_registry c) acct))"
| "accepted _ c = True"

fun plainly_answered :: "Request \<Rightarrow> bool" where
  "plainly_answered (ReqInstall slot p v) = True"
| "plainly_answered (ReqEnable slot p) = True"
| "plainly_answered (ReqDisable slot p) = True"
| "plainly_answered (ReqDelete slot p) = True"
| "plainly_answered (ReqBind acct slot p) = True"
| "plainly_answered (ReqSuspend acct) = True"
| "plainly_answered (ReqReactivate acct) = True"
| "plainly_answered _ = False"

definition answer :: "Env \<Rightarrow> World \<Rightarrow> Request \<Rightarrow> u64" where
  "answer E w req = (if authorised E w req \<and> accepted req (w_core w) then 0 else 1)"

lemmas answer_simps = answer_def authority_simps

lemma install_answer: "wp (svc_sim_install E slot p v) (\<lambda>r _. r = answer E w (ReqInstall slot p v)) w"
  unfolding svc_sim_install_def by (intro wp_rules) (auto simp: answer_simps)

lemma enable_answer: "wp (svc_sim_enable E slot p) (\<lambda>r _. r = answer E w (ReqEnable slot p)) w"
  unfolding svc_sim_enable_def by (intro wp_rules) (auto simp: answer_simps)

lemma disable_answer: "wp (svc_sim_disable E slot p) (\<lambda>r _. r = answer E w (ReqDisable slot p)) w"
  unfolding svc_sim_disable_def by (intro wp_rules) (auto simp: answer_simps)

lemma delete_answer: "wp (svc_sim_delete E slot p) (\<lambda>r _. r = answer E w (ReqDelete slot p)) w"
  unfolding svc_sim_delete_def release_binding_after_delete_def by (intro wp_rules) (auto simp: answer_simps)

lemma bind_answer: "wp (svc_mvno_bind E acct slot p) (\<lambda>r _. r = answer E w (ReqBind acct slot p)) w"
  unfolding svc_mvno_bind_def
  by (intro wp_rules) (auto simp: answer_simps bind_authority_Ok dest!: bind_authority_Err)

lemma reactivate_answer: "wp (svc_mvno_reactivate E acct) (\<lambda>r _. r = answer E w (ReqReactivate acct)) w"
  unfolding svc_mvno_reactivate_def by (intro wp_rules) (auto simp: answer_simps)

subsection \<open>A suspension completes\<close>

lemma disable_enabled:
  assumes "slots_wf S" "state_of S (pk_slot k) (pk_profile k) = Some ProfileState.Enabled"
  shows "sim_disable S (pk_slot k) (pk_profile k) = (Ok (), force_disable k S)"
  using sim_move_defined [OF assms(1), of Op.Disable "pk_slot k" "pk_profile k"] assms(2)
  by (cases rule: sim_move_cases [of Op.Disable S "pk_slot k" "pk_profile k"])
    (simp_all add: sim_moves force_disable_def)

lemma force_disable_all_good:
  assumes "slots_wf (c_slots (w_core w))" "distinct ks"
    and "\<And>k. k \<in> set ks \<Longrightarrow> state_of (c_slots (w_core w)) (pk_slot k) (pk_profile k) = Some ProfileState.Enabled"
  shows "fst (run_state (force_disable_all E good ks) w) = good"
  using assms
proof (induction ks arbitrary: w)
  case (Cons k ks)
  let ?S = "c_slots (w_core w)"
  have dis: "sim_disable ?S (pk_slot k) (pk_profile k) = (Ok (), force_disable k ?S)"
    using Cons.prems by (intro disable_enabled) auto
  have ok: "slots_wf (force_disable k ?S)" using Cons.prems(1) by (rule sim_store.disable_ok)
  have still: "state_of (force_disable k ?S) (pk_slot j) (pk_profile j) = Some ProfileState.Enabled" if "j \<in> set ks" for j
  proof -
    have "j \<noteq> k" using that Cons.prems(2) by auto
    then have "\<not> (pk_slot j = pk_slot k \<and> pk_profile j = pk_profile k)" by auto
    then show ?thesis using that Cons.prems(3) [of j] force_disable_state [OF Cons.prems(1)] by auto
  qed
  have "wp (force_disable_all E good (k # ks)) (\<lambda>r _. r = good) w"
    unfolding force_disable_all.simps
  proof (intro wp_bind wp_Let wp_prod wp_on_slots wp_audit_event, goal_cases)
    case (1 r x authorized reason out a)
    then show ?case using dis Cons.IH [of "w\<lparr>w_core := (w_core w)\<lparr>c_slots := x\<rparr>, w_audit := Some a\<rparr>"] ok still Cons.prems(2)
      by (auto simp: wp_def)
  qed
  then show ?case by (simp add: wp_def)
qed simp


lemma wp_suspended:
  assumes inv: "world_inv E w" and ok: "mvno_suspend (c_registry (w_core w)) (c_slots (w_core w)) acct = (Ok ks, r')"
    and w1: "w1 = w\<lparr>w_core := (w_core w)\<lparr>c_registry := r'\<rparr>, w_audit := a, w_marshal := m, w_reads := n\<rparr>"
    and trail: "trail_ok (env_crypto E) w1"
  shows "fst (run_state (force_disable_all E True ks) w1) = True"
    and "w_core (snd (run_state (force_disable_all E True ks) w1)) =
      \<lparr>c_slots = fold force_disable ks (c_slots (w_core w)), c_registry = r', c_data = c_data (w_core w)\<rparr>"
    and "trail_ok (env_crypto E) (snd (run_state (force_disable_all E True ks) w1))"
proof -
  let ?r = "c_registry (w_core w)" and ?S = "c_slots (w_core w)"
  have wf: "reg_wf ?r" and swf: "slots_wf ?S" using inv by (simp_all add: world_inv_def core_inv_def)
  obtain b where b: "apply_change ?r (SetStatus (AccountId acct) AccountStatus.Suspended) (lifecycle_view ?S) = (Ok b, r')"
      "ks = ap_force_disable b"
    using ok by (auto simp: mvno_suspend_Ok)
  have ks: "ks = filter (\<lambda>k. lifecycle_view ?S k = Some ProfileLifecycle.Enabled) (profiles_of ?r (AccountId acct))"
    using apply_change_forced [OF b(1)] b(2) by simp
  have "distinct (profiles_of ?r (AccountId acct))"
    using wf by (auto simp: reg_wf_def profiles_of_def intro: distinct_map_filter)
  then show "fst (run_state (force_disable_all E True ks) w1) = True"
    using swf by (intro force_disable_all_good) (auto simp: w1 ks view_Enabled)
  have "wp (force_disable_all E True ks) (\<lambda>_ w'. w_core w' =
      \<lparr>c_slots = fold force_disable ks ?S, c_registry = r', c_data = c_data (w_core w)\<rparr>) w1"
    by (intro wp_force_disable_all) (simp add: w1)
  then show "w_core (snd (run_state (force_disable_all E True ks) w1)) =
      \<lparr>c_slots = fold force_disable ks ?S, c_registry = r', c_data = c_data (w_core w)\<rparr>"
    by (simp add: wp_def)
  show "trail_ok (env_crypto E) (snd (run_state (force_disable_all E True ks) w1))"
    using keeps_force_disable [of E True ks] trail by (simp add: keeps_def)
qed

lemma core_inv_no_leak: "core_inv c \<Longrightarrow> mvno_audit (c_registry c) (c_slots c) = []"
  unfolding core_inv_def mvno_audit_def
  by (subst audit_empty_iff) (auto simp: view_Enabled coupled_def, metis mvno_key_collapse option.inject)

lemma wp_summary_ok:
  assumes "trail_ok (env_crypto E) w" "\<And>n. Q (n, True) w"
  shows "wp (audit_chain_summary E) Q w"
  using assms audit_verify_iff [of "env_crypto E"]
  by (auto simp: wp_def audit_chain_summary_def view_def trail_ok_def split: option.splits)

lemma suspend_account_answer:
  assumes inv: "world_inv E w" and w0: "w0 = w\<lparr>w_reads := n, w_marshal := m\<rparr>"
  shows "wp (suspend_account E acct verdict) (\<lambda>r _. r = (if accepted (ReqSuspend acct) (w_core w) then 0 else 1)) w0"
proof -
  let ?T = "trail_ok (env_crypto E)"
  have t0: "?T w0" using inv by (simp add: w0 world_inv_def trail_ok_def)
  have closing: "wp (do { closed \<leftarrow> on_data (\<lambda>d. close_sessions_for_account d acct);
         audit_closed_sessions E closed ''MVNO suspend'';
         leaked \<leftarrow> view_core (\<lambda>c. mvno_audit (c_registry c) (c_slots c));
         (entries, chain_ok) \<leftarrow> audit_chain_summary E;
         State_Monad.return (if True \<and> leaked = [] \<and> chain_ok then 0 else 1) }) (\<lambda>r _. r = (0 :: u64)) w2"
    if t2: "?T w2" and leak: "mvno_audit (c_registry (w_core w2)) (c_slots (w_core w2)) = []" for w2
  proof (intro wp_bind wp_on_data, goal_cases)
    case (1 rows d)
    let ?w3 = "w2\<lparr>w_core := (w_core w2)\<lparr>c_data := d\<rparr>\<rparr>"
    have "?T ?w3" using t2 by (simp add: trail_ok_def)
    then show ?case
      by (rule wp_keeps [OF _ keeps_closed_sessions])
        (intro wp_audit_closed_sessions impI wp_bind wp_view_core wp_summary_ok wp_prod wp_return; auto simp: leak)
  qed
  show ?thesis
    unfolding suspend_account_def
  proof (intro wp_bind wp_view_core wp_on_registry wp_Let wp_prod, goal_cases)
    case (1 res r' authorized reason)
    then have sus: "mvno_suspend (c_registry (w_core w)) (c_slots (w_core w)) acct = (res, r')" by (simp add: w0)
    have t1: "?T (w0\<lparr>w_core := (w_core w0)\<lparr>c_registry := r'\<rparr>\<rparr>)" using t0 by (simp add: trail_ok_def)
    show ?case
    proof (rule wp_keeps [OF t1 keeps_audit_event [OF plain_resources(4)]], intro wp_audit_event impI wp_result wp_return, goal_cases)
      case (1 out a ks)
      let ?w1 = "w0\<lparr>w_core := (w_core w0)\<lparr>c_registry := r'\<rparr>, w_audit := Some a\<rparr>"
      have w1: "?w1 = w\<lparr>w_core := (w_core w)\<lparr>c_registry := r'\<rparr>, w_audit := Some a, w_marshal := m, w_reads := n\<rparr>"
        by (simp add: w0)
      note forced = wp_suspended [OF inv sus [unfolded 1(2)] w1 1(1)]
      have "core_inv (suspend_effect acct (w_core w))" using inv by (simp add: inv_suspend world_inv_def)
      then have "mvno_audit r' (fold force_disable ks (c_slots (w_core w))) = []"
        using core_inv_no_leak [of "suspend_effect acct (w_core w)"] by (simp add: suspend_effect_def sus 1(2))
      then show ?case
        using closing [OF forced(3)] forced(1,2) sus 1(2) by (simp add: wp_bind wp_def [of "force_disable_all E True ks"])
    next
      case (2 out a e)
      then show ?case using sus by simp
    qed
  qed
qed

lemma suspend_answer:
  assumes "world_inv E w"
  shows "wp (svc_mvno_suspend E acct) (\<lambda>r _. r = answer E w (ReqSuspend acct)) w"
  unfolding svc_mvno_suspend_def
proof (intro wp_bind wp_check wp_result wp_marshal_gate wp_audit_capability_denial wp_return, goal_cases)
  case (1 u out m outcome)
  have "wp (suspend_account E acct (verdict_text outcome))
      (\<lambda>r _. r = (if accepted (ReqSuspend acct) (w_core w) then 0 else 1)) (w\<lparr>w_reads := w_reads w + 1, w_marshal := m\<rparr>)"
    by (rule suspend_account_answer [OF assms refl])
  moreover have "answer E w (ReqSuspend acct) = (if accepted (ReqSuspend acct) (w_core w) then 0 else 1)"
    using 1 by (simp add: answer_simps)
  ultimately show ?case using 1 by simp
qed (auto simp: answer_simps)

subsection \<open>A refusal changes nothing\<close>

lemma refused_effect:
  assumes "core_inv c" "plainly_answered req" "\<not> accepted req c"
  shows "effect freq req tick c = c"
proof -
  have swf: "slots_wf (c_slots c)" using assms(1) by (simp add: core_inv_def)
  show ?thesis
  proof (cases req)
    case (ReqInstall slot p v)
    then show ?thesis using assms(3) by (cases rule: sim_install_cases [OF swf, of slot p v]) simp_all
  next
    case (ReqEnable slot p)
    then show ?thesis using assms(3)
      by (cases rule: sim_move_cases [of Op.Enable "c_slots c" slot p]) (simp_all add: sim_moves)
  next
    case (ReqDisable slot p)
    then show ?thesis using assms(3)
      by (cases rule: sim_move_cases [of Op.Disable "c_slots c" slot p]) (simp_all add: sim_moves disable_effect_def)
  next
    case (ReqDelete slot p)
    then show ?thesis using assms(3)
      by (cases rule: sim_move_cases [of Op.Delete "c_slots c" slot p]) (simp_all add: sim_moves delete_effect_def)
  next
    case (ReqBind acct slot p)
    then show ?thesis using assms(3)
      by (cases rule: result_state_cases [of "apply_change (c_registry c) (Bind (AccountId acct) (mvno_key slot p)) (lifecycle_view (c_slots c))"])
        (auto simp: mvno_bind_def bind_profile_def simp del: apply_change.simps dest: apply_change_Err_same)
  next
    case (ReqSuspend acct)
    then show ?thesis using assms(3)
      by (cases rule: result_state_cases [of "mvno_suspend (c_registry c) (c_slots c) acct"])
        (auto simp: suspend_effect_def dest: suspend_Err_same)
  next
    case (ReqReactivate acct)
    then show ?thesis using assms(3)
      by (cases rule: result_state_cases [of "apply_change (c_registry c) (SetStatus (AccountId acct) AccountStatus.Active) no_lifecycle"])
        (auto simp: mvno_reactivate_def reactivate_def simp del: apply_change.simps dest: apply_change_Err_same)
  qed (use assms(2) in simp_all)
qed


subsection \<open>The answer of the dispatcher\<close>

lemma dispatch_answer:
  assumes inv: "world_inv E w" and req: "request_of num a1 a2 a3 = Some req" "plainly_answered req"
  shows "fst (run_state (dispatch E num a1 a2 a3) w) = ToEl0 (answer E w req)"
proof -
  have "wp (dispatch E num a1 a2 a3) (\<lambda>r _. r = ToEl0 (answer E w req)) w"
    using req
    by (auto simp: request_of_def dispatch_def sys_numbers suspend_answer [OF inv] install_answer enable_answer
        disable_answer delete_answer bind_answer reactivate_answer intro!: wp_to_el0 split: if_splits option.splits bool.splits)
  then show ?thesis by (simp add: wp_def)
qed

lemma suspend_accepted_iff:
  assumes "core_inv c"
  shows "accepted (ReqSuspend acct) c \<longleftrightarrow> standing (c_registry c) acct = Some AccountStatus.Active"
proof -
  let ?r = "c_registry c" and ?lc = "lifecycle_view (c_slots c)"
  let ?ch = "SetStatus (AccountId acct) AccountStatus.Suspended"
  have known: "?lc k \<noteq> None" if "k \<in> set (profiles_of ?r (AccountId acct))" for k
  proof -
    have "distinct (map fst (reg_bindings ?r))" using assms by (simp add: core_inv_def reg_wf_def)
    then have "owner_of ?r k = Some (AccountId acct)"
      using that by (auto simp: profiles_of_def owner_of_map_of)
    then have "state_of (c_slots c) (pk_slot k) (pk_profile k) \<noteq> None"
      using assms unfolding core_inv_def coupled_def by (metis mvno_key_collapse option.distinct(1))
    then show ?thesis by (simp add: lifecycle_view_state)
  qed
  have "accepted (ReqSuspend acct) c \<longleftrightarrow> is_ok (fst (apply_change ?r ?ch ?lc))"
    by (cases rule: result_state_cases [of "apply_change ?r ?ch ?lc"])
      (simp_all add: mvno_suspend_def suspend_def Let_def del: apply_change.simps)
  also have "\<dots> \<longleftrightarrow> accepts ?r ?ch ?lc" by (rule apply_change_accepts)
  also have "\<dots> \<longleftrightarrow> standing ?r acct = Some AccountStatus.Active"
    using known by (auto simp: standing_def status_of_def split: option.splits elim: legal_status.elims)
  finally show ?thesis .
qed

subsection \<open>The answer of a session request\<close>

lemma record_session_present:
  assumes "fst (record_session s x) \<noteq> SessionRecorded.TableFull"
  shows "x \<in> set (sessions (snd (record_session s x)))"
proof (cases "find (same_session (ds_account x) (ds_slot x) (ds_profile x)) (sessions s)")
  case None
  then show ?thesis using assms by (auto simp: record_session_def split: if_splits)
next
  case (Some y)
  then have "ds_roaming_update (\<lambda>_. ds_roaming x) y = x"
    by (auto simp: same_session_def dest!: find_Some_set intro!: DataSession.equality)
  moreover have "find P xs = Some y \<Longrightarrow> f y \<in> set (update_first P f xs)" for P f and xs :: "DataSession list"
    by (induction xs) (auto split: if_splits)
  ultimately show ?thesis using Some by (simp add: record_session_def) metis
qed

lemma record_session_full:
  "fst (record_session s x) = SessionRecorded.TableFull \<Longrightarrow> snd (record_session s x) = s"
  by (auto simp: record_session_def split: option.splits if_splits)

definition session_answer :: "u64 \<Rightarrow> usize \<Rightarrow> u64 \<Rightarrow> World \<Rightarrow> u64 \<Rightarrow> World \<Rightarrow> bool" where
  "session_answer acct slot packed w code w' \<longleftrightarrow>
     (if code = SESSION_ALLOW \<or> code = SESSION_ALLOW_THROTTLED
      then case unpack_profile_roaming packed of
          None \<Rightarrow> False
        | Some (p, roaming) \<Rightarrow>
            \<lparr>ds_account = acct, ds_slot = slot, ds_profile = p, ds_roaming = roaming\<rparr> \<in> set (sessions (c_data (w_core w')))
      else w_core w' = w_core w)"

lemmas session_codes =
  SESSION_ALLOW_def SESSION_ALLOW_THROTTLED_def SESSION_DENY_ACCOUNT_SUSPENDED_def SESSION_DENY_ACCOUNT_CLOSED_def
  SESSION_DENY_PROFILE_NOT_ENABLED_def SESSION_DENY_ROAMING_NOT_ALLOWED_def SESSION_DENY_CAP_EXCEEDED_def
  SESSION_REFUSED_CAPABILITY_def SESSION_REFUSED_NO_ENTITLEMENT_def SESSION_REFUSED_NO_SUCH_ACCOUNT_def
  SESSION_REFUSED_PROFILE_NOT_BOUND_def SESSION_REFUSED_UNKNOWN_PROFILE_def SESSION_REFUSED_BAD_ARGUMENT_def
  SESSION_FAILED_TABLE_FULL_def

lemma deny_code: "session_decision_code (SessionDecision.Deny r) \<noteq> SESSION_ALLOW \<and>
   session_decision_code (SessionDecision.Deny r) \<noteq> SESSION_ALLOW_THROTTLED"
  by (cases r) (simp_all add: session_codes)

lemma denied_same:
  "decide_and_open d acct slot p roaming st lc e = (out, d') \<Longrightarrow>
   pdr_decision (oo_record out) = SessionDecision.Deny r \<Longrightarrow> d' = d"
  by (cases rule: decide_and_open_cases [of d acct slot p roaming st lc e]) simp_all

lemma allowed_present:
  assumes out: "decide_and_open d acct slot p roaming st lc e = (out, d')"
    and "pdr_decision (oo_record out) = SessionDecision.Allow \<or> pdr_decision (oo_record out) = SessionDecision.AllowThrottled"
  shows "oo_recorded out = SessionRecorded.TableFull \<Longrightarrow> d' = d"
    and "oo_recorded out \<noteq> SessionRecorded.TableFull \<Longrightarrow>
      \<lparr>ds_account = acct, ds_slot = slot, ds_profile = p, ds_roaming = roaming\<rparr> \<in> set (sessions d')"
proof -
  let ?x = "\<lparr>ds_account = acct, ds_slot = slot, ds_profile = p, ds_roaming = roaming\<rparr>"
  have d': "d' = snd (record_session d ?x)" and rec: "oo_recorded out = fst (record_session d ?x)"
    using assms by (cases rule: decide_and_open_cases [of d acct slot p roaming st lc e], auto)+
  show "oo_recorded out = SessionRecorded.TableFull \<Longrightarrow> d' = d" using record_session_full d' rec by simp
  show "oo_recorded out \<noteq> SessionRecorded.TableFull \<Longrightarrow> ?x \<in> set (sessions d')"
    using record_session_present d' rec by simp
qed

lemma open_answer: "wp (data_session_open E acct slot packed) (session_answer acct slot packed w) w"
  unfolding data_session_open_def session_outcome_def
  by (intro wp_rules) (auto simp: session_answer_def session_codes deny_code [unfolded session_codes] dest: denied_same allowed_present)


end
