(* ===== verification/Drift.thy ===== *)
theory Drift
  imports Governance
begin

text \<open>
  What the reconciler can find.  The snapshot it is given shows every profile of the slots once and
  every account once; under the invariant of \<open>Governance\<close> most of the findings it looks for
  cannot arise from the kernel's own operations, and what remains is named.
\<close>

subsection \<open>The snapshot\<close>

definition row_of :: "AccountRegistry \<Rightarrow> usize \<Rightarrow> u8 \<Rightarrow> ProfileState \<Rightarrow> ProfileRow" where
  "row_of reg slot p st =
     \<lparr>row_slot = slot, row_profile = p, row_state = st, row_owner = mvno_owner_of reg slot p\<rparr>"

lemma profile_rows_upt:
  assumes "length S \<le> b" "b \<le> 2 ^ 64"
  shows "profile_rows reg S [a..<b] =
    concat (map (\<lambda>slot. map (profile_row reg (of_nat slot)) (profiles (S ! slot))) [a..<length S])"
  using assms
proof (induction "b - a" arbitrary: a)
  case (Suc n)
  then have ab: "[a..<b] = a # [Suc a..<b]" and small: "unat (of_nat a :: usize) = a"
    by (auto simp: upt_conv_Cons unat_of_nat_lt)
  show ?case
  proof (cases "a < length S")
    case True
    then show ?thesis using Suc(1) [of "Suc a"] Suc(2-) by (simp add: ab small sim_profiles_def upt_conv_Cons)
  next
    case False
    then show ?thesis by (simp add: ab small sim_profiles_def)
  qed
qed simp

lemma profile_rows_all:
  assumes "slots_wf S"
  shows "profile_rows reg S [0..<MAX_SLOT_SCAN] =
    concat (map (\<lambda>slot. map (profile_row reg (of_nat slot)) (profiles (S ! slot))) [0..<length S])"
  using assms by (intro profile_rows_upt) (simp_all add: slots_wf_def SLOT_COUNT_def MAX_SLOT_SCAN_def)

lemma slot_view_iff:
  assumes "slot_wf s"
  shows "(\<exists>x\<in>set (profiles s). ep_id x = p \<and> ep_state x = st) \<longleftrightarrow> slot_view s p = Some st"
proof -
  have len: "length (profiles s) \<le> 4" and ids: "\<forall>i<length (profiles s). ep_id (profiles s ! i) = of_nat i"
    using assms by (auto simp: slot_wf_def MAX_PROFILES_PER_SLOT_def)
  have key: "unat (of_nat i :: u8) = i" if "i < length (profiles s)" for i
    using that len by (simp add: unat_of_nat_lt)
  show ?thesis
  proof
    assume "\<exists>x\<in>set (profiles s). ep_id x = p \<and> ep_state x = st"
    then obtain i where "i < length (profiles s)" "ep_id (profiles s ! i) = p" "ep_state (profiles s ! i) = st"
      by (auto simp: in_set_conv_nth)
    moreover from this have "unat p = i" using ids key by metis
    ultimately show "slot_view s p = Some st" by (simp add: slot_view_wf [OF assms])
  next
    assume "slot_view s p = Some st"
    then have "unat p < length (profiles s)" "ep_state (profiles s ! unat p) = st"
      by (auto simp: slot_view_wf [OF assms] split: if_splits)
    then show "\<exists>x\<in>set (profiles s). ep_id x = p \<and> ep_state x = st"
      using ids by (intro bexI [of _ "profiles s ! unat p"]) simp_all
  qed
qed

lemma snapshot_rows:
  assumes wf: "slots_wf S"
  shows "set (profile_rows reg S [0..<MAX_SLOT_SCAN]) = {row_of reg slot p st | slot p st. state_of S slot p = Some st}"
proof -
  have len: "length S = 4" using wf by (simp add: slots_wf_def SLOT_COUNT_def)
  have swf: "slot_wf (S ! n)" if "n < 4" for n using wf that len by (simp add: slots_wf_def)
  have row: "profile_row reg slot x = row_of reg slot (ep_id x) (ep_state x)" for slot x
    by (simp add: profile_row_def row_of_def)
  have "r \<in> set (profile_rows reg S [0..<MAX_SLOT_SCAN]) \<longleftrightarrow>
      (\<exists>n<4. \<exists>x\<in>set (profiles (S ! n)). r = row_of reg (of_nat n) (ep_id x) (ep_state x))" for r
    unfolding profile_rows_all [OF wf] by (auto simp: len row)
  moreover have "(\<exists>x\<in>set (profiles (S ! n)). r = row_of reg slot (ep_id x) (ep_state x)) \<longleftrightarrow>
      (\<exists>p st. slot_view (S ! n) p = Some st \<and> r = row_of reg slot p st)" if "n < 4" for r slot n
    by (auto simp: slot_view_iff [OF swf [OF that], symmetric])
  moreover have "state_of S (of_nat n) = slot_view (S ! n)" if "n < 4" for n
    using that len by (simp add: fun_eq_iff state_of_slot unat_of_nat_lt)
  moreover have "\<exists>n<4. slot = of_nat n" if "state_of S slot p = Some st" for slot p st
    using that len by (intro exI [of _ "unat slot"]) (auto simp: state_of_slot split: if_splits)
  ultimately have "r \<in> set (profile_rows reg S [0..<MAX_SLOT_SCAN]) \<longleftrightarrow>
      (\<exists>slot p st. r = row_of reg slot p st \<and> state_of S slot p = Some st)" for r
    by (metis (no_types, lifting))
  then show ?thesis by blast
qed


lemma snapshot_keys_distinct:
  assumes wf: "slots_wf S"
  shows "distinct (map (\<lambda>r. (row_slot r, row_profile r)) (profile_rows reg S [0..<MAX_SLOT_SCAN]))"
proof -
  have len: "length S = 4" using wf by (simp add: slots_wf_def SLOT_COUNT_def)
  have ids: "distinct (map ep_id (profiles (S ! n)))" if "n < 4" for n
  proof -
    have s: "slot_wf (S ! n)" using wf that len by (simp add: slots_wf_def)
    then have "length (profiles (S ! n)) \<le> 4" by (simp add: slot_wf_def MAX_PROFILES_PER_SLOT_def)
    moreover have "map ep_id (profiles (S ! n)) = map of_nat [0..<length (profiles (S ! n))]"
      using s by (intro nth_equalityI) (auto simp: slot_wf_def)
    ultimately show ?thesis by (simp add: distinct_map inj_on_def word_of_nat_inj_lt)
  qed
  have "distinct (map (\<lambda>r. (row_slot r, row_profile r))
      (concat (map (\<lambda>slot. map (profile_row reg (of_nat slot)) (profiles (S ! slot))) [0..<n])))" if "n \<le> 4" for n
    using that
  proof (induction n)
    case (Suc n)
    have other: "(of_nat k :: usize) \<noteq> of_nat n" if "k < n" for k
      using that Suc.prems word_of_nat_inj_lt [where 'a = 64, of k n] by auto
    have "distinct (map (\<lambda>x. (of_nat n :: usize, ep_id x)) (profiles (S ! n)))"
      using ids [of n] Suc.prems by (auto simp: distinct_map inj_on_def)
    then show ?case using Suc other by (auto simp: profile_row_def comp_def)
  qed simp
  from this [of 4] show ?thesis unfolding profile_rows_all [OF wf] len by simp
qed


definition observed_of :: "Core \<Rightarrow> Observed" where
  "observed_of c = fst (snapshot_for_reconcile (c_registry c) (c_slots c) (c_data c))"

lemma observed_profiles:
  "ob_profiles (observed_of c) = map observed_profile (profile_rows (c_registry c) (c_slots c) [0..<MAX_SLOT_SCAN])"
  by (simp add: observed_of_def snapshot_for_reconcile_def data_snapshot_def build_observed_def Let_def)

lemma observed_accounts:
  "ob_accounts (observed_of c) =
     map (observed_account (usage_rows (c_data c)) demo_entitlement) (mvno_accounts (c_registry c))"
  by (simp add: observed_of_def snapshot_for_reconcile_def data_snapshot_def build_observed_def Let_def)

lemma observed_sessions:
  "ob_sessions (observed_of c) = map (observed_session demo_entitlement) (sessions (c_data c))"
  by (simp add: observed_of_def snapshot_for_reconcile_def data_snapshot_def build_observed_def Let_def)

lemma observed_profile_iff:
  assumes "slots_wf (c_slots c)"
  shows "q \<in> set (ob_profiles (observed_of c)) \<longleftrightarrow>
    (\<exists>st. state_of (c_slots c) (opr_slot q) (opr_profile q) = Some st \<and>
          opr_lifecycle q = lifecycle_for_reconcile st \<and>
          opr_owner q = mvno_owner_of (c_registry c) (opr_slot q) (opr_profile q))"
proof -
  have fields: "opr_slot (observed_profile (row_of r slot p st)) = slot"
    "opr_profile (observed_profile (row_of r slot p st)) = p"
    "opr_lifecycle (observed_profile (row_of r slot p st)) = lifecycle_for_reconcile st"
    "opr_owner (observed_profile (row_of r slot p st)) = mvno_owner_of r slot p" for r slot p st
    by (simp_all add: observed_profile_def row_of_def)
  have built: "q = observed_profile (row_of (c_registry c) (opr_slot q) (opr_profile q) st)"
    if "opr_lifecycle q = lifecycle_for_reconcile st" "opr_owner q = mvno_owner_of (c_registry c) (opr_slot q) (opr_profile q)" for st
    using that by (simp add: observed_profile_def row_of_def)
  have q: "q \<in> set (ob_profiles (observed_of c)) \<longleftrightarrow>
      (\<exists>slot p st. state_of (c_slots c) slot p = Some st \<and> q = observed_profile (row_of (c_registry c) slot p st))"
    unfolding observed_profiles set_map snapshot_rows [OF assms] by blast
  show ?thesis
  proof
    assume "q \<in> set (ob_profiles (observed_of c))"
    then obtain slot p st where "state_of (c_slots c) slot p = Some st" "q = observed_profile (row_of (c_registry c) slot p st)"
      using q by blast
    then show "\<exists>st. state_of (c_slots c) (opr_slot q) (opr_profile q) = Some st \<and>
          opr_lifecycle q = lifecycle_for_reconcile st \<and>
          opr_owner q = mvno_owner_of (c_registry c) (opr_slot q) (opr_profile q)"
      by (simp only: fields) blast
  next
    assume "\<exists>st. state_of (c_slots c) (opr_slot q) (opr_profile q) = Some st \<and>
          opr_lifecycle q = lifecycle_for_reconcile st \<and>
          opr_owner q = mvno_owner_of (c_registry c) (opr_slot q) (opr_profile q)"
    then show "q \<in> set (ob_profiles (observed_of c))" using q built by blast
  qed
qed

lemma account_ids_distinct:
  assumes "reg_wf r"
  shows "distinct (map acct_id (reg_accounts r))"
proof -
  have "length (reg_accounts r) \<le> 16" and ids: "map acct_id (reg_accounts r) = map (\<lambda>n. AccountId (of_nat n)) [0..<length (reg_accounts r)]"
    using assms by (simp_all add: reg_wf_def MAX_ACCOUNTS_def)
  then show ?thesis unfolding ids by (auto simp: distinct_map inj_on_def word_of_nat_inj_lt)
qed

lemma observed_account_iff:
  assumes "reg_wf (c_registry c)"
  shows "a \<in> set (ob_accounts (observed_of c)) \<longleftrightarrow>
    (\<exists>st. status_of (c_registry c) (AccountId (oa_id a)) = Some st \<and>
          a = observed_account (usage_rows (c_data c)) demo_entitlement (oa_id a, st))"
proof -
  have "(i, st) \<in> set (mvno_accounts (c_registry c)) \<longleftrightarrow> status_of (c_registry c) (AccountId i) = Some st" for i st
  proof -
    have "account (c_registry c) j = Some x \<longleftrightarrow> x \<in> set (reg_accounts (c_registry c)) \<and> acct_id x = j" for j x
      unfolding account_def using find_Some_set find_distinct_key [OF account_ids_distinct [OF assms]] by fast
    then show ?thesis
      by (auto simp: mvno_accounts_def status_of_def image_iff) (metis AccountId.collapse AccountId.sel)+
  qed
  moreover have "oa_id (observed_account u e (i, st)) = i" for u e i st
    by (simp add: observed_account_def Let_def)
  ultimately show ?thesis
    unfolding observed_accounts by (auto simp: image_iff)
qed


subsection \<open>What the invariant excludes\<close>

lemma count_list_distinct: "distinct xs \<Longrightarrow> count_list xs x \<le> 1"
  by (induction xs) (auto simp: count_list_0_iff)

lemma observed_accounts_distinct:
  assumes "reg_wf (c_registry c)"
  shows "distinct (map oa_id (ob_accounts (observed_of c)))"
proof -
  have "map oa_id (ob_accounts (observed_of c)) = map account_no (map acct_id (reg_accounts (c_registry c)))"
    by (simp add: observed_accounts mvno_accounts_def observed_account_def Let_def comp_def)
  moreover have "inj account_no" by (rule injI) (metis AccountId.collapse)
  ultimately show ?thesis using account_ids_distinct [OF assms]
    by (simp only: distinct_map [of account_no]) (auto intro: inj_on_subset)
qed

lemma observed_profiles_distinct:
  assumes "slots_wf (c_slots c)"
  shows "distinct (map profile_key (ob_profiles (observed_of c)))"
  using snapshot_keys_distinct [OF assms, of "c_registry c"]
  by (simp add: observed_profiles profile_key_def observed_profile_def comp_def)

lemma snapshot_length:
  assumes "slots_wf S"
  shows "length (profile_rows reg S [0..<MAX_SLOT_SCAN]) \<le> 16"
proof -
  have len: "length S = 4" using assms by (simp add: slots_wf_def SLOT_COUNT_def)
  have few: "length (profiles (S ! n)) \<le> 4" if "n < 4" for n
    using assms that len by (simp add: slots_wf_def slot_wf_def MAX_PROFILES_PER_SLOT_def SLOT_COUNT_def)
  have "length (concat (map (\<lambda>slot. map (profile_row reg (of_nat slot)) (profiles (S ! slot))) [0..<n])) \<le> 4 * n"
    if "n \<le> 4" for n
    using that
  proof (induction n)
    case (Suc n)
    then show ?case using few [of n] by simp
  qed simp
  from this [of 4] show ?thesis unfolding profile_rows_all [OF assms] len by simp
qed

lemma observed_within_bounds:
  assumes "core_inv c"
  shows "within_bounds (observed_of c)"
proof -
  have "slots_wf (c_slots c)" "length (reg_accounts (c_registry c)) \<le> 16" "length (sessions (c_data c)) \<le> 16"
    using assms by (auto simp: core_inv_def reg_wf_def data_wf_def table_ok_def MAX_ACCOUNTS_def MAX_DATA_SESSIONS_def)
  then show ?thesis using snapshot_length [of "c_slots c" "c_registry c"]
    by (simp add: within_bounds_def observed_accounts observed_profiles observed_sessions mvno_accounts_def
        RECONCILE_MAX_ACCOUNTS_def RECONCILE_MAX_PROFILES_def RECONCILE_MAX_SESSIONS_def)
qed

lemma observed_enabled_active:
  assumes "core_inv c" "q \<in> set (ob_profiles (observed_of c))" "opr_lifecycle q = ReconcileProfile.Enabled"
  shows "\<exists>i. opr_owner q = Some i \<and> status_of (c_registry c) (AccountId i) = Some AccountStatus.Active"
proof -
  have wf: "slots_wf (c_slots c)" using assms(1) by (simp add: core_inv_def)
  obtain st where st: "state_of (c_slots c) (opr_slot q) (opr_profile q) = Some st" "opr_lifecycle q = lifecycle_for_reconcile st"
    "opr_owner q = mvno_owner_of (c_registry c) (opr_slot q) (opr_profile q)"
    using assms(2) unfolding observed_profile_iff [OF wf] by blast
  then have "st = ProfileState.Enabled" using assms(3) by (cases st) simp_all
  then obtain i where "owner_of (c_registry c) (mvno_key (opr_slot q) (opr_profile q)) = Some i"
    "status_of (c_registry c) i = Some AccountStatus.Active"
    using assms(1) st(1) unfolding core_inv_def coupled_def by blast
  then show ?thesis using st(3) by (cases i) (simp add: mvno_owner_of_def)
qed

lemma observed_owner_known:
  assumes "core_inv c" "q \<in> set (ob_profiles (observed_of c))" "opr_owner q = Some i"
  shows "\<exists>a\<in>set (ob_accounts (observed_of c)). oa_id a = i"
proof -
  have wf: "slots_wf (c_slots c)" and rwf: "reg_wf (c_registry c)" using assms(1) by (simp_all add: core_inv_def)
  have "owner_of (c_registry c) (mvno_key (opr_slot q) (opr_profile q)) = Some (AccountId i)"
    using assms(2,3) unfolding observed_profile_iff [OF wf]
    by (cases "owner_of (c_registry c) (mvno_key (opr_slot q) (opr_profile q))") (auto simp: mvno_owner_of_def)
  then have "status_of (c_registry c) (AccountId i) \<noteq> None"
    using rwf by (auto simp: reg_wf_def owner_of_map_of status_of_def dest!: map_of_SomeD)
  then obtain st where "status_of (c_registry c) (AccountId i) = Some st" by blast
  then have "observed_account (usage_rows (c_data c)) demo_entitlement (i, st) \<in> set (ob_accounts (observed_of c))"
    unfolding observed_account_iff [OF rwf] by (simp add: observed_account_def Let_def)
  then show ?thesis by (rule rev_bexI) (simp add: observed_account_def Let_def)
qed

lemma observed_standing:
  assumes "core_inv c" "a \<in> set (ob_accounts (observed_of c))"
    and "status_of (c_registry c) (AccountId (oa_id a)) = Some st"
  shows "oa_standing a = standing_for_reconcile st"
proof -
  have rwf: "reg_wf (c_registry c)" using assms(1) by (simp add: core_inv_def)
  from assms(2) have "a = observed_account (usage_rows (c_data c)) demo_entitlement (oa_id a, st)"
    unfolding observed_account_iff [OF rwf] using assms(3) by auto
  then have "oa_standing a = oa_standing (observed_account (usage_rows (c_data c)) demo_entitlement (oa_id a, st))"
    by (rule arg_cong)
  then show ?thesis by (simp add: observed_account_def Let_def)
qed

lemma observed_usage_remembered:
  assumes "core_inv c" "a \<in> set (ob_accounts (observed_of c))" "oa_last_used_bytes a = Some prev"
  shows "prev \<le> oa_used_bytes a"
proof -
  obtain k st where a: "a = observed_account (usage_rows (c_data c)) demo_entitlement (k, st)"
    using assms(2) by (auto simp: observed_accounts)
  then obtain u where "find (\<lambda>u. ue_account u = k) (usage_rows (c_data c)) = Some u" "ue_last_used u = Some prev"
    "oa_used_bytes a = used_bytes (ue_usage u)"
    using assms(3) by (auto simp: observed_account_def Let_def bind_eq_Some_conv)
  moreover from this have "usage_remembered u"
    using assms(1) by (auto simp: core_inv_def list_all_iff dest!: find_Some_set)
  ultimately show ?thesis by (simp add: usage_remembered_def)
qed

lemma observed_session_grounded:
  assumes "core_inv c" "s \<in> set (ob_sessions (observed_of c))"
  shows "\<not> os_roaming s" "owner_of (c_registry c) (mvno_key (os_slot s) (os_profile s)) = Some (AccountId (os_account s))"
    "state_of (c_slots c) (os_slot s) (os_profile s) \<in> {Some ProfileState.Enabled, Some ProfileState.Disabled}"
proof -
  obtain x where x: "x \<in> set (sessions (c_data c))" "s = observed_session demo_entitlement x"
    using assms(2) by (auto simp: observed_sessions)
  then have "session_grounded (state_of (c_slots c)) (owner_of (c_registry c)) (status_of (c_registry c)) x"
    using assms(1) by (simp add: core_inv_def coupled_def)
  then show "\<not> os_roaming s" "owner_of (c_registry c) (mvno_key (os_slot s) (os_profile s)) = Some (AccountId (os_account s))"
    "state_of (c_slots c) (os_slot s) (os_profile s) \<in> {Some ProfileState.Enabled, Some ProfileState.Disabled}"
    by (simp_all add: x(2) observed_session_def session_grounded_def key_of_def)
qed


lemma one_profile_mem: "one_profile ob q \<Longrightarrow> q \<in> set (ob_profiles ob)"
  by (simp add: one_profile_def)

lemma one_account_mem: "one_account ob a \<Longrightarrow> a \<in> set (ob_accounts ob)"
  by (simp add: one_account_def)

lemma enabled_unique:
  assumes "slots_wf S" "state_of S slot p = Some ProfileState.Enabled" "state_of S slot q = Some ProfileState.Enabled"
  shows "p = q"
proof -
  from assms have "unat slot < length S" by (auto simp: state_of_slot split: if_splits)
  then have wf: "slot_wf (S ! unat slot)" using assms(1) by (simp add: slots_wf_def)
  have "unat p = unat q"
    using assms(2,3) wf \<open>unat slot < length S\<close>
    by (simp add: state_of_slot slot_view_wf [OF wf] split: if_splits) (simp add: slot_wf_def)
  then show ?thesis by (simp add: word_unat_eq_iff)
qed

lemma observed_enabled_unique:
  assumes "core_inv c"
  shows "card {q. one_profile (observed_of c) q \<and> opr_slot q = slot \<and> opr_lifecycle q = ReconcileProfile.Enabled} \<le> 1"
proof (rule card_le_Suc0_iff_eq [THEN iffD2, unfolded One_nat_def [symmetric]])
  have wf: "slots_wf (c_slots c)" using assms by (simp add: core_inv_def)
  have up: "ReconcileProfile.Enabled = lifecycle_for_reconcile st \<Longrightarrow> st = ProfileState.Enabled" for st by (cases st) simp_all
  let ?X = "{q. one_profile (observed_of c) q \<and> opr_slot q = slot \<and> opr_lifecycle q = ReconcileProfile.Enabled}"
  show "finite ?X" by (rule finite_subset [of _ "set (ob_profiles (observed_of c))"]) (auto dest: one_profile_mem)
  show "\<forall>x\<in>?X. \<forall>y\<in>?X. x = y"
  proof (intro ballI)
    fix x y assume "x \<in> ?X" "y \<in> ?X"
    then have "opr_slot x = slot" "state_of (c_slots c) slot (opr_profile x) = Some ProfileState.Enabled"
      "opr_slot y = slot" "state_of (c_slots c) slot (opr_profile y) = Some ProfileState.Enabled"
      "opr_owner x = mvno_owner_of (c_registry c) slot (opr_profile x)" "opr_owner y = mvno_owner_of (c_registry c) slot (opr_profile y)"
      "opr_lifecycle x = opr_lifecycle y"
      by (auto dest!: one_profile_mem up simp: observed_profile_iff [OF wf])
    moreover from this have "opr_profile x = opr_profile y" using enabled_unique [OF wf] by blast
    ultimately show "x = y" by (intro ObservedProfile.equality) simp_all
  qed
qed

definition expected_drift :: "Incident \<Rightarrow> bool" where
  "expected_drift i \<longleftrightarrow>
     in_kind i = UsageOverCapNotRestricted \<or> in_kind i = AnomalousUsageNoEscalation \<or>
     in_kind i = SessionWithoutEnabledProfile \<and> in_observed i = Lifecycle ReconcileProfile.Disabled"

lemma drift_expected:
  assumes inv: "core_inv c" and "drift (observed_of c) i"
  shows "expected_drift i"
proof -
  have wf: "slots_wf (c_slots c)" and rwf: "reg_wf (c_registry c)" using inv by (simp_all add: core_inv_def)
  note distinct = observed_accounts_distinct [OF rwf] observed_profiles_distinct [OF wf]
  show ?thesis using assms(2)
  proof cases
    case dup_account then show ?thesis using count_list_distinct [OF distinct(1)] by (metis not_less)
  next
    case dup_profile then show ?thesis using count_list_distinct [OF distinct(2)] by (metis not_less)
  next
    case (unbound p) then show ?thesis using observed_enabled_active [OF inv one_profile_mem unbound(3)] by auto
  next
    case (owner_unknown p k) then show ?thesis using observed_owner_known [OF inv] by (blast dest: one_profile_mem)
  next
    case (inactive p a)
    then have "status_of (c_registry c) (AccountId (oa_id a)) = Some AccountStatus.Active"
      using observed_enabled_active [OF inv one_profile_mem inactive(3)] by simp
    then show ?thesis using inactive(6) observed_standing [OF inv one_account_mem [OF inactive(4)]] by simp
  next
    case (multiple n slot) then show ?thesis using observed_enabled_unique [OF inv, of slot] by simp
  next
    case (regression a prev)
    then show ?thesis using observed_usage_remembered [OF inv one_account_mem] by (fastforce simp: not_less)
  next
    case over_cap then show ?thesis by (simp add: expected_drift_def)
  next
    case anomalous then show ?thesis by (simp add: expected_drift_def)
  next
    case (no_profile s)
    obtain st where "state_of (c_slots c) (os_slot s) (os_profile s) = Some st"
      using observed_session_grounded(3) [OF inv no_profile(2)] by auto
    then have "\<lparr>opr_slot = os_slot s, opr_profile = os_profile s, opr_lifecycle = lifecycle_for_reconcile st,
        opr_owner = mvno_owner_of (c_registry c) (os_slot s) (os_profile s)\<rparr> \<in> set (ob_profiles (observed_of c))"
      unfolding observed_profile_iff [OF wf] by simp
    then have "(os_slot s, os_profile s) \<in> profile_key ` set (ob_profiles (observed_of c))"
      by (rule rev_image_eqI) (simp add: profile_key_def)
    then show ?thesis using no_profile(3) by blast
  next
    case (not_enabled s p)
    then have "\<exists>st. state_of (c_slots c) (os_slot s) (os_profile s) = Some st \<and> opr_lifecycle p = lifecycle_for_reconcile st"
      by (auto dest!: one_profile_mem simp: observed_profile_iff [OF wf] profile_key_def)
    then have "opr_lifecycle p = ReconcileProfile.Disabled"
      using observed_session_grounded(3) [OF inv not_enabled(2)] not_enabled(5) by auto
    then show ?thesis using not_enabled(1) by (simp add: expected_drift_def)
  next
    case (mismatch s p)
    then have "opr_owner p = mvno_owner_of (c_registry c) (os_slot s) (os_profile s)"
      by (auto dest!: one_profile_mem simp: observed_profile_iff [OF wf] profile_key_def)
    then show ?thesis using observed_session_grounded(2) [OF inv mismatch(2)] mismatch(5) by (simp add: mvno_owner_of_def)
  next
    case (roaming s) then show ?thesis using observed_session_grounded(1) [OF inv] by blast
  qed
qed

lemma reconcile_expected:
  assumes "core_inv c" "i \<in> set (reconcile (observed_of c))"
  shows "expected_drift i"
  by (rule drift_expected [OF assms(1) reconcile_sound [OF observed_within_bounds [OF assms(1)] assms(2)]])


subsection \<open>The finding that remains\<close>

text \<open>
  Enabling a profile demotes the one that was enabled in the slot, whose sessions stay in the table.
\<close>

lemma enable_keeps_demoted_sessions:
  assumes inv: "core_inv c"
    and p: "state_of (c_slots c) slot p = Some ProfileState.Enabled"
    and q: "state_of (c_slots c) slot q = Some ProfileState.Disabled"
    and x: "x \<in> set (sessions (c_data c))" "ds_slot x = slot" "ds_profile x = p"
    and c': "c' = effect freq (ReqEnable slot q) tick c"
  shows "x \<in> set (sessions (c_data c'))" "state_of (c_slots c') slot p = Some ProfileState.Disabled"
proof -
  have wf: "slots_wf (c_slots c)" using inv by (simp add: core_inv_def)
  have "is_ok (fst (sim_move Op.Enable (c_slots c) slot q))" using sim_move_defined [OF wf, of Op.Enable slot q] q by simp
  then obtain S where S: "sim_move Op.Enable (c_slots c) slot q = (Ok (), S)"
    by (cases rule: sim_move_cases [of Op.Enable "c_slots c" slot q]) simp_all
  show "x \<in> set (sessions (c_data c'))" using x by (simp add: c')
  show "state_of (c_slots c') slot p = Some ProfileState.Disabled"
    using sim_move_Ok(2) [OF wf _ S, of slot] p q S by (auto simp: c' sim_moves lifecycle_step_def)
qed

end
