(* ===== verification/Authority.thy ===== *)
theory Authority
  imports Governance
begin

text \<open>
  Who may do what.  No system call issues or drops a token, so what EL0 may ask for in any later
  state is exactly what the boot sequence granted, until the grants run out.
\<close>

subsection \<open>The grants of the boot sequence\<close>

definition boot_grants :: "Resource list" where
  "boot_grants =
     [Ril 0, Sim 0, SimProfile 0 0, SimDelete 0 0, SimProfile 0 1, MvnoAccount 0, MvnoSuspend 0,
      DataSessions 0, DataUsageFeed 0, DataUsageFeed 1, DataReconcile, DataReset 0, DataReset 1,
      DataResetEarly 1, DataReset 2, Ipc 0]"

definition granted_at_boot :: "Env \<Rightarrow> held_tokens" where
  "granted_at_boot E = granted (env_crypto E) (map (\<lambda>r. (env_freq E, r, env_ticks E 0)) boot_grants)"

subsection \<open>No call touches the tokens\<close>

definition held_is :: "held_tokens \<Rightarrow> World \<Rightarrow> bool" where
  "held_is H w \<longleftrightarrow> w_held w = H"

lemma held_access [keep_rules]:
  "keeps (held_is H) (on_slots f1)" "keeps (held_is H) (on_registry f2)" "keeps (held_is H) (on_data f3)"
  "keeps (held_is H) (on_marshal f4)" "keeps (held_is H) (on_memory f5)" "keeps (held_is H) (on_ril f6)"
  "keeps (held_is H) (on_ipc f7)" "keeps (held_is H) (view f8)" "keeps (held_is H) (view_core f9)"
  "keeps (held_is H) (now_ticks E)" "keeps (held_is H) (svc_write b)"
  "keeps (held_is H) take_continuation" "keeps (held_is H) (observe_excursion g)" "keeps (held_is H) (read_registers E)"
  "keeps (held_is H) (audit_event E c s f t au r)" "keeps (held_is H) (audit_coalesce E c' r')"
  by (simp_all add: keeps_def held_is_def on_slots_def on_registry_def on_data_def on_marshal_def on_memory_def
      on_ril_def on_ipc_def view_def view_core_def now_ticks_def svc_write_def take_continuation_def
      observe_excursion_def read_registers_def audit_event_def audit_coalesce_def Let_def split_beta)

lemma held_helpers [keep_rules]:
  "keeps (held_is H) (check E r)" "keeps (held_is H) (audit_chain_summary E)"
  "keeps (held_is H) (audit_transition E slot p f t res v)" "keeps (held_is H) (audit_data_session E acct au to r')"
  "keeps (held_is H) (audit_capability_denial E c l r'' e)" "keeps (held_is H) (enforce_gate E po out s f' t')"
  unfolding check_def audit_chain_summary_def audit_transition_def audit_data_session_def
    audit_capability_denial_def enforce_gate_def
  by (intro keep_rules)+

lemma held_gates [keep_rules]:
  "keeps (held_is H) (marshal_gate E action s f t)" "keeps (held_is H) (esim_gate E op slot pr f' t')"
  unfolding marshal_gate_def esim_gate_def by (intro keep_rules)+

lemma held_loops [keep_rules]:
  "keeps (held_is H) (audit_closed_sessions E rows what)" "keeps (held_is H) (audit_clean_pass E p)"
  "keeps (held_is H) (force_disable_all E good ks)"
  by (induction rows, simp_all only: audit_closed_sessions.simps, (intro keep_rules; assumption?)+)
    (induction p rule: audit_clean_pass.induct, simp_all only: audit_clean_pass.simps, (intro keep_rules)+,
     induction ks arbitrary: good, simp_all only: force_disable_all.simps, (intro keep_rules; assumption?)+)

lemma held_incidents [keep_rules]:
  "keeps (held_is H) (audit_incidents E rows)" "keeps (held_is H) (audit_period_incidents E rows')"
proof -
  show "keeps (held_is H) (audit_incidents E rows)"
  proof (induction rows)
    case (Cons r rows)
    then show ?case by (cases r) (simp only: audit_incidents.simps, intro keep_rules)
  qed (simp add: keeps_return)
  show "keeps (held_is H) (audit_period_incidents E rows')"
  proof (induction rows')
    case (Cons r rows')
    then show ?case by (cases r) (simp only: audit_period_incidents.simps, intro keep_rules)
  qed (simp add: keeps_return)
qed

lemma dispatch_held: "keeps (held_is H) (dispatch E num a1 a2 a3)"
  unfolding syscall_defs
  by (intro keep_rules)

lemma wp_hold:
  "held_is H w \<Longrightarrow> (\<And>w'. held_is (issue_and_hold (env_crypto E) (env_freq E) r now H) w' \<Longrightarrow> Q () w') \<Longrightarrow>
   wp (hold E now r) Q w"
  by (simp add: wp_def hold_def held_is_def frequency_hz_def)

lemma wp_held_kept:
  "held_is H w \<Longrightarrow> keeps (held_is H) m \<Longrightarrow> (\<And>r w'. held_is H w' \<Longrightarrow> Q r w') \<Longrightarrow> wp m Q w"
  by (simp add: wp_def keeps_def)

lemma held_install [keep_rules]: "keeps (held_is H) (install_demo_period E acct)"
  unfolding install_demo_period_def by (intro keep_rules)

definition unprovisioned :: "World \<Rightarrow> bool" where
  "unprovisioned w \<longleftrightarrow> w_reads w = 0 \<and> w_held w = []"

lemma wp_first_steps:
  "unprovisioned w \<Longrightarrow> (\<And>w'. unprovisioned w' \<Longrightarrow> Q () w') \<Longrightarrow> wp (set_marshal_proxy ip port) Q w"
  "unprovisioned w \<Longrightarrow> (\<And>w'. held_is [] w' \<Longrightarrow> R (env_ticks E 0) w') \<Longrightarrow> wp (now_ticks E) R w"
  by (simp_all add: wp_def unprovisioned_def held_is_def set_marshal_proxy_def on_marshal_def now_ticks_def)

lemma booted_held: "w_held (booted E) = granted_at_boot E"
proof -
  have "unprovisioned world_new" by (simp add: unprovisioned_def world_new_def)
  then have "wp (provision E) (\<lambda>_. held_is (granted_at_boot E)) world_new"
    unfolding provision_def
    by - (((rule wp_bind)?, (erule wp_first_steps | erule wp_hold | erule wp_held_kept, rule held_access held_install))+,
        simp add: granted_at_boot_def granted_def boot_grants_def)
  then show ?thesis by (simp add: wp_def booted_def held_is_def)
qed

lemma syscall_held: "w_held (syscall_step E c w) = w_held w"
  using dispatch_held [of "w_held w" E] by (auto simp: syscall_step_def keeps_def held_is_def split: prod.split)

lemma runs_held: "w_held (fold (syscall_step E) calls w) = w_held w"
  by (induction calls arbitrary: w) (simp_all add: syscall_held)

subsection \<open>The accounts of the boot sequence\<close>

definition registry_is :: "AccountRegistry \<Rightarrow> World \<Rightarrow> bool" where
  "registry_is R w \<longleftrightarrow> c_registry (w_core w) = R"

lemma registry_access:
  "keeps (registry_is R) (on_data f)" "keeps (registry_is R) (set_marshal_proxy ip port)"
  "keeps (registry_is R) (now_ticks E)" "keeps (registry_is R) (hold E now r)"
  by (simp_all add: keeps_def registry_is_def on_data_def set_marshal_proxy_def on_marshal_def now_ticks_def hold_def split_beta)

lemma registry_install: "keeps (registry_is R) (install_demo_period E acct)"
  unfolding install_demo_period_def by (intro keep_rules registry_access)

lemma wp_registry:
  "registry_is R w \<Longrightarrow> (\<And>r w'. registry_is (snd (f R)) w' \<Longrightarrow> Q r w') \<Longrightarrow> wp (on_registry f) Q w"
  by (simp add: wp_def registry_is_def on_registry_def split_beta)

lemma wp_registry_kept:
  "registry_is R w \<Longrightarrow> keeps (registry_is R) m \<Longrightarrow> (\<And>r w'. registry_is R w' \<Longrightarrow> Q r w') \<Longrightarrow> wp m Q w"
  by (simp add: wp_def keeps_def)

lemma booted_registry:
  "c_registry (w_core (booted E)) =
     snd (open_third_demo_account (snd (open_second_demo_account (snd (open_demo_account registry_new)))))"
proof -
  have "registry_is registry_new world_new" by (simp add: registry_is_def world_new_def core_new_def)
  then have "wp (provision E) (\<lambda>_. registry_is
      (snd (open_third_demo_account (snd (open_second_demo_account (snd (open_demo_account registry_new))))))) world_new"
    unfolding provision_def
    by - (((rule wp_bind)?, (erule wp_registry | erule wp_registry_kept, rule registry_access registry_install))+, simp)
  then show ?thesis by (simp add: wp_def booted_def registry_is_def)
qed

lemma booted_standing: "standing (c_registry (w_core (booted E))) 0 = Some AccountStatus.Active"
  unfolding booted_registry by code_simp

lemma booted_accounts:
  "mvno_accounts (c_registry (w_core (booted E))) = [(0, AccountStatus.Active), (1, AccountStatus.Active), (2, AccountStatus.Active)]"
  unfolding booted_registry by code_simp

end
