(* ===== verification/Fat.thy ===== *)
theory Fat
  imports Capability
begin

unbundle bit_operations_syntax

text \<open>
  FAT32 on-disk structures, \<open>blk-driver-host/src/lib.rs\<close>: the boot sector, the FSInfo hint,
  short and long directory entries, FAT entries, and the pure helpers of the driver.  A Rust array
  \<open>[u8; 512]\<close> is a list of bytes; where its length matters it is a hypothesis.
\<close>

subsection \<open>Reading bytes\<close>

definition le16 :: "bytes \<Rightarrow> nat \<Rightarrow> u16" where
  "le16 s i = of_nat (from_le (take 2 (drop i s)))"

definition le32 :: "bytes \<Rightarrow> nat \<Rightarrow> u32" where
  "le32 s i = of_nat (from_le (take 4 (drop i s)))"

text \<open>\<open>slice.chunks_exact(n)\<close>; the remainder is not visited.\<close>

function chunks_exact :: "nat \<Rightarrow> 'a list \<Rightarrow> 'a list list" where
  "chunks_exact n xs = (if n = 0 \<or> length xs < n then [] else take n xs # chunks_exact n (drop n xs))"
  by pat_completeness auto
termination by (relation "measure (\<lambda>(n, xs). length xs)") auto

declare chunks_exact.simps [simp del]

subsection \<open>Boot sector\<close>

record BootSectorInfo =
  bytes_per_sector :: u16
  sectors_per_cluster :: u8
  reserved_sector_count :: u16
  num_fats :: u8
  fat_size_32 :: u32
  root_cluster :: u32
  fat_start_sector :: u32
  data_start_sector :: u32
  fsinfo_sector :: u32

definition VALID_BYTES_PER_SECTOR :: "u16 list" where
  "VALID_BYTES_PER_SECTOR = [512, 1024, 2048, 4096]"

definition boot_parse :: "bytes \<Rightarrow> BootSectorInfo option" where
  "boot_parse sector =
     (if sector ! 510 \<noteq> 0x55 \<or> sector ! 511 \<noteq> 0xAA then None
      else if le16 sector 11 \<notin> set VALID_BYTES_PER_SECTOR then None
      else if sector ! 13 = 0 then None
      else if sector ! 16 = 0 then None
      else if le32 sector 36 = 0 then None
      else
        let reserved = le16 sector 14; fats = sector ! 16; size = le32 sector 36; fat_start = ucast reserved in
        (case checked_mul size (ucast fats) of
           None \<Rightarrow> None
         | Some fat_region_sectors \<Rightarrow>
             (case checked_add fat_start fat_region_sectors of
                None \<Rightarrow> None
              | Some data_start \<Rightarrow>
                  Some \<lparr>bytes_per_sector = le16 sector 11, sectors_per_cluster = sector ! 13,
                        reserved_sector_count = reserved, num_fats = fats, fat_size_32 = size,
                        root_cluster = le32 sector 44, fat_start_sector = fat_start,
                        data_start_sector = data_start, fsinfo_sector = ucast (le16 sector 48)\<rparr>)))"

definition cluster_to_sector :: "BootSectorInfo \<Rightarrow> u32 \<Rightarrow> u32 option" where
  "cluster_to_sector info cluster =
     (if cluster < 2 then None
      else
        (case checked_sub cluster 2 of
           None \<Rightarrow> None
         | Some cluster_index \<Rightarrow>
             (case checked_mul cluster_index (ucast (sectors_per_cluster info)) of
                None \<Rightarrow> None
              | Some offset_sectors \<Rightarrow> checked_add (data_start_sector info) offset_sectors)))"

subsection \<open>FSInfo\<close>

record FsInfoSector =
  free_count :: u32
  next_free :: u32

definition FSINFO_SIG1 :: u32 where "FSINFO_SIG1 = 0x41615252"
definition FSINFO_SIG2 :: u32 where "FSINFO_SIG2 = 0x61417272"
definition FSINFO_UNKNOWN :: u32 where "FSINFO_UNKNOWN = 0xFFFFFFFF"

definition fsinfo_parse :: "bytes \<Rightarrow> FsInfoSector option" where
  "fsinfo_parse sector =
     (if sector ! 510 \<noteq> 0x55 \<or> sector ! 511 \<noteq> 0xAA then None
      else if le32 sector 0 \<noteq> FSINFO_SIG1 then None
      else if le32 sector 484 \<noteq> FSINFO_SIG2 then None
      else Some \<lparr>free_count = le32 sector 488, next_free = le32 sector 492\<rparr>)"

definition encode_into :: "FsInfoSector \<Rightarrow> bytes \<Rightarrow> bytes" where
  "encode_into f sector =
     patch (patch sector 488 (to_le 4 (unat (free_count f)))) 492 (to_le 4 (unat (next_free f)))"

subsection \<open>Directory entries\<close>

definition to_ascii_uppercase :: "u8 \<Rightarrow> u8" where
  "to_ascii_uppercase b = (if 0x61 \<le> b \<and> b \<le> 0x7A then b - 0x20 else b)"

definition to_ascii_lowercase :: "u8 \<Rightarrow> u8" where
  "to_ascii_lowercase b = (if 0x41 \<le> b \<and> b \<le> 0x5A then b + 0x20 else b)"

definition rposition :: "('a \<Rightarrow> bool) \<Rightarrow> 'a list \<Rightarrow> nat option" where
  "rposition P xs = map_option (\<lambda>i. length xs - 1 - i) (position P (rev xs))"

definition unfit_name_byte :: "u8 \<Rightarrow> bool" where
  "unfit_name_byte b \<longleftrightarrow> \<not> b < 0x80 \<or> b = 0x20 \<or> b = 0x2E"

definition encode_short_name :: "bytes \<Rightarrow> bytes option" where
  "encode_short_name display =
     (if display = [] \<or> 12 < length display then None
      else
        let (base, ext) =
          (case rposition (\<lambda>b. b = 0x2E) display of
             Some pos \<Rightarrow> (take pos display, drop (pos + 1) display)
           | None \<Rightarrow> (display, []))
        in
        if base = [] \<or> 8 < length base \<or> 3 < length ext then None
        else if list_ex unfit_name_byte base then None
        else if list_ex unfit_name_byte ext then None
        else Some (map to_ascii_uppercase base @ replicate (8 - length base) 0x20 @
                   map to_ascii_uppercase ext @ replicate (3 - length ext) 0x20))"

record ShortDirEntry =
  sde_name :: bytes
  sde_first_cluster :: u32
  sde_file_size :: u32
  sde_is_dir :: bool

definition ATTR_DIRECTORY :: u8 where "ATTR_DIRECTORY = 0x10"
definition ATTR_LONG_NAME :: u8 where "ATTR_LONG_NAME = 0x0F"
definition ATTR_LONG_NAME_MASK :: u8 where "ATTR_LONG_NAME_MASK = 0x3F"

definition parse_short_dir_entry :: "bytes \<Rightarrow> ShortDirEntry option" where
  "parse_short_dir_entry entry =
     (if entry ! 0 = 0 \<or> entry ! 0 = 0xE5 then None
      else
        let attr = entry ! 11 in
        if attr AND ATTR_LONG_NAME_MASK = ATTR_LONG_NAME then None
        else
          let cluster_hi = le16 entry 20; cluster_lo = le16 entry 26 in
          Some \<lparr>sde_name = take 11 entry,
                sde_first_cluster = push_bit 16 (ucast cluster_hi) OR ucast cluster_lo,
                sde_file_size = le32 entry 28,
                sde_is_dir = (attr AND ATTR_DIRECTORY \<noteq> 0)\<rparr>)"

record LfnFragment =
  lfn_sequence :: u8
  lfn_is_last :: bool
  lfn_checksum :: u8
  lfn_chars :: "u16 list"

definition ATTR_LONG_NAME_SEQUENCE_MASK :: u8 where "ATTR_LONG_NAME_SEQUENCE_MASK = 0x1F"
definition ATTR_LONG_NAME_LAST_FLAG :: u8 where "ATTR_LONG_NAME_LAST_FLAG = 0x40"

definition parse_lfn_fragment :: "bytes \<Rightarrow> LfnFragment option" where
  "parse_lfn_fragment entry =
     (if entry ! 11 AND ATTR_LONG_NAME_MASK \<noteq> ATTR_LONG_NAME then None
      else
        let sequence = entry ! 0 AND ATTR_LONG_NAME_SEQUENCE_MASK in
        if sequence = 0 then None
        else Some \<lparr>lfn_sequence = sequence,
                   lfn_is_last = (entry ! 0 AND ATTR_LONG_NAME_LAST_FLAG \<noteq> 0),
                   lfn_checksum = entry ! 13,
                   lfn_chars = map (\<lambda>i. le16 entry (1 + 2 * i)) [0..<5] @
                               map (\<lambda>i. le16 entry (14 + 2 * i)) [0..<6] @
                               map (\<lambda>i. le16 entry (28 + 2 * i)) [0..<2]\<rparr>)"

definition short_name_checksum :: "bytes \<Rightarrow> u8" where
  "short_name_checksum name = fold (\<lambda>byte sum. push_bit 7 (sum AND 1) + drop_bit 1 sum + byte) name 0"

subsection \<open>The allocation table\<close>

definition is_end_of_chain :: "u32 \<Rightarrow> bool" where
  "is_end_of_chain fat_entry \<longleftrightarrow> 0x0FFFFFF8 \<le> fat_entry"

definition fat_entry_at :: "bytes \<Rightarrow> u32 \<Rightarrow> u32 option" where
  "fat_entry_at fat_bytes cluster =
     (case checked_mul (ucast cluster :: usize) 4 of
        None \<Rightarrow> None
      | Some byte_offset \<Rightarrow>
          (case checked_add byte_offset 4 of
             None \<Rightarrow> None
           | Some end_offset \<Rightarrow>
               if length fat_bytes < unat end_offset then None
               else Some (le32 fat_bytes (unat byte_offset) AND 0x0FFFFFFF)))"

definition find_reusable_slot :: "bytes \<Rightarrow> nat option" where
  "find_reusable_slot sector = position (\<lambda>chunk. chunk ! 0 = 0 \<or> chunk ! 0 = 0xE5) (chunks_exact 32 sector)"

definition CHAIN_EOC_MARKER :: u32 where "CHAIN_EOC_MARKER = 0x0FFFFFFF"

definition chain_link_values :: "u32 list \<Rightarrow> (u32 \<times> u32) list" where
  "chain_link_values clusters =
     map (\<lambda>i. (clusters ! i, if i + 1 < length clusters then clusters ! (i + 1) else CHAIN_EOC_MARKER))
       [0..<length clusters]"

text \<open>The loop over the entries of one FAT sector; the list holds the entry numbers still to visit.\<close>

fun scan_fat_sector :: "bytes \<Rightarrow> u32 \<Rightarrow> u32 \<Rightarrow> nat list \<Rightarrow> u32 option" where
  "scan_fat_sector sector fat_sector_index entries_per_sector [] = None"
| "scan_fat_sector sector fat_sector_index entries_per_sector (entry # rest) =
     (case checked_mul fat_sector_index entries_per_sector of
        None \<Rightarrow> None
      | Some first \<Rightarrow>
          (case checked_add first (of_nat entry) of
             None \<Rightarrow> None
           | Some cluster \<Rightarrow>
               if cluster < 2 then scan_fat_sector sector fat_sector_index entries_per_sector rest
               else if fat_entry_at sector (of_nat entry) = Some 0 then Some cluster
               else scan_fat_sector sector fat_sector_index entries_per_sector rest))"

definition first_free_cluster_in_fat_sector :: "bytes \<Rightarrow> u32 \<Rightarrow> u32 \<Rightarrow> u32 option" where
  "first_free_cluster_in_fat_sector sector fat_sector_index entries_per_sector =
     scan_fat_sector sector fat_sector_index entries_per_sector [0..<unat entries_per_sector]"

subsection \<open>Token check, queue health, queue size\<close>

definition verify_file_token_with ::
    "crypto \<Rightarrow> CapabilityToken \<Rightarrow> bytes \<Rightarrow> string \<Rightarrow> u64 \<Rightarrow> (u64 \<Rightarrow> u64) \<Rightarrow> bool" where
  "verify_file_token_with C token verifying_key expected_resource now revocation_query =
     (case token_verify C token verifying_key expected_resource now of
        Err _ \<Rightarrow> False
      | Ok _ \<Rightarrow>
          (case signature_fingerprint C (tok_signature token) of
             Some fingerprint \<Rightarrow> revocation_query fingerprint = 0
           | None \<Rightarrow> False))"

datatype QueueHealth = Healthy | Faulted

definition on_timeout :: "QueueHealth \<Rightarrow> bool \<times> QueueHealth" where
  "on_timeout h = (h = Healthy, Faulted)"

definition may_submit :: "QueueHealth \<Rightarrow> bool" where
  "may_submit h \<longleftrightarrow> h = Healthy"

definition MIN_QUEUE_SIZE :: u16 where "MIN_QUEUE_SIZE = 3"
definition MAX_QUEUE_SIZE :: u16 where "MAX_QUEUE_SIZE = 256"

text \<open>\<open>u16::is_power_of_two\<close>: exactly one bit is set.\<close>

definition is_power_of_two :: "u16 \<Rightarrow> bool" where
  "is_power_of_two n \<longleftrightarrow> n \<noteq> 0 \<and> n AND (n - 1) = 0"

definition validate_queue_size :: "u16 \<Rightarrow> u16 option" where
  "validate_queue_size qsize =
     (if is_power_of_two qsize \<and> MIN_QUEUE_SIZE \<le> qsize \<and> qsize \<le> MAX_QUEUE_SIZE then Some qsize else None)"

subsection \<open>Reading back what was patched\<close>

lemma le32_patch: "i + 4 \<le> length s \<Longrightarrow> le32 (patch s i (to_le 4 (unat w))) i = w"
proof -
  assume "i + 4 \<le> length s"
  then have "take 4 (drop i (patch s i (to_le 4 (unat w)))) = to_le 4 (unat w)"
    using patch_at [of i "to_le 4 (unat w)" s] by simp
  moreover have "unat w < 256 ^ 4" using unsigned_less [of w, where 'a = nat] by simp
  ultimately show ?thesis by (simp add: le32_def from_le_to_le)
qed

lemma le32_patch_other:
  assumes "i + length bs \<le> length s" "j + 4 \<le> i \<or> i + length bs \<le> j"
  shows "le32 (patch s i bs) j = le32 s j"
  using assms patch_before [of j 4 i bs s] patch_after [of i bs j s] by (auto simp: le32_def)

lemma mask_merge: "((e AND 0xF0000000) OR (v AND 0x0FFFFFFF)) AND 0x0FFFFFFF = v AND (0x0FFFFFFF :: u32)"
proof -
  have "(e AND 0xF0000000) AND (0x0FFFFFFF :: u32) = 0" by (simp add: and.assoc)
  then show ?thesis by (simp add: bit.conj_disj_distrib2 and.assoc)
qed

lemma unat_widen [simp]: "unat (ucast (w :: u32) :: u64) = unat w"
  using unsigned_less [of w, where 'a = nat] by (simp add: unsigned_ucast_eq take_bit_nat_eq_self)

lemma widen_nat: "ucast (w :: u32) = (of_nat (unat w) :: u64)"
  by (simp flip: unat_widen)

lemma fat_entry_at_eq:
  assumes "unat c * 4 + 4 \<le> length s" 
  shows "fat_entry_at s c = Some (le32 s (unat c * 4) AND 0x0FFFFFFF)"
proof -
  have c: "unat c < 2 ^ 32" using unsigned_less [of c, where 'a = nat] by simp
  have u: "unat (ucast c :: usize) = unat c" by (rule unat_widen)
  then have m: "checked_mul (ucast c :: usize) 4 = Some (ucast c * 4)" using c by (simp add: checked_mul_def)
  have v: "unat (ucast c * 4 :: usize) = unat c * 4" using c u by (simp add: unat_word_ariths)
  have a: "checked_add (ucast c * 4 :: usize) 4 = Some (ucast c * 4 + 4)" using c v by (simp add: checked_add_def)
  have w: "unat (ucast c * 4 + 4 :: usize) = unat c * 4 + 4" using c v by (simp add: unat_word_ariths)
  show ?thesis unfolding fat_entry_at_def m a option.case using assms v w by simp
qed

text \<open>A volume with one sector per cluster and two one-sector tables, for concrete runs.\<close>

definition sample_info :: BootSectorInfo where
  "sample_info = \<lparr>bytes_per_sector = 512, sectors_per_cluster = 1, reserved_sector_count = 2, num_fats = 2,
     fat_size_32 = 1, root_cluster = 2, fat_start_sector = 2, data_start_sector = 4, fsinfo_sector = 1\<rparr>"

end
