(* ===== verification/BlockDev.thy ===== *)
theory BlockDev
  imports Fat StateLogic
begin

text \<open>
  The request path of the virtio block driver, \<open>blk-driver-host/src/main.rs\<close> (\<open>BlkDevice\<close>).
  The device itself is a parameter: \<open>hardware\<close> answers the newest request from everything
  posted so far.  The state keeps the shared request page (data buffer and status byte), the
  quarantine flag, the two fault-injection flags and, for the specification, every request posted.
\<close>

definition SECTOR_SIZE :: nat where "SECTOR_SIZE = 512"
definition VIRTIO_BLK_T_IN :: u32 where "VIRTIO_BLK_T_IN = 0"
definition VIRTIO_BLK_T_OUT :: u32 where "VIRTIO_BLK_T_OUT = 1"
definition VIRTIO_BLK_S_OK :: u8 where "VIRTIO_BLK_S_OK = 0"

text \<open>One descriptor chain given to the device: header, data page as it stood, notification sent.\<close>

record BlkRequest =
  rq_type :: u32
  rq_sector :: u64
  rq_data :: bytes
  rq_writable :: bool
  rq_notified :: bool

text \<open>What polling the used ring shows: whether the request completed within the polling budget
  (\<open>poll_for_completion\<close>), and then the status byte and the data page.\<close>

record BlkReply =
  rp_completed :: bool
  rp_status :: u8
  rp_data :: bytes

type_synonym hardware = "BlkRequest list \<Rightarrow> BlkReply"

record BlkDevice =
  dev_buffer :: bytes
  dev_status :: u8
  dev_health :: QueueHealth
  dev_stall_next_notify :: bool
  dev_stall_after_first_served :: bool
  dev_posted :: "BlkRequest list"

type_synonym 'a blk = "(BlkDevice, 'a) state"

definition device_new :: BlkDevice where
  "device_new = \<lparr>dev_buffer = replicate SECTOR_SIZE 0, dev_status = 0, dev_health = Healthy,
     dev_stall_next_notify = False, dev_stall_after_first_served = False, dev_posted = []\<rparr>"

definition is_faulted :: "BlkDevice \<Rightarrow> bool" where
  "is_faulted d \<longleftrightarrow> \<not> may_submit (dev_health d)"

definition blk_request :: "hardware \<Rightarrow> u32 \<Rightarrow> u64 \<Rightarrow> bool \<Rightarrow> BlkDevice \<Rightarrow> (bool \<times> u8) \<times> BlkDevice" where
  "blk_request hw req_type sector data_writable d =
     (if \<not> may_submit (dev_health d) then ((False, 0xFF), d)
      else
        let posted = \<lparr>rq_type = req_type, rq_sector = sector, rq_data = dev_buffer d,
                      rq_writable = data_writable, rq_notified = \<not> dev_stall_next_notify d\<rparr> # dev_posted d;
            d = d\<lparr>dev_posted := posted, dev_stall_next_notify := False\<rparr>;
            reply = hw posted
        in
        if \<not> rp_completed reply then ((False, 0xFF), d\<lparr>dev_health := snd (on_timeout (dev_health d))\<rparr>)
        else ((True, rp_status reply),
              d\<lparr>dev_buffer := if data_writable then rp_data reply else dev_buffer d, dev_status := rp_status reply\<rparr>))"

definition read_sector :: "hardware \<Rightarrow> u64 \<Rightarrow> bytes option blk" where
  "read_sector hw sector = State (\<lambda>d.
     if is_faulted d then (None, d)
     else
       let ((completed, status), d) =
         blk_request hw VIRTIO_BLK_T_IN sector True (d\<lparr>dev_buffer := replicate SECTOR_SIZE 0, dev_status := 0xFF\<rparr>)
       in
       if \<not> completed \<or> status \<noteq> VIRTIO_BLK_S_OK then (None, d)
       else (Some (dev_buffer d), d))"

definition write_sector :: "hardware \<Rightarrow> u64 \<Rightarrow> bytes \<Rightarrow> (bool \<times> u8) blk" where
  "write_sector hw sector data = State (\<lambda>d.
     if is_faulted d then ((False, 0xFF), d)
     else blk_request hw VIRTIO_BLK_T_OUT sector False (d\<lparr>dev_buffer := data, dev_status := 0xFF\<rparr>))"

text \<open>\<open>completed && status == VIRTIO_BLK_S_OK\<close>\<close>

definition write_ok :: "bool \<times> u8 \<Rightarrow> bool" where
  "write_ok r \<longleftrightarrow> fst r \<and> snd r = VIRTIO_BLK_S_OK"

definition dev_faulted :: "bool blk" where
  "dev_faulted = State (\<lambda>d. (is_faulted d, d))"

text \<open>Rust's \<open>?\<close> on an option inside a function that also changes the device.\<close>

definition ask :: "('s, 'a option) state \<Rightarrow> ('a \<Rightarrow> ('s, 'b option) state) \<Rightarrow> ('s, 'b option) state" where
  "ask m k = do { r \<leftarrow> m; case r of None \<Rightarrow> State_Monad.return None | Some a \<Rightarrow> k a }"

definition or_none :: "'a option \<Rightarrow> ('a \<Rightarrow> ('s, 'b option) state) \<Rightarrow> ('s, 'b option) state" where
  "or_none r k = (case r of None \<Rightarrow> State_Monad.return None | Some a \<Rightarrow> k a)"


subsection \<open>Invariants of device operations\<close>

lemma keeps_ask [keep_rules]: "keeps I m \<Longrightarrow> (\<And>a. keeps I (k a)) \<Longrightarrow> keeps I (ask m k)"
  unfolding ask_def by (intro keep_rules)

lemma keeps_or_none [keep_rules]: "(\<And>a. keeps I (k a)) \<Longrightarrow> keeps I (or_none r k)"
  unfolding or_none_def by (intro keep_rules)

lemma keeps_dev_faulted [keep_rules]: "keeps I dev_faulted"
  by (simp add: keeps_def dev_faulted_def)

text \<open>A predicate that single reads keep is kept by every operation that only reads, whatever the
  device does; one that single writes keep as well, by every operation.\<close>

locale read_invariant =
  fixes hw :: hardware and I :: "BlkDevice \<Rightarrow> bool"
  assumes read_keeps: "keeps I (read_sector hw s)"

locale io_invariant = read_invariant +
  assumes write_keeps: "keeps I (write_sector hw s data)"

text \<open>A quarantined device is left alone: no request is posted, the shared page is not touched.\<close>

definition quarantined :: "BlkDevice \<Rightarrow> BlkDevice \<Rightarrow> bool" where
  "quarantined d0 d \<longleftrightarrow>
     (is_faulted d0 \<longrightarrow>
      dev_health d = dev_health d0 \<and> dev_posted d = dev_posted d0 \<and> dev_buffer d = dev_buffer d0 \<and> dev_status d = dev_status d0)"

lemma faulted_io:
  "is_faulted d \<Longrightarrow> run_state (read_sector hw s) d = (None, d)"
  "is_faulted d \<Longrightarrow> run_state (write_sector hw s data) d = ((False, 0xFF), d)"
  by (simp_all add: read_sector_def write_sector_def)

lemma quarantined_faulted: "quarantined d0 d \<Longrightarrow> is_faulted d0 \<Longrightarrow> is_faulted d"
  by (simp add: quarantined_def is_faulted_def)

lemma quarantined_io:
  "keeps (quarantined d0) (read_sector hw s)" "keeps (quarantined d0) (write_sector hw s data)"
  unfolding keeps_def
  by (metis faulted_io(1) quarantined_def quarantined_faulted snd_conv)
    (metis faulted_io(2) quarantined_def quarantined_faulted snd_conv)

interpretation quarantine: io_invariant hw "quarantined d0" for hw d0
  by unfold_locales (rule quarantined_io)+

text \<open>What has been posted since \<open>h\<close> are reads, and writes that satisfy \<open>P\<close>.\<close>

definition is_read :: "BlkRequest \<Rightarrow> bool" where
  "is_read rq \<longleftrightarrow> rq_type rq = VIRTIO_BLK_T_IN"

definition extends :: "(BlkRequest \<Rightarrow> bool) \<Rightarrow> BlkRequest list \<Rightarrow> BlkDevice \<Rightarrow> bool" where
  "extends P h d \<longleftrightarrow> (\<exists>new. dev_posted d = new @ h \<and> (\<forall>rq\<in>set new. is_read rq \<or> P rq))"

lemma extends_refl: "extends P (dev_posted d) d"
  by (simp add: extends_def)

lemma extends_Cons: "extends P h d \<Longrightarrow> is_read rq \<or> P rq \<Longrightarrow> dev_posted d' = rq # dev_posted d \<Longrightarrow> extends P h d'"
  unfolding extends_def by (metis append_Cons set_ConsD)

lemma extends_same: "extends P h d \<Longrightarrow> dev_posted d' = dev_posted d \<Longrightarrow> extends P h d'"
  by (simp add: extends_def)

lemma posted_by_read:
  "dev_posted (snd (run_state (read_sector hw s) d)) = dev_posted d \<or>
   (\<exists>rq. dev_posted (snd (run_state (read_sector hw s) d)) = rq # dev_posted d \<and> is_read rq)"
  by (simp add: read_sector_def blk_request_def Let_def is_read_def split_beta)

lemma posted_by_write:
  "dev_posted (snd (run_state (write_sector hw s data) d)) = dev_posted d \<or>
   (\<exists>rq. dev_posted (snd (run_state (write_sector hw s data) d)) = rq # dev_posted d \<and>
      rq_type rq = VIRTIO_BLK_T_OUT \<and> rq_sector rq = s \<and> rq_data rq = data)"
  by (simp add: write_sector_def blk_request_def Let_def split_beta)

lemma extends_read: "keeps (extends P h) (read_sector hw s)"
  unfolding keeps_def using posted_by_read [of hw s] extends_Cons extends_same by metis

lemma extends_write:
  assumes "\<And>rq. rq_sector rq = s \<Longrightarrow> rq_data rq = data \<Longrightarrow> P rq"
  shows "keeps (extends P h) (write_sector hw s data)"
  unfolding keeps_def using posted_by_write [of hw s data] extends_Cons extends_same assms by metis

interpretation reading: read_invariant hw "extends P h" for hw P h
  by unfold_locales (rule extends_read)

subsection \<open>How many requests an operation posts\<close>

definition costs :: "nat \<Rightarrow> 'a blk \<Rightarrow> bool" where
  "costs n m \<longleftrightarrow> (\<forall>d. length (dev_posted (snd (run_state m d))) \<le> length (dev_posted d) + n)"

lemma costs_return: "costs n (State_Monad.return a)"
  by (simp add: costs_def)

lemma costs_dev_faulted: "costs n dev_faulted"
  by (simp add: costs_def dev_faulted_def)

lemma costs_bind:
  assumes "costs i m" "\<And>a. costs j (f a)" "i + j \<le> n"
  shows "costs n (State_Monad.bind m f)"
  unfolding costs_def
proof
  fix d
  show "length (dev_posted (snd (run_state (State_Monad.bind m f) d))) \<le> length (dev_posted d) + n"
    using assms(1) [unfolded costs_def, rule_format, of d]
      assms(2) [unfolded costs_def, rule_format, of "fst (run_state m d)" "snd (run_state m d)"] assms(3)
    by (simp add: split_beta)
qed

lemma costs_ask: "costs i m \<Longrightarrow> (\<And>a. costs j (k a)) \<Longrightarrow> i + j \<le> n \<Longrightarrow> costs n (ask m k)"
  unfolding ask_def by (rule costs_bind) (auto simp: costs_return split: option.split)

lemma costs_or_none: "(\<And>a. costs n (k a)) \<Longrightarrow> costs n (or_none r k)"
  unfolding or_none_def by (auto simp: costs_return split: option.split)

lemma costs_option: "costs n m \<Longrightarrow> (\<And>a. costs n (k a)) \<Longrightarrow> costs n (case x of None \<Rightarrow> m | Some a \<Rightarrow> k a)"
  by (cases x) simp_all

lemma costs_mono: "costs i m \<Longrightarrow> i \<le> n \<Longrightarrow> costs n m"
  unfolding costs_def by (meson add_left_mono order_trans)

lemma costs_read: "costs 1 (read_sector hw s)"
  unfolding costs_def
proof
  fix d
  show "length (dev_posted (snd (run_state (read_sector hw s) d))) \<le> length (dev_posted d) + 1"
    using posted_by_read [of hw s d] by (elim disjE exE conjE) simp_all
qed

lemma costs_write: "costs 1 (write_sector hw s data)"
  by (simp add: costs_def write_sector_def blk_request_def Let_def)

subsection \<open>A device that works\<close>

text \<open>The sector contents after the posted writes, newest first.\<close>

fun stored :: "(u64 \<Rightarrow> bytes) \<Rightarrow> BlkRequest list \<Rightarrow> u64 \<Rightarrow> bytes" where
  "stored disk0 [] = disk0"
| "stored disk0 (rq # h) = (if rq_type rq = VIRTIO_BLK_T_OUT then (stored disk0 h)(rq_sector rq := rq_data rq) else stored disk0 h)"

text \<open>The documented behaviour of a working disk of \<open>capacity\<close> sectors: a notified request for a
  sector of the disk completes with status OK, and a read returns what was last written there.\<close>

definition working :: "(u64 \<Rightarrow> bytes) \<Rightarrow> nat \<Rightarrow> hardware \<Rightarrow> bool" where
  "working disk0 capacity hw \<longleftrightarrow>
     (\<forall>s. length (disk0 s) = SECTOR_SIZE) \<and>
     (\<forall>rq h. rq_notified rq \<longrightarrow> unat (rq_sector rq) < capacity \<longrightarrow>
        rp_completed (hw (rq # h)) \<and> rp_status (hw (rq # h)) = VIRTIO_BLK_S_OK \<and>
        (rq_type rq = VIRTIO_BLK_T_IN \<longrightarrow> rp_data (hw (rq # h)) = stored disk0 h (rq_sector rq)))"

text \<open>A disk in memory, for concrete runs.\<close>

definition ram_disk :: "(u64 \<Rightarrow> bytes) \<Rightarrow> hardware" where
  "ram_disk disk0 posted =
     (case posted of
        [] \<Rightarrow> \<lparr>rp_completed = False, rp_status = 0, rp_data = []\<rparr>
      | rq # h \<Rightarrow>
          \<lparr>rp_completed = rq_notified rq, rp_status = VIRTIO_BLK_S_OK, rp_data = stored disk0 h (rq_sector rq)\<rparr>)"

lemma ram_disk_working: "(\<And>s. length (disk0 s) = SECTOR_SIZE) \<Longrightarrow> working disk0 n (ram_disk disk0)"
  by (simp add: working_def ram_disk_def)

text \<open>The device is ready and its sectors hold \<open>D\<close>.\<close>

definition medium_is :: "(u64 \<Rightarrow> bytes) \<Rightarrow> (u64 \<Rightarrow> bytes) \<Rightarrow> BlkDevice \<Rightarrow> bool" where
  "medium_is disk0 D d \<longleftrightarrow>
     dev_health d = Healthy \<and> \<not> dev_stall_next_notify d \<and> stored disk0 (dev_posted d) = D \<and>
     (\<forall>s. length (D s) = SECTOR_SIZE)"

lemma medium_new: "(\<And>s. length (disk0 s) = SECTOR_SIZE) \<Longrightarrow> medium_is disk0 disk0 device_new"
  by (simp add: medium_is_def device_new_def)

lemma medium_length: "medium_is disk0 D d \<Longrightarrow> length (D s) = SECTOR_SIZE"
  by (simp add: medium_is_def)

lemma medium_ready: "medium_is disk0 D d \<Longrightarrow> \<not> is_faulted d"
  by (simp add: medium_is_def is_faulted_def may_submit_def)

lemma wp_read:
  assumes "working disk0 cap hw" "medium_is disk0 D d" "unat s < cap"
    and "\<And>d'. medium_is disk0 D d' \<Longrightarrow> Q (Some (D s)) d'"
  shows "wp (read_sector hw s) Q d"
proof -
  let ?rq = "\<lparr>rq_type = VIRTIO_BLK_T_IN, rq_sector = s, rq_data = replicate SECTOR_SIZE 0, rq_writable = True, rq_notified = True\<rparr>"
  let ?h = "?rq # dev_posted d"
  have r: "rp_completed (hw ?h)" "rp_status (hw ?h) = VIRTIO_BLK_S_OK" "rp_data (hw ?h) = D s"
    using assms(1-3) by (simp_all add: working_def medium_is_def)
  have "run_state (read_sector hw s) d =
      (Some (D s), d\<lparr>dev_buffer := D s, dev_status := VIRTIO_BLK_S_OK, dev_posted := ?h, dev_stall_next_notify := False\<rparr>)"
    using assms(2) r by (simp add: read_sector_def blk_request_def medium_is_def is_faulted_def may_submit_def Let_def)
  moreover have "medium_is disk0 D (d\<lparr>dev_buffer := D s, dev_status := VIRTIO_BLK_S_OK, dev_posted := ?h, dev_stall_next_notify := False\<rparr>)"
    using assms(2) by (simp add: medium_is_def VIRTIO_BLK_T_IN_def VIRTIO_BLK_T_OUT_def)
  ultimately show ?thesis using assms(4) by (simp add: wp_def)
qed

lemma wp_write:
  assumes "working disk0 cap hw" "medium_is disk0 D d" "unat s < cap" "length data = SECTOR_SIZE"
    and "\<And>d' r. medium_is disk0 (D(s := data)) d' \<Longrightarrow> write_ok r \<Longrightarrow> Q r d'"
  shows "wp (write_sector hw s data) Q d"
proof -
  let ?rq = "\<lparr>rq_type = VIRTIO_BLK_T_OUT, rq_sector = s, rq_data = data, rq_writable = False, rq_notified = True\<rparr>"
  let ?h = "?rq # dev_posted d"
  have r: "rp_completed (hw ?h)" "rp_status (hw ?h) = VIRTIO_BLK_S_OK"
    using assms(1-3) by (simp_all add: working_def)
  have "run_state (write_sector hw s data) d =
      ((True, VIRTIO_BLK_S_OK), d\<lparr>dev_buffer := data, dev_status := VIRTIO_BLK_S_OK, dev_posted := ?h, dev_stall_next_notify := False\<rparr>)"
    using assms(2) r by (simp add: write_sector_def blk_request_def medium_is_def is_faulted_def may_submit_def Let_def)
  moreover have "medium_is disk0 (D(s := data)) (d\<lparr>dev_buffer := data, dev_status := VIRTIO_BLK_S_OK, dev_posted := ?h, dev_stall_next_notify := False\<rparr>)"
    using assms(2,4) by (simp add: medium_is_def)
  moreover have "write_ok (True, VIRTIO_BLK_S_OK)" by (simp add: write_ok_def)
  ultimately show ?thesis using assms(5) by (simp add: wp_def)
qed

lemma wp_ask: "wp m (\<lambda>r d. case r of None \<Rightarrow> Q None d | Some a \<Rightarrow> wp (k a) Q d) d \<Longrightarrow> wp (ask m k) Q d"
  by (auto simp: ask_def wp_def split_beta split: option.splits)

lemma wp_or_none: "(r = None \<Longrightarrow> Q None d) \<Longrightarrow> (\<And>a. r = Some a \<Longrightarrow> wp (k a) Q d) \<Longrightarrow> wp (or_none r k) Q d"
  by (auto simp: or_none_def wp_def split: option.splits)

lemma wp_dev_faulted: "Q (is_faulted d) d \<Longrightarrow> wp dev_faulted Q d"
  by (simp add: wp_def dev_faulted_def)

end
