(* ===== verification/Volume.thy ===== *)
theory Volume
  imports BlockDev
begin

text \<open>
  The FAT32 operations of the driver, \<open>blk-driver-host/src/main.rs\<close>: walking and changing the
  allocation table, allocating and freeing clusters, scanning directories by short and long name,
  growing a directory, and reading a file.  Loops over \<open>0..1024\<close> carry the same bound here.
  An operation that could index past a sector returns \<open>None\<close> there (a panic); its ordinary
  results are then under \<open>Some\<close>.
\<close>

definition CHAIN_LIMIT :: nat where "CHAIN_LIMIT = 1024"

subsection \<open>The allocation table on the device\<close>

definition next_cluster_in_chain :: "hardware \<Rightarrow> BootSectorInfo \<Rightarrow> u32 \<Rightarrow> u32 option blk" where
  "next_cluster_in_chain hw info cluster =
     or_none (checked_mul cluster 4) (\<lambda>byte_offset.
       let fat_sector_index = byte_offset div ucast (bytes_per_sector info);
           offset_in_sector = byte_offset mod ucast (bytes_per_sector info)
       in
       or_none (checked_add (fat_start_sector info) fat_sector_index) (\<lambda>fat_sector.
         ask (read_sector hw (ucast fat_sector)) (\<lambda>sector.
           State_Monad.return (fat_entry_at sector (offset_in_sector div 4)))))"

definition adjust_fsinfo_free_count :: "hardware \<Rightarrow> BootSectorInfo \<Rightarrow> int \<Rightarrow> unit blk" where
  "adjust_fsinfo_free_count hw info delta =
     do {
       r \<leftarrow> read_sector hw (ucast (fsinfo_sector info));
       case r of
         None \<Rightarrow> State_Monad.return ()
       | Some sector \<Rightarrow>
           (case fsinfo_parse sector of
              None \<Rightarrow> State_Monad.return ()
            | Some fsinfo \<Rightarrow>
                if free_count fsinfo = FSINFO_UNKNOWN then State_Monad.return ()
                else
                  let count = (if delta < 0 then saturating_sub (free_count fsinfo) (of_int (- delta))
                               else saturating_add (free_count fsinfo) (of_int delta))
                  in
                  do {
                    _ \<leftarrow> write_sector hw (ucast (fsinfo_sector info))
                           (encode_into (fsinfo\<lparr>free_count := count\<rparr>) sector);
                    State_Monad.return ()
                  })
     }"

text \<open>The loop over the FAT copies; it returns whether every write went through and the masked
  entry of the first copy.  The product of the FAT size and the copy number is unchecked in the
  source and wraps here; \<open>boot_parse\<close> excludes the overflow.\<close>

fun write_fat_copies ::
    "hardware \<Rightarrow> BootSectorInfo \<Rightarrow> u32 \<Rightarrow> nat \<Rightarrow> u32 \<Rightarrow> nat list \<Rightarrow> u32 option \<Rightarrow> (bool \<times> u32 option) option blk" where
  "write_fat_copies hw info fat_sector_index offset_in_sector masked [] previous =
     State_Monad.return (Some (True, previous))"
| "write_fat_copies hw info fat_sector_index offset_in_sector masked (fat_copy # rest) previous =
     (case checked_add (fat_start_sector info) (fat_size_32 info * of_nat fat_copy) of
        None \<Rightarrow> State_Monad.return (Some (False, previous))
      | Some copy_base \<Rightarrow>
          (case checked_add copy_base fat_sector_index of
             None \<Rightarrow> State_Monad.return (Some (False, previous))
           | Some fat_sector \<Rightarrow>
               do {
                 r \<leftarrow> read_sector hw (ucast fat_sector);
                 case r of
                   None \<Rightarrow> State_Monad.return (Some (False, previous))
                 | Some sector \<Rightarrow>
                     if length sector < offset_in_sector + 4 then State_Monad.return None
                     else
                       let existing = le32 sector offset_in_sector;
                           previous = (if fat_copy = 0 then Some (existing AND 0x0FFFFFFF) else previous);
                           new_value = (existing AND 0xF0000000) OR masked
                       in
                       do {
                         w \<leftarrow> write_sector hw (ucast fat_sector)
                                (patch sector offset_in_sector (to_le 4 (unat new_value)));
                         if \<not> write_ok w then State_Monad.return (Some (False, previous))
                         else write_fat_copies hw info fat_sector_index offset_in_sector masked rest previous
                       }
               }))"

definition write_fat_entry :: "hardware \<Rightarrow> BootSectorInfo \<Rightarrow> u32 \<Rightarrow> u32 \<Rightarrow> bool option blk" where
  "write_fat_entry hw info cluster val =
     (case checked_mul cluster 4 of
        None \<Rightarrow> State_Monad.return (Some False)
      | Some byte_offset \<Rightarrow>
          let fat_sector_index = byte_offset div ucast (bytes_per_sector info);
              offset_in_sector = unat (byte_offset mod ucast (bytes_per_sector info));
              masked = val AND 0x0FFFFFFF
          in
          ask (write_fat_copies hw info fat_sector_index offset_in_sector masked [0..<unat (num_fats info)] None)
            (\<lambda>(ok, previous_masked).
               if \<not> ok then State_Monad.return (Some False)
               else
                 do {
                   (case previous_masked of
                      None \<Rightarrow> State_Monad.return ()
                    | Some previous \<Rightarrow>
                        if previous = 0 \<and> masked \<noteq> 0 then adjust_fsinfo_free_count hw info (- 1)
                        else if previous \<noteq> 0 \<and> masked = 0 then adjust_fsinfo_free_count hw info 1
                        else State_Monad.return ());
                   State_Monad.return (Some True)
                 }))"

subsection \<open>Allocation\<close>

fun free_clusters :: "hardware \<Rightarrow> BootSectorInfo \<Rightarrow> u32 list \<Rightarrow> unit option blk" where
  "free_clusters hw info [] = State_Monad.return (Some ())"
| "free_clusters hw info (cluster # rest) =
     ask (write_fat_entry hw info cluster 0) (\<lambda>_. free_clusters hw info rest)"

fun scan_fat :: "hardware \<Rightarrow> BootSectorInfo \<Rightarrow> nat list \<Rightarrow> u32 option blk" where
  "scan_fat hw info [] = State_Monad.return None"
| "scan_fat hw info (fat_sector_index # rest) =
     or_none (checked_add (fat_start_sector info) (of_nat fat_sector_index)) (\<lambda>fat_sector.
       ask (read_sector hw (ucast fat_sector)) (\<lambda>sector.
         case first_free_cluster_in_fat_sector sector (of_nat fat_sector_index)
                (ucast (bytes_per_sector info) div 4) of
           Some cluster \<Rightarrow> State_Monad.return (Some cluster)
         | None \<Rightarrow> scan_fat hw info rest))"

definition allocate_free_cluster :: "hardware \<Rightarrow> BootSectorInfo \<Rightarrow> u32 option blk" where
  "allocate_free_cluster hw info = scan_fat hw info [0..<unat (fat_size_32 info)]"

text \<open>The reservation pass: \<open>todo\<close> clusters are still missing, \<open>reserved\<close> are in \<open>out\<close>.\<close>

fun reserve_clusters ::
    "hardware \<Rightarrow> BootSectorInfo \<Rightarrow> nat \<Rightarrow> nat \<Rightarrow> u32 list \<Rightarrow> (bool \<times> u32 list) option blk" where
  "reserve_clusters hw info 0 reserved out = State_Monad.return (Some (True, out))"
| "reserve_clusters hw info (Suc todo) reserved out =
     do {
       r \<leftarrow> allocate_free_cluster hw info;
       case r of
         None \<Rightarrow>
           ask (free_clusters hw info (take reserved out)) (\<lambda>_. State_Monad.return (Some (False, out)))
       | Some cluster \<Rightarrow>
           ask (write_fat_entry hw info cluster CHAIN_EOC_MARKER) (\<lambda>ok.
             if \<not> ok then
               ask (free_clusters hw info (take reserved out)) (\<lambda>_. State_Monad.return (Some (False, out)))
             else reserve_clusters hw info todo (reserved + 1) (out[reserved := cluster]))
     }"

text \<open>The linking pass.\<close>

fun link_clusters :: "hardware \<Rightarrow> BootSectorInfo \<Rightarrow> (u32 \<times> u32) list \<Rightarrow> bool option blk" where
  "link_clusters hw info [] = State_Monad.return (Some True)"
| "link_clusters hw info ((cluster, val) # rest) =
     ask (write_fat_entry hw info cluster val) (\<lambda>ok.
       if \<not> ok then State_Monad.return (Some False) else link_clusters hw info rest)"

definition allocate_cluster_chain ::
    "hardware \<Rightarrow> BootSectorInfo \<Rightarrow> nat \<Rightarrow> u32 list \<Rightarrow> (bool \<times> u32 list) option blk" where
  "allocate_cluster_chain hw info k out =
     (if k = 0 \<or> length out < k then State_Monad.return (Some (False, out))
      else
        ask (reserve_clusters hw info k 0 out) (\<lambda>(reserved, out).
          if \<not> reserved then State_Monad.return (Some (False, out))
          else
            ask (link_clusters hw info (chain_link_values (take k out))) (\<lambda>linked.
              if \<not> linked then
                ask (free_clusters hw info (take k out)) (\<lambda>_. State_Monad.return (Some (False, out)))
              else State_Monad.return (Some (True, out)))))"

subsection \<open>Walking a directory\<close>

text \<open>The loop shared by the four directory scans: for every cluster of the chain, for every sector
  of the cluster, the body either carries its variables on or returns; a failed read or a broken
  chain returns \<open>none\<close>; past the last cluster \<open>at_end\<close> decides.\<close>

datatype ('v, 'r) flow = Continue 'v | Return 'r

fun walk_sectors ::
    "hardware \<Rightarrow> ('v \<Rightarrow> u64 \<Rightarrow> bytes \<Rightarrow> ('v, 'r) flow) \<Rightarrow> 'r \<Rightarrow> u32 \<Rightarrow> nat list \<Rightarrow> 'v \<Rightarrow> ('v, 'r) flow blk" where
  "walk_sectors hw body none sector0 [] v = State_Monad.return (Continue v)"
| "walk_sectors hw body none sector0 (s # rest) v =
     (let sector_num = ucast sector0 + of_nat s in
      do {
        r \<leftarrow> read_sector hw sector_num;
        case r of
          None \<Rightarrow> State_Monad.return (Return none)
        | Some sector \<Rightarrow>
            (case body v sector_num sector of
               Return a \<Rightarrow> State_Monad.return (Return a)
             | Continue v \<Rightarrow> walk_sectors hw body none sector0 rest v)
      })"

fun walk_directory ::
    "hardware \<Rightarrow> BootSectorInfo \<Rightarrow> ('v \<Rightarrow> u64 \<Rightarrow> bytes \<Rightarrow> ('v, 'r) flow) \<Rightarrow> 'r \<Rightarrow> (u32 \<Rightarrow> 'r blk) \<Rightarrow> nat \<Rightarrow> u32 \<Rightarrow> 'v \<Rightarrow>
     'r blk" where
  "walk_directory hw info body none at_end 0 cluster v = State_Monad.return none"
| "walk_directory hw info body none at_end (Suc n) cluster v =
     (case cluster_to_sector info cluster of
        None \<Rightarrow> State_Monad.return none
      | Some sector0 \<Rightarrow>
          do {
            f \<leftarrow> walk_sectors hw body none sector0 [0..<unat (sectors_per_cluster info)] v;
            case f of
              Return a \<Rightarrow> State_Monad.return a
            | Continue v \<Rightarrow>
                do {
                  r \<leftarrow> next_cluster_in_chain hw info cluster;
                  case r of
                    None \<Rightarrow> State_Monad.return none
                  | Some next \<Rightarrow>
                      if is_end_of_chain next then at_end cluster
                      else walk_directory hw info body none at_end n next v
                }
          })"

subsection \<open>Finding an entry by its short name\<close>

fun scan_entries :: "bytes \<Rightarrow> bytes list \<Rightarrow> (unit, ShortDirEntry option) flow" where
  "scan_entries target_name [] = Continue ()"
| "scan_entries target_name (chunk # rest) =
     (if chunk ! 0 = 0 then Return None
      else
        (case parse_short_dir_entry chunk of
           Some entry \<Rightarrow>
             if sde_name entry = target_name then Return (Some entry) else scan_entries target_name rest
         | None \<Rightarrow> scan_entries target_name rest))"

definition find_entry_in_directory :: "hardware \<Rightarrow> BootSectorInfo \<Rightarrow> u32 \<Rightarrow> bytes \<Rightarrow> ShortDirEntry option blk" where
  "find_entry_in_directory hw info dir_cluster target_name =
     walk_directory hw info (\<lambda>_ _ sector. scan_entries target_name (chunks_exact 32 sector)) None
       (\<lambda>_. State_Monad.return None) CHAIN_LIMIT dir_cluster ()"

fun scan_locations :: "bytes \<Rightarrow> u64 \<Rightarrow> nat \<Rightarrow> bytes list \<Rightarrow> (unit, (ShortDirEntry \<times> u32 \<times> nat) option) flow" where
  "scan_locations target_name sector_num index [] = Continue ()"
| "scan_locations target_name sector_num index (chunk # rest) =
     (if chunk ! 0 = 0 then Return None
      else
        (case parse_short_dir_entry chunk of
           Some entry \<Rightarrow>
             if sde_name entry = target_name then Return (Some (entry, ucast sector_num, index * 32))
             else scan_locations target_name sector_num (index + 1) rest
         | None \<Rightarrow> scan_locations target_name sector_num (index + 1) rest))"

definition find_entry_with_location ::
    "hardware \<Rightarrow> BootSectorInfo \<Rightarrow> u32 \<Rightarrow> bytes \<Rightarrow> (ShortDirEntry \<times> u32 \<times> nat) option blk" where
  "find_entry_with_location hw info dir_cluster target_name =
     walk_directory hw info (\<lambda>_ sector_num sector. scan_locations target_name sector_num 0 (chunks_exact 32 sector))
       None (\<lambda>_. State_Monad.return None) CHAIN_LIMIT dir_cluster ()"

subsection \<open>Finding an entry by its long name\<close>

definition MAX_LFN_FRAGMENTS :: nat where "MAX_LFN_FRAGMENTS = 5"

record LfnRun =
  run_fragments :: "u16 list list"
  run_have :: "bool list"
  run_pending_checksum :: "u8 option"
  run_fragment_count :: nat

definition lfn_run_new :: LfnRun where
  "lfn_run_new = \<lparr>run_fragments = replicate MAX_LFN_FRAGMENTS (replicate 13 0),
     run_have = replicate MAX_LFN_FRAGMENTS False, run_pending_checksum = None, run_fragment_count = 0\<rparr>"

definition ascii_case_insensitive_eq :: "u16 \<Rightarrow> u8 \<Rightarrow> bool" where
  "ascii_case_insensitive_eq utf16_char ascii_byte \<longleftrightarrow>
     (if 0x41 \<le> utf16_char \<and> utf16_char \<le> 0x5A then utf16_char + 0x20 else utf16_char) =
     ucast (to_ascii_lowercase ascii_byte)"

text \<open>The two nested loops visit the characters of all fragments in order.\<close>

fun name_chars_match :: "u16 list \<Rightarrow> bytes \<Rightarrow> bool" where
  "name_chars_match [] target \<longleftrightarrow> target = []"
| "name_chars_match (c # cs) target \<longleftrightarrow>
     (if c = 0 then target = []
      else
        (case target of
           [] \<Rightarrow> False
         | expected # rest \<Rightarrow> ascii_case_insensitive_eq c expected \<and> name_chars_match cs rest))"

definition long_name_matches :: "u16 list list \<Rightarrow> bytes \<Rightarrow> bool" where
  "long_name_matches fragments target_ascii = name_chars_match (concat fragments) target_ascii"

definition note_fragment :: "LfnRun \<Rightarrow> LfnFragment \<Rightarrow> LfnRun" where
  "note_fragment run fragment =
     (let idx = unat (lfn_sequence fragment - 1) in
      if idx < MAX_LFN_FRAGMENTS then
        let run = run\<lparr>run_fragments := (run_fragments run)[idx := lfn_chars fragment],
                      run_have := (run_have run)[idx := True]\<rparr>
        in
        if lfn_is_last fragment then
          run\<lparr>run_fragment_count := unat (lfn_sequence fragment), run_pending_checksum := Some (lfn_checksum fragment)\<rparr>
        else run
      else run)"

definition run_names :: "LfnRun \<Rightarrow> bytes \<Rightarrow> ShortDirEntry \<Rightarrow> bool" where
  "run_names run target_ascii entry \<longleftrightarrow>
     (case run_pending_checksum run of
        None \<Rightarrow> False
      | Some expected_checksum \<Rightarrow>
          0 < run_fragment_count run \<and> (\<forall>i<run_fragment_count run. run_have run ! i) \<and>
          expected_checksum = short_name_checksum (sde_name entry) \<and>
          long_name_matches (take (run_fragment_count run) (run_fragments run)) target_ascii)"

definition end_run :: "LfnRun \<Rightarrow> LfnRun" where
  "end_run run = run\<lparr>run_pending_checksum := None, run_fragment_count := 0, run_have := replicate MAX_LFN_FRAGMENTS False\<rparr>"

fun scan_long_names :: "bytes \<Rightarrow> LfnRun \<Rightarrow> bytes list \<Rightarrow> (LfnRun, ShortDirEntry option) flow" where
  "scan_long_names target_ascii run [] = Continue run"
| "scan_long_names target_ascii run (chunk # rest) =
     (if chunk ! 0 = 0 then Return None
      else
        (case parse_lfn_fragment chunk of
           Some fragment \<Rightarrow> scan_long_names target_ascii (note_fragment run fragment) rest
         | None \<Rightarrow>
             (case parse_short_dir_entry chunk of
                Some entry \<Rightarrow>
                  if run_names run target_ascii entry then Return (Some entry)
                  else scan_long_names target_ascii (end_run run) rest
              | None \<Rightarrow> scan_long_names target_ascii (end_run run) rest)))"

definition find_entry_by_long_name :: "hardware \<Rightarrow> BootSectorInfo \<Rightarrow> u32 \<Rightarrow> bytes \<Rightarrow> ShortDirEntry option blk" where
  "find_entry_by_long_name hw info dir_cluster target_ascii =
     walk_directory hw info (\<lambda>run _ sector. scan_long_names target_ascii run (chunks_exact 32 sector)) None
       (\<lambda>_. State_Monad.return None) CHAIN_LIMIT dir_cluster lfn_run_new"

definition find_entry_by_display_name :: "hardware \<Rightarrow> BootSectorInfo \<Rightarrow> u32 \<Rightarrow> string \<Rightarrow> ShortDirEntry option blk" where
  "find_entry_by_display_name hw info dir_cluster name =
     do {
       r \<leftarrow> (case encode_short_name (as_bytes name) of
               Some short \<Rightarrow> find_entry_in_directory hw info dir_cluster short
             | None \<Rightarrow> State_Monad.return None);
       case r of
         Some entry \<Rightarrow> State_Monad.return (Some entry)
       | None \<Rightarrow> find_entry_by_long_name hw info dir_cluster (as_bytes name)
     }"

subsection \<open>Creating: a free slot, growing the directory\<close>

fun zero_sectors :: "hardware \<Rightarrow> u32 \<Rightarrow> nat list \<Rightarrow> bool blk" where
  "zero_sectors hw sector0 [] = State_Monad.return True"
| "zero_sectors hw sector0 (s # rest) =
     do {
       w \<leftarrow> write_sector hw (ucast sector0 + of_nat s) (replicate SECTOR_SIZE 0);
       if \<not> write_ok w then State_Monad.return False else zero_sectors hw sector0 rest
     }"

definition grow_directory :: "hardware \<Rightarrow> BootSectorInfo \<Rightarrow> u32 \<Rightarrow> (u32 \<times> nat) option option blk" where
  "grow_directory hw info last_cluster =
     ask (allocate_cluster_chain hw info 1 [0]) (\<lambda>(ok, new_clusters).
       if \<not> ok then State_Monad.return (Some None)
       else
         let new_cluster = new_clusters ! 0 in
         (case cluster_to_sector info new_cluster of
            None \<Rightarrow> State_Monad.return (Some None)
          | Some sector0 \<Rightarrow>
              do {
                zeroed \<leftarrow> zero_sectors hw sector0 [0..<unat (sectors_per_cluster info)];
                if \<not> zeroed then State_Monad.return (Some None)
                else
                  ask (write_fat_entry hw info last_cluster new_cluster) (\<lambda>linked.
                    State_Monad.return (Some (if linked then Some (sector0, 0) else None)))
              }))"

definition find_or_grow_create_slot :: "hardware \<Rightarrow> BootSectorInfo \<Rightarrow> u32 \<Rightarrow> (u32 \<times> nat) option option blk" where
  "find_or_grow_create_slot hw info dir_cluster =
     walk_directory hw info
       (\<lambda>_ sector_num sector.
          case find_reusable_slot sector of
            Some index \<Rightarrow> Return (Some (Some (ucast sector_num, index * 32)))
          | None \<Rightarrow> Continue ())
       (Some None) (grow_directory hw info) CHAIN_LIMIT dir_cluster ()"

subsection \<open>Reading a file\<close>

definition MAX_FILE_BYTES :: nat where "MAX_FILE_BYTES = 4096"

text \<open>The bytes written into the caller's buffer so far are the accumulator; the flag tells a
  completed sector loop from the early return on a failed read.\<close>

fun read_cluster :: "hardware \<Rightarrow> nat \<Rightarrow> u32 \<Rightarrow> nat list \<Rightarrow> bytes \<Rightarrow> (bool \<times> bytes) blk" where
  "read_cluster hw read_len sector0 [] acc = State_Monad.return (True, acc)"
| "read_cluster hw read_len sector0 (s # rest) acc =
     (if read_len \<le> length acc then State_Monad.return (True, acc)
      else
        do {
          r \<leftarrow> read_sector hw (ucast sector0 + of_nat s);
          case r of
            None \<Rightarrow> State_Monad.return (False, acc)
          | Some sector \<Rightarrow>
              read_cluster hw read_len sector0 rest (acc @ take (min (read_len - length acc) SECTOR_SIZE) sector)
        })"

fun read_chain :: "hardware \<Rightarrow> BootSectorInfo \<Rightarrow> nat \<Rightarrow> nat \<Rightarrow> u32 \<Rightarrow> bytes \<Rightarrow> bytes blk" where
  "read_chain hw info read_len 0 cluster acc = State_Monad.return acc"
| "read_chain hw info read_len (Suc n) cluster acc =
     (if read_len \<le> length acc then State_Monad.return acc
      else
        (case cluster_to_sector info cluster of
           None \<Rightarrow> State_Monad.return acc
         | Some sector0 \<Rightarrow>
             do {
               (finished, acc) \<leftarrow> read_cluster hw read_len sector0 [0..<unat (sectors_per_cluster info)] acc;
               if \<not> finished then State_Monad.return acc
               else if read_len \<le> length acc then State_Monad.return acc
               else
                 do {
                   r \<leftarrow> next_cluster_in_chain hw info cluster;
                   case r of
                     None \<Rightarrow> State_Monad.return acc
                   | Some next \<Rightarrow>
                       if is_end_of_chain next then State_Monad.return acc
                       else read_chain hw info read_len n next acc
                 }
             }))"

definition read_file_contents :: "hardware \<Rightarrow> BootSectorInfo \<Rightarrow> ShortDirEntry \<Rightarrow> nat \<Rightarrow> bytes blk" where
  "read_file_contents hw info entry buf_len =
     read_chain hw info (min (unat (sde_file_size entry)) buf_len) CHAIN_LIMIT (sde_first_cluster entry) []"

definition resolve_single_sector_file :: "hardware \<Rightarrow> BootSectorInfo \<Rightarrow> bytes \<Rightarrow> u32 option blk" where
  "resolve_single_sector_file hw info target_name =
     ask (find_entry_in_directory hw info (root_cluster info) target_name) (\<lambda>entry.
       State_Monad.return (cluster_to_sector info (sde_first_cluster entry)))"

definition resolve_single_sector_file_by_name :: "hardware \<Rightarrow> BootSectorInfo \<Rightarrow> string \<Rightarrow> u32 option blk" where
  "resolve_single_sector_file_by_name hw info name =
     or_none (encode_short_name (as_bytes name)) (resolve_single_sector_file hw info)"


subsection \<open>What the operations keep\<close>

lemma keeps_flow [keep_rules]:
  "(\<And>v. keeps I (m v)) \<Longrightarrow> (\<And>r. keeps I (n r)) \<Longrightarrow> keeps I (case x of Continue v \<Rightarrow> m v | Return r \<Rightarrow> n r)"
  by (cases x) simp_all

context read_invariant
begin

lemma next_cluster_keeps: "keeps I (next_cluster_in_chain hw info c)"
  unfolding next_cluster_in_chain_def by (intro keep_rules read_keeps)

lemma scan_fat_keeps: "keeps I (scan_fat hw info is)"
  by (induction "is") (simp_all only: scan_fat.simps, (intro keep_rules read_keeps; assumption?)+)

lemma allocate_free_keeps: "keeps I (allocate_free_cluster hw info)"
  unfolding allocate_free_cluster_def by (rule scan_fat_keeps)

lemma walk_sectors_keeps: "keeps I (walk_sectors hw body none sector0 ss v)"
  by (induction ss arbitrary: v) (simp_all only: walk_sectors.simps, (intro keep_rules read_keeps; assumption?)+)

lemma walk_directory_keeps:
  assumes "\<And>c. keeps I (at_end c)"
  shows "keeps I (walk_directory hw info body none at_end n c v)"
  by (induction n arbitrary: c v)
    (simp_all only: walk_directory.simps, (intro keep_rules next_cluster_keeps walk_sectors_keeps assms; assumption?)+)

lemma find_keeps:
  "keeps I (find_entry_in_directory hw info c name)"
  "keeps I (find_entry_with_location hw info c name)"
  "keeps I (find_entry_by_long_name hw info c name)"
  unfolding find_entry_in_directory_def find_entry_with_location_def find_entry_by_long_name_def
  by (intro walk_directory_keeps keeps_return)+

lemma display_name_keeps: "keeps I (find_entry_by_display_name hw info c display)"
  unfolding find_entry_by_display_name_def by (intro keep_rules find_keeps)

lemma read_cluster_keeps: "keeps I (read_cluster hw len sector0 ss acc)"
  by (induction ss arbitrary: acc) (simp_all only: read_cluster.simps, (intro keep_rules read_keeps; assumption?)+)

lemma read_chain_keeps: "keeps I (read_chain hw info len n c acc)"
  by (induction n arbitrary: c acc)
    (simp_all only: read_chain.simps, (intro keep_rules next_cluster_keeps read_cluster_keeps; assumption?)+)

lemma read_file_keeps: "keeps I (read_file_contents hw info entry len)"
  unfolding read_file_contents_def by (rule read_chain_keeps)

lemma resolve_keeps:
  "keeps I (resolve_single_sector_file hw info name)"
  "keeps I (resolve_single_sector_file_by_name hw info display)"
  unfolding resolve_single_sector_file_by_name_def resolve_single_sector_file_def
  by (intro keep_rules find_keeps)+

end

context io_invariant
begin

lemma fsinfo_keeps: "keeps I (adjust_fsinfo_free_count hw info delta)"
  unfolding adjust_fsinfo_free_count_def by (intro keep_rules read_keeps write_keeps)

lemma fat_copies_keeps: "keeps I (write_fat_copies hw info i off m cs p)"
  by (induction cs arbitrary: p)
    (simp_all only: write_fat_copies.simps, (intro keep_rules read_keeps write_keeps; assumption?)+)

lemma write_fat_keeps: "keeps I (write_fat_entry hw info c val)"
  unfolding write_fat_entry_def by (intro keep_rules fat_copies_keeps fsinfo_keeps)

lemma free_clusters_keeps: "keeps I (free_clusters hw info cs)"
  by (induction cs) (simp_all only: free_clusters.simps, (intro keep_rules write_fat_keeps; assumption?)+)

lemma reserve_keeps: "keeps I (reserve_clusters hw info n k out)"
  by (induction n arbitrary: k out)
    (simp_all only: reserve_clusters.simps,
     (intro keep_rules write_fat_keeps free_clusters_keeps allocate_free_keeps; assumption?)+)

lemma link_keeps: "keeps I (link_clusters hw info ps)"
proof (induction ps)
  case (Cons p ps)
  then show ?case by (cases p) (simp only: link_clusters.simps, intro keep_rules write_fat_keeps, assumption)
qed (simp add: keeps_return)

lemma allocate_chain_keeps: "keeps I (allocate_cluster_chain hw info k out)"
  unfolding allocate_cluster_chain_def by (intro keep_rules reserve_keeps link_keeps free_clusters_keeps)

lemma zero_keeps: "keeps I (zero_sectors hw sector0 ss)"
  by (induction ss) (simp_all only: zero_sectors.simps, (intro keep_rules write_keeps; assumption?)+)

lemma grow_directory_keeps: "keeps I (grow_directory hw info c)"
  unfolding grow_directory_def by (intro keep_rules allocate_chain_keeps zero_keeps write_fat_keeps)

lemma create_slot_keeps: "keeps I (find_or_grow_create_slot hw info c)"
  unfolding find_or_grow_create_slot_def by (intro walk_directory_keeps grow_directory_keeps)

end

subsection \<open>How many requests the readers post\<close>

lemma costs_next: "costs 1 (next_cluster_in_chain hw info c)"
  unfolding next_cluster_in_chain_def Let_def
  by (intro costs_or_none costs_ask [OF costs_read costs_return [where n = 0]]) simp

lemma costs_walk_sectors: "costs (length ss) (walk_sectors hw body none sector0 ss v)"
proof (induction ss arbitrary: v)
  case (Cons s ss)
  show ?case unfolding walk_sectors.simps Let_def
    by (rule costs_bind [OF costs_read, where j = "length ss"])
      (auto split: option.split flow.split simp: costs_return Cons)
qed (simp add: costs_return)

definition chain_cost :: "BootSectorInfo \<Rightarrow> nat \<Rightarrow> nat" where
  "chain_cost info n = n * (unat (sectors_per_cluster info) + 1)"

lemma chain_cost_Suc:
  "chain_cost info (Suc n) = unat (sectors_per_cluster info) + Suc (chain_cost info n)"
  by (simp add: chain_cost_def)

lemma costs_walk_directory:
  assumes "\<And>c. costs 0 (at_end c)"
  shows "costs (chain_cost info n) (walk_directory hw info body none at_end n c v)"
proof (induction n arbitrary: c v)
  case (Suc n)
  let ?k = "unat (sectors_per_cluster info)"
  have step: "costs (Suc (chain_cost info n))
      (do { r \<leftarrow> next_cluster_in_chain hw info c;
            case r of None \<Rightarrow> State_Monad.return none
            | Some next \<Rightarrow> if is_end_of_chain next then at_end c else walk_directory hw info body none at_end n next w })" for w
    by (rule costs_bind [OF costs_next, where j = "chain_cost info n"])
      (auto split: option.split simp: costs_return Suc intro: costs_mono [OF assms])
  have "costs (?k + (Suc (chain_cost info n)))
      (do { f \<leftarrow> walk_sectors hw body none sector0 [0..<?k] v;
            case f of Return a \<Rightarrow> State_Monad.return a
            | Continue v \<Rightarrow> do { r \<leftarrow> next_cluster_in_chain hw info c;
                case r of None \<Rightarrow> State_Monad.return none
                | Some next \<Rightarrow> if is_end_of_chain next then at_end c else walk_directory hw info body none at_end n next v } })" for sector0
    by (rule costs_bind [OF costs_walk_sectors, where j = "Suc (chain_cost info n)"])
      (auto split: flow.split simp: costs_return intro: step)
  then show ?case by (auto simp: costs_return chain_cost_Suc split: option.split)
qed (simp add: costs_return)

lemma costs_find:
  "costs (chain_cost info CHAIN_LIMIT) (find_entry_in_directory hw info c name)"
  "costs (chain_cost info CHAIN_LIMIT) (find_entry_by_long_name hw info c name)"
  unfolding find_entry_in_directory_def find_entry_by_long_name_def
  by (intro costs_walk_directory costs_return)+

lemma costs_display_name:
  "costs (2 * chain_cost info CHAIN_LIMIT) (find_entry_by_display_name hw info c display)"
proof -
  let ?k = "chain_cost info CHAIN_LIMIT"
  have "costs ?k (case encode_short_name (as_bytes display) of
      Some short \<Rightarrow> find_entry_in_directory hw info c short | None \<Rightarrow> State_Monad.return None)"
    by (auto split: option.split simp: costs_return costs_find)
  then show ?thesis unfolding find_entry_by_display_name_def
    by (rule costs_bind [where j = ?k]) (auto split: option.split simp: costs_return costs_find)
qed

lemma costs_read_cluster: "costs (length ss) (read_cluster hw len sector0 ss acc)"
proof (induction ss arbitrary: acc)
  case (Cons s ss)
  have "costs (length (s # ss))
      (do { r \<leftarrow> read_sector hw (ucast sector0 + of_nat s);
            case r of None \<Rightarrow> State_Monad.return (False, acc)
            | Some sector \<Rightarrow> read_cluster hw len sector0 ss (acc @ take (min (len - length acc) SECTOR_SIZE) sector) })"
    by (rule costs_bind [OF costs_read, where j = "length ss"]) (auto split: option.split simp: costs_return Cons)
  then show ?case by (simp add: costs_return)
qed (simp add: costs_return)

lemma costs_read_chain:
  "costs (chain_cost info n) (read_chain hw info len n c acc)"
proof (induction n arbitrary: c acc)
  case (Suc n)
  let ?k = "unat (sectors_per_cluster info)"
  have step: "costs (Suc (chain_cost info n))
      (do { r \<leftarrow> next_cluster_in_chain hw info c;
            case r of None \<Rightarrow> State_Monad.return acc
            | Some next \<Rightarrow> if is_end_of_chain next then State_Monad.return acc else read_chain hw info len n next acc })" for acc
    by (rule costs_bind [OF costs_next, where j = "chain_cost info n"])
      (auto split: option.split simp: costs_return Suc)
  have "costs (?k + (Suc (chain_cost info n)))
      (do { (finished, acc) \<leftarrow> read_cluster hw len sector0 [0..<?k] acc;
            if \<not> finished then State_Monad.return acc
            else if len \<le> length acc then State_Monad.return acc
            else do { r \<leftarrow> next_cluster_in_chain hw info c;
                case r of None \<Rightarrow> State_Monad.return acc
                | Some next \<Rightarrow> if is_end_of_chain next then State_Monad.return acc else read_chain hw info len n next acc } })" for sector0
    by (rule costs_bind [OF costs_read_cluster, where j = "Suc (chain_cost info n)"]) (auto simp: costs_return intro: step)
  then show ?case by (auto simp: costs_return chain_cost_Suc split: option.split)
qed (simp add: costs_return)

end
