(* ===== verification/Allocation.thy ===== *)
theory Allocation
  imports Volume
begin

unbundle bit_operations_syntax

text \<open>
  Cluster allocation on a working disk.  The allocation tables and the free-count hint are abstracted
  to a function from clusters to entries (\<open>represents\<close>); writing an entry, finding a free
  cluster, freeing and allocating a chain are shown to act on that function.
\<close>

subsection \<open>The table on the medium\<close>

text \<open>A volume with 512-byte sectors whose allocation tables fit the disk.\<close>

definition wf_volume :: "BootSectorInfo \<Rightarrow> nat \<Rightarrow> bool" where
  "wf_volume info cap \<longleftrightarrow>
     bytes_per_sector info = 512 \<and> sectors_per_cluster info \<noteq> 0 \<and> num_fats info \<noteq> 0 \<and>
     unat (fat_size_32 info) \<le> 2 ^ 21 \<and>
     unat (data_start_sector info) = unat (fat_start_sector info) + unat (fat_size_32 info) * unat (num_fats info) \<and>
     fsinfo_sector info < fat_start_sector info \<and> unat (data_start_sector info) \<le> cap"

definition in_table :: "BootSectorInfo \<Rightarrow> u32 \<Rightarrow> bool" where
  "in_table info c \<longleftrightarrow> unat c < unat (fat_size_32 info) * 128"

text \<open>Entry \<open>c\<close> of the \<open>k\<close>-th copy of the table.\<close>

definition table_sector :: "BootSectorInfo \<Rightarrow> nat \<Rightarrow> nat \<Rightarrow> u64" where
  "table_sector info k i = of_nat (unat (fat_start_sector info) + unat (fat_size_32 info) * k + i)"

definition fat_get :: "BootSectorInfo \<Rightarrow> (u64 \<Rightarrow> bytes) \<Rightarrow> nat \<Rightarrow> u32 \<Rightarrow> u32" where
  "fat_get info D k c = le32 (D (table_sector info k (unat c div 128))) (unat c mod 128 * 4) AND 0x0FFFFFFF"

text \<open>All copies of the table represent \<open>F\<close>.\<close>

definition table :: "BootSectorInfo \<Rightarrow> (u64 \<Rightarrow> bytes) \<Rightarrow> (u32 \<Rightarrow> u32) \<Rightarrow> bool" where
  "table info D F \<longleftrightarrow> (\<forall>k<unat (num_fats info). \<forall>c. in_table info c \<longrightarrow> fat_get info D k c = F c)"

text \<open>Only the tables and the FSInfo sector differ.\<close>

definition same_data :: "BootSectorInfo \<Rightarrow> (u64 \<Rightarrow> bytes) \<Rightarrow> (u64 \<Rightarrow> bytes) \<Rightarrow> bool" where
  "same_data info D D' \<longleftrightarrow>
     (\<forall>s. unat (data_start_sector info) \<le> unat s \<or>
          unat s < unat (fat_start_sector info) \<and> s \<noteq> ucast (fsinfo_sector info) \<longrightarrow> D' s = D s)"

lemma same_data_refl [simp]: "same_data info D D"
  by (simp add: same_data_def)

lemma same_data_trans: "same_data info D D1 \<Longrightarrow> same_data info D1 D2 \<Longrightarrow> same_data info D D2"
  by (simp add: same_data_def)

subsection \<open>Sector arithmetic\<close>

lemma entry_offset: "c mod 128 * 4 + 4 \<le> (512 :: nat)"
  using mod_less_divisor [of 128 c] by linarith

lemma in_table_bound:
  assumes "wf_volume info cap" "in_table info c"
  shows "unat c < 2 ^ 28"
proof -
  have "unat (fat_size_32 info) * 128 \<le> 2 ^ 21 * 128" using assms(1) by (intro mult_le_mono1) (simp add: wf_volume_def)
  then show ?thesis using assms(2) by (simp add: in_table_def)
qed

lemma entry_place:
  assumes "wf_volume info cap" "in_table info c"
  shows "checked_mul c 4 = Some (c * 4)"
    "unat (c * 4 div ucast (bytes_per_sector info)) = unat c div 128"
    "unat (c * 4 mod ucast (bytes_per_sector info)) = unat c mod 128 * 4"
    "unat (c * 4 mod ucast (bytes_per_sector info) div 4) = unat c mod 128"
proof -
  have c: "unat c < 2 ^ 28" by (rule in_table_bound [OF assms])
  have u: "unat (c * 4) = unat c * 4" using c by (simp add: unat_word_ariths)
  have b: "bytes_per_sector info = 512" using assms(1) by (simp add: wf_volume_def)
  have n: "unat (ucast (512 :: u16) :: u32) = 512" by simp
  show "checked_mul c 4 = Some (c * 4)" using c by (simp add: checked_mul_def)
  show "unat (c * 4 div ucast (bytes_per_sector info)) = unat c div 128"
    unfolding b by (simp add: unat_div u)
  show m: "unat (c * 4 mod ucast (bytes_per_sector info)) = unat c mod 128 * 4"
    unfolding b using mod_mult_mult2 [of "unat c" 4 128] by (simp add: unat_mod u)
  show "unat (c * 4 mod ucast (bytes_per_sector info) div 4) = unat c mod 128"
    using m by (simp add: unat_div)
qed

lemma table_in_region:
  assumes "wf_volume info cap" "k < unat (num_fats info)" "i < unat (fat_size_32 info)"
  shows "unat (fat_start_sector info) + unat (fat_size_32 info) * k + i < unat (data_start_sector info)"
proof -
  have "unat (fat_size_32 info) * k + i < unat (fat_size_32 info) * Suc k" using assms(3) by simp
  also have "\<dots> \<le> unat (fat_size_32 info) * unat (num_fats info)" using assms(2) by (intro mult_le_mono2) simp
  finally show ?thesis using assms(1) by (simp add: wf_volume_def)
qed

lemma unat_of_nat64: "n < 2 ^ 64 \<Longrightarrow> unat (of_nat n :: u64) = n"
  by (simp add: unat_of_nat take_bit_nat_eq_self)

lemma unat_table_sector:
  assumes "wf_volume info cap" "k < unat (num_fats info)" "i < unat (fat_size_32 info)"
  shows "unat (table_sector info k i) = unat (fat_start_sector info) + unat (fat_size_32 info) * k + i"
proof -
  have "unat (fat_start_sector info) + unat (fat_size_32 info) * k + i < 2 ^ 64"
    using table_in_region [OF assms] unsigned_less [of "data_start_sector info", where 'a = nat] by simp
  then show ?thesis unfolding table_sector_def by (rule unat_of_nat64)
qed

lemma table_sector_inj:
  assumes "wf_volume info cap" "k < unat (num_fats info)" "i < unat (fat_size_32 info)"
    "k' < unat (num_fats info)" "i' < unat (fat_size_32 info)"
  shows "table_sector info k i = table_sector info k' i' \<longleftrightarrow> k = k' \<and> i = i'"
proof
  let ?z = "unat (fat_size_32 info)"
  assume "table_sector info k i = table_sector info k' i'"
  then have e: "i + k * ?z = i' + k' * ?z"
    using unat_table_sector [OF assms(1-3)] unat_table_sector [OF assms(1,4,5)] by (simp add: mult.commute)
  have "(i + k * ?z) div ?z = k" "(i' + k' * ?z) div ?z = k'" "(i + k * ?z) mod ?z = i" "(i' + k' * ?z) mod ?z = i'"
    using assms(3,5) by simp_all
  then show "k = k' \<and> i = i'" using e by metis
qed simp

lemma copy_place:
  assumes "wf_volume info cap" "k < unat (num_fats info)" "i < unat (fat_size_32 info)"
  shows "\<exists>base. checked_add (fat_start_sector info) (fat_size_32 info * of_nat k) = Some base \<and>
    (\<forall>w. unat w = i \<longrightarrow> checked_add base w = Some (base + w) \<and> ucast (base + w) = table_sector info k i)"
proof -
  let ?z = "unat (fat_size_32 info)"
  have r: "unat (fat_start_sector info) + ?z * k + i < 2 ^ 32"
    using table_in_region [OF assms] unsigned_less [of "data_start_sector info", where 'a = nat] by simp
  have k: "unat (of_nat k :: u32) = k"
    using assms(2) unsigned_less [of "num_fats info", where 'a = nat] by (simp add: unat_of_nat)
  have p: "unat (fat_size_32 info * of_nat k) = ?z * k" using r k by (simp add: unat_word_ariths)
  have b: "unat (fat_start_sector info + fat_size_32 info * of_nat k) = unat (fat_start_sector info) + ?z * k"
    using r p by (simp add: unat_word_ariths)
  have "checked_add (fat_start_sector info) (fat_size_32 info * of_nat k) = Some (fat_start_sector info + fat_size_32 info * of_nat k)"
    using r p by (simp add: checked_add_def)
  moreover have "checked_add (fat_start_sector info + fat_size_32 info * of_nat k) w = Some (fat_start_sector info + fat_size_32 info * of_nat k + w) \<and>
      ucast (fat_start_sector info + fat_size_32 info * of_nat k + w) = table_sector info k i" if "unat w = i" for w
  proof -
    have u: "unat (fat_start_sector info + fat_size_32 info * of_nat k + w) = unat (fat_start_sector info) + ?z * k + i"
      using r b that by (simp add: unat_word_ariths)
    show ?thesis using r b that unfolding table_sector_def widen_nat u by (simp add: checked_add_def)
  qed
  ultimately show ?thesis by blast
qed

lemma in_table_index:
  assumes "in_table info c" shows "unat c div 128 < unat (fat_size_32 info)"
  using assms by (simp add: in_table_def less_mult_imp_div_less)

lemma wp_next:
  assumes "working disk0 cap hw" "wf_volume info cap" "in_table info c" "medium_is disk0 D d"
    and "\<And>d'. medium_is disk0 D d' \<Longrightarrow> Q (Some (fat_get info D 0 c)) d'"
  shows "wp (next_cluster_in_chain hw info c) Q d"
proof -
  note e = entry_place [OF assms(2,3)] and i = in_table_index [OF assms(3)]
  have nf: "0 < unat (num_fats info)" using assms(2) by (simp add: wf_volume_def unat_gt_0)
  let ?i = "c * 4 div ucast (bytes_per_sector info)"
  from copy_place [OF assms(2) nf i] e(2) have
    s: "checked_add (fat_start_sector info) ?i = Some (fat_start_sector info + ?i)"
       "ucast (fat_start_sector info + ?i) = table_sector info 0 (unat c div 128)"
    by (auto simp: checked_add_def split: if_splits)
  have cap: "unat (table_sector info 0 (unat c div 128)) < cap"
    unfolding unat_table_sector [OF assms(2) nf i]
    using table_in_region [OF assms(2) nf i] assms(2) by (simp add: wf_volume_def)
  have f: "fat_entry_at (D (table_sector info 0 (unat c div 128))) (c * 4 mod ucast (bytes_per_sector info) div 4) =
      Some (fat_get info D 0 c)"
    unfolding fat_get_def e(4) [symmetric] using entry_offset [of "unat c"] medium_length [OF assms(4)] e(4)
    by (intro fat_entry_at_eq) (simp add: SECTOR_SIZE_def)
  show ?thesis unfolding next_cluster_in_chain_def or_none_def e(1) option.case Let_def s
    by (intro wp_ask wp_read [OF assms(1,4) cap]) (simp add: wp_return assms(5) f)
qed

subsection \<open>The free-count hint\<close>

lemma fsinfo_trip:
  assumes "fsinfo_parse sector = Some f" "length sector = 512"
  shows "fsinfo_parse (encode_into f' sector) = Some f'"
proof -
  have sig: "sector ! 510 = 0x55" "sector ! 511 = 0xAA" "le32 sector 0 = FSINFO_SIG1" "le32 sector 484 = FSINFO_SIG2"
    using assms(1) by (auto simp: fsinfo_parse_def split: if_splits)
  let ?a = "patch sector 488 (to_le 4 (unat (free_count f')))"
  let ?b = "patch ?a 492 (to_le 4 (unat (next_free f')))"
  have l: "length ?a = 512" using assms(2) by (simp add: length_patch)
  have n: "?b ! 510 = sector ! 510" "?b ! 511 = sector ! 511"
    using assms(2) by (simp_all add: patch_def nth_append)
  have "le32 ?b 0 = le32 sector 0" "le32 ?b 484 = le32 sector 484" "le32 ?b 488 = free_count f'" "le32 ?b 492 = next_free f'"
    using l assms(2) by (simp_all add: le32_patch_other le32_patch)
  then show ?thesis using sig n by (simp add: fsinfo_parse_def encode_into_def)
qed

lemma encode_into_length: "length sector = 512 \<Longrightarrow> length (encode_into f sector) = 512"
  by (simp add: encode_into_def length_patch)

definition hint :: "BootSectorInfo \<Rightarrow> (u64 \<Rightarrow> bytes) \<Rightarrow> u32 option" where
  "hint info D =
     (case fsinfo_parse (D (ucast (fsinfo_sector info))) of
        None \<Rightarrow> None
      | Some f \<Rightarrow> if free_count f = FSINFO_UNKNOWN then None else Some (free_count f))"

definition adjusted :: "int \<Rightarrow> u32 \<Rightarrow> u32" where
  "adjusted delta n = (if delta < 0 then saturating_sub n (of_int (- delta)) else saturating_add n (of_int delta))"

text \<open>What a change of the hint leaves: every other sector, and the count adjusted when it is known.\<close>

definition hint_moved :: "BootSectorInfo \<Rightarrow> int \<Rightarrow> (u64 \<Rightarrow> bytes) \<Rightarrow> (u64 \<Rightarrow> bytes) \<Rightarrow> bool" where
  "hint_moved info delta D D' \<longleftrightarrow>
     (\<forall>s. s \<noteq> ucast (fsinfo_sector info) \<longrightarrow> D' s = D s) \<and>
     (hint info D = None \<longrightarrow> D' = D) \<and>
     (\<forall>n. hint info D = Some n \<and> adjusted delta n \<noteq> FSINFO_UNKNOWN \<longrightarrow> hint info D' = Some (adjusted delta n))"

lemma fsinfo_in_cap: "wf_volume info cap \<Longrightarrow> unat (ucast (fsinfo_sector info) :: u64) < cap"
  by (simp add: wf_volume_def word_less_nat_alt)

lemma wp_adjust:
  assumes "working disk0 cap hw" "wf_volume info cap" "medium_is disk0 D d"
    and "\<And>D' d'. medium_is disk0 D' d' \<Longrightarrow> hint_moved info delta D D' \<Longrightarrow> Q () d'"
  shows "wp (adjust_fsinfo_free_count hw info delta) Q d"
proof -
  let ?s = "ucast (fsinfo_sector info) :: u64"
  note cap = fsinfo_in_cap [OF assms(2)]
  have l: "length (D ?s) = 512" using medium_length [OF assms(3)] by (simp add: SECTOR_SIZE_def)
  have same: "hint_moved info delta D D" if "hint info D = None" using that by (simp add: hint_moved_def)
  show ?thesis unfolding adjust_fsinfo_free_count_def
  proof (intro wp_bind wp_read [OF assms(1,3) cap], simp, intro wp_option wp_if wp_Let wp_return, goal_cases)
    case (1 d')
    show ?case by (rule assms(4) [OF 1(1) same]) (simp add: hint_def 1(2))
  next
    case (2 d' f)
    show ?case by (rule assms(4) [OF 2(1) same]) (simp add: hint_def 2(2,3))
  next
    case (3 d' f)
    let ?f = "f\<lparr>free_count := adjusted delta (free_count f)\<rparr>"
    have "hint_moved info delta D (D(?s := encode_into ?f (D ?s)))"
      using 3(2,3) fsinfo_trip [OF 3(2) l, of ?f] by (simp add: hint_moved_def hint_def)
    then show ?case using 3 assms(4) unfolding adjusted_def
      by (intro wp_bind wp_write [OF assms(1) 3(1) cap] wp_return) (simp_all add: encode_into_length l SECTOR_SIZE_def)
  qed
qed

subsection \<open>Writing an entry\<close>

lemma fat_get_patched:
  assumes "wf_volume info cap" "\<And>s. length (D s) = SECTOR_SIZE" "in_table info c" "in_table info c'"
    and "k < unat (num_fats info)" "k' < unat (num_fats info)"
  defines "t \<equiv> table_sector info k (unat c div 128)"
  shows "fat_get info (D(t := patch (D t) (unat c mod 128 * 4)
      (to_le 4 (unat ((le32 (D t) (unat c mod 128 * 4) AND 0xF0000000) OR (v AND 0x0FFFFFFF)))))) k' c' =
    (if k' = k \<and> c' = c then v AND 0x0FFFFFFF else fat_get info D k' c')"
proof (cases "table_sector info k' (unat c' div 128) = t")
  case False
  then show ?thesis using assms(5) by (auto simp: fat_get_def t_def)
next
  case True
  then have k: "k' = k" "unat c' div 128 = unat c div 128"
    using table_sector_inj [OF assms(1,6) in_table_index [OF assms(4)] assms(5) in_table_index [OF assms(3)]]
    by (simp_all add: t_def)
  have l: "unat c mod 128 * 4 + 4 \<le> length (D t)" using entry_offset assms(2) by (simp add: SECTOR_SIZE_def)
  show ?thesis
  proof (cases "c' = c")
    case True
    then show ?thesis using k l by (simp add: fat_get_def t_def le32_patch mask_merge)
  next
    case False
    then have "unat c' mod 128 \<noteq> unat c mod 128"
      using k(2) by (metis div_mult_mod_eq word_unat_eq_iff)
    then have "unat c' mod 128 * 4 + 4 \<le> unat c mod 128 * 4 \<or> unat c mod 128 * 4 + 4 \<le> unat c' mod 128 * 4" by linarith
    then show ?thesis using k l False by (simp add: fat_get_def t_def le32_patch_other)
  qed
qed

text \<open>The copies \<open>ks\<close> have the entry, everything else is as before.\<close>

definition entry_set :: "BootSectorInfo \<Rightarrow> nat set \<Rightarrow> u32 \<Rightarrow> u32 \<Rightarrow> (u64 \<Rightarrow> bytes) \<Rightarrow> (u64 \<Rightarrow> bytes) \<Rightarrow> bool" where
  "entry_set info K c m D D' \<longleftrightarrow>
     (\<forall>k c'. k < unat (num_fats info) \<and> in_table info c' \<longrightarrow>
        fat_get info D' k c' = (if k \<in> K \<and> c' = c then m else fat_get info D k c')) \<and>
     (\<forall>s. (\<forall>k\<in>K. s \<noteq> table_sector info k (unat c div 128)) \<longrightarrow> D' s = D s)"

lemma entry_set_refl: "entry_set info {} c m D D"
  by (simp add: entry_set_def)

lemma entry_set_step:
  assumes "entry_set info {k} c m D D1" "entry_set info K c m D1 D2"
  shows "entry_set info (insert k K) c m D D2"
  using assms by (auto simp: entry_set_def)

lemma wp_copies:
  assumes "working disk0 cap hw" "wf_volume info cap" "in_table info c"
    and i: "unat i = unat c div 128"
  shows "medium_is disk0 D d \<Longrightarrow> distinct ks \<Longrightarrow> \<forall>k\<in>set ks. k < unat (num_fats info) \<Longrightarrow>
    (\<And>D' d'. medium_is disk0 D' d' \<Longrightarrow> entry_set info (set ks) c (v AND 0x0FFFFFFF) D D' \<Longrightarrow>
       Q (Some (True, if 0 \<in> set ks then Some (fat_get info D 0 c) else previous)) d') \<Longrightarrow>
    wp (write_fat_copies hw info i (unat c mod 128 * 4) (v AND 0x0FFFFFFF) ks previous) Q d"
proof (induction ks arbitrary: D d previous)
  case Nil
  show ?case using Nil.prems(4) [OF Nil.prems(1)] by (simp add: wp_return entry_set_refl)
next
  case (Cons k ks)
  let ?t = "table_sector info k (unat c div 128)" and ?m = "v AND 0x0FFFFFFF"
  let ?new = "(le32 (D ?t) (unat c mod 128 * 4) AND 0xF0000000) OR ?m"
  let ?D = "D(?t := patch (D ?t) (unat c mod 128 * 4) (to_le 4 (unat ?new)))"
  have k: "k < unat (num_fats info)" using Cons.prems(3) by simp
  note idx = in_table_index [OF assms(3)]
  from copy_place [OF assms(2) k idx] i obtain base where
    b: "checked_add (fat_start_sector info) (fat_size_32 info * of_nat k) = Some base"
       "checked_add base i = Some (base + i)" "ucast (base + i) = ?t" by auto
  have cap: "unat ?t < cap"
    unfolding unat_table_sector [OF assms(2) k idx]
    using table_in_region [OF assms(2) k idx] assms(2) by (simp add: wf_volume_def)
  have l: "\<And>s. length (D s) = SECTOR_SIZE" using medium_length [OF Cons.prems(1)] .
  have off: "unat c mod 128 * 4 + 4 \<le> length (D ?t)" using entry_offset l by (simp add: SECTOR_SIZE_def)
  have "fat_get info ?D k' c' = (if k' = k \<and> c' = c then ?m else fat_get info D k' c')"
    if "in_table info c'" "k' < unat (num_fats info)" for k' c'
    by (rule fat_get_patched [OF assms(2) l assms(3) that(1) k that(2)])
  then have one: "entry_set info {k} c ?m D ?D" by (simp add: entry_set_def)
  have prev: "(if k = 0 then Some (le32 (D ?t) (unat c mod 128 * 4) AND 0x0FFFFFFF) else previous) =
      (if k = 0 then Some (fat_get info D 0 c) else previous)" by (simp add: fat_get_def)
  show ?case unfolding write_fat_copies.simps b option.case
  proof (intro wp_bind wp_read [OF assms(1) Cons.prems(1) cap], simp only: option.case, rule wp_if, goal_cases)
    case (1 d')
    then show ?case using off by linarith
  next
    case (2 d')
    have len: "length (patch (D ?t) (unat c mod 128 * 4) (to_le 4 (unat ?new))) = SECTOR_SIZE"
      using off l by (simp add: length_patch)
    show ?case unfolding Let_def prev
    proof (intro wp_bind wp_write [OF assms(1) 2(1) cap len], goal_cases)
      case (1 d2 r)
      have "wp (write_fat_copies hw info i (unat c mod 128 * 4) ?m ks (if k = 0 then Some (fat_get info D 0 c) else previous)) Q d2"
      proof (rule Cons.IH [OF 1(1)], goal_cases)
        case (3 D' d')
        have "fat_get info ?D 0 c = fat_get info D 0 c" if "0 \<in> set ks"
          using one that Cons.prems(2,3) assms(3) by (auto simp: entry_set_def)
        then show ?case using Cons.prems(2) Cons.prems(4) [OF 3(1)] entry_set_step [OF one 3(2)]
          by (auto simp: fun_upd_def)
      qed (use Cons.prems in auto)
      then show ?case using 1(2) by simp
    qed
  qed
qed

lemma entry_set_outside:
  assumes "wf_volume info cap" "entry_set info {0..<unat (num_fats info)} c m D D'" "in_table info c"
    and "unat (data_start_sector info) \<le> unat s \<or> unat s < unat (fat_start_sector info)"
  shows "D' s = D s"
proof -
  have "s \<noteq> table_sector info k (unat c div 128)" if "k < unat (num_fats info)" for k
    using unat_table_sector [OF assms(1) that in_table_index [OF assms(3)]]
      table_in_region [OF assms(1) that in_table_index [OF assms(3)]] assms(4) by auto
  then show ?thesis using assms(2) by (simp add: entry_set_def)
qed

text \<open>The change of the hint that goes with replacing entry value \<open>p\<close> by \<open>m\<close>.\<close>

definition hint_delta :: "u32 \<Rightarrow> u32 \<Rightarrow> int" where
  "hint_delta p m = (if p = 0 \<and> m \<noteq> 0 then - 1 else if p \<noteq> 0 \<and> m = 0 then 1 else 0)"

definition hint_after :: "BootSectorInfo \<Rightarrow> int \<Rightarrow> (u64 \<Rightarrow> bytes) \<Rightarrow> (u64 \<Rightarrow> bytes) \<Rightarrow> bool" where
  "hint_after info delta D D' \<longleftrightarrow>
     (hint info D = None \<longrightarrow> hint info D' = None) \<and>
     (\<forall>n. hint info D = Some n \<and> (delta = 0 \<or> adjusted delta n \<noteq> FSINFO_UNKNOWN) \<longrightarrow>
        hint info D' = Some (if delta = 0 then n else adjusted delta n))"

lemma table_moved:
  assumes "wf_volume info cap" "table info D F" "\<And>s. s \<noteq> ucast (fsinfo_sector info) \<Longrightarrow> D' s = D s"
  shows "table info D' F"
proof -
  have "table_sector info k (unat c div 128) \<noteq> ucast (fsinfo_sector info)" if "k < unat (num_fats info)" "in_table info c" for k c
    using unat_table_sector [OF assms(1) that(1) in_table_index [OF that(2)]] assms(1)
    by (auto simp: wf_volume_def word_less_nat_alt)
  then show ?thesis using assms(2,3) by (simp add: table_def fat_get_def)
qed

lemma wp_write_fat:
  assumes "working disk0 cap hw" "wf_volume info cap" "in_table info c" "medium_is disk0 D d" "table info D F"
    and Q: "\<And>D' d'. medium_is disk0 D' d' \<Longrightarrow> table info D' (F(c := v AND 0x0FFFFFFF)) \<Longrightarrow> same_data info D D' \<Longrightarrow>
      hint_after info (hint_delta (F c) (v AND 0x0FFFFFFF)) D D' \<Longrightarrow> Q (Some True) d'"
  shows "wp (write_fat_entry hw info c v) Q d"
proof -
  let ?m = "v AND 0x0FFFFFFF" and ?K = "[0..<unat (num_fats info)]"
  note e = entry_place [OF assms(2,3)]
  have nf: "0 < unat (num_fats info)" using assms(2) by (simp add: wf_volume_def unat_gt_0)
  have prev: "(if 0 \<in> set ?K then Some (fat_get info D 0 c) else None) = Some (F c)"
    using nf assms(3,5) by (simp add: table_def)
  have fsi: "unat (ucast (fsinfo_sector info) :: u64) < unat (fat_start_sector info)"
    using assms(2) by (simp add: wf_volume_def word_less_nat_alt)
  show ?thesis unfolding write_fat_entry_def e(1) option.case Let_def e(3)
  proof (rule wp_ask, rule wp_copies [OF assms(1-3) e(2) assms(4)], goal_cases)
    case (3 D1 d1)
    have t1: "table info D1 (F(c := ?m))" using 3(2) assms(5) by (auto simp: table_def entry_set_def)
    have out: "D1 s = D s" if "unat (data_start_sector info) \<le> unat s \<or> unat s < unat (fat_start_sector info)" for s
      using entry_set_outside [OF assms(2) _ assms(3) that] 3(2) by simp
    have h1: "hint info D1 = hint info D" using out fsi by (simp add: hint_def)
    have s1: "same_data info D D1" using out by (simp add: same_data_def)
    have moved: "Q (Some True) d2" if h: "medium_is disk0 D2 d2" and m: "hint_moved info delta D1 D2"
      and dl: "delta = hint_delta (F c) ?m" "delta \<noteq> 0" for D2 d2 delta
    proof (rule Q [OF h])
      show "table info D2 (F(c := ?m))" using m by (intro table_moved [OF assms(2) t1]) (simp add: hint_moved_def)
      have "s \<noteq> ucast (fsinfo_sector info)" if "unat (data_start_sector info) \<le> unat s" for s :: u64
        using that fsi assms(2) by (auto simp: wf_volume_def)
      then have "same_data info D1 D2" using m by (auto simp: same_data_def hint_moved_def)
      then show "same_data info D D2" by (rule same_data_trans [OF s1])
      show "hint_after info (hint_delta (F c) ?m) D D2" using m dl h1 by (auto simp: hint_after_def hint_moved_def)
    qed
    have still: "Q (Some True) d1" if "hint_delta (F c) ?m = 0"
      by (rule Q [OF 3(1) t1 s1]) (simp add: hint_after_def h1 that)
    show ?case unfolding prev option.case prod.case
      by (simp only: not_True_eq_False if_False, intro wp_bind wp_if wp_adjust [OF assms(1,2) 3(1)] wp_return)
        (auto intro!: moved still simp: hint_delta_def)
  qed simp_all
qed

subsection \<open>Free clusters and the hint\<close>

definition free_set :: "BootSectorInfo \<Rightarrow> (u32 \<Rightarrow> u32) \<Rightarrow> u32 set" where
  "free_set info F = {c. in_table info c \<and> 2 \<le> c \<and> F c = 0}"

lemma finite_free [simp]: "finite (free_set info F)"
  by (rule finite_subset [OF subset_UNIV]) simp

text \<open>The medium represents the table: all copies agree with \<open>F\<close>, and a known hint counts exactly the
  free clusters.\<close>

definition represents :: "BootSectorInfo \<Rightarrow> (u64 \<Rightarrow> bytes) \<Rightarrow> (u32 \<Rightarrow> u32) \<Rightarrow> bool" where
  "represents info D F \<longleftrightarrow>
     table info D F \<and> (\<forall>n. hint info D = Some n \<longrightarrow> unat n = card (free_set info F))"

lemma free_bound:
  assumes "wf_volume info cap"
  shows "card (free_set info F) < 2 ^ 28"
proof -
  have "free_set info F \<subseteq> of_nat ` {2..<2 ^ 28}"
  proof
    fix c assume "c \<in> free_set info F"
    then have c: "unat c < 2 ^ 28" "2 \<le> unat c"
      using in_table_bound [OF assms] by (auto simp: free_set_def word_le_nat_alt)
    have "c = of_nat (unat c)" by simp
    then show "c \<in> of_nat ` {2..<2 ^ 28}" using c by (intro image_eqI [where x = "unat c"]) auto
  qed
  then have "card (free_set info F) \<le> card {2..<2 ^ 28 :: nat}" by (intro surj_card_le) simp_all
  then show ?thesis by simp
qed

lemma free_set_write:
  assumes "in_table info c" "2 \<le> c"
  shows "int (card (free_set info (F(c := m)))) = int (card (free_set info F)) + hint_delta (F c) m"
proof -
  have "free_set info (F(c := m)) = (if m = 0 then insert c (free_set info F) else free_set info F - {c})"
    using assms by (auto simp: free_set_def)
  moreover have "c \<in> free_set info F \<longleftrightarrow> F c = 0" using assms by (simp add: free_set_def)
  moreover have "0 < card (free_set info F)" if "F c = 0"
    using that assms by (auto simp: card_gt_0_iff free_set_def)
  ultimately show ?thesis by (auto simp: hint_delta_def card_Diff_singleton insert_absorb)
qed

lemma represents_write:
  assumes wf: "wf_volume info cap" and c: "in_table info c" "2 \<le> c" and r: "represents info D F"
    and t: "table info D' (F(c := m))" and h: "hint_after info (hint_delta (F c) m) D D'"
  shows "represents info D' (F(c := m))"
proof -
  let ?delta = "hint_delta (F c) m"
  have "unat n' = card (free_set info (F(c := m)))" if n': "hint info D' = Some n'" for n'
  proof -
    obtain n where n: "hint info D = Some n" using h n' by (cases "hint info D") (auto simp: hint_after_def)
    have card: "unat n = card (free_set info F)" using r n by (simp add: represents_def)
    have b: "unat n < 2 ^ 28" using free_bound [OF wf] card by simp
    note fw = free_set_write [OF c, of F m]
    have pos: "0 < unat n" if "F c = 0"
      using that c card card_gt_0_iff [of "free_set info F"] by (auto simp: free_set_def)
    have "?delta = 0 \<or> ?delta = - 1 \<and> F c = 0 \<or> ?delta = 1" by (simp add: hint_delta_def)
    then consider "?delta = 0" | "?delta = - 1" "0 < unat n" | "?delta = 1" using pos by metis
    then show ?thesis
    proof cases
      case 1
      then show ?thesis using h n n' card fw by (auto simp: hint_after_def)
    next
      case 2
      then have a: "unat (adjusted ?delta n) = unat n - 1" by (simp add: adjusted_def unat_saturating_sub)
      then have "adjusted ?delta n \<noteq> FSINFO_UNKNOWN" using b by (auto simp: FSINFO_UNKNOWN_def)
      then have "n' = adjusted ?delta n" using h n n' 2 by (auto simp: hint_after_def)
      then show ?thesis using a 2 fw card by simp
    next
      case 3
      then have a: "unat (adjusted ?delta n) = unat n + 1" using b by (simp add: adjusted_def unat_saturating_add)
      then have "adjusted ?delta n \<noteq> FSINFO_UNKNOWN" using b by (auto simp: FSINFO_UNKNOWN_def)
      then have "n' = adjusted ?delta n" using h n n' 3 by (auto simp: hint_after_def)
      then show ?thesis using a 3 fw card by simp
    qed
  qed
  then show ?thesis using t by (simp add: represents_def)
qed

lemma wp_write_entry:
  assumes "working disk0 cap hw" "wf_volume info cap" "in_table info c" "2 \<le> c" "medium_is disk0 D d" "represents info D F"
    and "\<And>D' d'. medium_is disk0 D' d' \<Longrightarrow> represents info D' (F(c := v AND 0x0FFFFFFF)) \<Longrightarrow> same_data info D D' \<Longrightarrow>
      Q (Some True) d'"
  shows "wp (write_fat_entry hw info c v) Q d"
proof -
  have t: "table info D F" using assms(6) by (simp add: represents_def)
  show ?thesis
    by (rule wp_write_fat [OF assms(1,2,3,5) t], rule assms(7)) (auto intro: represents_write [OF assms(2,3,4,6)])
qed

subsection \<open>The first free cluster\<close>

lemma scan_sector_find:
  assumes "length sector = 512" "i < 2 ^ 21" "\<forall>j\<in>set js. j < 128"
  shows "scan_fat_sector sector (of_nat i) 128 js =
    map_option (\<lambda>j. of_nat (i * 128 + j)) (find (\<lambda>j. 2 \<le> i * 128 + j \<and> le32 sector (j * 4) AND 0x0FFFFFFF = 0) js)"
  using assms(3)
proof (induction js)
  case (Cons j js)
  have j: "j < 128" using Cons.prems by simp
  have ui: "unat (of_nat i :: u32) = i" using assms(2) by (simp add: unat_of_nat take_bit_nat_eq_self)
  have uj: "unat (of_nat j :: u32) = j" using j by (simp add: unat_of_nat take_bit_nat_eq_self)
  have m: "checked_mul (of_nat i :: u32) 128 = Some (of_nat i * 128)" using assms(2) ui by (simp add: checked_mul_def)
  have um: "unat (of_nat i * 128 :: u32) = i * 128" using assms(2) ui by (simp add: unat_word_ariths)
  have a: "checked_add (of_nat i * 128 :: u32) (of_nat j) = Some (of_nat i * 128 + of_nat j)"
    using assms(2) j um uj by (simp add: checked_add_def)
  have ua: "unat (of_nat i * 128 + of_nat j :: u32) = i * 128 + j" using assms(2) j um uj by (simp add: unat_word_ariths)
  have lt: "(of_nat i * 128 + of_nat j :: u32) < 2 \<longleftrightarrow> i * 128 + j < 2" using ua by (simp add: word_less_nat_alt)
  have e: "fat_entry_at sector (of_nat j) = Some (le32 sector (j * 4) AND 0x0FFFFFFF)"
    using fat_entry_at_eq [of "of_nat j" sector] uj j assms(1) by simp
  show ?case using Cons unfolding scan_fat_sector.simps m option.case a lt e by simp
qed simp

definition free_at :: "BootSectorInfo \<Rightarrow> (u32 \<Rightarrow> u32) \<Rightarrow> nat \<Rightarrow> bool" where
  "free_at info F n \<longleftrightarrow> 2 \<le> n \<and> F (of_nat n) = 0"

lemma wp_scan_fat:
  assumes "working disk0 cap hw" "wf_volume info cap" "table info D F"
  shows "medium_is disk0 D d \<Longrightarrow> \<forall>i\<in>set is. i < unat (fat_size_32 info) \<Longrightarrow>
    (\<And>d'. medium_is disk0 D d' \<Longrightarrow>
       Q (map_option of_nat (find (free_at info F) (concat (map (\<lambda>i. [i * 128..<i * 128 + 128]) is)))) d') \<Longrightarrow>
    wp (scan_fat hw info is) Q d"
proof (induction "is" arbitrary: d)
  case (Cons i "is")
  have i: "i < unat (fat_size_32 info)" using Cons.prems(2) by simp
  have i21: "i < 2 ^ 21" using i assms(2) by (simp add: wf_volume_def)
  have ui: "unat (of_nat i :: u32) = i" using i21 by (simp add: unat_of_nat take_bit_nat_eq_self)
  have nf: "0 < unat (num_fats info)" using assms(2) by (simp add: wf_volume_def unat_gt_0)
  let ?t = "table_sector info 0 i"
  from copy_place [OF assms(2) nf i] ui have
    s: "checked_add (fat_start_sector info) (of_nat i) = Some (fat_start_sector info + of_nat i)"
       "ucast (fat_start_sector info + of_nat i) = ?t"
    by (auto simp: checked_add_def split: if_splits)
  have cap: "unat ?t < cap"
    unfolding unat_table_sector [OF assms(2) nf i]
    using table_in_region [OF assms(2) nf i] assms(2) by (simp add: wf_volume_def)
  have eps: "ucast (bytes_per_sector info) div 4 = (128 :: u32)" using assms(2) by (simp add: wf_volume_def)
  have entry: "le32 (D ?t) (j * 4) AND 0x0FFFFFFF = F (of_nat (i * 128 + j))" if "j < 128" for j
  proof -
    have u: "unat (of_nat (i * 128 + j) :: u32) = i * 128 + j"
      using i21 that by (simp only: unat_of_nat) (simp add: take_bit_nat_eq_self)
    have "in_table info (of_nat (i * 128 + j))" unfolding in_table_def u using i that by simp
    then have "fat_get info D 0 (of_nat (i * 128 + j)) = F (of_nat (i * 128 + j))"
      using assms(3) nf unfolding table_def by blast
    then show ?thesis unfolding fat_get_def u using that by (simp add: div_add1_eq)
  qed
  have f: "find (\<lambda>j. 2 \<le> i * 128 + j \<and> le32 (D ?t) (j * 4) AND 0x0FFFFFFF = 0) [0..<128] =
      find (\<lambda>j. free_at info F (i * 128 + j)) [0..<128]"
    by (rule find_cong) (auto simp: free_at_def entry)
  have shift: "map_option (\<lambda>j. i * 128 + j) (find (\<lambda>j. free_at info F (i * 128 + j)) [0..<128]) =
      find (free_at info F) [i * 128..<i * 128 + 128]"
  proof -
    have "find P (map g xs) = map_option g (find (\<lambda>x. P (g x)) xs)" for P :: "nat \<Rightarrow> bool" and g :: "nat \<Rightarrow> nat" and xs
      by (induction xs) simp_all
    moreover have "map (\<lambda>j. i * 128 + j) [0..<128] = [i * 128..<i * 128 + 128]"
      using map_add_upt [of "i * 128" 128] by (simp add: add.commute)
    ultimately show ?thesis by metis
  qed
  have len: "length (D ?t) = 512" using medium_length [OF Cons.prems(1)] by (simp add: SECTOR_SIZE_def)
  have ff: "first_free_cluster_in_fat_sector (D ?t) (of_nat i) 128 =
      map_option of_nat (find (free_at info F) [i * 128..<i * 128 + 128])"
    unfolding first_free_cluster_in_fat_sector_def shift [symmetric] f [symmetric]
    using scan_sector_find [OF len i21, of "[0..<128]"] by (simp add: option.map_comp o_def)
  show ?case unfolding scan_fat.simps or_none_def s option.case eps
  proof (intro wp_ask wp_read [OF assms(1) Cons.prems(1) cap], simp only: option.case, unfold ff, goal_cases)
    case (1 d')
    then show ?case using Cons.prems(2,3)
      by (cases "find (free_at info F) [i * 128..<i * 128 + 128]")
        (auto simp: find_append wp_return intro!: Cons.IH)
  qed
qed (simp add: wp_return)

lemma concat_blocks: "concat (map (\<lambda>i. [i * 128..<i * 128 + 128]) [0..<n]) = [0..<n * 128 :: nat]"
proof (induction n)
  case (Suc n)
  have "[0..<Suc n * 128] = [0..<n * 128] @ [n * 128..<n * 128 + 128]"
    by (subst upt_add_eq_append [symmetric]) (simp_all add: add.commute)
  then show ?case using Suc by simp
qed simp

lemma wp_allocate_free:
  assumes "working disk0 cap hw" "wf_volume info cap" "table info D F" "medium_is disk0 D d"
    and some: "\<And>c d'. medium_is disk0 D d' \<Longrightarrow> c \<in> free_set info F \<Longrightarrow> (\<And>c'. c' \<in> free_set info F \<Longrightarrow> c \<le> c') \<Longrightarrow> Q (Some c) d'"
    and none: "\<And>d'. medium_is disk0 D d' \<Longrightarrow> free_set info F = {} \<Longrightarrow> Q None d'"
  shows "wp (allocate_free_cluster hw info) Q d"
  unfolding allocate_free_cluster_def
proof (rule wp_scan_fat [OF assms(1-4)], simp, unfold concat_blocks, goal_cases)
  case (1 d')
  let ?n = "unat (fat_size_32 info) * 128"
  have mem: "unat c < ?n \<and> free_at info F (unat c)" if "c \<in> free_set info F" for c
    using that by (simp add: free_set_def free_at_def in_table_def word_le_nat_alt)
  show ?case
  proof (cases "find (free_at info F) [0..<?n]")
    case None
    then have "free_set info F = {}" using mem by (fastforce simp: find_None_iff)
    then show ?thesis using none [OF 1] None by simp
  next
    case (Some m)
    then have m: "m < ?n" "free_at info F m" "\<And>k. k < m \<Longrightarrow> \<not> free_at info F k"
      by (auto simp: find_Some_iff)
    have "?n \<le> 2 ^ 21 * 128" using assms(2) by (intro mult_le_mono1) (simp add: wf_volume_def)
    then have um: "unat (of_nat m :: u32) = m" using m(1) by (simp add: unat_of_nat take_bit_nat_eq_self)
    have "of_nat m \<in> free_set info F"
      using m um by (simp add: free_set_def in_table_def free_at_def word_le_nat_alt)
    moreover have "of_nat m \<le> c'" if "c' \<in> free_set info F" for c'
    proof -
      have "m \<le> unat c'" using mem [OF that] m(3) not_le by blast
      then show ?thesis by (simp add: word_le_nat_alt um)
    qed
    ultimately show ?thesis using some [OF 1] Some by simp
  qed
qed

subsection \<open>Allocating a chain\<close>

lemma mask_small: "unat v < 2 ^ 28 \<Longrightarrow> v AND 0x0FFFFFFF = (v :: u32)"
proof -
  assume "unat v < 2 ^ 28"
  have "(0x0FFFFFFF :: u32) = mask 28" by (simp add: mask_eq_exp_minus_1)
  then have "v AND 0x0FFFFFFF = take_bit 28 v" by (simp add: take_bit_eq_mask)
  also have "unat (take_bit 28 v) = unat v"
    using \<open>unat v < 2 ^ 28\<close> by (simp add: unsigned_take_bit_eq take_bit_nat_eq_self)
  then have "take_bit 28 v = v" by (simp add: word_unat_eq_iff)
  finally show ?thesis .
qed

lemma mask_EOC: "CHAIN_EOC_MARKER AND 0x0FFFFFFF = CHAIN_EOC_MARKER" "CHAIN_EOC_MARKER \<noteq> 0"
  by (simp_all add: CHAIN_EOC_MARKER_def)

text \<open>The table in which \<open>cs\<close> is one chain.\<close>

fun link_chain :: "(u32 \<Rightarrow> u32) \<Rightarrow> u32 list \<Rightarrow> u32 \<Rightarrow> u32" where
  "link_chain F [] = F"
| "link_chain F [c] = F(c := CHAIN_EOC_MARKER)"
| "link_chain F (c # c' # cs) = (link_chain F (c' # cs))(c := c')"

lemma link_chain_agree: "x \<in> set cs \<or> G x = F x \<Longrightarrow> link_chain G cs x = link_chain F cs x"
  by (induction F cs rule: link_chain.induct) auto

lemma link_chain_upd: "c \<notin> set cs \<Longrightarrow> link_chain (F(c := v)) cs = (link_chain F cs)(c := v)"
  by (induction F cs rule: link_chain.induct) (auto simp: fun_eq_iff)

lemma chain_links:
  "chain_link_values [] = []" "chain_link_values [c] = [(c, CHAIN_EOC_MARKER)]"
  "chain_link_values (c # c' # cs) = (c, c') # chain_link_values (c' # cs)"
proof -
  show "chain_link_values (c # c' # cs) = (c, c') # chain_link_values (c' # cs)"
    unfolding chain_link_values_def
    by (rule nth_equalityI) (auto simp: nth_Cons' upt_conv_Cons simp del: upt_Suc)
qed (simp_all add: chain_link_values_def)

definition marked :: "(u32 \<Rightarrow> u32) \<Rightarrow> u32 list \<Rightarrow> u32 \<Rightarrow> u32" where
  "marked F cs c = (if c \<in> set cs then CHAIN_EOC_MARKER else F c)"

lemma free_marked: "free_set info (marked F cs) = free_set info F - set cs"
  by (auto simp: free_set_def marked_def mask_EOC)

lemma wp_free_clusters:
  assumes "working disk0 cap hw" "wf_volume info cap"
  shows "medium_is disk0 D d \<Longrightarrow> represents info D F \<Longrightarrow> \<forall>c\<in>set cs. in_table info c \<and> 2 \<le> c \<Longrightarrow>
    (\<And>D' d'. medium_is disk0 D' d' \<Longrightarrow> represents info D' (\<lambda>c. if c \<in> set cs then 0 else F c) \<Longrightarrow> same_data info D D' \<Longrightarrow>
      Q (Some ()) d') \<Longrightarrow>
    wp (free_clusters hw info cs) Q d"
proof (induction cs arbitrary: D d F)
  case (Cons c cs)
  have c: "in_table info c" "2 \<le> c" using Cons.prems(3) by simp_all
  show ?case unfolding free_clusters.simps
  proof (intro wp_ask wp_write_entry [OF assms c Cons.prems(1,2)], simp only: option.case, rule Cons.IH, assumption, assumption, goal_cases)
    case (1 D1 d1)
    then show ?case using Cons.prems(3) by simp
  next
    case (2 D1 d1 D2 d2)
    have "(\<lambda>x. if x \<in> set cs then 0 else (F(c := 0 AND 0x0FFFFFFF)) x) = (\<lambda>x. if x \<in> set (c # cs) then 0 else F x)"
      by (auto simp: fun_eq_iff)
    then show ?case using 2 Cons.prems(4) same_data_trans [OF 2(3,6)] by simp
  qed
qed (simp add: wp_return)

lemma wp_rollback:
  assumes "working disk0 cap hw" "wf_volume info cap" "medium_is disk0 D d" "represents info D (marked F R)" "set R \<subseteq> free_set info F"
    and "\<And>D' d'. medium_is disk0 D' d' \<Longrightarrow> represents info D' F \<Longrightarrow> same_data info D D' \<Longrightarrow> Q (Some ()) d'"
  shows "wp (free_clusters hw info R) Q d"
proof (rule wp_free_clusters [OF assms(1-4)], goal_cases)
  case 1
  show ?case using assms(5) by (auto simp: free_set_def)
next
  case (2 D' d')
  have "(\<lambda>c. if c \<in> set R then 0 else marked F R c) = F"
    using assms(5) by (auto simp: fun_eq_iff marked_def free_set_def)
  then show ?case using assms(6) [OF 2(1) _ 2(3)] 2(2) by simp
qed

lemma wp_reserve:
  assumes "working disk0 cap hw" "wf_volume info cap"
    and fail: "\<And>D' d' out'. medium_is disk0 D' d' \<Longrightarrow> represents info D' F \<Longrightarrow> same_data info D0 D' \<Longrightarrow>
      card (free_set info F) < n \<Longrightarrow> Q (Some (False, out')) d'"
    and success: "\<And>D' d' out'. medium_is disk0 D' d' \<Longrightarrow> represents info D' (marked F (take n out')) \<Longrightarrow> same_data info D0 D' \<Longrightarrow>
      distinct (take n out') \<Longrightarrow> set (take n out') \<subseteq> free_set info F \<Longrightarrow> n \<le> length out' \<Longrightarrow> Q (Some (True, out')) d'"
  shows "medium_is disk0 D d \<Longrightarrow> same_data info D0 D \<Longrightarrow> represents info D (marked F (take k out)) \<Longrightarrow> distinct (take k out) \<Longrightarrow>
    set (take k out) \<subseteq> free_set info F \<Longrightarrow> k + todo = n \<Longrightarrow> n \<le> length out \<Longrightarrow>
    wp (reserve_clusters hw info todo k out) Q d"
proof (induction todo arbitrary: D d k out)
  case 0
  then show ?case by (simp add: wp_return success)
next
  case (Suc todo)
  let ?R = "take k out"
  have t: "table info D (marked F ?R)" using Suc.prems(3) by (simp add: represents_def)
  have k: "length ?R = k" "k < length out" "card (set ?R) = k"
    using Suc.prems(4,6,7) by (simp_all add: distinct_card)
  show ?case unfolding reserve_clusters.simps
  proof (rule wp_bind, rule wp_allocate_free [OF assms(1,2) t Suc.prems(1)], goal_cases)
    case (1 c d1)
    have c: "in_table info c" "2 \<le> c" "c \<in> free_set info F" "c \<notin> set ?R"
      using 1(2) unfolding free_marked by (auto simp: free_set_def)
    have R: "take (k + 1) (out[k := c]) = ?R @ [c]" using k(2) by (simp add: take_Suc_conv_app_nth)
    have m: "(marked F ?R)(c := CHAIN_EOC_MARKER AND 0x0FFFFFFF) = marked F (take (k + 1) (out[k := c]))"
      unfolding R by (auto simp: fun_eq_iff marked_def mask_EOC)
    have more: "wp (reserve_clusters hw info todo (k + 1) (out[k := c])) Q d2"
      if "medium_is disk0 D2 d2" "represents info D2 (marked F (take (k + 1) (out[k := c])))" "same_data info D D2" for D2 d2
    proof (rule Suc.IH [OF that(1) same_data_trans [OF Suc.prems(2) that(3)] that(2)])
      show "distinct (take (k + 1) (out[k := c]))" using c(4) Suc.prems(4) unfolding R by simp
      show "set (take (k + 1) (out[k := c])) \<subseteq> free_set info F" using c(3) Suc.prems(5) unfolding R by simp
    qed (use Suc.prems in auto)
    show ?case unfolding option.case
    proof (rule wp_ask, rule wp_write_entry [OF assms(1,2) c(1,2) 1(1) Suc.prems(3)])
      fix D2 d2
      assume "medium_is disk0 D2 d2" "represents info D2 ((marked F ?R)(c := CHAIN_EOC_MARKER AND 0x0FFFFFFF))" "same_data info D D2"
      then show "case Some True of None \<Rightarrow> Q None d2 | Some b \<Rightarrow> wp (if \<not> b then
          ask (free_clusters hw info ?R) (\<lambda>_. State_Monad.return (Some (False, out)))
        else reserve_clusters hw info todo (k + 1) (out[k := c])) Q d2"
        using more unfolding m by simp
    qed
  next
    case (2 d1)
    have "free_set info F = set ?R" using 2(2) Suc.prems(5) unfolding free_marked by blast
    then have "card (free_set info F) < n" using k(3) Suc.prems(6) by simp
    then show ?case unfolding option.case
      by (intro wp_ask wp_rollback [OF assms(1,2) 2(1) Suc.prems(3,5)])
        (auto intro!: wp_return fail same_data_trans [OF Suc.prems(2)])
  qed
qed

lemma wp_link:
  assumes "working disk0 cap hw" "wf_volume info cap"
  shows "medium_is disk0 D d \<Longrightarrow> represents info D G \<Longrightarrow> distinct cs \<Longrightarrow> \<forall>c\<in>set cs. in_table info c \<and> 2 \<le> c \<Longrightarrow>
    (\<And>D' d'. medium_is disk0 D' d' \<Longrightarrow> represents info D' (link_chain G cs) \<Longrightarrow> same_data info D D' \<Longrightarrow> Q (Some True) d') \<Longrightarrow>
    wp (link_clusters hw info (chain_link_values cs)) Q d"
proof (induction cs arbitrary: D d G)
  case Nil
  then show ?case by (simp add: chain_links wp_return)
next
  case (Cons c cs)
  have c: "in_table info c" "2 \<le> c" "c \<notin> set cs" using Cons.prems(3,4) by auto
  define v where "v = (case cs of [] \<Rightarrow> CHAIN_EOC_MARKER | c' # _ \<Rightarrow> c')"
  have l: "chain_link_values (c # cs) = (c, v) # chain_link_values cs"
    by (cases cs) (simp_all add: v_def chain_links)
  have g: "link_chain (G(c := v)) cs = link_chain G (c # cs)"
    using c(3) by (cases cs) (simp_all add: v_def link_chain_upd)
  have v: "v AND 0x0FFFFFFF = v"
    using Cons.prems(4) by (cases cs) (auto simp: v_def mask_EOC intro!: mask_small in_table_bound [OF assms(2)])
  have more: "wp (link_clusters hw info (chain_link_values cs)) Q d1"
    if "medium_is disk0 D1 d1" "represents info D1 (G(c := v))" "same_data info D D1" for D1 d1
  proof (rule Cons.IH [OF that(1,2)])
    fix D' d' assume "medium_is disk0 D' d'" "represents info D' (link_chain (G(c := v)) cs)" "same_data info D1 D'"
    then show "Q (Some True) d'" using Cons.prems(5) same_data_trans [OF that(3)] unfolding g by blast
  qed (use Cons.prems in auto)
  show ?case unfolding l link_clusters.simps
  proof (rule wp_ask, rule wp_write_entry [OF assms c(1,2) Cons.prems(1,2)], unfold v)
    fix D1 d1
    assume "medium_is disk0 D1 d1" "represents info D1 (G(c := v))" "same_data info D D1"
    from more [OF this] show "case Some True of None \<Rightarrow> Q None d1
        | Some b \<Rightarrow> wp (if \<not> b then State_Monad.return (Some False) else link_clusters hw info (chain_link_values cs)) Q d1"
      by simp
  qed
qed

lemma marked_Nil: "marked F [] = F"
  by (simp add: fun_eq_iff marked_def)


subsection \<open>A small volume\<close>

definition sample_fat :: bytes where
  "sample_fat = replicate 8 0 @ [0xFF, 0xFF, 0xFF, 0x0F, 0xFF, 0xFF, 0xFF, 0x0F] @ replicate 496 0"

definition sample_entry :: bytes where
  "sample_entry = as_bytes ''A       TXT'' @ [0x20] @ replicate 14 0 @ [3, 0, 0, 2, 0, 0]"

definition sample_disk :: "u64 \<Rightarrow> bytes" where
  "sample_disk s =
     (if s = 2 \<or> s = 3 then sample_fat
      else if s = 4 then sample_entry @ replicate 480 0
      else if s = 5 then replicate 512 7
      else replicate 512 0)"

definition sample_table :: "u32 \<Rightarrow> u32" where
  "sample_table c = (if c = 2 \<or> c = 3 then CHAIN_EOC_MARKER else 0)"

lemma sample_disk_length: "length (sample_disk s) = SECTOR_SIZE"
  by (simp add: sample_disk_def sample_fat_def sample_entry_def SECTOR_SIZE_def)

lemma sample_volume: "wf_volume sample_info 100"
  by (simp add: wf_volume_def sample_info_def)

lemma from_le_zeros: "from_le (replicate n 0) = 0"
  by (induction n) simp_all

lemma sample_fat_entry:
  assumes "n < 128"
  shows "le32 sample_fat (n * 4) AND 0x0FFFFFFF = sample_table (of_nat n)"
proof -
  consider "n = 0" | "n = 1" | "n = 2" | "n = 3" | "4 \<le> n" by linarith
  then show ?thesis
  proof cases
    case 5
    have "of_nat n \<noteq> (2 :: u32)" "of_nat n \<noteq> (3 :: u32)"
      using 5 assms by (auto simp: word_unat_eq_iff unat_of_nat take_bit_nat_eq_self)
    moreover have "drop 16 sample_fat = replicate 496 0" by (simp add: sample_fat_def)
    then have "drop (n * 4 - 16 + 16) sample_fat = replicate (496 - (n * 4 - 16)) 0" unfolding drop_drop [symmetric] by simp
    then have "take 4 (drop (n * 4) sample_fat) = replicate 4 0" using 5 assms by (simp add: min_def)
    ultimately show ?thesis using from_le_zeros [of 4] by (simp add: le32_def sample_table_def)
  qed (simp_all add: le32_def sample_fat_def sample_table_def CHAIN_EOC_MARKER_def from_le_zeros)
qed

lemma sample_represents: "represents sample_info sample_disk sample_table"
proof -
  have "fat_get sample_info sample_disk k c = sample_table c" if "k < 2" "unat c < 128" for k c
  proof -
    have "table_sector sample_info k 0 = 2 \<or> table_sector sample_info k 0 = 3"
      using that(1) by (cases k) (auto simp: table_sector_def sample_info_def)
    then have "sample_disk (table_sector sample_info k (unat c div 128)) = sample_fat"
      using that(2) by (auto simp: sample_disk_def)
    then show ?thesis using sample_fat_entry [OF that(2)] that(2) by (simp add: fat_get_def)
  qed
  then have "table sample_info sample_disk sample_table"
    by (simp add: table_def in_table_def sample_info_def)
  moreover have "hint sample_info sample_disk = None"
    by (simp add: hint_def sample_info_def sample_disk_def fsinfo_parse_def)
  ultimately show ?thesis by (simp add: represents_def)
qed

lemmas sample_facts = ram_disk_working [OF sample_disk_length] sample_volume medium_new [OF sample_disk_length] sample_represents


end
