(* ===== verification/Directories.thy ===== *)
theory Directories
  imports Allocation
begin

unbundle bit_operations_syntax

text \<open>
  Reading on a working disk: cluster chains, the bytes of a file, and directory scans as searches
  in the list of entries of the chain.
\<close>

subsection \<open>Clusters and chains\<close>

lemma cluster_sector_Some:
  assumes "cluster_to_sector info c = Some s"
  shows "2 \<le> c \<and> unat s = unat (data_start_sector info) + (unat c - 2) * unat (sectors_per_cluster info)"
proof -
  from assms obtain i o' where i: "\<not> c < 2" "checked_sub c 2 = Some i"
      "checked_mul i (ucast (sectors_per_cluster info)) = Some o'" "checked_add (data_start_sector info) o' = Some s"
    by (auto simp: cluster_to_sector_def split: if_splits option.splits)
  have u: "unat (ucast (sectors_per_cluster info) :: u32) = unat (sectors_per_cluster info)"
    using unsigned_less [of "sectors_per_cluster info", where 'a = nat] by (simp add: unsigned_ucast_eq take_bit_nat_eq_self)
  have "unat i = unat c - 2" using i(1,2) by (auto simp: checked_sub_def unat_sub split: if_splits)
  moreover have "unat o' = unat i * unat (sectors_per_cluster info)"
    using i(3) u by (auto simp: checked_mul_def unat_word_ariths split: if_splits)
  moreover have "unat s = unat (data_start_sector info) + unat o'"
    using i(4) by (auto simp: checked_add_def unat_word_ariths split: if_splits)
  ultimately show ?thesis using i(1) by simp
qed

text \<open>The cluster is in the table and its sectors are on the disk.\<close>

definition usable :: "BootSectorInfo \<Rightarrow> nat \<Rightarrow> u32 \<Rightarrow> bool" where
  "usable info cap c \<longleftrightarrow> in_table info c \<and>
     (\<exists>s. cluster_to_sector info c = Some s \<and> unat s + unat (sectors_per_cluster info) \<le> cap)"

definition cluster_sectors :: "BootSectorInfo \<Rightarrow> u32 \<Rightarrow> u64 list" where
  "cluster_sectors info c =
     (case cluster_to_sector info c of
        None \<Rightarrow> []
      | Some s \<Rightarrow> map (\<lambda>i. ucast s + of_nat i) [0..<unat (sectors_per_cluster info)])"

definition cluster_bytes :: "BootSectorInfo \<Rightarrow> (u64 \<Rightarrow> bytes) \<Rightarrow> u32 \<Rightarrow> bytes" where
  "cluster_bytes info D c = concat (map D (cluster_sectors info c))"

fun is_chain :: "(u32 \<Rightarrow> u32) \<Rightarrow> u32 list \<Rightarrow> bool" where
  "is_chain F [] \<longleftrightarrow> False"
| "is_chain F [c] \<longleftrightarrow> is_end_of_chain (F c)"
| "is_chain F (c # c' # cs) \<longleftrightarrow> F c = c' \<and> \<not> is_end_of_chain c' \<and> is_chain F (c' # cs)"

text \<open>A chain of the volume that starts at \<open>c\<close> and is short enough to be walked.\<close>

definition chain_from :: "BootSectorInfo \<Rightarrow> nat \<Rightarrow> (u32 \<Rightarrow> u32) \<Rightarrow> u32 \<Rightarrow> u32 list \<Rightarrow> bool" where
  "chain_from info cap F c cs \<longleftrightarrow>
     is_chain F cs \<and> hd cs = c \<and> length cs \<le> CHAIN_LIMIT \<and> list_all (usable info cap) cs"

lemma sector_offset:
  assumes "cluster_to_sector info c = Some s" "i < unat (sectors_per_cluster info)"
  shows "unat (ucast s + of_nat i :: u64) = unat s + i"
proof -
  have "unat s < 2 ^ 32" using unsigned_less [of s, where 'a = nat] by simp
  moreover have i: "i < 256" using assms(2) unsigned_less [of "sectors_per_cluster info", where 'a = nat] by simp
  moreover have "unat (of_nat i :: u64) = i" using i by (intro unat_of_nat64) simp
  ultimately show ?thesis by (simp add: unat_word_ariths)
qed

lemma sector_range:
  assumes "x \<in> set (cluster_sectors info c)"
  shows "\<exists>i<unat (sectors_per_cluster info).
    2 \<le> c \<and> unat x = unat (data_start_sector info) + (unat c - 2) * unat (sectors_per_cluster info) + i"
proof -
  obtain s i where s: "cluster_to_sector info c = Some s" "i < unat (sectors_per_cluster info)" "x = ucast s + of_nat i"
    using assms by (cases "cluster_to_sector info c") (auto simp: cluster_sectors_def)
  show ?thesis using sector_offset [OF s(1,2)] cluster_sector_Some [OF s(1)] s(2,3) by auto
qed

lemma clusters_disjoint:
  assumes "x \<in> set (cluster_sectors info c)" "x \<in> set (cluster_sectors info c')"
  shows "c = c'"
proof -
  let ?k = "unat (sectors_per_cluster info)"
  from sector_range [OF assms(1)] sector_range [OF assms(2)] obtain i j where
    i: "i < ?k" "j < ?k" "(unat c - 2) * ?k + i = (unat c' - 2) * ?k + j" and c: "2 \<le> c" "2 \<le> c'" by auto
  have "((unat c - 2) * ?k + i) div ?k = unat c - 2" "((unat c' - 2) * ?k + j) div ?k = unat c' - 2"
    using i(1,2) by simp_all
  then have "unat c - 2 = unat c' - 2" using i(3) by metis
  moreover have "2 \<le> unat c" "2 \<le> unat c'" using c by (simp_all add: word_le_nat_alt)
  ultimately show ?thesis by (simp add: word_unat_eq_iff)
qed

lemma sectors_in_data: "x \<in> set (cluster_sectors info c) \<Longrightarrow> unat (data_start_sector info) \<le> unat x"
  using sector_range by fastforce

lemma sectors_in_cap:
  assumes "usable info cap c" "x \<in> set (cluster_sectors info c)"
  shows "unat x < cap"
  using assms sector_offset unfolding usable_def cluster_sectors_def by force

lemma usable_sectors:
  "usable info cap c \<Longrightarrow> \<exists>s. cluster_to_sector info c = Some s \<and>
     cluster_sectors info c = map (\<lambda>i. ucast s + of_nat i) [0..<unat (sectors_per_cluster info)]"
  by (auto simp: usable_def cluster_sectors_def)

subsection \<open>Reading a file\<close>

lemma take_fill:
  "acc @ take (len - length acc) (x @ y) =
   (acc @ take (len - length acc) x) @ take (len - length (acc @ take (len - length acc) x)) y"
  by (cases "len - length acc \<le> length x") auto

lemma wp_read_cluster:
  assumes "working disk0 cap hw"
  shows "medium_is disk0 D d \<Longrightarrow> \<forall>s\<in>set ss. unat (ucast sector0 + of_nat s :: u64) < cap \<Longrightarrow> length acc \<le> len \<Longrightarrow>
    (\<And>d'. medium_is disk0 D d' \<Longrightarrow>
      Q (True, acc @ take (len - length acc) (concat (map (\<lambda>s. D (ucast sector0 + of_nat s)) ss))) d') \<Longrightarrow>
    wp (read_cluster hw len sector0 ss acc) Q d"
proof (induction ss arbitrary: d acc)
  case (Cons s ss)
  let ?x = "ucast sector0 + of_nat s :: u64"
  have x: "unat ?x < cap" and l: "length (D ?x) = SECTOR_SIZE"
    using Cons.prems(2) medium_length [OF Cons.prems(1)] by simp_all
  show ?case
  proof (cases "len \<le> length acc")
    case True
    then show ?thesis using Cons.prems(1,4) by (simp add: wp_return)
  next
    case False
    let ?acc = "acc @ take (min (len - length acc) SECTOR_SIZE) (D ?x)"
    have t: "take (min (len - length acc) SECTOR_SIZE) (D ?x) = take (len - length acc) (D ?x)"
      using l by (simp add: take_all_iff min_def)
    have "wp (read_cluster hw len sector0 ss ?acc) Q d'" if "medium_is disk0 D d'" for d'
    proof (rule Cons.IH [OF that])
      fix d2 assume "medium_is disk0 D d2"
      then show "Q (True, ?acc @ take (len - length ?acc) (concat (map (\<lambda>s. D (ucast sector0 + of_nat s)) ss))) d2"
        using Cons.prems(4) unfolding t list.map concat.simps take_fill by simp
    qed (use Cons.prems in auto)
    then show ?thesis using False by (auto intro!: wp_bind wp_read [OF assms Cons.prems(1) x])
  qed
qed (simp add: wp_return)

lemma wp_read_chain:
  assumes "working disk0 cap hw" "wf_volume info cap" "table info D F"
  shows "medium_is disk0 D d \<Longrightarrow> is_chain F cs \<Longrightarrow> list_all (usable info cap) cs \<Longrightarrow> length cs \<le> n \<Longrightarrow> length acc \<le> len \<Longrightarrow>
    (\<And>d'. medium_is disk0 D d' \<Longrightarrow> Q (acc @ take (len - length acc) (concat (map (cluster_bytes info D) cs))) d') \<Longrightarrow>
    wp (read_chain hw info len n (hd cs) acc) Q d"
proof (induction cs arbitrary: n acc d)
  case (Cons c cs)
  obtain n' where n: "n = Suc n'" using Cons.prems(4) by (cases n) auto
  have u: "usable info cap c" using Cons.prems(3) by simp
  obtain s where s: "cluster_to_sector info c = Some s"
      "cluster_sectors info c = map (\<lambda>i. ucast s + of_nat i) [0..<unat (sectors_per_cluster info)]"
    using usable_sectors [OF u] by blast
  have cap: "\<forall>i\<in>set [0..<unat (sectors_per_cluster info)]. unat (ucast s + of_nat i :: u64) < cap"
    using sectors_in_cap [OF u] s(2) by auto
  have b: "concat (map (\<lambda>i. D (ucast s + of_nat i)) [0..<unat (sectors_per_cluster info)]) = cluster_bytes info D c"
    by (simp add: cluster_bytes_def s(2) o_def)
  have it: "in_table info c" using u by (simp add: usable_def)
  have nf: "0 < unat (num_fats info)" using assms(2) by (simp add: wf_volume_def unat_gt_0)
  have F: "fat_get info D 0 c = F c" using assms(3) it nf by (simp add: table_def)
  let ?acc = "acc @ take (len - length acc) (cluster_bytes info D c)"
  have tail: "wp (next_cluster_in_chain hw info c) (\<lambda>r. wp (case r of None \<Rightarrow> State_Monad.return ?acc
      | Some next \<Rightarrow> if is_end_of_chain next then State_Monad.return ?acc else read_chain hw info len n' next ?acc) Q) d'"
    if "medium_is disk0 D d'" "\<not> len \<le> length ?acc" for d'
  proof (rule wp_next [OF assms(1,2) it that(1)], unfold F)
    fix d2 assume d2: "medium_is disk0 D d2"
    show "wp (case Some (F c) of None \<Rightarrow> State_Monad.return ?acc
      | Some next \<Rightarrow> if is_end_of_chain next then State_Monad.return ?acc else read_chain hw info len n' next ?acc) Q d2"
    proof (cases cs)
      case Nil
      then show ?thesis using Cons.prems(2,6) d2 that by (auto simp: wp_return)
    next
      case (Cons c' cs')
      have "wp (read_chain hw info len n' (hd cs) ?acc) Q d2"
        by (rule Cons.IH [OF d2]) (use Cons.prems Cons n that in auto)
      then show ?thesis using Cons.prems(2) Cons by simp
    qed
  qed
  show ?case
  proof (cases "len \<le> length acc")
    case True
    then show ?thesis using Cons.prems(1,6) n by (simp add: wp_return)
  next
    case False
    have full: "Q ?acc d'" if "medium_is disk0 D d'" "len \<le> length ?acc" for d'
    proof -
      have "length (cluster_bytes info D c) \<ge> len - length acc" using that(2) False by simp
      then show ?thesis using Cons.prems(6) [OF that(1)] by simp
    qed
    show ?thesis using False unfolding n read_chain.simps list.sel s(1) option.case
    proof (intro wp_if wp_bind wp_read_cluster [OF assms(1) Cons.prems(1) cap Cons.prems(5)], unfold b, goal_cases)
      case (2 d')
      show ?case unfolding prod.case
      proof (intro wp_if wp_return wp_bind, goal_cases)
        case 2
        show ?case by (rule full) fact+
      next
        case 3
        show ?case by (rule tail) fact+
      qed simp
    qed simp
  qed
qed simp

subsection \<open>Walking a directory\<close>

fun run_body :: "('v \<Rightarrow> u64 \<Rightarrow> bytes \<Rightarrow> ('v, 'r) flow) \<Rightarrow> (u64 \<Rightarrow> bytes) \<Rightarrow> u64 list \<Rightarrow> 'v \<Rightarrow> ('v, 'r) flow" where
  "run_body body D [] v = Continue v"
| "run_body body D (s # ss) v = (case body v s (D s) of Return r \<Rightarrow> Return r | Continue v \<Rightarrow> run_body body D ss v)"

lemma run_body_append:
  "run_body body D (xs @ ys) v = (case run_body body D xs v of Return r \<Rightarrow> Return r | Continue v \<Rightarrow> run_body body D ys v)"
  by (induction xs arbitrary: v) (auto split: flow.split)

definition chain_sectors :: "BootSectorInfo \<Rightarrow> u32 list \<Rightarrow> u64 list" where
  "chain_sectors info cs = concat (map (cluster_sectors info) cs)"

lemma wp_walk_sectors:
  assumes "working disk0 cap hw"
  shows "medium_is disk0 D d \<Longrightarrow> \<forall>s\<in>set ss. unat (ucast sector0 + of_nat s :: u64) < cap \<Longrightarrow>
    (\<And>d'. medium_is disk0 D d' \<Longrightarrow> Q (run_body body D (map (\<lambda>s. ucast sector0 + of_nat s) ss) v) d') \<Longrightarrow>
    wp (walk_sectors hw body none sector0 ss v) Q d"
proof (induction ss arbitrary: d v)
  case (Cons s ss)
  let ?x = "ucast sector0 + of_nat s :: u64"
  have x: "unat ?x < cap" using Cons.prems(2) by simp
  show ?case unfolding walk_sectors.simps Let_def
  proof (intro wp_bind wp_read [OF assms Cons.prems(1) x], goal_cases)
    case (1 d')
    then show ?case using Cons.prems(2,3)
      by (cases "body v ?x (D ?x)") (auto simp: wp_return intro!: Cons.IH)
  qed
qed (simp add: wp_return)

lemma wp_walk_directory:
  assumes "working disk0 cap hw" "wf_volume info cap" "table info D F"
  shows "medium_is disk0 D d \<Longrightarrow> is_chain F cs \<Longrightarrow> list_all (usable info cap) cs \<Longrightarrow> length cs \<le> n \<Longrightarrow>
    (\<And>d' r. medium_is disk0 D d' \<Longrightarrow> run_body body D (chain_sectors info cs) v = Return r \<Longrightarrow> Q r d') \<Longrightarrow>
    (\<And>d' w. medium_is disk0 D d' \<Longrightarrow> run_body body D (chain_sectors info cs) v = Continue w \<Longrightarrow> wp (at_end (last cs)) Q d') \<Longrightarrow>
    wp (walk_directory hw info body none at_end n (hd cs) v) Q d"
proof (induction cs arbitrary: n v d)
  case (Cons c cs)
  obtain n' where n: "n = Suc n'" using Cons.prems(4) by (cases n) auto
  have u: "usable info cap c" using Cons.prems(3) by simp
  obtain s where s: "cluster_to_sector info c = Some s"
      "cluster_sectors info c = map (\<lambda>i. ucast s + of_nat i) [0..<unat (sectors_per_cluster info)]"
    using usable_sectors [OF u] by blast
  have cap: "\<forall>i\<in>set [0..<unat (sectors_per_cluster info)]. unat (ucast s + of_nat i :: u64) < cap"
    using sectors_in_cap [OF u] s(2) by auto
  have it: "in_table info c" using u by (simp add: usable_def)
  have nf: "0 < unat (num_fats info)" using assms(2) by (simp add: wf_volume_def unat_gt_0)
  have F: "fat_get info D 0 c = F c" using assms(3) it nf by (simp add: table_def)
  have cons: "run_body body D (chain_sectors info (c # cs)) v =
      (case run_body body D (cluster_sectors info c) v of Return r \<Rightarrow> Return r
       | Continue w \<Rightarrow> run_body body D (chain_sectors info cs) w)"
    by (simp add: chain_sectors_def run_body_append split: flow.split)
  show ?case unfolding n walk_directory.simps list.sel s(1) option.case
  proof (intro wp_bind wp_walk_sectors [OF assms(1) Cons.prems(1) cap], unfold s(2) [symmetric], goal_cases)
    case (1 d1)
    show ?case
    proof (cases "run_body body D (cluster_sectors info c) v")
      case (Return r)
      then show ?thesis using Cons.prems(5) [OF 1] cons by (simp add: wp_return)
    next
      case (Continue w)
      have "wp (next_cluster_in_chain hw info c) (\<lambda>r. wp (case r of None \<Rightarrow> State_Monad.return none
          | Some next \<Rightarrow> if is_end_of_chain next then at_end c else walk_directory hw info body none at_end n' next w) Q) d1"
      proof (rule wp_next [OF assms(1,2) it 1], unfold F)
        fix d2 assume d2: "medium_is disk0 D d2"
        show "wp (case Some (F c) of None \<Rightarrow> State_Monad.return none
          | Some next \<Rightarrow> if is_end_of_chain next then at_end c else walk_directory hw info body none at_end n' next w) Q d2"
        proof (cases cs)
          case Nil
          then show ?thesis using Cons.prems(2) Cons.prems(6) [OF d2] cons Continue by (simp add: chain_sectors_def)
        next
          case (Cons c' cs')
          have "wp (walk_directory hw info body none at_end n' (hd cs) w) Q d2"
            by (rule Cons.IH [OF d2]) (use Cons.prems Cons n cons Continue in auto)
          then show ?thesis using Cons.prems(2) Cons by simp
        qed
      qed
      then show ?thesis using Continue by (simp add: wp_bind)
    qed
  qed
qed simp

subsection \<open>Looking up a short name\<close>

text \<open>The 32-byte entries of a directory, and those before the end mark that are in use.\<close>

definition directory_entries :: "BootSectorInfo \<Rightarrow> (u64 \<Rightarrow> bytes) \<Rightarrow> u32 list \<Rightarrow> bytes list" where
  "directory_entries info D cs = concat (map (\<lambda>s. chunks_exact 32 (D s)) (chain_sectors info cs))"

definition live_entries :: "bytes list \<Rightarrow> ShortDirEntry list" where
  "live_entries entries = List.map_filter parse_short_dir_entry (takeWhile (\<lambda>e. e ! 0 \<noteq> 0) entries)"

definition lookup_name :: "BootSectorInfo \<Rightarrow> (u64 \<Rightarrow> bytes) \<Rightarrow> u32 list \<Rightarrow> bytes \<Rightarrow> ShortDirEntry option" where
  "lookup_name info D cs name = find (\<lambda>e. sde_name e = name) (live_entries (directory_entries info D cs))"

lemma scan_entries_append:
  "scan_entries t (xs @ ys) = (case scan_entries t xs of Return r \<Rightarrow> Return r | Continue _ \<Rightarrow> scan_entries t ys)"
  by (induction xs) (auto split: option.split)

lemma run_scan_entries:
  "run_body (\<lambda>_ _ sector. scan_entries t (chunks_exact 32 sector)) D ss () =
   scan_entries t (concat (map (\<lambda>s. chunks_exact 32 (D s)) ss))"
  by (induction ss) (auto simp: scan_entries_append split: flow.split)

lemma scan_entries_find:
  "(case scan_entries t es of Return r \<Rightarrow> r | Continue _ \<Rightarrow> None) = find (\<lambda>e. sde_name e = t) (live_entries es)"
  by (induction es) (auto simp: live_entries_def List.map_filter_simps split: option.split)

lemma wp_find_entry:
  assumes "working disk0 cap hw" "wf_volume info cap" "table info D F" "medium_is disk0 D d" "chain_from info cap F c cs"
    and "\<And>d'. medium_is disk0 D d' \<Longrightarrow> Q (lookup_name info D cs name) d'"
  shows "wp (find_entry_in_directory hw info c name) Q d"
proof -
  have c: "is_chain F cs" "list_all (usable info cap) cs" "length cs \<le> CHAIN_LIMIT" "hd cs = c"
    using assms(5) by (simp_all add: chain_from_def)
  have l: "lookup_name info D cs name = (case scan_entries name (directory_entries info D cs) of Return r \<Rightarrow> r | Continue _ \<Rightarrow> None)"
    unfolding lookup_name_def by (rule scan_entries_find [symmetric])
  show ?thesis unfolding find_entry_in_directory_def c(4) [symmetric]
    by (rule wp_walk_directory [OF assms(1-4) c(1-3)])
      (use assms(6) l in \<open>auto simp: run_scan_entries directory_entries_def wp_return\<close>)
qed

end
