(* ===== verification/FsWire.thy ===== *)
theory FsWire
  imports MarshalWire Capability "HOL-Library.Monad_Syntax"
begin

text \<open>
  The wire format between a client and the filesystem server, \<open>ipc/src/fs.rs\<close>: requests that
  carry a file name and a capability token for that file, and responses.  Both formats are message
  codecs in the sense of \<open>MarshalWire\<close>.
\<close>

definition MAX_NAME_LEN :: nat where "MAX_NAME_LEN = 64"
definition MAX_TOKEN_FIELD_LEN :: nat where "MAX_TOKEN_FIELD_LEN = 256"
definition MAX_DATA_LEN :: nat where "MAX_DATA_LEN = 4096"

text \<open>\<open>slice.get(off..)\<close>.\<close>

definition get_from :: "bytes \<Rightarrow> nat \<Rightarrow> bytes option" where
  "get_from buf off = (if off \<le> length buf then Some (drop off buf) else None)"

definition fs_encode_string :: "string \<Rightarrow> bytes" where
  "fs_encode_string s = to_le 2 (length s) @ as_bytes s"

definition fs_decode_string :: "bytes \<Rightarrow> (string \<times> nat) option" where
  "fs_decode_string buf =
     (if length buf < 2 then None
      else
        let len = from_le (take 2 buf) in
        if MAX_TOKEN_FIELD_LEN < len then None
        else if length buf < 2 + len then None
        else if utf8_valid (take len (drop 2 buf)) then Some (of_bytes (take len (drop 2 buf)), 2 + len)
        else None)"

definition encode_token :: "CapabilityToken \<Rightarrow> bytes" where
  "encode_token t =
     fs_encode_string (tok_subject t) @ fs_encode_string (tok_resource t) @
     to_le 8 (unat (tok_issued_at t)) @ to_le 8 (unat (tok_expires_at t)) @
     fs_encode_string (tok_key_id t) @ fs_encode_string (tok_signature t)"

definition decode_token :: "bytes \<Rightarrow> (CapabilityToken \<times> nat) option" where
  "decode_token buf = do {
     (subject, n) \<leftarrow> fs_decode_string buf;
     let off = n;
     rest \<leftarrow> get_from buf off;
     (resource, n) \<leftarrow> fs_decode_string rest;
     let off = off + n;
     if length buf < off + 16 then None else do {
       let issued_at = of_nat (from_le (take 8 (drop off buf)));
       let expires_at = of_nat (from_le (take 8 (drop (off + 8) buf)));
       let off = off + 16;
       rest \<leftarrow> get_from buf off;
       (key_id, n) \<leftarrow> fs_decode_string rest;
       let off = off + n;
       rest \<leftarrow> get_from buf off;
       (signature, n) \<leftarrow> fs_decode_string rest;
       let off = off + n;
       Some (\<lparr>tok_subject = subject, tok_resource = resource, tok_issued_at = issued_at,
              tok_expires_at = expires_at, tok_key_id = key_id, tok_signature = signature\<rparr>, off)
     }
   }"

datatype FsRequest = Read string CapabilityToken | Write string CapabilityToken bytes

fun fs_request_encode :: "FsRequest \<Rightarrow> bytes" where
  "fs_request_encode (Read name token) = [0] @ fs_encode_string name @ encode_token token"
| "fs_request_encode (Write name token data) =
     [1] @ fs_encode_string name @ encode_token token @ to_le 2 (length data) @ data"

definition fs_request_decode :: "bytes \<Rightarrow> (FsRequest \<times> nat) option" where
  "fs_request_decode buf = (case buf of [] \<Rightarrow> None | tag # _ \<Rightarrow> do {
     let off = 1;
     rest \<leftarrow> get_from buf off;
     (name, n) \<leftarrow> fs_decode_string rest;
     if MAX_NAME_LEN < length name then None else do {
       let off = off + n;
       rest \<leftarrow> get_from buf off;
       (token, n) \<leftarrow> decode_token rest;
       let off = off + n;
       if tag = 0 then Some (Read name token, off)
       else if tag = 1 then do {
         rest \<leftarrow> get_from buf off;
         if length rest < 2 then None
         else
           let len = from_le (take 2 rest) in
           if MAX_DATA_LEN < len then None
           else if length rest < 2 + len then None
           else Some (Write name token (take len (drop 2 rest)), off + (2 + len))
       }
       else None
     }
   })"

datatype FsError = Unauthorized | NotFound | BadRequest | DeviceFailed

fun fs_error_to_byte :: "FsError \<Rightarrow> u8" where
  "fs_error_to_byte Unauthorized = 0"
| "fs_error_to_byte NotFound = 1"
| "fs_error_to_byte BadRequest = 2"
| "fs_error_to_byte DeviceFailed = 3"

definition fs_error_from_byte :: "u8 \<Rightarrow> FsError option" where
  "fs_error_from_byte b =
     (if b = 0 then Some Unauthorized else if b = 1 then Some NotFound
      else if b = 2 then Some BadRequest else if b = 3 then Some DeviceFailed else None)"

datatype FsResponse = Data bytes | FsOk | FsErr FsError

fun fs_response_encode :: "FsResponse \<Rightarrow> bytes" where
  "fs_response_encode (Data d) = [0] @ to_le 2 (length d) @ d"
| "fs_response_encode FsOk = [1]"
| "fs_response_encode (FsErr e) = [2, fs_error_to_byte e]"

definition fs_response_decode :: "bytes \<Rightarrow> (FsResponse \<times> nat) option" where
  "fs_response_decode buf = (case buf of [] \<Rightarrow> None | tag # rest \<Rightarrow>
     if tag = 0 then
       (if length buf < 3 then None
        else
          let len = from_le (take 2 (drop 1 buf)) in
          if MAX_DATA_LEN < len then None
          else if length buf < 3 + len then None
          else Some (Data (take len (drop 3 buf)), 3 + len))
     else if tag = 1 then Some (FsOk, 1)
     else if tag = 2 then
       (case rest of [] \<Rightarrow> None
        | err_byte # _ \<Rightarrow> map_option (\<lambda>e. (FsErr e, 2)) (fs_error_from_byte err_byte))
     else None)"

subsection \<open>What the sender may send\<close>

definition field_ok :: "string \<Rightarrow> bool" where
  "field_ok s \<longleftrightarrow> utf8_valid (as_bytes s) \<and> length s \<le> MAX_TOKEN_FIELD_LEN"

definition token_ok :: "CapabilityToken \<Rightarrow> bool" where
  "token_ok t \<longleftrightarrow>
     field_ok (tok_subject t) \<and> field_ok (tok_resource t) \<and> field_ok (tok_key_id t) \<and> field_ok (tok_signature t)"

fun valid_fs_request :: "FsRequest \<Rightarrow> bool" where
  "valid_fs_request (Read name t) \<longleftrightarrow> utf8_valid (as_bytes name) \<and> length name \<le> MAX_NAME_LEN \<and> token_ok t"
| "valid_fs_request (Write name t d) \<longleftrightarrow>
     utf8_valid (as_bytes name) \<and> length name \<le> MAX_NAME_LEN \<and> token_ok t \<and> length d \<le> MAX_DATA_LEN"

fun valid_fs_response :: "FsResponse \<Rightarrow> bool" where
  "valid_fs_response (Data d) \<longleftrightarrow> length d \<le> MAX_DATA_LEN"
| "valid_fs_response _ \<longleftrightarrow> True"

subsection \<open>Fields\<close>

lemma get_from_append [simp]: "off = length a \<Longrightarrow> get_from (a @ b) off = Some b"
  by (simp add: get_from_def)

lemma get_from_extend: "get_from buf off = Some rest \<Longrightarrow> get_from (buf @ xs) off = Some (rest @ xs)"
  by (auto simp: get_from_def split: if_splits)

lemma fs_string_trip:
  assumes "field_ok s"
  shows "fs_decode_string (fs_encode_string s @ rest) = Some (s, length (fs_encode_string s))"
proof -
  have "length s < 256 ^ 2" using assms by (simp add: field_ok_def MAX_TOKEN_FIELD_LEN_def)
  then show ?thesis using assms
    by (simp add: fs_decode_string_def fs_encode_string_def field_ok_def from_le_to_le of_bytes_as_bytes)
qed

lemma fs_string_extend:
  "fs_decode_string buf = Some (s, n) \<Longrightarrow> n \<le> length buf \<and> fs_decode_string (buf @ rest) = Some (s, n)"
  by (auto simp: fs_decode_string_def Let_def split: if_splits)

lemma field_ok_name: "utf8_valid (as_bytes s) \<Longrightarrow> length s \<le> MAX_NAME_LEN \<Longrightarrow> field_ok s"
  by (simp add: field_ok_def MAX_NAME_LEN_def MAX_TOKEN_FIELD_LEN_def)

lemma word64_trip: "of_nat (from_le (to_le 8 (unat w))) = (w :: u64)"
proof -
  have "unat w < 256 ^ 8" using unsigned_less [of w, where 'a = nat] by simp
  then show ?thesis by (simp add: from_le_to_le)
qed

lemma get_from_skip [simp]: "get_from (a @ b) (length a + n) = get_from b n" "get_from b 0 = Some b"
  by (simp_all add: get_from_def)

lemma get_from_16 [simp]:
  "length a = 8 \<Longrightarrow> length b = 8 \<Longrightarrow> get_from (a @ b @ c) 16 = Some c"
  "length a = 8 \<Longrightarrow> length b = 8 \<Longrightarrow> get_from (a @ b @ c) (16 + n) = get_from c n"
  by (auto simp: get_from_def)

lemma token_trip:
  assumes "token_ok t"
  shows "decode_token (encode_token t @ rest) = Some (t, length (encode_token t))"
  using assms
  by (simp add: decode_token_def encode_token_def token_ok_def fs_string_trip word64_trip Let_def add.assoc)

lemma get_from_Some: "get_from buf off = Some r \<longleftrightarrow> off \<le> length buf \<and> r = drop off buf"
  by (auto simp: get_from_def)

lemma token_extend:
  assumes "decode_token buf = Some (t, n)"
  shows "n \<le> length buf \<and> decode_token (buf @ rest) = Some (t, n)"
proof -
  from assms obtain s1 n1 s2 n2 s3 n3 s4 n4 where
    1: "fs_decode_string buf = Some (s1, n1)" "fs_decode_string (drop n1 buf) = Some (s2, n2)" and
    2: "n1 + n2 + 16 \<le> length buf" and
    3: "fs_decode_string (drop (n1 + n2 + 16) buf) = Some (s3, n3)"
       "fs_decode_string (drop (n1 + n2 + 16 + n3) buf) = Some (s4, n4)" and
    t: "t = \<lparr>tok_subject = s1, tok_resource = s2, tok_issued_at = of_nat (from_le (take 8 (drop (n1 + n2) buf))),
              tok_expires_at = of_nat (from_le (take 8 (drop (n1 + n2 + 8) buf))), tok_key_id = s3, tok_signature = s4\<rparr>"
       "n = n1 + n2 + 16 + n3 + n4"
    by (auto simp: decode_token_def Let_def bind_eq_Some_conv get_from_Some split: prod.splits if_splits)
  note more_bytes = fs_string_extend [OF 1(1), of rest] fs_string_extend [OF 1(2), of rest]
    fs_string_extend [OF 3(1), of rest] fs_string_extend [OF 3(2), of rest]
  have le: "n1 \<le> length buf" "n1 + n2 + 16 + n3 \<le> length buf" "n \<le> length buf" using more_bytes 2 t(2) by auto
  have "drop k (buf @ rest) = drop k buf @ rest" if "k \<le> length buf" for k using that by simp
  then show ?thesis using more_bytes 2 le t
    by (simp add: decode_token_def Let_def get_from_def del: drop_append)
qed

subsection \<open>Messages\<close>

lemma fs_request_trip:
  assumes "valid_fs_request m"
  shows "fs_request_decode (fs_request_encode m @ rest) = Some (m, length (fs_request_encode m))"
proof (cases m)
  case (Read name t)
  have skip: "get_from (0 # x) (Suc n) = get_from x n" for x n by (simp add: get_from_def)
  show ?thesis using assms
    by (simp add: Read fs_request_decode_def fs_string_trip field_ok_name token_trip Let_def skip)
next
  case (Write name t d)
  have skip: "get_from (1 # x) (Suc n) = get_from x n" for x n by (simp add: get_from_def)
  have "length d < 256 ^ 2" using assms by (simp add: Write MAX_DATA_LEN_def)
  then show ?thesis using assms
    by (simp add: Write fs_request_decode_def fs_string_trip field_ok_name token_trip Let_def skip from_le_to_le add.assoc)
qed

lemma fs_request_extend:
  assumes "fs_request_decode buf = Some (m, n)"
  shows "n \<le> length buf \<and> fs_request_decode (buf @ rest) = Some (m, n)"
proof -
  obtain tag bs where buf: "buf = tag # bs" using assms by (auto simp: fs_request_decode_def split: list.splits)
  have skip: "get_from (tag # x) (Suc n) = get_from x n" for x n by (simp add: get_from_def)
  from assms obtain name n1 t n2 where
    1: "fs_decode_string bs = Some (name, n1)" "length name \<le> MAX_NAME_LEN" "n1 \<le> length bs"
       "decode_token (drop n1 bs) = Some (t, n2)" and
    m: "if tag = 0 then m = Read name t \<and> n = Suc (n1 + n2)
        else tag = 1 \<and> n1 + n2 \<le> length bs \<and> 2 \<le> length (drop (n1 + n2) bs) \<and>
          from_le (take 2 (drop (n1 + n2) bs)) \<le> MAX_DATA_LEN \<and>
          2 + from_le (take 2 (drop (n1 + n2) bs)) \<le> length (drop (n1 + n2) bs) \<and>
          m = Write name t (take (from_le (take 2 (drop (n1 + n2) bs))) (drop 2 (drop (n1 + n2) bs))) \<and>
          n = Suc (n1 + n2) + (2 + from_le (take 2 (drop (n1 + n2) bs)))"
    by (auto simp: fs_request_decode_def buf skip Let_def bind_eq_Some_conv get_from_Some not_less
        split: prod.splits if_splits)
  note exts = fs_string_extend [OF 1(1), of rest] token_extend [OF 1(4), of rest]
  have le: "n1 + n2 \<le> length bs" using exts 1(3) by auto
  have d: "drop k (bs @ rest) = drop k bs @ rest" if "k \<le> length bs" for k using that by simp
  show ?thesis
  proof (cases "tag = 0")
    case True
    then show ?thesis using exts 1 m le
      by (simp add: fs_request_decode_def buf skip Let_def get_from_def d del: drop_append)
  next
    case False
    have t2: "take 2 (drop (n1 + n2) bs @ rest) = take 2 (drop (n1 + n2) bs)" using m False by auto
    have d2: "take k (drop 2 (xs @ rest)) = take k (drop 2 xs)" if "2 + k \<le> length xs" for k and xs :: bytes
      using that by simp
    show ?thesis using exts 1 m le False t2
      by (auto simp: fs_request_decode_def buf skip Let_def get_from_def d d2 simp del: drop_append drop_drop)
  qed
qed

interpretation fs_request_codec: message_codec fs_request_encode fs_request_decode valid_fs_request
  by unfold_locales (simp_all only: fs_request_trip fs_request_extend)

lemma fs_response_trip:
  assumes "valid_fs_response m"
  shows "fs_response_decode (fs_response_encode m @ rest) = Some (m, length (fs_response_encode m))"
proof (cases m)
  case (Data d)
  then have "length d < 256 ^ 2" using assms by (simp add: MAX_DATA_LEN_def)
  then show ?thesis using assms Data by (simp add: fs_response_decode_def from_le_to_le Let_def)
next
  case (FsErr e)
  then show ?thesis by (cases e) (simp_all add: fs_response_decode_def fs_error_from_byte_def)
qed (simp add: fs_response_decode_def)

lemma fs_response_extend:
  assumes "fs_response_decode buf = Some (m, n)"
  shows "n \<le> length buf \<and> fs_response_decode (buf @ rest) = Some (m, n)"
  using assms
  by (auto simp: fs_response_decode_def Let_def split: list.splits if_splits option.splits)

interpretation fs_response_codec: message_codec fs_response_encode fs_response_decode valid_fs_response
  by unfold_locales (simp_all only: fs_response_trip fs_response_extend)

end
