(* ===== verification/FsServer.thy ===== *)
theory FsServer
  imports Volume FsWire
begin

text \<open>
  The file server of the block driver, \<open>blk-driver-host/src/main.rs\<close>: per-request
  authorization, the read and write handlers, and the loop that serves up to four sessions, one
  byte per session and pass.  What the kernel returns to the loop (accepted sessions, received
  bytes, ticks, revocation answers) is its input; what it sends is collected in \<open>srv_sent\<close>.
\<close>

definition BLK_DEMO_SEED :: bytes where
  "BLK_DEMO_SEED =
     [0x01, 0x02, 0x03, 0x04, 0x05, 0x06, 0x07, 0x08, 0x09, 0x0a, 0x0b, 0x0c, 0x0d, 0x0e, 0x0f, 0x10,
      0x11, 0x12, 0x13, 0x14, 0x15, 0x16, 0x17, 0x18, 0x19, 0x1a, 0x1b, 0x1c, 0x1d, 0x1e, 0x1f, 0x20]"

definition blk_verifying_key :: "crypto \<Rightarrow> bytes" where
  "blk_verifying_key C = public_key C BLK_DEMO_SEED"

definition file_resource :: "string \<Rightarrow> string" where
  "file_resource name = ''file:'' @ name"

text \<open>What the system calls answer while one session is looked at.\<close>

record SessionEvent =
  ev_byte :: "u8 option"
  ev_ticks :: u64
  ev_revoked :: "u64 \<Rightarrow> u64"

definition verify_file_token :: "crypto \<Rightarrow> SessionEvent \<Rightarrow> CapabilityToken \<Rightarrow> string \<Rightarrow> bool" where
  "verify_file_token C ev token name =
     verify_file_token_with C token (blk_verifying_key C) (file_resource name) (ev_ticks ev) (ev_revoked ev)"

subsection \<open>Handlers\<close>

definition handle_read_ipc_request ::
    "hardware \<Rightarrow> crypto \<Rightarrow> SessionEvent \<Rightarrow> BootSectorInfo \<Rightarrow> string \<Rightarrow> CapabilityToken \<Rightarrow> FsResponse blk" where
  "handle_read_ipc_request hw C ev info name token =
     (if \<not> verify_file_token C ev token name then State_Monad.return (FsErr Unauthorized)
      else
        do {
          faulted \<leftarrow> dev_faulted;
          if faulted then State_Monad.return (FsErr DeviceFailed)
          else
            do {
              r \<leftarrow> find_entry_by_display_name hw info (root_cluster info) name;
              case r of
                None \<Rightarrow>
                  do {
                    faulted \<leftarrow> dev_faulted;
                    State_Monad.return (FsErr (if faulted then DeviceFailed else NotFound))
                  }
              | Some entry \<Rightarrow>
                  if sde_is_dir entry then State_Monad.return (FsErr NotFound)
                  else
                    do {
                      contents \<leftarrow> read_file_contents hw info entry MAX_FILE_BYTES;
                      faulted \<leftarrow> dev_faulted;
                      State_Monad.return (if faulted then FsErr DeviceFailed else Data contents)
                    }
            }
        })"

definition handle_write_ipc_request ::
    "hardware \<Rightarrow> crypto \<Rightarrow> SessionEvent \<Rightarrow> BootSectorInfo \<Rightarrow> string \<Rightarrow> CapabilityToken \<Rightarrow> bytes \<Rightarrow> FsResponse blk" where
  "handle_write_ipc_request hw C ev info name token data =
     (if \<not> verify_file_token C ev token name then State_Monad.return (FsErr Unauthorized)
      else if length data \<noteq> SECTOR_SIZE then State_Monad.return (FsErr BadRequest)
      else
        do {
          faulted \<leftarrow> dev_faulted;
          if faulted then State_Monad.return (FsErr DeviceFailed)
          else
            do {
              r \<leftarrow> resolve_single_sector_file_by_name hw info name;
              case r of
                None \<Rightarrow>
                  do {
                    faulted \<leftarrow> dev_faulted;
                    State_Monad.return (FsErr (if faulted then DeviceFailed else NotFound))
                  }
              | Some sector \<Rightarrow>
                  do {
                    w \<leftarrow> write_sector hw (ucast sector) data;
                    State_Monad.return (if write_ok w then FsOk else FsErr DeviceFailed)
                  }
            }
        })"

fun handle_request ::
    "hardware \<Rightarrow> crypto \<Rightarrow> SessionEvent \<Rightarrow> BootSectorInfo \<Rightarrow> FsRequest \<Rightarrow> FsResponse blk" where
  "handle_request hw C ev info (Read name token) = handle_read_ipc_request hw C ev info name token"
| "handle_request hw C ev info (Write name token data) = handle_write_ipc_request hw C ev info name token data"

subsection \<open>The serving loop\<close>

definition FS_MAX_PENDING_BYTES :: nat where "FS_MAX_PENDING_BYTES = 8192"
definition MAX_FS_SESSIONS :: nat where "MAX_FS_SESSIONS = 4"
definition ACCEPT_POLL_INTERVAL :: nat where "ACCEPT_POLL_INTERVAL = 50000"
definition SERVER_PASSES :: nat where "SERVER_PASSES = 20000000"

record FsSession =
  fs_session_id :: u64
  fs_buf :: bytes

text \<open>One session in one pass; a response means that a request was complete and has been handled.\<close>

definition serve_session ::
    "hardware \<Rightarrow> crypto \<Rightarrow> SessionEvent \<Rightarrow> BootSectorInfo \<Rightarrow> FsSession \<Rightarrow> (FsResponse option \<times> FsSession) blk" where
  "serve_session hw C ev info session =
     (case ev_byte ev of
        None \<Rightarrow> State_Monad.return (None, session)
      | Some byte \<Rightarrow>
          let buf = fs_buf session @ [byte] in
          (case fs_request_decode buf of
             None \<Rightarrow>
               State_Monad.return (None, session\<lparr>fs_buf := if FS_MAX_PENDING_BYTES < length buf then [] else buf\<rparr>)
           | Some (request, consumed) \<Rightarrow>
               do {
                 response \<leftarrow> handle_request hw C ev info request;
                 State_Monad.return (Some response, session\<lparr>fs_buf := drop consumed buf\<rparr>)
               }))"

text \<open>The test-only stall is armed when the first request has been answered.\<close>

definition arm_stall :: "u32 \<Rightarrow> unit blk" where
  "arm_stall requests_served = State (\<lambda>d.
     ((), if requests_served = 1
          then d\<lparr>dev_stall_next_notify := dev_stall_next_notify d \<or> dev_stall_after_first_served d,
                 dev_stall_after_first_served := False\<rparr>
          else d))"

record FsServerState =
  srv_sessions :: "FsSession list"
  srv_served :: u32
  srv_sent :: "(u64 \<times> bytes) list"

definition server_new :: FsServerState where
  "server_new = \<lparr>srv_sessions = [], srv_served = 0, srv_sent = []\<rparr>"

text \<open>The inner loop: the sessions still to visit in this pass; a served session is dropped.\<close>

fun serve_sessions ::
    "hardware \<Rightarrow> crypto \<Rightarrow> (nat \<Rightarrow> SessionEvent) \<Rightarrow> BootSectorInfo \<Rightarrow> nat \<Rightarrow> FsSession list \<Rightarrow> FsServerState \<Rightarrow> FsServerState blk" where
  "serve_sessions hw C events info idx [] srv = State_Monad.return srv"
| "serve_sessions hw C events info idx (session # rest) srv =
     do {
       (r, session) \<leftarrow> serve_session hw C (events idx) info session;
       case r of
         None \<Rightarrow>
           serve_sessions hw C events info (idx + 1) rest (srv\<lparr>srv_sessions := srv_sessions srv @ [session]\<rparr>)
       | Some response \<Rightarrow>
           let served = srv_served srv + 1 in
           do {
             arm_stall served;
             serve_sessions hw C events info (idx + 1) rest
               (srv\<lparr>srv_served := served,
                    srv_sent := srv_sent srv @ [(fs_session_id session, fs_response_encode response)]\<rparr>)
           }
     }"

record PassInput =
  in_accept :: "u64 option"
  in_events :: "nat \<Rightarrow> SessionEvent"

definition accept_session :: "nat \<Rightarrow> u64 option \<Rightarrow> FsSession list \<Rightarrow> FsSession list" where
  "accept_session i accepted sessions =
     (if length sessions < MAX_FS_SESSIONS \<and> i mod ACCEPT_POLL_INTERVAL = 0 then
        (case accepted of
           Some session_id \<Rightarrow> sessions @ [\<lparr>fs_session_id = session_id, fs_buf = []\<rparr>]
         | None \<Rightarrow> sessions)
      else sessions)"

fun server_loop ::
    "hardware \<Rightarrow> crypto \<Rightarrow> BootSectorInfo \<Rightarrow> nat \<Rightarrow> PassInput list \<Rightarrow> FsServerState \<Rightarrow> FsServerState blk" where
  "server_loop hw C info i [] srv = State_Monad.return srv"
| "server_loop hw C info i (inp # rest) srv =
     do {
       srv \<leftarrow> serve_sessions hw C (in_events inp) info 0 (accept_session i (in_accept inp) (srv_sessions srv))
                (srv\<lparr>srv_sessions := []\<rparr>);
       server_loop hw C info (i + 1) rest srv
     }"

definition run_fs_ipc_server :: "hardware \<Rightarrow> crypto \<Rightarrow> BootSectorInfo \<Rightarrow> PassInput list \<Rightarrow> FsServerState blk" where
  "run_fs_ipc_server hw C info inputs = server_loop hw C info 0 (take SERVER_PASSES inputs) server_new"


subsection \<open>What the server keeps, whatever the device does\<close>

context io_invariant
begin

lemma handle_request_keeps: "keeps I (handle_request hw C ev info m)"
  by (cases m)
    (simp_all only: handle_request.simps handle_read_ipc_request_def handle_write_ipc_request_def,
     (intro keep_rules display_name_keeps read_file_keeps resolve_keeps write_keeps)+)

end

text \<open>The byte of the event completed the request.\<close>

definition received :: "SessionEvent \<Rightarrow> FsRequest \<Rightarrow> bool" where
  "received ev m \<longleftrightarrow> (\<exists>buf b n. ev_byte ev = Some b \<and> fs_request_decode (buf @ [b]) = Some (m, n))"

lemma serve_session_keeps:
  assumes "\<And>m. received ev m \<Longrightarrow> keeps I (handle_request hw C ev info m)"
  shows "keeps I (serve_session hw C ev info session)"
proof (cases "ev_byte ev")
  case (Some b)
  show ?thesis
  proof (cases "fs_request_decode (fs_buf session @ [b])")
    case None
    then show ?thesis by (simp add: serve_session_def Some keeps_return)
  next
    case (Some r)
    moreover from Some have "received ev (fst r)"
      using \<open>ev_byte ev = Some b\<close> by (cases r) (auto simp: received_def)
    ultimately show ?thesis using \<open>ev_byte ev = Some b\<close>
      by (cases r) (auto simp: serve_session_def intro!: keeps_bind keeps_return assms)
  qed
qed (simp add: serve_session_def keeps_return)

lemma serve_sessions_keeps:
  assumes "\<And>i m. received (events i) m \<Longrightarrow> keeps I (handle_request hw C (events i) info m)" "\<And>n. keeps I (arm_stall n)"
  shows "keeps I (serve_sessions hw C events info idx ss srv)"
  by (induction ss arbitrary: idx srv)
    (simp_all only: serve_sessions.simps, (intro keep_rules serve_session_keeps assms; assumption?)+)

lemma server_loop_keeps:
  assumes "\<And>inp i m. inp \<in> set inputs \<Longrightarrow> received (in_events inp i) m \<Longrightarrow> keeps I (handle_request hw C (in_events inp i) info m)"
    "\<And>n. keeps I (arm_stall n)"
  shows "keeps I (server_loop hw C info i inputs srv)"
  using assms(1)
proof (induction inputs arbitrary: i srv)
  case (Cons inp inputs)
  then show ?case
    by (simp only: server_loop.simps, intro keep_rules serve_sessions_keeps assms(2)) (auto intro: Cons)
qed (simp add: keeps_return)

lemma server_keeps:
  assumes "\<And>inp i m. inp \<in> set inputs \<Longrightarrow> received (in_events inp i) m \<Longrightarrow> keeps I (handle_request hw C (in_events inp i) info m)"
    "\<And>n. keeps I (arm_stall n)"
  shows "keeps I (run_fs_ipc_server hw C info inputs)"
  unfolding run_fs_ipc_server_def using assms by (intro server_loop_keeps) (auto dest: in_set_takeD)

lemma arm_stall_extends: "keeps (extends P h) (arm_stall n)"
  by (simp add: keeps_def arm_stall_def extends_def)

lemma arm_stall_quarantined: "keeps (quarantined d0) (arm_stall n)"
  by (simp add: keeps_def arm_stall_def quarantined_def)

subsection \<open>Writes are authorised\<close>

text \<open>A write on the medium that a request explains: the byte of the event completed a write
  request, its token passed for the named file, and its payload of one sector is what is written.\<close>

definition authorised_write :: "crypto \<Rightarrow> SessionEvent \<Rightarrow> BlkRequest \<Rightarrow> bool" where
  "authorised_write C ev rq \<longleftrightarrow>
     (\<exists>name token. received ev (Write name token (rq_data rq)) \<and> verify_file_token C ev token name \<and>
        length (rq_data rq) = SECTOR_SIZE)"

lemma handle_request_extends:
  assumes "received ev m" "\<And>rq. authorised_write C ev rq \<Longrightarrow> P rq"
  shows "keeps (extends P h) (handle_request hw C ev info m)"
proof (cases m)
  case (Read name token)
  then show ?thesis
    by (simp only: handle_request.simps handle_read_ipc_request_def)
      (intro keep_rules reading.display_name_keeps reading.read_file_keeps)
next
  case (Write name token data)
  show ?thesis
  proof (cases "verify_file_token C ev token name \<and> length data = SECTOR_SIZE")
    case True
    then have "P rq" if "rq_data rq = data" for rq
      using assms Write that by (auto simp: authorised_write_def)
    then show ?thesis unfolding Write handle_request.simps handle_write_ipc_request_def
      by (intro keep_rules reading.resolve_keeps extends_write)
  next
    case False
    then show ?thesis by (auto simp: Write handle_write_ipc_request_def keeps_return)
  qed
qed


subsection \<open>Quarantine\<close>

definition refusal :: "FsResponse \<Rightarrow> bool" where
  "refusal r \<longleftrightarrow> r \<in> {FsErr Unauthorized, FsErr BadRequest, FsErr DeviceFailed}"

lemma faulted_handle:
  assumes "is_faulted d"
  shows "wp (handle_request hw C ev info m) (\<lambda>r d'. refusal r \<and> d' = d) d"
  using assms
  by (cases m) (auto simp: handle_read_ipc_request_def handle_write_ipc_request_def refusal_def
      intro!: wp_return wp_bind wp_dev_faulted)

definition refused_all :: "FsServerState \<Rightarrow> bool" where
  "refused_all srv \<longleftrightarrow> list_all (\<lambda>(i, reply). \<exists>r. refusal r \<and> reply = fs_response_encode r) (srv_sent srv)"

lemma refused_all_step:
  "refused_all (srv\<lparr>srv_sessions := x\<rparr>) = refused_all srv"
  "refusal r \<Longrightarrow> refused_all srv \<Longrightarrow> refused_all (srv\<lparr>srv_served := n, srv_sent := srv_sent srv @ [(i, fs_response_encode r)]\<rparr>)"
  by (auto simp: refused_all_def)

lemma faulted_serve:
  assumes "is_faulted d"
  shows "wp (serve_session hw C ev info session) (\<lambda>(r, s') d'. (\<forall>resp. r = Some resp \<longrightarrow> refusal resp) \<and> d' = d) d"
  unfolding serve_session_def Let_def
  by (auto split: option.split intro!: wp_return wp_bind wp_mono [OF faulted_handle [OF assms]])

lemma faulted_arm: "is_faulted d \<Longrightarrow> wp (arm_stall n) (\<lambda>_ d'. is_faulted d') d"
  by (simp add: wp_def arm_stall_def is_faulted_def)

lemma faulted_sessions:
  "is_faulted d \<Longrightarrow> refused_all srv \<Longrightarrow>
   wp (serve_sessions hw C events info idx ss srv) (\<lambda>srv' d'. is_faulted d' \<and> refused_all srv') d"
proof (induction ss arbitrary: idx srv d)
  case (Cons s ss)
  show ?case unfolding serve_sessions.simps Let_def
  proof (rule wp_bind, rule wp_mono [OF faulted_serve [OF Cons.prems(1)]], goal_cases)
    case (1 a t)
    then show ?case using Cons.prems
      by (auto simp: refused_all_step split: option.split
          intro!: Cons.IH wp_bind wp_mono [OF faulted_arm [of d]])
  qed
qed (simp add: wp_return)

lemma faulted_loop:
  "is_faulted d \<Longrightarrow> refused_all srv \<Longrightarrow>
   wp (server_loop hw C info i inputs srv) (\<lambda>srv' d'. is_faulted d' \<and> refused_all srv') d"
proof (induction inputs arbitrary: i srv d)
  case (Cons inp inputs)
  show ?case unfolding server_loop.simps
  proof (rule wp_bind, rule wp_mono [OF faulted_sessions [OF Cons.prems(1)]], goal_cases)
    case 1
    then show ?case using Cons.prems(2) by (simp add: refused_all_def)
  next
    case (2 a t)
    then show ?case using Cons.IH by blast
  qed
qed (simp add: wp_return)


text \<open>A pass in which a session is accepted and one byte arrives.\<close>

definition sample_pass :: PassInput where
  "sample_pass = \<lparr>in_accept = Some 7, in_events = (\<lambda>_. \<lparr>ev_byte = Some 0, ev_ticks = 5, ev_revoked = (\<lambda>_. 0)\<rparr>)\<rparr>"


subsection \<open>Bounds\<close>

lemma costs_handle: "costs (3 * chain_cost info CHAIN_LIMIT + 1) (handle_request hw C ev info m)"
proof (cases m)
  case (Read name token)
  let ?k = "chain_cost info CHAIN_LIMIT"
  have r: "costs ?k (read_file_contents hw info entry n)" for entry n
    unfolding read_file_contents_def by (rule costs_read_chain)
  have "costs (3 * ?k) (do {
      r \<leftarrow> find_entry_by_display_name hw info (root_cluster info) name;
      case r of
        None \<Rightarrow> do { faulted \<leftarrow> dev_faulted; State_Monad.return (FsErr (if faulted then DeviceFailed else NotFound)) }
      | Some entry \<Rightarrow>
          if sde_is_dir entry then State_Monad.return (FsErr NotFound)
          else do {
            contents \<leftarrow> read_file_contents hw info entry MAX_FILE_BYTES;
            faulted \<leftarrow> dev_faulted;
            State_Monad.return (if faulted then FsErr DeviceFailed else Data contents) } })"
    by (rule costs_bind [OF costs_display_name, where j = ?k])
      (auto split: option.split intro!: costs_return costs_bind [OF r, where j = 0]
        costs_bind [OF costs_dev_faulted, where i = 0 and j = 0])
  then show ?thesis unfolding Read handle_request.simps handle_read_ipc_request_def
    by (auto intro!: costs_return costs_bind [OF costs_dev_faulted, where i = 0 and j = "3 * ?k + 1"] intro: costs_mono)
next
  case (Write name token data)
  let ?k = "chain_cost info CHAIN_LIMIT"
  have r: "costs ?k (resolve_single_sector_file_by_name hw info name)"
    unfolding resolve_single_sector_file_by_name_def resolve_single_sector_file_def
    by (intro costs_or_none costs_ask [OF costs_find(1) costs_return [where n = 0]]) simp
  have "costs (?k + 1) (do {
      r \<leftarrow> resolve_single_sector_file_by_name hw info name;
      case r of
        None \<Rightarrow> do { faulted \<leftarrow> dev_faulted; State_Monad.return (FsErr (if faulted then DeviceFailed else NotFound)) }
      | Some sector \<Rightarrow>
          do { w \<leftarrow> write_sector hw (ucast sector) data;
               State_Monad.return (if write_ok w then FsOk else FsErr DeviceFailed) } })"
    by (rule costs_bind [OF r, where j = 1])
      (auto split: option.split intro!: costs_return costs_bind [OF costs_write, where j = 0]
        costs_bind [OF costs_dev_faulted, where i = 0 and j = 0])
  then show ?thesis unfolding Write handle_request.simps handle_write_ipc_request_def
    by (auto intro!: costs_return costs_bind [OF costs_dev_faulted, where i = 0 and j = "3 * ?k + 1"] intro: costs_mono)
qed


lemma costs_wp: "costs n m \<Longrightarrow> wp m (\<lambda>_ d'. length (dev_posted d') \<le> length (dev_posted d) + n) d"
  by (simp add: costs_def wp_def)

definition bounded :: "FsSession list \<Rightarrow> bool" where
  "bounded ss \<longleftrightarrow> list_all (\<lambda>s. length (fs_buf s) \<le> FS_MAX_PENDING_BYTES) ss"

definition request_cost :: "BootSectorInfo \<Rightarrow> nat" where
  "request_cost info = 3 * chain_cost info CHAIN_LIMIT + 1"

lemma serve_session_bound:
  assumes "length (fs_buf session) \<le> FS_MAX_PENDING_BYTES"
  shows "wp (serve_session hw C ev info session)
    (\<lambda>(r, s') d'. (r = None \<longrightarrow> length (fs_buf s') \<le> FS_MAX_PENDING_BYTES) \<and>
       length (dev_posted d') \<le> length (dev_posted d) + request_cost info) d"
  unfolding serve_session_def Let_def using assms
  by (auto split: option.split intro!: wp_return wp_bind
      wp_mono [OF costs_wp [OF costs_handle [of info hw C ev, folded request_cost_def]]])

lemma arm_stall_posted: "wp (arm_stall n) (\<lambda>_ d'. dev_posted d' = dev_posted d) d"
  by (simp add: wp_def arm_stall_def)

lemma serve_sessions_bound:
  "bounded ss \<Longrightarrow> bounded (srv_sessions srv) \<Longrightarrow>
   wp (serve_sessions hw C events info idx ss srv)
     (\<lambda>srv' d'. bounded (srv_sessions srv') \<and> length (srv_sessions srv') \<le> length (srv_sessions srv) + length ss \<and>
        length (dev_posted d') \<le> length (dev_posted d) + length ss * request_cost info) d"
proof (induction ss arbitrary: idx srv d)
  case (Cons s ss)
  from Cons.prems have s: "length (fs_buf s) \<le> FS_MAX_PENDING_BYTES" "bounded ss" by (simp_all add: bounded_def)
  show ?case unfolding serve_sessions.simps
  proof (rule wp_bind, rule wp_mono [OF serve_session_bound [OF s(1)]], goal_cases)
    case (1 a t)
    obtain r s' where a: "a = (r, s')" by (cases a)
    show ?case
    proof (cases r)
      case None
      with 1 a Cons.prems(2) have "bounded (srv_sessions (srv\<lparr>srv_sessions := srv_sessions srv @ [s']\<rparr>))"
        by (simp add: bounded_def)
      from wp_mono [OF Cons.IH [OF s(2) this]] show ?thesis
        using 1 a None by (auto intro: wp_mono)
    next
      case (Some resp)
      with 1 a show ?thesis
        by (auto simp: Let_def intro!: wp_bind wp_mono [OF arm_stall_posted] wp_mono [OF Cons.IH [OF s(2)]] Cons.prems(2))
    qed
  qed
qed (simp add: wp_return)

lemma accept_bound:
  "bounded ss \<Longrightarrow> length ss \<le> MAX_FS_SESSIONS \<Longrightarrow>
   bounded (accept_session i a ss) \<and> length (accept_session i a ss) \<le> MAX_FS_SESSIONS"
  by (auto simp: accept_session_def bounded_def split: option.split)

lemma server_loop_bound:
  "bounded (srv_sessions srv) \<Longrightarrow> length (srv_sessions srv) \<le> MAX_FS_SESSIONS \<Longrightarrow>
   wp (server_loop hw C info i inputs srv)
     (\<lambda>srv' d'. bounded (srv_sessions srv') \<and> length (srv_sessions srv') \<le> MAX_FS_SESSIONS \<and>
        length (dev_posted d') \<le> length (dev_posted d) + length inputs * (MAX_FS_SESSIONS * request_cost info)) d"
proof (induction inputs arbitrary: i srv d)
  case (Cons inp inputs)
  let ?ss = "accept_session i (in_accept inp) (srv_sessions srv)"
  have ss: "bounded ?ss" "length ?ss \<le> MAX_FS_SESSIONS" using accept_bound Cons.prems by simp_all
  have le: "length ?ss * request_cost info \<le> MAX_FS_SESSIONS * request_cost info" using ss(2) by simp
  show ?case unfolding server_loop.simps
  proof (rule wp_bind, rule wp_mono [OF serve_sessions_bound [OF ss(1)]], goal_cases)
    case 1
    show ?case by (simp add: bounded_def)
  next
    case (2 a t)
    then have "bounded (srv_sessions a)" "length (srv_sessions a) \<le> MAX_FS_SESSIONS" using ss(2) by simp_all
    moreover have "length (dev_posted t) \<le> length (dev_posted d) + MAX_FS_SESSIONS * request_cost info"
      using 2 le by linarith
    ultimately show ?case by (intro wp_mono [OF Cons.IH]) auto
  qed
qed (simp add: wp_return)


subsection \<open>A request is served with its last byte\<close>

text \<open>One session over successive passes, until it is answered.\<close>

fun feed_session ::
    "hardware \<Rightarrow> crypto \<Rightarrow> SessionEvent list \<Rightarrow> BootSectorInfo \<Rightarrow> FsSession \<Rightarrow> (FsResponse option \<times> FsSession) blk" where
  "feed_session hw C [] info session = State_Monad.return (None, session)"
| "feed_session hw C (ev # evs) info session =
     do {
       (r, session) \<leftarrow> serve_session hw C ev info session;
       case r of
         None \<Rightarrow> feed_session hw C evs info session
       | Some response \<Rightarrow> State_Monad.return (Some response, session)
     }"


lemma fs_request_length:
  assumes "valid_fs_request m"
  shows "length (fs_request_encode m) \<le> FS_MAX_PENDING_BYTES"
  using assms
  by (cases m) (auto simp: fs_encode_string_def encode_token_def token_ok_def field_ok_def
      MAX_NAME_LEN_def MAX_TOKEN_FIELD_LEN_def MAX_DATA_LEN_def FS_MAX_PENDING_BYTES_def)

lemma feed_request:
  assumes "valid_fs_request m" "fs_request_encode m = fs_buf session @ q" "q \<noteq> []" "map ev_byte evs = map Some q"
  shows "run_state (feed_session hw C evs info session) d =
    (let (r, d') = run_state (handle_request hw C (last evs) info m) d in ((Some r, session\<lparr>fs_buf := []\<rparr>), d'))"
  using assms
proof (induction q arbitrary: evs session)
  case (Cons b q)
  from Cons.prems(4) obtain ev rest where evs: "evs = ev # rest" "ev_byte ev = Some b" "map ev_byte rest = map Some q"
    by (cases evs) auto
  show ?case
  proof (cases "q = []")
    case True
    then have "fs_request_decode (fs_buf session @ [b]) = Some (m, length (fs_buf session @ [b]))"
      using fs_request_codec.round_trip [OF assms(1), of "[]"] Cons.prems(2) by simp
    then show ?thesis using evs True by (simp add: serve_session_def split_beta Let_def)
  next
    case False
    let ?s = "session\<lparr>fs_buf := fs_buf session @ [b]\<rparr>"
    have "fs_request_decode (fs_buf session @ [b]) = None"
      by (rule fs_request_codec.prefix_undecodable [OF assms(1) _ False]) (use Cons.prems(2) in simp)
    moreover have "length (fs_buf session @ [b]) \<le> FS_MAX_PENDING_BYTES"
      using fs_request_length [OF assms(1)] Cons.prems(2) by simp
    moreover have "run_state (feed_session hw C rest info ?s) d =
        (let (r, d') = run_state (handle_request hw C (last rest) info m) d in ((Some r, ?s\<lparr>fs_buf := []\<rparr>), d'))"
      using Cons.prems(2) False evs(3) by (intro Cons.IH [OF assms(1)]) simp_all
    moreover have "rest \<noteq> []" using evs(3) False by auto
    ultimately show ?thesis using evs by (simp add: serve_session_def)
  qed
qed simp

text \<open>Whatever the device returns, a reply fits the wire format.\<close>

lemma read_cluster_length:
  "length acc \<le> len \<Longrightarrow> wp (read_cluster hw len sector0 ss acc) (\<lambda>(f, acc') d'. length acc' \<le> len) d"
proof (induction ss arbitrary: acc d)
  case (Cons s ss)
  have "length (acc @ take (min (len - length acc) SECTOR_SIZE) x) \<le> len" for x using Cons.prems by simp
  with Cons show ?case
    by (auto simp del: length_append length_take simp: wp_def split_beta split: option.split)
qed (simp add: wp_return)

lemma read_chain_length:
  "length acc \<le> len \<Longrightarrow> wp (read_chain hw info len n c acc) (\<lambda>acc' d'. length acc' \<le> len) d"
proof (induction n arbitrary: acc c d)
  case (Suc n)
  show ?case unfolding read_chain.simps
  proof (intro wp_if wp_option wp_return Suc.prems wp_bind, goal_cases)
    case (1 sector0)
    show ?case
      by (rule wp_mono [OF read_cluster_length [OF Suc.prems]])
        (auto intro!: wp_rules Suc.IH simp: wp_def [of "next_cluster_in_chain hw info c"])
  qed
qed (simp add: wp_return)

lemma handle_request_valid: "wp (handle_request hw C ev info m) (\<lambda>r d'. valid_fs_response r) d"
proof (cases m)
  case (Read name token)
  have r: "wp (read_file_contents hw info e MAX_FILE_BYTES) (\<lambda>acc d'. length acc \<le> MAX_DATA_LEN) d" for e d
    unfolding read_file_contents_def
    by (rule wp_mono [OF read_chain_length [where len = "min (unat (sde_file_size e)) MAX_FILE_BYTES"]])
      (simp_all add: MAX_FILE_BYTES_def MAX_DATA_LEN_def)
  show ?thesis unfolding Read handle_request.simps handle_read_ipc_request_def
    by (auto intro!: wp_rules wp_dev_faulted wp_mono [OF r] simp: wp_def [of "find_entry_by_display_name hw info c name" for c])
next
  case (Write name token data)
  show ?thesis unfolding Write handle_request.simps handle_write_ipc_request_def
    by (auto intro!: wp_rules wp_dev_faulted simp: wp_def [of "resolve_single_sector_file_by_name hw info name"]
        wp_def [of "write_sector hw s data" for s])
qed

text \<open>
  C34.  A request travels to the handler and its answer back unharmed, on any device: when a session
  receives the bytes of a well-formed request one by one, nothing happens until the last byte, then
  exactly that request is handled (at that event's time and revocation state) and nothing is left in
  the session buffer; and a client that decodes the reply stream obtains exactly the handler's answer.
\<close>

theorem request_reply_roundtrip:
  assumes "valid_fs_request m" "fs_buf session = []" "map ev_byte evs = map Some (fs_request_encode m)"
    and "run_state (handle_request hw C (last evs) info m) d = (r, d')"
  shows "run_state (feed_session hw C evs info session) d = ((Some r, session), d') \<and>
    accumulate fs_response_decode [] (fs_response_encode r @ rest) = Some (r, rest)"
proof
  have "fs_request_encode m \<noteq> []" by (cases m) simp_all
  then show "run_state (feed_session hw C evs info session) d = ((Some r, session), d')"
    using feed_request [OF assms(1), of session "fs_request_encode m" evs] assms(2-4) by simp
  have "valid_fs_response r" using handle_request_valid [of hw C "last evs" info m d] assms(4) by (simp add: wp_def)
  from fs_response_codec.read_message [OF this, of "[]" "fs_response_encode r" rest]
  show "accumulate fs_response_decode [] (fs_response_encode r @ rest) = Some (r, rest)" by simp
qed

definition sample_events :: "SessionEvent list" where
  "sample_events = map (\<lambda>b. \<lparr>ev_byte = Some b, ev_ticks = 5, ev_revoked = (\<lambda>_. 0)\<rparr>) (fs_request_encode (Read ''a'' sample_token))"

theorem request_reply_roundtrip_witness:
  "run_state (feed_session (ram_disk (\<lambda>_. [])) plain_crypto sample_events sample_info \<lparr>fs_session_id = 7, fs_buf = []\<rparr>) device_new =
     ((Some (FsErr Unauthorized), \<lparr>fs_session_id = 7, fs_buf = []\<rparr>), device_new) \<and>
   accumulate fs_response_decode [] (fs_response_encode (FsErr Unauthorized) @ [1]) = Some (FsErr Unauthorized, [1])"
proof (rule request_reply_roundtrip [where m = "Read ''a'' sample_token"])
  show "valid_fs_request (Read ''a'' sample_token)" by code_simp
  show "map ev_byte sample_events = map Some (fs_request_encode (Read ''a'' sample_token))"
    by (simp add: sample_events_def o_def)
  have "sample_events \<noteq> []" by (simp add: sample_events_def)
  then have "last sample_events \<in> set sample_events" by (rule last_in_set)
  then have "ev_ticks (last sample_events) = 5" by (auto simp: sample_events_def)
  then have "\<not> verify_file_token plain_crypto (last sample_events) sample_token ''a''"
    by (simp add: verify_file_token_def verify_file_token_with_def token_verify_def sample_token_def)
  then show "run_state (handle_request (ram_disk (\<lambda>_. [])) plain_crypto (last sample_events) sample_info (Read ''a'' sample_token)) device_new =
      (FsErr Unauthorized, device_new)"
    by (simp add: handle_read_ipc_request_def)
qed simp

end
