(* ===== verification/FileService.thy ===== *)
theory FileService
  imports Directories FsServer
begin

text \<open>
  The file server on a working disk: what an authorised read returns, and that a write is read back.
\<close>

subsection \<open>Looking up a display name\<close>

definition lookup_long :: "BootSectorInfo \<Rightarrow> (u64 \<Rightarrow> bytes) \<Rightarrow> u32 list \<Rightarrow> bytes \<Rightarrow> ShortDirEntry option" where
  "lookup_long info D cs target =
     (case scan_long_names target lfn_run_new (directory_entries info D cs) of Return r \<Rightarrow> r | Continue _ \<Rightarrow> None)"

definition lookup_display :: "BootSectorInfo \<Rightarrow> (u64 \<Rightarrow> bytes) \<Rightarrow> u32 list \<Rightarrow> string \<Rightarrow> ShortDirEntry option" where
  "lookup_display info D cs name =
     (case Option.bind (encode_short_name (as_bytes name)) (lookup_name info D cs) of
        Some e \<Rightarrow> Some e
      | None \<Rightarrow> lookup_long info D cs (as_bytes name))"

lemma scan_long_append:
  "scan_long_names t run (xs @ ys) = (case scan_long_names t run xs of Return r \<Rightarrow> Return r | Continue run \<Rightarrow> scan_long_names t run ys)"
  by (induction xs arbitrary: run) (auto split: option.split)

lemma run_scan_long:
  "run_body (\<lambda>run _ sector. scan_long_names t run (chunks_exact 32 sector)) D ss run =
   scan_long_names t run (concat (map (\<lambda>s. chunks_exact 32 (D s)) ss))"
  by (induction ss arbitrary: run) (auto simp: scan_long_append split: flow.split)

lemma wp_find_long:
  assumes "working disk0 cap hw" "wf_volume info cap" "table info D F" "medium_is disk0 D d" "chain_from info cap F c cs"
    and "\<And>d'. medium_is disk0 D d' \<Longrightarrow> Q (lookup_long info D cs target) d'"
  shows "wp (find_entry_by_long_name hw info c target) Q d"
proof -
  have c: "is_chain F cs" "list_all (usable info cap) cs" "length cs \<le> CHAIN_LIMIT" "hd cs = c"
    using assms(5) by (simp_all add: chain_from_def)
  show ?thesis unfolding find_entry_by_long_name_def c(4) [symmetric]
    by (rule wp_walk_directory [OF assms(1-4) c(1-3)])
      (use assms(6) in \<open>auto simp: run_scan_long directory_entries_def lookup_long_def wp_return\<close>)
qed

lemma wp_find_display:
  assumes "working disk0 cap hw" "wf_volume info cap" "table info D F" "medium_is disk0 D d" "chain_from info cap F c cs"
    and "\<And>d'. medium_is disk0 D d' \<Longrightarrow> Q (lookup_display info D cs name) d'"
  shows "wp (find_entry_by_display_name hw info c name) Q d"
proof -
  have long: "wp (find_entry_by_long_name hw info c (as_bytes name)) Q d'"
    if "medium_is disk0 D d'" "Option.bind (encode_short_name (as_bytes name)) (lookup_name info D cs) = None" for d'
    by (rule wp_find_long [OF assms(1-3) that(1) assms(5)]) (use assms(6) that(2) in \<open>simp add: lookup_display_def\<close>)
  show ?thesis unfolding find_entry_by_display_name_def
  proof (rule wp_bind, cases "encode_short_name (as_bytes name)", goal_cases)
    case 1
    then show ?case using long [OF assms(4)] by (simp add: wp_return)
  next
    case (2 short)
    have "wp (find_entry_in_directory hw info c short) (\<lambda>r. wp (case r of Some entry \<Rightarrow> State_Monad.return (Some entry)
        | None \<Rightarrow> find_entry_by_long_name hw info c (as_bytes name)) Q) d"
    proof (rule wp_find_entry [OF assms(1-5)])
      fix d' assume d': "medium_is disk0 D d'"
      show "wp (case lookup_name info D cs short of Some entry \<Rightarrow> State_Monad.return (Some entry)
        | None \<Rightarrow> find_entry_by_long_name hw info c (as_bytes name)) Q d'"
        using long [OF d'] assms(6) [OF d'] 2
        by (cases "lookup_name info D cs short") (auto simp: wp_return lookup_display_def)
    qed
    then show ?case using 2 by simp
  qed
qed

subsection \<open>The handlers\<close>

definition file_bytes :: "BootSectorInfo \<Rightarrow> (u64 \<Rightarrow> bytes) \<Rightarrow> u32 list \<Rightarrow> bytes" where
  "file_bytes info D cs = concat (map (cluster_bytes info D) cs)"

lemma wp_read_file:
  assumes "working disk0 cap hw" "wf_volume info cap" "table info D F" "medium_is disk0 D d"
    and "chain_from info cap F (sde_first_cluster e) cs"
    and "\<And>d'. medium_is disk0 D d' \<Longrightarrow> Q (take (min (unat (sde_file_size e)) n) (file_bytes info D cs)) d'"
  shows "wp (read_file_contents hw info e n) Q d"
proof -
  have c: "is_chain F cs" "list_all (usable info cap) cs" "length cs \<le> CHAIN_LIMIT" "hd cs = sde_first_cluster e"
    using assms(5) by (simp_all add: chain_from_def)
  show ?thesis unfolding read_file_contents_def c(4) [symmetric]
    by (rule wp_read_chain [OF assms(1-4) c(1-3)]) (use assms(6) in \<open>simp_all add: file_bytes_def\<close>)
qed

definition read_answer :: "BootSectorInfo \<Rightarrow> (u64 \<Rightarrow> bytes) \<Rightarrow> u32 list \<Rightarrow> u32 list \<Rightarrow> string \<Rightarrow> FsResponse" where
  "read_answer info D rs cs name =
     (case lookup_display info D rs name of
        None \<Rightarrow> FsErr NotFound
      | Some e \<Rightarrow>
          if sde_is_dir e then FsErr NotFound
          else Data (take (min (unat (sde_file_size e)) MAX_FILE_BYTES) (file_bytes info D cs)))"

lemma wp_handle_read:
  assumes "working disk0 cap hw" "wf_volume info cap" "table info D F" "medium_is disk0 D d"
    and "chain_from info cap F (root_cluster info) rs" "verify_file_token C ev token name"
    and "\<And>e. lookup_display info D rs name = Some e \<Longrightarrow> \<not> sde_is_dir e \<Longrightarrow> chain_from info cap F (sde_first_cluster e) cs"
    and Q: "\<And>d'. medium_is disk0 D d' \<Longrightarrow> Q (read_answer info D rs cs name) d'"
  shows "wp (handle_read_ipc_request hw C ev info name token) Q d"
  unfolding handle_read_ipc_request_def
proof (simp add: assms(6), intro wp_bind wp_dev_faulted, simp add: medium_ready [OF assms(4)],
    rule wp_bind, rule wp_find_display [OF assms(1-5)], cases "lookup_display info D rs name", goal_cases)
  case (1 d')
  then show ?case using Q [OF 1(1)] medium_ready [OF 1(1)]
    by (auto simp: read_answer_def intro!: wp_bind wp_dev_faulted wp_return)
next
  case (2 d' e)
  show ?case
  proof (cases "sde_is_dir e")
    case True
    then show ?thesis using Q [OF 2(1)] 2(2) by (simp add: read_answer_def wp_return)
  next
    case False
    note ch = assms(7) [OF 2(2) False]
    show ?thesis using 2(2) False
      by (auto intro!: wp_bind wp_read_file [OF assms(1-3) 2(1) ch] wp_dev_faulted wp_return
          simp: medium_ready) (use Q in \<open>simp add: read_answer_def\<close>)
  qed
qed


lemma wp_handle_write:
  assumes "working disk0 cap hw" "wf_volume info cap" "table info D F" "medium_is disk0 D d"
    and "chain_from info cap F (root_cluster info) rs" "verify_file_token C ev token name"
    and "length data = SECTOR_SIZE" "encode_short_name (as_bytes name) = Some short" "lookup_name info D rs short = Some e"
    and "usable info cap (sde_first_cluster e)" "cluster_to_sector info (sde_first_cluster e) = Some s"
    and Q: "\<And>d'. medium_is disk0 (D(ucast s := data)) d' \<Longrightarrow> Q FsOk d'"
  shows "wp (handle_write_ipc_request hw C ev info name token data) Q d"
proof -
  have "0 < unat (sectors_per_cluster info)" using assms(2) by (simp add: wf_volume_def unat_gt_0)
  then have cap: "unat (ucast s :: u64) < cap" using assms(10,11) by (auto simp: usable_def)
  have "wp (resolve_single_sector_file_by_name hw info name) (\<lambda>r. wp (case r of
      None \<Rightarrow> do { faulted \<leftarrow> dev_faulted; State_Monad.return (FsErr (if faulted then DeviceFailed else NotFound)) }
    | Some sector \<Rightarrow> do { w \<leftarrow> write_sector hw (ucast sector) data;
        State_Monad.return (if write_ok w then FsOk else FsErr DeviceFailed) }) Q) d"
    unfolding resolve_single_sector_file_by_name_def resolve_single_sector_file_def or_none_def assms(8) option.case
    by (rule wp_ask, rule wp_find_entry [OF assms(1-5)], unfold assms(9))
      (auto simp: assms(11) intro!: wp_return wp_bind wp_write [OF assms(1) _ cap assms(7)] Q)
  then show ?thesis unfolding handle_write_ipc_request_def
    by (auto simp: assms(6,7) medium_ready [OF assms(4)] intro!: wp_bind wp_dev_faulted)
qed


subsection \<open>Writing, then reading\<close>

lemma table_data_write:
  assumes "wf_volume info cap" "table info D F" "unat (data_start_sector info) \<le> unat s"
  shows "table info (D(s := x)) F"
proof -
  have "table_sector info k (unat c div 128) \<noteq> s" if "k < unat (num_fats info)" "in_table info c" for k c
    using unat_table_sector [OF assms(1) that(1) in_table_index [OF that(2)]]
      table_in_region [OF assms(1) that(1) in_table_index [OF that(2)]] assms(3) by auto
  then show ?thesis using assms(2) by (simp add: table_def fat_get_def)
qed

lemma directory_unchanged:
  assumes "s \<in> set (cluster_sectors info c)" "c \<notin> set rs"
  shows "directory_entries info (D(s := x)) rs = directory_entries info D rs"
proof -
  have "s \<notin> set (chain_sectors info rs)"
    using assms clusters_disjoint unfolding chain_sectors_def by fastforce
  then show ?thesis unfolding directory_entries_def by (intro arg_cong [where f = concat] map_cong) auto
qed

lemma file_bytes_write:
  assumes "cluster_to_sector info c = Some s" "0 < unat (sectors_per_cluster info)" "c \<notin> set cs"
    and "\<And>t. length (D t) = SECTOR_SIZE" "length data = SECTOR_SIZE"
  shows "file_bytes info (D(ucast s := data)) (c # cs) = data @ drop SECTOR_SIZE (file_bytes info D (c # cs))"
proof -
  let ?k = "unat (sectors_per_cluster info)"
  have ss: "cluster_sectors info c = ucast s # map (\<lambda>i. ucast s + of_nat i) [1..<?k]"
    using assms(1,2) by (simp add: cluster_sectors_def upt_conv_Cons)
  have rest: "ucast s \<notin> set (map (\<lambda>i. ucast s + of_nat i :: u64) [1..<?k])"
  proof
    assume "ucast s \<in> set (map (\<lambda>i. ucast s + of_nat i :: u64) [1..<?k])"
    then obtain i where "1 \<le> i" "i < ?k" "(ucast s :: u64) = ucast s + of_nat i" by auto
    then show False using sector_offset [OF assms(1), of i] by simp
  qed
  obtain xs where xs: "cluster_sectors info c = ucast s # xs" "ucast s \<notin> set xs" using ss rest by blast
  have others: "ucast s \<notin> set (cluster_sectors info c')" if "c' \<in> set cs" for c'
    using clusters_disjoint [of "ucast s" info c c'] ss that assms(3) by auto
  have "cluster_bytes info (D(ucast s := data)) c = data @ drop SECTOR_SIZE (cluster_bytes info D c)"
    unfolding cluster_bytes_def xs(1) using xs(2) assms(4) by simp
  moreover have "map (cluster_bytes info (D(ucast s := data))) cs = map (cluster_bytes info D) cs"
    using others by (intro map_cong) (auto simp: cluster_bytes_def intro!: arg_cong [where f = concat] map_cong)
  moreover have "SECTOR_SIZE \<le> length (cluster_bytes info D c)"
    unfolding cluster_bytes_def ss using assms(4) by simp
  ultimately show ?thesis by (simp add: file_bytes_def cong: map_cong)
qed


subsection \<open>A file on the small volume\<close>

definition sample_file :: ShortDirEntry where
  "sample_file = \<lparr>sde_name = as_bytes ''A       TXT'', sde_first_cluster = 3, sde_file_size = 512, sde_is_dir = False\<rparr>"

definition sample_crypto :: crypto where
  "sample_crypto = plain_crypto\<lparr>hex_decode := \<lambda>s. Some (as_bytes (take (length s div 2) s)), sig_verify := \<lambda>_ _ _. True\<rparr>"

definition sample_file_token :: CapabilityToken where
  "sample_file_token =
     \<lparr>tok_subject = ''client'', tok_resource = ''file:a.txt'', tok_issued_at = 1, tok_expires_at = 9, tok_key_id = ''k'',
      tok_signature = replicate 128 (CHR ''0'')\<rparr>"

definition sample_event :: SessionEvent where
  "sample_event = \<lparr>ev_byte = None, ev_ticks = 5, ev_revoked = (\<lambda>_. 0)\<rparr>"

lemma sample_verified: "verify_file_token sample_crypto sample_event sample_file_token ''a.txt''"
proof -
  have "signature_checks sample_crypto vk m (tok_signature sample_file_token)" for vk m
    by (simp add: signature_checks_def sample_crypto_def sample_file_token_def)
  then have "token_verify sample_crypto sample_file_token vk ''file:a.txt'' 5 = Ok ()" for vk
    by (simp add: token_verify_def) (simp add: sample_file_token_def)
  moreover have "signature_fingerprint sample_crypto (tok_signature sample_file_token) \<noteq> None"
    by (simp add: signature_fingerprint_def sample_crypto_def sample_file_token_def is_char_boundary_def)
  ultimately show ?thesis
    by (auto simp: verify_file_token_def verify_file_token_with_def file_resource_def sample_event_def)
qed

lemma sample_chain:
  "chain_from sample_info 100 sample_table (root_cluster sample_info) [2]"
  "chain_from sample_info 100 sample_table (sde_first_cluster sample_file) [3]"
  by (simp_all add: chain_from_def sample_table_def is_end_of_chain_def CHAIN_EOC_MARKER_def CHAIN_LIMIT_def usable_def
      in_table_def cluster_to_sector_def checked_sub_def checked_mul_def checked_add_def sample_info_def sample_file_def)

lemma sample_short: "encode_short_name (as_bytes ''a.txt'') = Some (as_bytes ''A       TXT'')"
  by code_simp

lemma sample_parse: "parse_short_dir_entry sample_entry = Some sample_file"
  by code_simp

lemma sample_entries: "\<exists>rest. directory_entries sample_info sample_disk [2] = sample_entry # replicate 32 0 # rest"
proof -
  have l: "length sample_entry = 32" by (simp add: sample_entry_def)
  have s: "chain_sectors sample_info [2] = [4]"
    by (simp add: chain_sectors_def cluster_sectors_def cluster_to_sector_def checked_sub_def checked_mul_def checked_add_def
        sample_info_def)
  have "chunks_exact 32 (sample_entry @ replicate 480 0) = sample_entry # chunks_exact 32 (replicate 480 0)"
    using l by (subst chunks_exact.simps) simp
  also have "chunks_exact 32 (replicate 480 (0 :: u8)) = replicate 32 0 # chunks_exact 32 (drop 32 (replicate 480 0))"
    by (subst chunks_exact.simps) simp
  finally show ?thesis by (simp add: directory_entries_def s sample_disk_def)
qed

lemma sample_lookup: "lookup_name sample_info sample_disk [2] (as_bytes ''A       TXT'') = Some sample_file"
proof -
  obtain rest where r: "directory_entries sample_info sample_disk [2] = sample_entry # replicate 32 0 # rest"
    using sample_entries by blast
  have "sample_entry ! 0 \<noteq> 0" by code_simp
  then have "live_entries (directory_entries sample_info sample_disk [2]) = [sample_file]"
    unfolding r by (simp add: live_entries_def sample_parse List.map_filter_simps)
  then show ?thesis unfolding lookup_name_def by (simp add: sample_file_def)
qed

lemma sample_display: "lookup_display sample_info sample_disk [2] ''a.txt'' = Some sample_file"
  by (simp only: lookup_display_def sample_short bind.bind_lunit sample_lookup option.case)

lemma sample_contents: "file_bytes sample_info sample_disk [3] = replicate 512 7"
  by (simp add: file_bytes_def cluster_bytes_def cluster_sectors_def cluster_to_sector_def checked_sub_def checked_mul_def
      checked_add_def sample_info_def sample_disk_def)

lemma sample_table_ok: "table sample_info sample_disk sample_table"
  using sample_represents by (simp add: represents_def)

lemmas sample_volume_facts =
  ram_disk_working [OF sample_disk_length, where n = 100] sample_volume sample_table_ok medium_new [OF sample_disk_length] sample_chain(1)



end
