(* ===== verification/SelfTest.thy ===== *)
theory SelfTest
  imports Volume
begin

text \<open>
  The write paths of the driver and the boot-time checks that drive them,
  \<open>blk-driver-host/src/main.rs\<close> (\<open>run_sector_roundtrip_proof\<close> to
  \<open>run_fsinfo_hint_proof\<close>): overwriting a sector, patching part of a file and its size, growing
  a file by one and by several clusters, deleting, creating, and growing a directory.  A check
  answers pass or fail; \<open>None\<close> is a panic.  Console output is left out.
\<close>

definition TEST_PATTERN_PREFIX :: bytes where
  "TEST_PATTERN_PREFIX = as_bytes ''RUNIX-BLK-PROOF-1234567890ABCDEF''"

definition run_sector_roundtrip_proof :: "hardware \<Rightarrow> bool blk" where
  "run_sector_roundtrip_proof hw =
     (let pattern = patch (replicate SECTOR_SIZE 0) 0 TEST_PATTERN_PREFIX in
      do {
        w \<leftarrow> write_sector hw 0 pattern;
        read_back \<leftarrow> read_sector hw 0;
        State_Monad.return (write_ok w \<and> read_back = Some pattern)
      })"

subsection \<open>Shared steps\<close>

text \<open>Read a sector, change it, write it back.\<close>

definition update_sector :: "hardware \<Rightarrow> u32 \<Rightarrow> (bytes \<Rightarrow> bytes) \<Rightarrow> bool blk" where
  "update_sector hw sector f =
     do {
       r \<leftarrow> read_sector hw (ucast sector);
       case r of
         None \<Rightarrow> State_Monad.return False
       | Some buf \<Rightarrow> do { w \<leftarrow> write_sector hw (ucast sector) (f buf); State_Monad.return (write_ok w) }
     }"

definition set_file_size :: "hardware \<Rightarrow> u32 \<Rightarrow> nat \<Rightarrow> u32 \<Rightarrow> bool blk" where
  "set_file_size hw dir_sector dir_offset len =
     update_sector hw dir_sector (\<lambda>buf. patch buf (dir_offset + 28) (to_le 4 (unat len)))"

text \<open>A sector whose first bytes are the given ones and whose remaining bytes are zero.\<close>

definition padded :: "bytes \<Rightarrow> bytes" where
  "padded content = content @ replicate (SECTOR_SIZE - length content) 0"

text \<open>A fresh lookup and read: the size and the contents as expected.\<close>

definition check_file :: "hardware \<Rightarrow> BootSectorInfo \<Rightarrow> bytes \<Rightarrow> bytes \<Rightarrow> bool blk" where
  "check_file hw info name expected =
     do {
       r \<leftarrow> find_entry_in_directory hw info (root_cluster info) name;
       case r of
         None \<Rightarrow> State_Monad.return False
       | Some entry \<Rightarrow>
           do {
             contents \<leftarrow> read_file_contents hw info entry MAX_FILE_BYTES;
             State_Monad.return (unat (sde_file_size entry) = length expected \<and> contents = expected)
           }
     }"

fun last_cluster_of :: "hardware \<Rightarrow> BootSectorInfo \<Rightarrow> nat \<Rightarrow> u32 \<Rightarrow> u32 option blk" where
  "last_cluster_of hw info 0 last_cluster = State_Monad.return (Some last_cluster)"
| "last_cluster_of hw info (Suc n) last_cluster =
     ask (next_cluster_in_chain hw info last_cluster) (\<lambda>next.
       if \<not> is_end_of_chain next then last_cluster_of hw info n next else State_Monad.return (Some last_cluster))"

definition ATTR_ARCHIVE :: u8 where "ATTR_ARCHIVE = 0x20"
definition DELETED_ENTRY_MARKER :: u8 where "DELETED_ENTRY_MARKER = 0xE5"

definition new_short_entry :: "bytes \<Rightarrow> u32 \<Rightarrow> u32 \<Rightarrow> bytes" where
  "new_short_entry name cluster len =
     (let cluster_hi = (ucast (drop_bit 16 cluster AND 0xFFFF) :: u16); cluster_lo = (ucast (cluster AND 0xFFFF) :: u16) in
      patch (patch (patch (patch (patch (replicate 32 0) 0 name) 11 [ATTR_ARCHIVE])
        20 (to_le 2 (unat cluster_hi))) 26 (to_le 2 (unat cluster_lo))) 28 (to_le 4 (unat len)))"

subsection \<open>Reading checks\<close>

definition TARGET_FILE_NAME :: bytes where "TARGET_FILE_NAME = as_bytes ''HELLO   TXT''"
definition EXPECTED_FILE_CONTENTS :: bytes where
  "EXPECTED_FILE_CONTENTS =
     as_bytes ''RUNIX-FAT32-PROOF: this file was read from a real FAT32 filesystem.'' @ [0x0A]"
definition SUBDIR_NAME :: bytes where "SUBDIR_NAME = as_bytes ''SUBDIR     ''"
definition NESTED_FILE_NAME :: bytes where "NESTED_FILE_NAME = as_bytes ''NESTED  TXT''"
definition NESTED_EXPECTED_CONTENTS :: bytes where
  "NESTED_EXPECTED_CONTENTS = as_bytes ''RUNIX-FAT32-PROOF: nested file inside a real subdirectory.'' @ [0x0A]"
definition BIG_FILE_NAME :: bytes where "BIG_FILE_NAME = as_bytes ''BIG     TXT''"
definition BIG_FILE_LEN :: nat where "BIG_FILE_LEN = 3000"
definition expected_big_file_byte :: "nat \<Rightarrow> u8" where "expected_big_file_byte i = 0x30 + of_nat (i mod 10)"
definition LONG_FILE_NAME_ASCII :: bytes where "LONG_FILE_NAME_ASCII = as_bytes ''long-filename-test.txt''"
definition LONG_FILE_NAME_ASCII_UPPER :: bytes where "LONG_FILE_NAME_ASCII_UPPER = as_bytes ''LONG-FILENAME-TEST.TXT''"
definition LONG_FILE_EXPECTED_CONTENTS :: bytes where
  "LONG_FILE_EXPECTED_CONTENTS = as_bytes ''RUNIX-FAT32-PROOF: located via a real long filename, not 8.3.'' @ [0x0A]"

text \<open>\<open>written >= N && &buf[..N] == EXPECTED\<close>\<close>

definition begins_with :: "bytes \<Rightarrow> bytes \<Rightarrow> bool" where
  "begins_with expected contents \<longleftrightarrow> length expected \<le> length contents \<and> take (length expected) contents = expected"

definition run_subdir_proof :: "hardware \<Rightarrow> BootSectorInfo \<Rightarrow> bool blk" where
  "run_subdir_proof hw info =
     do {
       r \<leftarrow> find_entry_in_directory hw info (root_cluster info) SUBDIR_NAME;
       case r of
         None \<Rightarrow> State_Monad.return False
       | Some subdir \<Rightarrow>
           if \<not> sde_is_dir subdir then State_Monad.return False
           else
             do {
               r \<leftarrow> find_entry_in_directory hw info (sde_first_cluster subdir) NESTED_FILE_NAME;
               case r of
                 None \<Rightarrow> State_Monad.return False
               | Some nested \<Rightarrow>
                   do {
                     contents \<leftarrow> read_file_contents hw info nested MAX_FILE_BYTES;
                     State_Monad.return (begins_with NESTED_EXPECTED_CONTENTS contents)
                   }
             }
     }"

definition run_big_file_proof :: "hardware \<Rightarrow> BootSectorInfo \<Rightarrow> bool blk" where
  "run_big_file_proof hw info =
     do {
       r \<leftarrow> find_entry_in_directory hw info (root_cluster info) BIG_FILE_NAME;
       case r of
         None \<Rightarrow> State_Monad.return False
       | Some entry \<Rightarrow>
           do {
             contents \<leftarrow> read_file_contents hw info entry MAX_FILE_BYTES;
             State_Monad.return (contents = map expected_big_file_byte [0..<BIG_FILE_LEN])
           }
     }"

definition run_case_insensitive_long_name_proof :: "hardware \<Rightarrow> BootSectorInfo \<Rightarrow> bool blk" where
  "run_case_insensitive_long_name_proof hw info =
     do {
       r \<leftarrow> find_entry_by_long_name hw info (root_cluster info) LONG_FILE_NAME_ASCII_UPPER;
       State_Monad.return (r \<noteq> None)
     }"

definition run_long_name_proof :: "hardware \<Rightarrow> BootSectorInfo \<Rightarrow> bool blk" where
  "run_long_name_proof hw info =
     do {
       r \<leftarrow> find_entry_by_long_name hw info (root_cluster info) LONG_FILE_NAME_ASCII;
       case r of
         None \<Rightarrow> State_Monad.return False
       | Some entry \<Rightarrow>
           do {
             contents \<leftarrow> read_file_contents hw info entry MAX_FILE_BYTES;
             case_insensitive_match \<leftarrow> run_case_insensitive_long_name_proof hw info;
             State_Monad.return (begins_with LONG_FILE_EXPECTED_CONTENTS contents \<and> case_insensitive_match)
           }
     }"

subsection \<open>Overwriting\<close>

definition WRITE_FILE_NAME :: bytes where "WRITE_FILE_NAME = as_bytes ''WRITE   TXT''"
definition write_pattern_byte :: "nat \<Rightarrow> u8" where "write_pattern_byte i = 0x5A - of_nat (i mod 26)"

definition run_write_proof :: "hardware \<Rightarrow> BootSectorInfo \<Rightarrow> bool blk" where
  "run_write_proof hw info =
     do {
       r \<leftarrow> resolve_single_sector_file hw info WRITE_FILE_NAME;
       case r of
         None \<Rightarrow> State_Monad.return False
       | Some sector \<Rightarrow>
           let new_content = map write_pattern_byte [0..<SECTOR_SIZE] in
           do {
             w \<leftarrow> write_sector hw (ucast sector) new_content;
             read_back \<leftarrow> read_sector hw (ucast sector);
             State_Monad.return (write_ok w \<and> read_back = Some new_content)
           }
     }"

definition PARTIAL_FILE_NAME :: bytes where "PARTIAL_FILE_NAME = as_bytes ''PARTIAL TXT''"
definition PARTIAL_NEW_LEN :: nat where "PARTIAL_NEW_LEN = 300"
definition partial_initial_byte :: "nat \<Rightarrow> u8" where "partial_initial_byte i = 0x61 + of_nat (i mod 26)"
definition partial_new_byte :: "nat \<Rightarrow> u8" where "partial_new_byte i = 0x30 + of_nat (i mod 10)"

definition run_partial_write_proof :: "hardware \<Rightarrow> BootSectorInfo \<Rightarrow> bool blk" where
  "run_partial_write_proof hw info =
     do {
       r \<leftarrow> find_entry_with_location hw info (root_cluster info) PARTIAL_FILE_NAME;
       case r of
         None \<Rightarrow> State_Monad.return False
       | Some (entry, dir_sector, dir_offset) \<Rightarrow>
           (case cluster_to_sector info (sde_first_cluster entry) of
              None \<Rightarrow> State_Monad.return False
            | Some data_sector \<Rightarrow>
                do {
                  r \<leftarrow> read_sector hw (ucast data_sector);
                  case r of
                    None \<Rightarrow> State_Monad.return False
                  | Some sector_buf \<Rightarrow>
                      do {
                        w \<leftarrow> write_sector hw (ucast data_sector)
                               (patch sector_buf 0 (map partial_new_byte [0..<PARTIAL_NEW_LEN]));
                        size_write_ok \<leftarrow> set_file_size hw dir_sector dir_offset (of_nat PARTIAL_NEW_LEN);
                        visible \<leftarrow> check_file hw info PARTIAL_FILE_NAME (map partial_new_byte [0..<PARTIAL_NEW_LEN]);
                        r \<leftarrow> read_sector hw (ucast data_sector);
                        let tail_preserved =
                          (case r of
                             Some fresh_sector \<Rightarrow>
                               drop PARTIAL_NEW_LEN fresh_sector = map partial_initial_byte [PARTIAL_NEW_LEN..<SECTOR_SIZE]
                           | None \<Rightarrow> False);
                        State_Monad.return (write_ok w \<and> size_write_ok \<and> visible \<and> tail_preserved)
                      }
                })
     }"

subsection \<open>Growing a file\<close>

definition GROW_FILE_NAME :: bytes where "GROW_FILE_NAME = as_bytes ''GROW    TXT''"
definition GROW_INITIAL_LEN :: nat where "GROW_INITIAL_LEN = 512"
definition GROW_APPEND_LEN :: nat where "GROW_APPEND_LEN = 200"
definition grow_initial_byte :: "nat \<Rightarrow> u8" where
  "grow_initial_byte i = (if i mod 3 = 0 then 0x58 else if i mod 3 = 1 then 0x59 else 0x5A)"
definition grow_append_byte :: "nat \<Rightarrow> u8" where "grow_append_byte i = 0x30 + of_nat (i mod 10)"

definition run_grow_proof :: "hardware \<Rightarrow> BootSectorInfo \<Rightarrow> bool option blk" where
  "run_grow_proof hw info =
     do {
       r \<leftarrow> find_entry_with_location hw info (root_cluster info) GROW_FILE_NAME;
       case r of
         None \<Rightarrow> State_Monad.return (Some False)
       | Some (entry, dir_sector, dir_offset) \<Rightarrow>
           do {
             r \<leftarrow> last_cluster_of hw info CHAIN_LIMIT (sde_first_cluster entry);
             case r of
               None \<Rightarrow> State_Monad.return (Some False)
             | Some last_cluster \<Rightarrow>
                 do {
                   r \<leftarrow> allocate_free_cluster hw info;
                   case r of
                     None \<Rightarrow> State_Monad.return (Some False)
                   | Some new_cluster \<Rightarrow>
                       (case cluster_to_sector info new_cluster of
                          None \<Rightarrow> State_Monad.return (Some False)
                        | Some new_sector \<Rightarrow>
                            do {
                              w \<leftarrow> write_sector hw (ucast new_sector)
                                     (padded (map grow_append_byte [0..<GROW_APPEND_LEN]));
                              ask (write_fat_entry hw info new_cluster 0x0FFFFFFF) (\<lambda>new_cluster_eoc_ok.
                                ask (write_fat_entry hw info last_cluster new_cluster) (\<lambda>link_ok.
                                  do {
                                    size_write_ok \<leftarrow> set_file_size hw dir_sector dir_offset
                                                       (of_nat (GROW_INITIAL_LEN + GROW_APPEND_LEN));
                                    visible \<leftarrow> check_file hw info GROW_FILE_NAME
                                      (map grow_initial_byte [0..<GROW_INITIAL_LEN] @
                                       map grow_append_byte [0..<GROW_APPEND_LEN]);
                                    State_Monad.return
                                      (Some (write_ok w \<and> new_cluster_eoc_ok \<and> link_ok \<and> size_write_ok \<and> visible))
                                  }))
                            })
                 }
           }
     }"

definition MULTI_FILE_NAME :: bytes where "MULTI_FILE_NAME = as_bytes ''MULTI   TXT''"
definition MULTI_INITIAL_LEN :: nat where "MULTI_INITIAL_LEN = 512"
definition MULTI_APPEND_LEN :: nat where "MULTI_APPEND_LEN = 700"
definition multi_initial_byte :: "nat \<Rightarrow> u8" where "multi_initial_byte i = 0x6D + of_nat (i mod 5)"
definition multi_append_byte :: "nat \<Rightarrow> u8" where "multi_append_byte i = 0x30 + of_nat (i mod 10)"

text \<open>The content loop; \<open>k\<close> is the index of the next new cluster.\<close>

fun write_new_clusters :: "hardware \<Rightarrow> BootSectorInfo \<Rightarrow> nat \<Rightarrow> u32 list \<Rightarrow> bool blk" where
  "write_new_clusters hw info k [] = State_Monad.return True"
| "write_new_clusters hw info k (cluster # rest) =
     (case cluster_to_sector info cluster of
        None \<Rightarrow> State_Monad.return False
      | Some sector \<Rightarrow>
          do {
            w \<leftarrow> write_sector hw (ucast sector)
                   (padded (map multi_append_byte [k * SECTOR_SIZE..<min MULTI_APPEND_LEN ((k + 1) * SECTOR_SIZE)]));
            if \<not> write_ok w then State_Monad.return False else write_new_clusters hw info (k + 1) rest
          })"

definition run_multi_cluster_grow_proof :: "hardware \<Rightarrow> BootSectorInfo \<Rightarrow> bool option blk" where
  "run_multi_cluster_grow_proof hw info =
     do {
       r \<leftarrow> find_entry_with_location hw info (root_cluster info) MULTI_FILE_NAME;
       case r of
         None \<Rightarrow> State_Monad.return (Some False)
       | Some (entry, dir_sector, dir_offset) \<Rightarrow>
           do {
             r \<leftarrow> last_cluster_of hw info CHAIN_LIMIT (sde_first_cluster entry);
             case r of
               None \<Rightarrow> State_Monad.return (Some False)
             | Some last_cluster \<Rightarrow>
                 ask (allocate_cluster_chain hw info 2 [0, 0]) (\<lambda>(allocated, new_clusters).
                   if \<not> allocated then State_Monad.return (Some False)
                   else
                     do {
                       data_writes_ok \<leftarrow> write_new_clusters hw info 0 new_clusters;
                       ask (write_fat_entry hw info last_cluster (new_clusters ! 0)) (\<lambda>link_ok.
                         do {
                           size_write_ok \<leftarrow> set_file_size hw dir_sector dir_offset
                                              (of_nat (MULTI_INITIAL_LEN + MULTI_APPEND_LEN));
                           visible \<leftarrow> check_file hw info MULTI_FILE_NAME
                             (map multi_initial_byte [0..<MULTI_INITIAL_LEN] @ map multi_append_byte [0..<MULTI_APPEND_LEN]);
                           State_Monad.return (Some (data_writes_ok \<and> link_ok \<and> size_write_ok \<and> visible))
                         })
                     })
           }
     }"

subsection \<open>Deleting and creating\<close>

definition DELETE_FILE_NAME :: bytes where "DELETE_FILE_NAME = as_bytes ''DELETE_MTXT''"

fun free_chain :: "hardware \<Rightarrow> BootSectorInfo \<Rightarrow> nat \<Rightarrow> u32 \<Rightarrow> bool option blk" where
  "free_chain hw info 0 cluster = State_Monad.return (Some True)"
| "free_chain hw info (Suc n) cluster =
     do {
       next \<leftarrow> next_cluster_in_chain hw info cluster;
       ask (write_fat_entry hw info cluster 0) (\<lambda>ok.
         if \<not> ok then State_Monad.return (Some False)
         else
           (case next of
              Some n' \<Rightarrow> if \<not> is_end_of_chain n' then free_chain hw info n n' else State_Monad.return (Some True)
            | None \<Rightarrow> State_Monad.return (Some True)))
     }"

definition run_delete_proof :: "hardware \<Rightarrow> BootSectorInfo \<Rightarrow> bool option blk" where
  "run_delete_proof hw info =
     do {
       r \<leftarrow> find_entry_with_location hw info (root_cluster info) DELETE_FILE_NAME;
       case r of
         None \<Rightarrow> State_Monad.return (Some False)
       | Some (entry, dir_sector, dir_offset) \<Rightarrow>
           ask (free_chain hw info CHAIN_LIMIT (sde_first_cluster entry)) (\<lambda>free_ok.
             do {
               marker_write_ok \<leftarrow> update_sector hw dir_sector (\<lambda>buf. buf[dir_offset := DELETED_ENTRY_MARKER]);
               r \<leftarrow> find_entry_in_directory hw info (root_cluster info) DELETE_FILE_NAME;
               reused \<leftarrow> allocate_free_cluster hw info;
               State_Monad.return
                 (Some (free_ok \<and> marker_write_ok \<and> r = None \<and> reused = Some (sde_first_cluster entry)))
             })
     }"

text \<open>Creating a file of less than a sector in a free or grown slot of the root directory; the two
  create checks of the source are this sequence with their own name and content.  The inner option is
  \<open>None\<close> where the source returns before it has written anything for the file.\<close>

definition create_file :: "hardware \<Rightarrow> BootSectorInfo \<Rightarrow> bytes \<Rightarrow> bytes \<Rightarrow> bool option option blk" where
  "create_file hw info name content =
     ask (find_or_grow_create_slot hw info (root_cluster info)) (\<lambda>slot.
       case slot of
         None \<Rightarrow> State_Monad.return (Some None)
       | Some (slot_sector, slot_offset) \<Rightarrow>
           do {
             r \<leftarrow> allocate_free_cluster hw info;
             case r of
               None \<Rightarrow> State_Monad.return (Some None)
             | Some new_cluster \<Rightarrow>
                 (case cluster_to_sector info new_cluster of
                    None \<Rightarrow> State_Monad.return (Some None)
                  | Some new_sector \<Rightarrow>
                      do {
                        w \<leftarrow> write_sector hw (ucast new_sector) (padded content);
                        ask (write_fat_entry hw info new_cluster 0x0FFFFFFF) (\<lambda>eoc_ok.
                          do {
                            entry_write_ok \<leftarrow> update_sector hw slot_sector
                              (\<lambda>buf. patch buf slot_offset (new_short_entry name new_cluster (of_nat (length content))));
                            visible \<leftarrow> check_file hw info name content;
                            State_Monad.return (Some (Some (write_ok w \<and> eoc_ok \<and> entry_write_ok \<and> visible)))
                          })
                      })
           })"

definition CREATE_FILE_NAME :: bytes where "CREATE_FILE_NAME = as_bytes ''CREATED TXT''"
definition CREATE_FILE_LEN :: nat where "CREATE_FILE_LEN = 64"
definition create_content_byte :: "nat \<Rightarrow> u8" where "create_content_byte i = 0x41 + of_nat (i mod 26)"

definition run_create_proof :: "hardware \<Rightarrow> BootSectorInfo \<Rightarrow> bool option blk" where
  "run_create_proof hw info =
     ask (create_file hw info CREATE_FILE_NAME (map create_content_byte [0..<CREATE_FILE_LEN])) (\<lambda>created.
       State_Monad.return (Some (created = Some True)))"

definition GROWDIR_FILE_NAME :: bytes where "GROWDIR_FILE_NAME = as_bytes ''GROWDIR TXT''"
definition GROWDIR_FILE_LEN :: nat where "GROWDIR_FILE_LEN = 40"
definition growdir_content_byte :: "nat \<Rightarrow> u8" where "growdir_content_byte i = (if i mod 2 = 0 then 0x47 else 0x44)"

definition run_directory_growth_proof :: "hardware \<Rightarrow> BootSectorInfo \<Rightarrow> bool option blk" where
  "run_directory_growth_proof hw info =
     ask (create_file hw info GROWDIR_FILE_NAME (map growdir_content_byte [0..<GROWDIR_FILE_LEN])) (\<lambda>created.
       case created of
         None \<Rightarrow> State_Monad.return (Some False)
       | Some checked \<Rightarrow>
           do {
             r \<leftarrow> next_cluster_in_chain hw info (root_cluster info);
             State_Monad.return (Some (checked \<and> (case r of Some next \<Rightarrow> \<not> is_end_of_chain next | None \<Rightarrow> False)))
           })"

subsection \<open>The free-count hint\<close>

definition read_fsinfo :: "hardware \<Rightarrow> BootSectorInfo \<Rightarrow> FsInfoSector option blk" where
  "read_fsinfo hw info =
     ask (read_sector hw (ucast (fsinfo_sector info))) (\<lambda>sector. State_Monad.return (fsinfo_parse sector))"

definition run_fsinfo_hint_proof :: "hardware \<Rightarrow> BootSectorInfo \<Rightarrow> bool option blk" where
  "run_fsinfo_hint_proof hw info =
     do {
       r \<leftarrow> read_fsinfo hw info;
       case r of
         None \<Rightarrow> State_Monad.return (Some False)
       | Some before \<Rightarrow>
           if free_count before = FSINFO_UNKNOWN then State_Monad.return (Some True)
           else
             do {
               r \<leftarrow> allocate_free_cluster hw info;
               case r of
                 None \<Rightarrow> State_Monad.return (Some False)
               | Some cluster \<Rightarrow>
                   ask (write_fat_entry hw info cluster CHAIN_EOC_MARKER) (\<lambda>marked.
                     if \<not> marked then State_Monad.return (Some False)
                     else
                       do {
                         after_allocate \<leftarrow> read_fsinfo hw info;
                         ask (write_fat_entry hw info cluster 0) (\<lambda>freed.
                           if \<not> freed then State_Monad.return (Some False)
                           else
                             do {
                               after_free \<leftarrow> read_fsinfo hw info;
                               State_Monad.return (Some
                                 (map_option free_count after_allocate = Some (free_count before - 1) \<and>
                                  map_option free_count after_free = Some (free_count before)))
                             })
                       })
             }
     }"

subsection \<open>The whole boot check\<close>

text \<open>Everything after the boot sector has been parsed.\<close>

definition run_fat32_checks :: "hardware \<Rightarrow> BootSectorInfo \<Rightarrow> bool option blk" where
  "run_fat32_checks hw info =
     do {
       r \<leftarrow> find_entry_in_directory hw info (root_cluster info) TARGET_FILE_NAME;
       case r of
         None \<Rightarrow> State_Monad.return (Some False)
       | Some entry \<Rightarrow>
           if sde_is_dir entry then State_Monad.return (Some False)
           else
             do {
               contents \<leftarrow> read_file_contents hw info entry MAX_FILE_BYTES;
               subdir_pass \<leftarrow> run_subdir_proof hw info;
               big_file_pass \<leftarrow> run_big_file_proof hw info;
               long_name_pass \<leftarrow> run_long_name_proof hw info;
               write_pass \<leftarrow> run_write_proof hw info;
               partial_write_pass \<leftarrow> run_partial_write_proof hw info;
               ask (run_grow_proof hw info) (\<lambda>grow_pass.
               ask (run_multi_cluster_grow_proof hw info) (\<lambda>multi_grow_pass.
               ask (run_delete_proof hw info) (\<lambda>delete_pass.
               ask (run_create_proof hw info) (\<lambda>create_pass.
               ask (run_directory_growth_proof hw info) (\<lambda>directory_growth_pass.
               ask (run_fsinfo_hint_proof hw info) (\<lambda>fsinfo_hint_pass.
                 State_Monad.return (Some
                   (begins_with EXPECTED_FILE_CONTENTS contents \<and> subdir_pass \<and> big_file_pass \<and>
                    long_name_pass \<and> write_pass \<and> partial_write_pass \<and> grow_pass \<and> multi_grow_pass \<and>
                    fsinfo_hint_pass \<and> delete_pass \<and> create_pass \<and> directory_growth_pass))))))))
             }
     }"

definition run_fat32_proof :: "hardware \<Rightarrow> bool option blk" where
  "run_fat32_proof hw =
     do {
       r \<leftarrow> read_sector hw 0;
       case r of
         None \<Rightarrow> State_Monad.return (Some False)
       | Some boot_sector \<Rightarrow>
           (case boot_parse boot_sector of
              None \<Rightarrow> State_Monad.return (Some False)
            | Some info \<Rightarrow> run_fat32_checks hw info)
     }"

subsection \<open>No index leaves a sector\<close>

text \<open>The data part of a request is a 512-byte buffer.\<close>

definition sized :: "hardware \<Rightarrow> bool" where
  "sized hw \<longleftrightarrow> (\<forall>h. length (rp_data (hw h)) = SECTOR_SIZE)"

text \<open>The operation does not panic.\<close>

definition safe :: "'a option blk \<Rightarrow> bool" where
  "safe m \<longleftrightarrow> (\<forall>d. wp m (\<lambda>r _. r \<noteq> None) d)"

named_theorems safe_rules \<open>operations that do not panic\<close>

lemma safe_return [safe_rules]: "safe (State_Monad.return (Some a))"
  by (simp add: safe_def wp_def)

lemma safe_bind [safe_rules]: "(\<And>a. safe (f a)) \<Longrightarrow> safe (State_Monad.bind m f)"
  by (simp add: safe_def wp_def split_beta)

lemma safe_ask [safe_rules]: "safe m \<Longrightarrow> (\<And>a. safe (k a)) \<Longrightarrow> safe (ask m k)"
  by (auto simp: safe_def wp_def ask_def split_beta split: option.splits)

lemma safe_if [safe_rules]: "safe m \<Longrightarrow> safe n \<Longrightarrow> safe (if b then m else n)"
  by simp

lemma safe_option [safe_rules]: "safe m \<Longrightarrow> (\<And>a. safe (n a)) \<Longrightarrow> safe (case x of None \<Rightarrow> m | Some a \<Rightarrow> n a)"
  by (cases x) simp_all

lemma safe_prod [safe_rules]: "(\<And>a b. safe (m a b)) \<Longrightarrow> safe (case x of (a, b) \<Rightarrow> m a b)"
  by (cases x) simp

lemma safe_flow [safe_rules]: "(\<And>v. safe (m v)) \<Longrightarrow> (\<And>r. safe (n r)) \<Longrightarrow> safe (case x of Continue v \<Rightarrow> m v | Return r \<Rightarrow> n r)"
  by (cases x) simp_all

lemma safe_Let [safe_rules]: "safe (m x) \<Longrightarrow> safe (Let x m)"
  by simp

lemma read_sized:
  assumes "sized hw"
  shows "wp (read_sector hw s) (\<lambda>r _. \<forall>sector. r = Some sector \<longrightarrow> length sector = SECTOR_SIZE) d"
  using assms by (auto simp: wp_def read_sector_def blk_request_def sized_def Let_def)

lemma safe_fat_copies:
  assumes "sized hw" "off + 4 \<le> SECTOR_SIZE"
  shows "safe (write_fat_copies hw info i off m ks p)"
proof (induction ks arbitrary: p)
  case (Cons k ks)
  have "wp (do {
      r \<leftarrow> read_sector hw t;
      case r of
        None \<Rightarrow> State_Monad.return (Some (False, p))
      | Some sector \<Rightarrow>
          if length sector < off + 4 then State_Monad.return None
          else f sector }) (\<lambda>r _. r \<noteq> None) d" if "\<And>sector. safe (f sector)" for t f d
    using that assms(2) unfolding safe_def
    by (intro wp_bind wp_mono [OF read_sized [OF assms(1)]]) (auto intro!: wp_return split: option.split)
  then have rd: "safe (do {
      r \<leftarrow> read_sector hw t;
      case r of
        None \<Rightarrow> State_Monad.return (Some (False, p))
      | Some sector \<Rightarrow>
          if length sector < off + 4 then State_Monad.return None
          else f sector })" if "\<And>sector. safe (f sector)" for t f using that by (simp add: safe_def)
  show ?case unfolding write_fat_copies.simps
    by (intro safe_option safe_return; rule rd) (intro safe_rules Cons)
qed (simp add: safe_rules)


lemma entry_fits:
  assumes "bytes_per_sector info = 512" "checked_mul c 4 = Some (b :: u32)"
  shows "unat (b mod ucast (bytes_per_sector info)) + 4 \<le> SECTOR_SIZE"
proof -
  have "unat b = unat c * 4" using assms(2) by (auto simp: checked_mul_def unat_word_ariths split: if_splits)
  then have "unat (b mod ucast (bytes_per_sector info)) = unat c mod 128 * 4"
    using assms(1) mod_mult_mult2 [of "unat c" 4 128] by (simp add: unat_mod)
  then show ?thesis using mod_less_divisor [of 128 "unat c"] by (simp add: SECTOR_SIZE_def)
qed

lemma safe_write_fat [safe_rules]:
  assumes "sized hw" "bytes_per_sector info = 512"
  shows "safe (write_fat_entry hw info c v)"
proof (cases "checked_mul c 4")
  case (Some b)
  show ?thesis unfolding write_fat_entry_def Some option.case Let_def
    by (intro safe_rules safe_fat_copies assms(1) entry_fits [OF assms(2) Some])
qed (simp add: write_fat_entry_def safe_rules)

lemma safe_free_clusters [safe_rules]:
  assumes "sized hw" "bytes_per_sector info = 512"
  shows "safe (free_clusters hw info cs)"
  by (induction cs) (simp_all add: safe_rules assms)

lemma safe_reserve [safe_rules]:
  assumes "sized hw" "bytes_per_sector info = 512"
  shows "safe (reserve_clusters hw info n k out)"
  by (induction n arbitrary: k out) (simp_all only: reserve_clusters.simps, (intro safe_rules assms; assumption?)+)

lemma safe_link [safe_rules]:
  assumes "sized hw" "bytes_per_sector info = 512"
  shows "safe (link_clusters hw info ps)"
proof (induction ps)
  case (Cons p ps)
  then show ?case by (cases p) (simp only: link_clusters.simps, intro safe_rules assms)
qed (simp add: safe_rules)

lemma safe_allocate_chain [safe_rules]:
  assumes "sized hw" "bytes_per_sector info = 512"
  shows "safe (allocate_cluster_chain hw info k out)"
  unfolding allocate_cluster_chain_def by (intro safe_rules assms)

lemma safe_grow_directory [safe_rules]:
  assumes "sized hw" "bytes_per_sector info = 512"
  shows "safe (grow_directory hw info c)"
  unfolding grow_directory_def by (intro safe_rules assms)

lemma walk_sectors_returns:
  assumes "\<And>v s x r. body v s x = Return r \<Longrightarrow> P r" "P none"
  shows "wp (walk_sectors hw body none sector0 ss v) (\<lambda>f _. \<forall>r. f = Return r \<longrightarrow> P r) d"
proof (induction ss arbitrary: v d)
  case (Cons s ss)
  then show ?case using assms by (auto simp: wp_def split_beta Let_def split: option.split flow.split)
qed (simp add: wp_return)

lemma safe_walk:
  assumes "\<And>v s x r. body v s x = Return r \<Longrightarrow> r \<noteq> None" "none \<noteq> None" "\<And>c. safe (at_end c)"
  shows "safe (walk_directory hw info body none at_end n c v)"
proof (induction n arbitrary: c v)
  case 0
  show ?case using assms(2) by (simp add: safe_def wp_return)
next
  case (Suc n)
  have none: "safe (State_Monad.return none)" using assms(2) by (simp add: safe_def wp_return)
  have "safe (do {
      r \<leftarrow> next_cluster_in_chain hw info c;
      case r of None \<Rightarrow> State_Monad.return none
      | Some next \<Rightarrow> if is_end_of_chain next then at_end c else walk_directory hw info body none at_end n next v })" for v
    by (intro safe_rules none assms(3) Suc)
  then have "wp (do {
      f \<leftarrow> walk_sectors hw body none sector0 ss v;
      case f of Return a \<Rightarrow> State_Monad.return a
      | Continue v \<Rightarrow> do {
          r \<leftarrow> next_cluster_in_chain hw info c;
          case r of None \<Rightarrow> State_Monad.return none
          | Some next \<Rightarrow> if is_end_of_chain next then at_end c else walk_directory hw info body none at_end n next v } })
      (\<lambda>r _. r \<noteq> None) d" for sector0 ss d
    unfolding safe_def
    by (intro wp_bind wp_mono [OF walk_sectors_returns [where P = "\<lambda>r. r \<noteq> None", OF assms(1,2)]])
      (auto intro!: wp_return split: flow.split)
  then show ?case using none by (auto simp: safe_def split: option.split)
qed

lemma safe_create_slot [safe_rules]:
  assumes "sized hw" "bytes_per_sector info = 512"
  shows "safe (find_or_grow_create_slot hw info c)"
  unfolding find_or_grow_create_slot_def
  by (intro safe_walk safe_rules assms) (auto split: option.splits)

lemma safe_free_chain [safe_rules]:
  assumes "sized hw" "bytes_per_sector info = 512"
  shows "safe (free_chain hw info n c)"
  by (induction n arbitrary: c) (simp_all only: free_chain.simps, (intro safe_rules assms; assumption?)+)

lemma safe_create [safe_rules]:
  assumes "sized hw" "bytes_per_sector info = 512"
  shows "safe (create_file hw info name content)"
  unfolding create_file_def by (intro safe_rules assms)

lemma safe_checks:
  assumes "sized hw" "bytes_per_sector info = 512"
  shows "safe (run_grow_proof hw info)" "safe (run_multi_cluster_grow_proof hw info)" "safe (run_delete_proof hw info)"
    "safe (run_create_proof hw info)" "safe (run_directory_growth_proof hw info)" "safe (run_fsinfo_hint_proof hw info)"
  unfolding run_grow_proof_def run_multi_cluster_grow_proof_def run_delete_proof_def run_create_proof_def
    run_directory_growth_proof_def run_fsinfo_hint_proof_def
  by (intro safe_rules assms)+



end
