(* ===== verification/Creating.thy ===== *)
theory Creating
  imports FileService SelfTest
begin

unbundle bit_operations_syntax

text \<open>
  Deleting and creating on a working disk: freeing a chain, the free-count hint check, and creating a
  file in a reusable directory slot.
\<close>

subsection \<open>Freeing a chain\<close>

lemma is_chain_agree: "(\<And>x. x \<in> set cs \<Longrightarrow> G x = F x) \<Longrightarrow> is_chain G cs = is_chain F cs"
  by (induction F cs rule: is_chain.induct) auto

lemma usable_bounds: "usable info cap c \<Longrightarrow> in_table info c \<and> 2 \<le> c"
  using cluster_sector_Some by (auto simp: usable_def)

lemma fat_get_table:
  assumes "wf_volume info cap" "represents info D F" "in_table info c"
  shows "fat_get info D 0 c = F c"
  using assms by (simp add: represents_def table_def wf_volume_def unat_gt_0)

definition freed :: "(u32 \<Rightarrow> u32) \<Rightarrow> u32 list \<Rightarrow> u32 \<Rightarrow> u32" where
  "freed F cs c = (if c \<in> set cs then 0 else F c)"

lemma freed_Nil: "freed F [] = F"
  by (simp add: freed_def fun_eq_iff)

lemma wp_free_chain:
  assumes "working disk0 cap hw" "wf_volume info cap"
  shows "medium_is disk0 D d \<Longrightarrow> represents info D F \<Longrightarrow> is_chain F cs \<Longrightarrow> list_all (usable info cap) cs \<Longrightarrow> distinct cs \<Longrightarrow>
    length cs \<le> n \<Longrightarrow>
    (\<And>D' d'. medium_is disk0 D' d' \<Longrightarrow> represents info D' (freed F cs) \<Longrightarrow> same_data info D D' \<Longrightarrow> Q (Some True) d') \<Longrightarrow>
    wp (free_chain hw info n (hd cs)) Q d"
proof (induction cs arbitrary: n D d F)
  case (Cons c cs)
  obtain n' where n: "n = Suc n'" using Cons.prems(6) by (cases n) auto
  have c: "in_table info c" "2 \<le> c" using usable_bounds Cons.prems(4) by auto
  have f: "freed F (c # cs) = freed (F(c := 0)) cs" using Cons.prems(5) by (auto simp: freed_def fun_eq_iff)
  have tail: "wp (case Some (F c) of
        Some n2 \<Rightarrow> if \<not> is_end_of_chain n2 then free_chain hw info n' n2 else State_Monad.return (Some True)
      | None \<Rightarrow> State_Monad.return (Some True)) Q d2"
    if "medium_is disk0 D2 d2" "represents info D2 (F(c := 0))" "same_data info D D2" for D2 d2
  proof (cases cs)
    case Nil
    then have e: "freed F (c # cs) = F(c := 0)" using f by (simp add: freed_Nil)
    have "Q (Some True) d2" by (rule Cons.prems(7) [OF that(1) _ that(3)]) (simp only: e that(2))
    then show ?thesis using Cons.prems(3) Nil by (simp add: wp_return)
  next
    case (Cons c' cs')
    have "is_chain F cs" "c \<notin> set cs" using Cons.prems(3,5) Cons by simp_all
    then have chain: "is_chain (F(c := 0)) cs" by (subst is_chain_agree [of cs _ F]) auto
    have len: "length cs \<le> n'" using Cons.prems(6) n by simp
    have "wp (free_chain hw info n' (hd cs)) Q d2"
      by (rule Cons.IH [OF that(1,2) chain _ _ len])
        (use Cons.prems(4,5) in simp, use Cons.prems(5) in simp, rule Cons.prems(7), simp_all only: f, rule same_data_trans [OF that(3)])
    then show ?thesis using Cons.prems(3) Cons by simp
  qed
  show ?case unfolding n free_chain.simps list.sel
  proof (rule wp_bind, rule wp_next [OF assms c(1) Cons.prems(1)], unfold fat_get_table [OF assms(2) Cons.prems(2) c(1)],
      rule wp_ask, rule wp_write_entry [OF assms c _ Cons.prems(2)], assumption)
    fix d1 D2 d2
    assume "medium_is disk0 D2 d2" "represents info D2 (F(c := 0 AND 0x0FFFFFFF))" "same_data info D D2"
    then show "case Some True of None \<Rightarrow> Q None d2 | Some b \<Rightarrow> wp (if \<not> b then State_Monad.return (Some False)
        else (case Some (F c) of
          Some n2 \<Rightarrow> if \<not> is_end_of_chain n2 then free_chain hw info n' n2 else State_Monad.return (Some True)
        | None \<Rightarrow> State_Monad.return (Some True))) Q d2"
      using tail by simp
  qed
qed simp


subsection \<open>The hint check\<close>

lemma wp_read_fsinfo:
  assumes "working disk0 cap hw" "wf_volume info cap" "medium_is disk0 D d"
    and "\<And>d'. medium_is disk0 D d' \<Longrightarrow> Q (fsinfo_parse (D (ucast (fsinfo_sector info)))) d'"
  shows "wp (read_fsinfo hw info) Q d"
  unfolding read_fsinfo_def
  by (intro wp_ask wp_read [OF assms(1,3) fsinfo_in_cap [OF assms(2)]]) (simp add: wp_return assms(4))

lemma hint_count: "hint info D = Some m \<Longrightarrow> map_option free_count (fsinfo_parse (D (ucast (fsinfo_sector info)))) = Some m"
  by (auto simp: hint_def split: option.splits if_splits)

lemma wp_write_hint:
  assumes "working disk0 cap hw" "wf_volume info cap" "in_table info c" "2 \<le> c" "medium_is disk0 D d" "represents info D F"
    and "hint info D = Some n" "hint_delta (F c) (v AND 0x0FFFFFFF) \<noteq> 0" "adjusted (hint_delta (F c) (v AND 0x0FFFFFFF)) n \<noteq> FSINFO_UNKNOWN"
    and Q: "\<And>D' d'. medium_is disk0 D' d' \<Longrightarrow> represents info D' (F(c := v AND 0x0FFFFFFF)) \<Longrightarrow> same_data info D D' \<Longrightarrow>
      hint info D' = Some (adjusted (hint_delta (F c) (v AND 0x0FFFFFFF)) n) \<Longrightarrow> Q (Some True) d'"
  shows "wp (write_fat_entry hw info c v) Q d"
proof -
  have t: "table info D F" using assms(6) by (simp add: represents_def)
  show ?thesis
    by (rule wp_write_fat [OF assms(1,2,3,5) t], rule Q)
      (use assms(7-9) in \<open>auto simp: hint_after_def intro: represents_write [OF assms(2,3,4,6)]\<close>)
qed

text \<open>
  The free-count hint is maintained: on a working disk whose hint is known and exact and that has a
  free cluster, the driver's own hint check passes, and leaves every copy of the table as it was.
\<close>

theorem hint_check_passes:
  assumes "working disk0 cap hw" "wf_volume info cap" "medium_is disk0 D d" "represents info D F"
    and "hint info D = Some n" "free_set info F \<noteq> {}"
  shows "\<exists>D' d'. run_state (run_fsinfo_hint_proof hw info) d = (Some True, d') \<and> medium_is disk0 D' d' \<and>
    represents info D' F \<and> same_data info D D'"
proof -
  obtain before where b: "fsinfo_parse (D (ucast (fsinfo_sector info))) = Some before" "free_count before = n" "n \<noteq> FSINFO_UNKNOWN"
    using assms(5) by (auto simp: hint_def split: option.splits if_splits)
  have t: "table info D F" using assms(4) by (simp add: represents_def)
  have pos: "0 < unat n" and lt: "unat n < 2 ^ 28"
    using assms(4-6) free_bound [OF assms(2), of F] by (auto simp: represents_def card_gt_0_iff)
  have minus: "adjusted (- 1) n = n - 1" and plus: "adjusted 1 (n - 1) = n"
    using pos lt by (simp_all add: word_unat_eq_iff adjusted_def unat_saturating_sub unat_saturating_add unat_sub_if')
  have ne: "n - 1 \<noteq> FSINFO_UNKNOWN" "n \<noteq> FSINFO_UNKNOWN"
    using pos lt by (auto simp: word_unat_eq_iff unat_sub_if' FSINFO_UNKNOWN_def)
  let ?Q = "\<lambda>r d'. r = Some True \<and> (\<exists>D'. medium_is disk0 D' d' \<and> represents info D' F \<and> same_data info D D')"
  have "wp (run_fsinfo_hint_proof hw info) ?Q d"
    unfolding run_fsinfo_hint_proof_def
  proof (rule wp_bind, rule wp_read_fsinfo [OF assms(1-3)], simp add: b, rule wp_bind, rule wp_allocate_free [OF assms(1,2) t],
      assumption, goal_cases)
    case (1 d0 c d1)
    have c: "in_table info c" "2 \<le> c" "F c = 0" using 1(3) by (simp_all add: free_set_def)
    show ?case unfolding option.case
    proof (rule wp_ask, rule wp_write_hint [OF assms(1,2) c(1,2) 1(2) assms(4,5)], goal_cases)
      case 1
      show ?case using c(3) by (simp add: hint_delta_def mask_EOC)
    next
      case 2
      show ?case using c(3) ne by (simp add: hint_delta_def mask_EOC minus)
    next
      case (3 D1 d2)
      have h1: "hint info D1 = Some (n - 1)" using 3(4) c(3) by (simp add: hint_delta_def mask_EOC minus)
      have F1: "represents info D1 (F(c := CHAIN_EOC_MARKER))" using 3(2) by (simp add: mask_EOC)
      have undo: "F(c := CHAIN_EOC_MARKER, c := 0 AND 0x0FFFFFFF) = F" using c(3) by auto
      have "wp (read_fsinfo hw info) (\<lambda>after_allocate. wp (ask (write_fat_entry hw info c 0) (\<lambda>freed.
          if \<not> freed then State_Monad.return (Some False)
          else do { after_free \<leftarrow> read_fsinfo hw info;
            State_Monad.return (Some (map_option free_count after_allocate = Some (n - 1) \<and>
              map_option free_count after_free = Some n)) })) ?Q) d2"
      proof (rule wp_read_fsinfo [OF assms(1,2) 3(1)], rule wp_ask, rule wp_write_hint [OF assms(1,2) c(1,2) _ F1 h1], assumption, goal_cases)
        case 1
        show ?case by (simp add: hint_delta_def mask_EOC)
      next
        case 2
        show ?case using ne by (simp add: hint_delta_def mask_EOC plus)
      next
        case (3 d3 D2 d4)
        have h2: "hint info D2 = Some n" using 3(5) by (simp add: hint_delta_def mask_EOC plus)
        have "same_data info D D2" using same_data_trans [OF \<open>same_data info D D1\<close> 3(4)] .
        then show ?case using 3(3) hint_count [OF h1] hint_count [OF h2] unfolding undo
          by (auto intro!: wp_bind wp_read_fsinfo [OF assms(1,2) 3(2)] wp_return)
      qed
      from wp_bind [OF this] show ?case unfolding b(2) by simp
    qed
  qed (use assms in auto)
  from wp_run [OF this] show ?thesis by auto
qed

subsection \<open>Directory slots\<close>

lemma chunks_nth:
  assumes "0 < n"
  shows "chunks_exact n xs = map (\<lambda>i. take n (drop (i * n) xs)) [0..<length xs div n]"
proof (induction n xs rule: chunks_exact.induct)
  case (1 n xs)
  show ?case
  proof (cases "length xs < n")
    case True
    then show ?thesis by (subst chunks_exact.simps) simp
  next
    case False
    show ?thesis
    proof (cases "n = 0")
      case True
      then show ?thesis by (subst chunks_exact.simps) simp
    next
      case n: False
      have l: "length xs div n = Suc (length (drop n xs) div n)" using False n by (simp add: le_div_geq)
      have "chunks_exact n xs = take n xs # chunks_exact n (drop n xs)" using False n by (subst chunks_exact.simps) simp
      also have "chunks_exact n (drop n xs) = map (\<lambda>i. take n (drop (i * n) (drop n xs))) [0..<length (drop n xs) div n]"
        using False n by (intro 1) auto
      finally show ?thesis unfolding l upt_conv_Cons [OF zero_less_Suc] map_Suc_upt [symmetric] by (simp add: add.commute o_def)
    qed
  qed
qed

lemma chunks_patch:
  assumes "length sector = 512" "length e = 32" "i < 16"
  shows "chunks_exact 32 (patch sector (i * 32) e) = (chunks_exact 32 sector)[i := e]"
proof (rule nth_equalityI)
  have fits: "i * 32 + length e \<le> length sector" using assms by simp
  have l: "length (patch sector (i * 32) e) = 512" using fits assms by (simp add: length_patch)
  show "length (chunks_exact 32 (patch sector (i * 32) e)) = length ((chunks_exact 32 sector)[i := e])"
    using assms l by (simp add: chunks_nth)
  fix j assume "j < length (chunks_exact 32 (patch sector (i * 32) e))"
  then have j: "j < 16" using l by (simp add: chunks_nth)
  have "take 32 (drop (j * 32) (patch sector (i * 32) e)) = (if j = i then e else take 32 (drop (j * 32) sector))"
  proof -
    consider "j = i" | "j * 32 + 32 \<le> i * 32" "j \<noteq> i" | "i * 32 + length e \<le> j * 32" "j \<noteq> i" using assms(2) by linarith
    then show ?thesis
      using patch_at [OF fits] patch_before [OF _ fits, of "j * 32" 32] patch_after [OF _ fits, of "j * 32"] assms(2)
      by cases auto
  qed
  then show "chunks_exact 32 (patch sector (i * 32) e) ! j = (chunks_exact 32 sector)[i := e] ! j"
    using j l assms by (simp add: chunks_nth nth_list_update)
qed

definition in_use :: "bytes \<Rightarrow> bool" where
  "in_use e \<longleftrightarrow> e ! 0 \<noteq> 0 \<and> e ! 0 \<noteq> 0xE5"

lemma reusable_slot:
  assumes "length sector = 512"
  shows "find_reusable_slot sector = None \<longleftrightarrow> list_all in_use (chunks_exact 32 sector)"
    "find_reusable_slot sector = Some i \<Longrightarrow> i < 16 \<and> list_all in_use (take i (chunks_exact 32 sector))"
proof -
  have l: "length (chunks_exact 32 sector) = 16" using assms by (simp add: chunks_nth)
  show "find_reusable_slot sector = None \<longleftrightarrow> list_all in_use (chunks_exact 32 sector)"
    by (auto simp: find_reusable_slot_def position_None list_all_iff in_use_def)
  show "find_reusable_slot sector = Some i \<Longrightarrow> i < 16 \<and> list_all in_use (take i (chunks_exact 32 sector))"
    using l by (auto simp: find_reusable_slot_def position_Some list_all_length in_use_def)
qed

lemma slot_found:
  assumes "s \<in> set ss" "find_reusable_slot (D s) \<noteq> None"
  shows "\<exists>pre s post i. ss = pre @ s # post \<and> (\<forall>x\<in>set pre. find_reusable_slot (D x) = None) \<and> find_reusable_slot (D s) = Some i \<and>
    run_body (\<lambda>_ sector_num sector. case find_reusable_slot sector of
        Some index \<Rightarrow> Return (Some (Some (ucast sector_num :: u32, index * 32))) | None \<Rightarrow> Continue ()) D ss () =
      Return (Some (Some (ucast s, i * 32)))"
  using assms(1)
proof (induction ss)
  case (Cons x ss)
  show ?case
  proof (cases "find_reusable_slot (D x)")
    case (Some i)
    then show ?thesis by (intro exI [of _ "[]"] exI [of _ x] exI [of _ ss] exI [of _ i]) simp
  next
    case None
    then have "s \<in> set ss" using Cons.prems assms(2) by auto
    from Cons.IH [OF this] obtain pre s' post i where
      "ss = pre @ s' # post" "\<forall>x\<in>set pre. find_reusable_slot (D x) = None" "find_reusable_slot (D s') = Some i"
      "run_body (\<lambda>_ sector_num sector. case find_reusable_slot sector of
        Some index \<Rightarrow> Return (Some (Some (ucast sector_num :: u32, index * 32))) | None \<Rightarrow> Continue ()) D ss () =
      Return (Some (Some (ucast s', i * 32)))" by blast
    then show ?thesis using None by (intro exI [of _ "x # pre"] exI [of _ s'] exI [of _ post] exI [of _ i]) auto
  qed
qed simp

text \<open>Putting an entry into the first reusable slot of a list of entries.\<close>

lemma live_slot:
  assumes "list_all in_use pre" "e ! 0 \<noteq> 0" "parse_short_dir_entry e = Some x"
  shows "live_entries (pre @ e # rest) =
    List.map_filter parse_short_dir_entry pre @ x # live_entries rest"
proof -
  have "takeWhile (\<lambda>e. e ! 0 \<noteq> 0) (pre @ e # rest) = pre @ e # takeWhile (\<lambda>e. e ! 0 \<noteq> 0) rest"
    using assms(1,2) by (subst takeWhile_append2) (auto simp: list_all_iff in_use_def)
  then show ?thesis using assms(3) by (simp add: live_entries_def map_filter_def)
qed

lemma live_prefix:
  assumes "list_all in_use pre"
  shows "live_entries (pre @ rest) = List.map_filter parse_short_dir_entry pre @ live_entries rest"
  using assms by (induction pre) (auto simp: live_entries_def map_filter_def in_use_def)

lemma live_unused: "\<not> in_use e \<Longrightarrow> live_entries (e # rest) = (if e ! 0 = 0 then [] else live_entries rest)"
  by (auto simp: live_entries_def in_use_def map_filter_def parse_short_dir_entry_def)

lemma slot_lookup:
  assumes pre: "list_all in_use pre" and e: "e ! 0 \<noteq> 0" "parse_short_dir_entry e = Some x" and old: "\<not> in_use o'"
    and new: "find (\<lambda>e. sde_name e = sde_name x) (live_entries (pre @ o' # rest)) = None"
  shows "find (\<lambda>e. sde_name e = sde_name x) (live_entries (pre @ e # rest)) = Some x"
    "n \<noteq> sde_name x \<Longrightarrow> find (\<lambda>e. sde_name e = n) (live_entries (pre @ o' # rest)) = Some y \<Longrightarrow>
     find (\<lambda>e. sde_name e = n) (live_entries (pre @ e # rest)) = Some y"
proof -
  have l: "live_entries (pre @ o' # rest) = List.map_filter parse_short_dir_entry pre @ (if o' ! 0 = 0 then [] else live_entries rest)"
    using live_prefix [OF pre, of "o' # rest"] live_unused [OF old, of rest] by simp
  show "find (\<lambda>e. sde_name e = sde_name x) (live_entries (pre @ e # rest)) = Some x"
    using new unfolding l live_slot [OF pre e] by (auto simp: find_append split: option.splits)
  show "find (\<lambda>e. sde_name e = n) (live_entries (pre @ e # rest)) = Some y"
    if "n \<noteq> sde_name x" "find (\<lambda>e. sde_name e = n) (live_entries (pre @ o' # rest)) = Some y"
    using that unfolding l live_slot [OF pre e] by (auto simp: find_append split: option.splits if_splits)
qed

lemma halves: "push_bit 16 (ucast (ucast (drop_bit 16 c AND 0xFFFF) :: u16)) OR ucast (ucast (c AND 0xFFFF) :: u16) = (c :: u32)"
proof -
  have m: "(0xFFFF :: u32) = mask 16" by (simp add: mask_eq_exp_minus_1)
  show ?thesis unfolding m by (rule bit_word_eqI) (auto simp: bit_simps)
qed

lemma from_le_word16: "of_nat (from_le (to_le 2 (unat w))) = (w :: u16)"
  using unsigned_less [of w, where 'a = nat] by (simp add: from_le_to_le)

lemma from_le_word32: "of_nat (from_le (to_le 4 (unat w))) = (w :: u32)"
  using unsigned_less [of w, where 'a = nat] by (simp add: from_le_to_le)

lemma new_entry_bytes:
  assumes "length name = 11"
  shows "new_short_entry name c len =
    name @ [ATTR_ARCHIVE] @ replicate 8 0 @ to_le 2 (unat (ucast (drop_bit 16 c AND 0xFFFF) :: u16)) @ replicate 4 0 @
    to_le 2 (unat (ucast (c AND 0xFFFF) :: u16)) @ to_le 4 (unat len)"
  using assms by (simp add: new_short_entry_def patch_def Let_def)

lemma new_entry_parse:
  assumes "length name = 11" "name ! 0 \<noteq> 0" "name ! 0 \<noteq> 0xE5"
  shows "parse_short_dir_entry (new_short_entry name c len) =
      Some \<lparr>sde_name = name, sde_first_cluster = c, sde_file_size = len, sde_is_dir = False\<rparr>"
    "length (new_short_entry name c len) = 32" "new_short_entry name c len ! 0 \<noteq> 0"
proof -
  let ?e = "new_short_entry name c len"
  have b: "?e ! 0 = name ! 0" "?e ! 11 = ATTR_ARCHIVE" "take 11 ?e = name"
    using assms(1) by (simp_all add: new_entry_bytes nth_append)
  have "le16 ?e 20 = ucast (drop_bit 16 c AND 0xFFFF)" "le16 ?e 26 = ucast (c AND 0xFFFF)" "le32 ?e 28 = len"
    using assms(1) from_le_word16 from_le_word32 by (simp_all add: le16_def le32_def new_entry_bytes)
  then show "parse_short_dir_entry ?e =
      Some \<lparr>sde_name = name, sde_first_cluster = c, sde_file_size = len, sde_is_dir = False\<rparr>"
    unfolding parse_short_dir_entry_def Let_def using assms(2,3) b halves [of c]
    by (simp add: ATTR_ARCHIVE_def ATTR_LONG_NAME_def ATTR_LONG_NAME_MASK_def ATTR_DIRECTORY_def)
  show "length ?e = 32" using assms(1) by (simp add: new_entry_bytes)
  show "?e ! 0 \<noteq> 0" using b assms(2) by simp
qed

lemma distinct_cluster_sectors: "distinct (cluster_sectors info c)"
proof (cases "cluster_to_sector info c")
  case (Some s)
  have "inj_on (\<lambda>i. ucast s + of_nat i :: u64) (set [0..<unat (sectors_per_cluster info)])"
    using sector_offset [OF Some] by (intro inj_onI) (metis add_left_cancel atLeastLessThan_iff set_upt)
  then show ?thesis using Some by (simp add: cluster_sectors_def distinct_map)
qed (simp add: cluster_sectors_def)

lemma distinct_chain_sectors: "distinct cs \<Longrightarrow> distinct (chain_sectors info cs)"
proof (induction cs)
  case (Cons c cs)
  have "set (cluster_sectors info c) \<inter> set (chain_sectors info cs) = {}"
    using Cons.prems clusters_disjoint unfolding chain_sectors_def by fastforce
  then show ?case using Cons distinct_cluster_sectors by (simp add: chain_sectors_def)
qed (simp add: chain_sectors_def)

lemma chain_not_free:
  assumes "is_chain F cs" "list_all (usable info cap) cs" "c \<in> set cs"
  shows "F c \<noteq> 0"
  using assms
proof (induction F cs rule: is_chain.induct)
  case (3 F a b cs)
  then have "2 \<le> b" using usable_bounds by auto
  then show ?case using 3 by (auto simp: word_le_nat_alt)
qed (auto simp: is_end_of_chain_def)

lemma represents_data_write:
  assumes "wf_volume info cap" "represents info D F" "unat (data_start_sector info) \<le> unat s"
  shows "represents info (D(s := x)) F"
proof -
  have "s \<noteq> ucast (fsinfo_sector info)"
    using assms(1,3) by (auto simp: wf_volume_def word_less_nat_alt)
  then have "hint info (D(s := x)) = hint info D" by (simp add: hint_def)
  moreover have "table info (D(s := x)) F"
    by (rule table_data_write [OF assms(1) _ assms(3)]) (use assms(2) in \<open>simp add: represents_def\<close>)
  ultimately show ?thesis using assms(2) by (simp add: represents_def)
qed

lemma directory_slot:
  assumes ss: "chain_sectors info rs = pre @ s # post" "distinct (chain_sectors info rs)"
    and same: "\<And>x. x \<in> set (chain_sectors info rs) \<Longrightarrow> D2 x = D x" and len: "\<And>x. length (D x) = 512"
    and slot: "find_reusable_slot (D s) = Some i" "\<forall>x\<in>set pre. find_reusable_slot (D x) = None" and e: "length e = 32"
  shows "\<exists>P old rest. list_all in_use P \<and> \<not> in_use old \<and> directory_entries info D rs = P @ old # rest \<and>
    directory_entries info (D2(s := patch (D2 s) (i * 32) e)) rs = P @ e # rest"
proof -
  let ?ch = "chunks_exact 32 (D s)" and ?c = "\<lambda>xs. concat (map (\<lambda>x. chunks_exact 32 (D x)) xs)"
  have i: "i < 16" "list_all in_use (take i ?ch)" using reusable_slot(2) [OF len slot(1)] by simp_all
  have l: "length ?ch = 16" using len by (simp add: chunks_nth)
  have old: "\<not> in_use (?ch ! i)" using slot(1) by (auto simp: find_reusable_slot_def position_Some in_use_def)
  have p: "list_all in_use (?c pre)" using slot(2) reusable_slot(1) [OF len] by (auto simp: list_all_iff)
  have "directory_entries info D rs = ?c pre @ ?ch @ ?c post" by (simp add: directory_entries_def ss(1))
  also have "?ch = take i ?ch @ ?ch ! i # drop (Suc i) ?ch" using i l by (simp add: id_take_nth_drop)
  finally have d: "directory_entries info D rs = (?c pre @ take i ?ch) @ ?ch ! i # (drop (Suc i) ?ch @ ?c post)" by simp
  have notin: "s \<notin> set pre" "s \<notin> set post" using ss by auto
  have m: "map (\<lambda>x. chunks_exact 32 ((D2(s := y)) x)) xs = map (\<lambda>x. chunks_exact 32 (D x)) xs"
    if "set xs \<subseteq> set (chain_sectors info rs)" "s \<notin> set xs" for xs y
    using that same by (intro map_cong) auto
  have parts: "map (\<lambda>x. chunks_exact 32 ((D2(s := y)) x)) pre = map (\<lambda>x. chunks_exact 32 (D x)) pre"
    "map (\<lambda>x. chunks_exact 32 ((D2(s := y)) x)) post = map (\<lambda>x. chunks_exact 32 (D x)) post" for y
    by (rule m; use ss(1) notin in auto)+
  have "D2 s = D s" using same ss(1) by simp
  then have "directory_entries info (D2(s := patch (D2 s) (i * 32) e)) rs = ?c pre @ chunks_exact 32 (patch (D s) (i * 32) e) @ ?c post"
    unfolding directory_entries_def ss(1) map_append list.map concat_append concat.simps parts fun_upd_same by simp
  also have "chunks_exact 32 (patch (D s) (i * 32) e) = take i ?ch @ e # drop (Suc i) ?ch"
    unfolding chunks_patch [OF len e i(1)] using i(1) l by (simp add: upd_conv_take_nth_drop)
  finally have n: "directory_entries info (D2(s := patch (D2 s) (i * 32) e)) rs =
      (?c pre @ take i ?ch) @ e # (drop (Suc i) ?ch @ ?c post)" by (simp add: fun_upd_def)
  have u: "list_all in_use (?c pre @ take i ?ch)" using p i(2) by simp
  from u old d n show ?thesis by blast
qed

lemma wp_update_sector:
  assumes "working disk0 cap hw" "medium_is disk0 D d" "unat s < cap" "length (f (D (ucast s))) = SECTOR_SIZE"
    and "\<And>d'. medium_is disk0 (D(ucast s := f (D (ucast s)))) d' \<Longrightarrow> Q True d'"
  shows "wp (update_sector hw s f) Q d"
proof -
  have cap: "unat (ucast s :: u64) < cap" using assms(3) by simp
  show ?thesis unfolding update_sector_def
    by (intro wp_bind wp_read [OF assms(1,2) cap])
      (auto intro!: wp_bind wp_write [OF assms(1) _ cap assms(4)] wp_return assms(5))
qed

lemma wp_check_file:
  assumes "working disk0 cap hw" "wf_volume info cap" "table info D F" "medium_is disk0 D d"
    and "chain_from info cap F (root_cluster info) rs" "lookup_name info D rs name = Some e"
    and "chain_from info cap F (sde_first_cluster e) cs" "unat (sde_file_size e) = length expected"
    and "length expected \<le> MAX_FILE_BYTES" "take (length expected) (file_bytes info D cs) = expected"
    and "\<And>d'. medium_is disk0 D d' \<Longrightarrow> Q True d'"
  shows "wp (check_file hw info name expected) Q d"
  unfolding check_file_def
proof (rule wp_bind, rule wp_find_entry [OF assms(1-5)], unfold assms(6) option.case, rule wp_bind,
    rule wp_read_file [OF assms(1-3) _ assms(7)], assumption, goal_cases)
  case (1 d1 d2)
  have "min (unat (sde_file_size e)) MAX_FILE_BYTES = length expected" using assms(8,9) by simp
  then show ?case using 1(2) assms(8,10,11) by (simp add: wp_return)
qed

lemma wp_create_slot:
  assumes "working disk0 cap hw" "wf_volume info cap" "table info D F" "medium_is disk0 D d" "chain_from info cap F c rs"
    and "run_body (\<lambda>_ sector_num sector. case find_reusable_slot sector of
        Some index \<Rightarrow> Return (Some (Some (ucast sector_num, index * 32))) | None \<Rightarrow> Continue ()) D (chain_sectors info rs) () = Return r"
    and "\<And>d'. medium_is disk0 D d' \<Longrightarrow> Q r d'"
  shows "wp (find_or_grow_create_slot hw info c) Q d"
proof -
  have c: "is_chain F rs" "list_all (usable info cap) rs" "length rs \<le> CHAIN_LIMIT" "hd rs = c"
    using assms(5) by (simp_all add: chain_from_def)
  show ?thesis unfolding find_or_grow_create_slot_def c(4) [symmetric]
    by (rule wp_walk_directory [OF assms(1-4) c(1-3)]) (use assms(6,7) in auto)
qed

lemma chain_from_agree:
  "(\<And>x. x \<in> set cs \<Longrightarrow> G x = F x) \<Longrightarrow> chain_from info cap G c cs = chain_from info cap F c cs"
  using is_chain_agree [of cs G F] by (auto simp: chain_from_def)

lemma padded_length: "length content \<le> SECTOR_SIZE \<Longrightarrow> length (padded content) = SECTOR_SIZE"
  by (simp add: padded_def)

lemma narrow_widen: "unat (s :: u64) < 2 ^ 32 \<Longrightarrow> unat (ucast s :: u32) = unat s" "unat s < 2 ^ 32 \<Longrightarrow> ucast (ucast s :: u32) = s"
proof -
  show u: "unat (ucast s :: u32) = unat s" if "unat s < 2 ^ 32"
    using that by (simp add: unsigned_ucast_eq take_bit_nat_eq_self)
  show "ucast (ucast s :: u32) = s" if "unat s < 2 ^ 32"
    using u [OF that] unat_widen [of "ucast s"] by (metis word_unat_eq_iff)
qed

text \<open>The situation in which a file can be created: the slot \<open>i\<close> of sector \<open>s\<close> is the first
  reusable one, \<open>c\<close> is a free cluster with first sector \<open>ns\<close>, and the name is new.\<close>

definition create_ready ::
    "BootSectorInfo \<Rightarrow> nat \<Rightarrow> (u64 \<Rightarrow> bytes) \<Rightarrow> (u32 \<Rightarrow> u32) \<Rightarrow> u32 list \<Rightarrow> bytes \<Rightarrow> u32 \<Rightarrow> u32 \<Rightarrow> u64 \<Rightarrow> nat \<Rightarrow> bool" where
  "create_ready info cap D F rs name c ns s i \<longleftrightarrow>
     wf_volume info cap \<and> (\<forall>x. length (D x) = SECTOR_SIZE) \<and> represents info D F \<and>
     chain_from info cap F (root_cluster info) rs \<and> distinct rs \<and>
     (\<exists>pre post. chain_sectors info rs = pre @ s # post \<and> (\<forall>x\<in>set pre. find_reusable_slot (D x) = None)) \<and>
     find_reusable_slot (D s) = Some i \<and>
     length name = 11 \<and> name ! 0 \<noteq> 0 \<and> name ! 0 \<noteq> 0xE5 \<and> lookup_name info D rs name = None \<and>
     c \<in> free_set info F \<and> usable info cap c \<and> cluster_to_sector info c = Some ns"

lemma create_ready_disjoint:
  assumes "create_ready info cap D F rs name c ns s i"
  shows "c \<notin> set rs" "ucast ns \<in> set (cluster_sectors info c)" "ucast ns \<notin> set (chain_sectors info rs)"
    "s \<in> set (chain_sectors info rs)" "s \<notin> set (cluster_sectors info c)"
proof -
  have ch: "is_chain F rs" "list_all (usable info cap) rs" and k: "0 < unat (sectors_per_cluster info)"
    using assms by (simp_all add: create_ready_def chain_from_def wf_volume_def unat_gt_0)
  show c: "c \<notin> set rs" using chain_not_free [OF ch] assms by (auto simp: create_ready_def free_set_def)
  show n: "ucast ns \<in> set (cluster_sectors info c)" using assms k by (force simp: create_ready_def cluster_sectors_def)
  have no: "x \<notin> set (chain_sectors info rs)" if "x \<in> set (cluster_sectors info c)" for x
    using that c clusters_disjoint unfolding chain_sectors_def by fastforce
  show "ucast ns \<notin> set (chain_sectors info rs)" using no [OF n] .
  show s: "s \<in> set (chain_sectors info rs)" using assms by (auto simp: create_ready_def)
  show "s \<notin> set (cluster_sectors info c)" using no s by blast
qed

lemma data_sector_high: "x \<in> set (chain_sectors info rs) \<Longrightarrow> unat (data_start_sector info) \<le> unat x"
  using sectors_in_data by (auto simp: chain_sectors_def)

text \<open>The volume after the creation: the cluster is the one chain added to the table, the name finds
  the new entry, the cluster starts with the content, every other name finds what it found.\<close>

definition file_created ::
    "BootSectorInfo \<Rightarrow> (u64 \<Rightarrow> bytes) \<Rightarrow> (u32 \<Rightarrow> u32) \<Rightarrow> u32 list \<Rightarrow> bytes \<Rightarrow> u32 \<Rightarrow> bytes \<Rightarrow> (u64 \<Rightarrow> bytes) \<Rightarrow> bool" where
  "file_created info D F rs name c content D' \<longleftrightarrow>
     represents info D' (F(c := CHAIN_EOC_MARKER)) \<and>
     lookup_name info D' rs name =
       Some \<lparr>sde_name = name, sde_first_cluster = c, sde_file_size = of_nat (length content), sde_is_dir = False\<rparr> \<and>
     take (length content) (file_bytes info D' [c]) = content \<and>
     (\<forall>other e. other \<noteq> name \<and> lookup_name info D rs other = Some e \<longrightarrow> lookup_name info D' rs other = Some e)"

lemma created:
  assumes r: "create_ready info cap D F rs name c ns s i" and len: "length content \<le> SECTOR_SIZE"
    and D2: "represents info D2 (F(c := CHAIN_EOC_MARKER))" "same_data info (D(ucast ns := padded content)) D2"
  shows "file_created info D F rs name c content (D2(s := patch (D2 s) (i * 32) (new_short_entry name c (of_nat (length content)))))"
proof -
  define D' where "D' = D2(s := patch (D2 s) (i * 32) (new_short_entry name c (of_nat (length content))))"
  note dj = create_ready_disjoint [OF r]
  have name: "length name = 11" "name ! 0 \<noteq> 0" "name ! 0 \<noteq> 0xE5" and wf: "wf_volume info cap"
    and l: "\<And>x. length (D x) = 512" and dist: "distinct (chain_sectors info rs)"
    using r distinct_chain_sectors by (auto simp: create_ready_def SECTOR_SIZE_def)
  note p = new_entry_parse [OF name, of c "of_nat (length content)"]
  have same: "D2 x = D x" if "x \<in> set (chain_sectors info rs)" for x
    using D2(2) data_sector_high [OF that] that dj(3) by (auto simp: same_data_def)
  obtain pre post where "chain_sectors info rs = pre @ s # post" "\<forall>x\<in>set pre. find_reusable_slot (D x) = None"
    "find_reusable_slot (D s) = Some i" using r by (auto simp: create_ready_def)
  from directory_slot [OF this(1) dist same l this(3,2) p(2)] obtain P old rest where
    d: "list_all in_use P" "\<not> in_use old" "directory_entries info D rs = P @ old # rest" "directory_entries info D' rs = P @ new_short_entry name c (of_nat (length content)) # rest"
    unfolding D'_def by blast
  have f: "lookup_name info D rs name = None" using r by (simp add: create_ready_def)
  note sl = slot_lookup [OF d(1) p(3,1) d(2), of rest, simplified, folded d(3), folded lookup_name_def, OF f]
  have "lookup_name info D' rs name =
       Some \<lparr>sde_name = name, sde_first_cluster = c, sde_file_size = of_nat (length content), sde_is_dir = False\<rparr>"
    using sl(1) by (simp add: lookup_name_def d(4))
  moreover have "lookup_name info D' rs other = Some e" if "other \<noteq> name" "lookup_name info D rs other = Some e" for other e
    using sl(2) [OF that] by (simp add: lookup_name_def d(4))
  moreover have "represents info D' (F(c := CHAIN_EOC_MARKER))"
    unfolding D'_def by (rule represents_data_write [OF wf D2(1) data_sector_high [OF dj(4)]])
  moreover obtain xs where xs: "cluster_sectors info c = ucast ns # xs"
    using r wf by (auto simp: create_ready_def cluster_sectors_def upt_conv_Cons wf_volume_def unat_gt_0)
  moreover have "D' (ucast ns) = padded content"
    using D2(2) sectors_in_data [OF dj(2)] dj(2,5) by (auto simp: D'_def same_data_def)
  ultimately show ?thesis
    by (simp add: file_created_def file_bytes_def cluster_bytes_def padded_def flip: D'_def)
qed

lemma first_slot:
  assumes "create_ready info cap D F rs name c ns s i"
  shows "run_body (\<lambda>_ sector_num sector. case find_reusable_slot sector of
        Some index \<Rightarrow> Return (Some (Some (ucast sector_num :: u32, index * 32))) | None \<Rightarrow> Continue ()) D (chain_sectors info rs) () =
       Return (Some (Some (ucast s, i * 32)))"
proof -
  have "run_body (\<lambda>_ sector_num sector. case find_reusable_slot sector of
        Some index \<Rightarrow> Return (Some (Some (ucast sector_num :: u32, index * 32))) | None \<Rightarrow> Continue ()) D (pre @ s # post) () =
       Return (Some (Some (ucast s, i * 32)))" if "\<forall>x\<in>set pre. find_reusable_slot (D x) = None" for pre post
    using that assms by (induction pre) (simp_all add: create_ready_def)
  then show ?thesis using assms by (auto simp: create_ready_def)
qed

lemma create_ready_slot:
  assumes "create_ready info cap D F rs name c ns s i" "cap \<le> 2 ^ 32"
  shows "unat (ucast s :: u32) < cap" "ucast (ucast s :: u32) = s" "i < 16" "unat (ucast ns :: u64) < cap"
proof -
  note dj = create_ready_disjoint [OF assms(1)]
  have "unat s < cap"
    using assms(1) dj(4) sectors_in_cap by (fastforce simp: create_ready_def chain_from_def chain_sectors_def list_all_iff)
  then show "unat (ucast s :: u32) < cap" "ucast (ucast s :: u32) = s" using narrow_widen [of s] assms(2) by simp_all
  show "i < 16" using assms(1) reusable_slot(2) [of "D s" i] by (simp add: create_ready_def SECTOR_SIZE_def)
  show "unat (ucast ns :: u64) < cap" using assms(1) by (intro sectors_in_cap [OF _ dj(2)]) (simp add: create_ready_def)
qed

text \<open>The end of a creation: the entry is written, looked up and read back.\<close>

lemma wp_enter_file:
  assumes hw: "working disk0 cap hw" "cap \<le> 2 ^ 32" and r: "create_ready info cap D F rs name c ns s i"
    and len: "length content \<le> SECTOR_SIZE" and D2: "medium_is disk0 D2 d2" "represents info D2 (F(c := CHAIN_EOC_MARKER))"
    "same_data info (D(ucast ns := padded content)) D2" and w: "w"
  shows "wp (do {
      entry_write_ok \<leftarrow> update_sector hw (ucast s)
        (\<lambda>buf. patch buf (i * 32) (new_short_entry name c (of_nat (length content))));
      visible \<leftarrow> check_file hw info name content;
      State_Monad.return (Some (Some (w \<and> True \<and> entry_write_ok \<and> visible))) })
      (\<lambda>res d'. res = Some (Some True) \<and> (\<exists>D'. medium_is disk0 D' d' \<and> file_created info D F rs name c content D')) d2"
proof -
  let ?F = "F(c := CHAIN_EOC_MARKER)" and ?D' = "D2(s := patch (D2 s) (i * 32) (new_short_entry name c (of_nat (length content))))"
  note dj = create_ready_disjoint [OF r] and slot = create_ready_slot [OF r hw(2)]
  have wf: "wf_volume info cap" and rs: "chain_from info cap F (root_cluster info) rs" and u: "usable info cap c"
    and nm: "length name = 11" "name ! 0 \<noteq> 0" "name ! 0 \<noteq> 0xE5" using r by (simp_all add: create_ready_def)
  note cr = created [OF r len D2(2,3)]
  have t': "table info ?D' ?F" and f: "lookup_name info ?D' rs name =
       Some \<lparr>sde_name = name, sde_first_cluster = c, sde_file_size = of_nat (length content), sde_is_dir = False\<rparr>"
    and b: "take (length content) (file_bytes info ?D' [c]) = content"
    using cr by (simp_all add: file_created_def represents_def)
  have pl: "length (patch (D2 s) (i * 32) (new_short_entry name c (of_nat (length content)))) = SECTOR_SIZE"
    using slot(3) medium_length [OF D2(1)] new_entry_parse(2) [OF nm] by (simp add: length_patch SECTOR_SIZE_def)
  have rs': "chain_from info cap ?F (root_cluster info) rs" using rs dj(1) by (subst chain_from_agree [of rs ?F F]) auto
  have cs': "chain_from info cap ?F c [c]"
    using u by (simp add: chain_from_def is_end_of_chain_def CHAIN_EOC_MARKER_def CHAIN_LIMIT_def)
  have small: "unat (of_nat (length content) :: u32) = length content" "length content \<le> MAX_FILE_BYTES"
    using len by (simp_all add: SECTOR_SIZE_def MAX_FILE_BYTES_def unat_of_nat take_bit_nat_eq_self)
  show ?thesis
  proof (rule wp_bind, rule wp_update_sector [OF hw(1) D2(1) slot(1)], unfold slot(2), rule pl, rule wp_bind,
      rule wp_check_file [where cs = "[c]", OF hw(1) wf t' _ rs' f], assumption, goal_cases)
    case (1 d3)
    show ?case using cs' by simp
  next
    case (5 d3 d4)
    then show ?case using cr w by (intro wp_return) auto
  qed (use small b in auto)
qed

text \<open>
  C40.  A created file is there.  On a working disk, let the root directory have a reusable slot and no
  entry of the given short name, and let the lowest free cluster lie on the disk.  Then creating the
  file passes its own check; afterwards a lookup of the name finds an entry with the new cluster and
  the content's length, the cluster starts with the content and is the one chain added to the table,
  and every other name still finds the entry it found before.
\<close>

theorem create_file_exact:
  assumes "working disk0 cap hw" "medium_is disk0 D d" "cap \<le> 2 ^ 32"
    and r: "create_ready info cap D F rs name c ns s i" and c: "\<And>c'. c' \<in> free_set info F \<Longrightarrow> c \<le> c'"
    and len: "length content \<le> SECTOR_SIZE"
  shows "\<exists>D' d'. run_state (create_file hw info name content) d = (Some (Some True), d') \<and> medium_is disk0 D' d' \<and>
    file_created info D F rs name c content D'"
proof -
  note dj = create_ready_disjoint [OF r]
  have wf: "wf_volume info cap" and rep: "represents info D F" and rs: "chain_from info cap F (root_cluster info) rs"
    and cf: "c \<in> free_set info F" and ns: "cluster_to_sector info c = Some ns" and t: "table info D F"
    using r by (simp_all add: create_ready_def represents_def)
  have ci: "in_table info c" "2 \<le> c" using cf by (simp_all add: free_set_def)
  have eq: "c' = c" if "c' \<in> free_set info F" "\<And>c2. c2 \<in> free_set info F \<Longrightarrow> c' \<le> c2" for c'
    using that cf c by (meson antisym)
  have r1: "represents info (D(ucast ns := padded content)) F"
    by (rule represents_data_write [OF wf rep sectors_in_data [OF dj(2)]])
  have "wp (create_file hw info name content)
      (\<lambda>res d'. res = Some (Some True) \<and> (\<exists>D'. medium_is disk0 D' d' \<and> file_created info D F rs name c content D')) d"
    unfolding create_file_def
  proof (rule wp_ask, rule wp_create_slot [OF assms(1) wf t assms(2) rs first_slot [OF r]], simp only: option.case prod.case,
      rule wp_bind, rule wp_allocate_free [OF assms(1) wf t], assumption, goal_cases)
    case (1 d1 c' d2)
    have [simp]: "c' = c" by (rule eq) (use 1 in auto)
    show ?case unfolding \<open>c' = c\<close> option.case ns
    proof (rule wp_bind, rule wp_write [OF assms(1) 1(2) create_ready_slot(4) [OF r assms(3)] padded_length [OF len]], rule wp_ask,
        rule wp_write_entry [OF assms(1) wf ci _ r1], assumption, goal_cases)
      case (1 d3 w D3 d4)
      have "0x0FFFFFFF AND 0x0FFFFFFF = CHAIN_EOC_MARKER" by (simp add: CHAIN_EOC_MARKER_def)
      then show ?case using wp_enter_file [OF assms(1,3) r len 1(3) _ 1(5), of "write_ok w"] 1(2,4) by simp
    qed
  next
    case (2 d1 d2)
    then show ?case using cf by simp
  qed
  from wp_run [OF this] show ?thesis by auto
qed

subsection \<open>Concrete runs\<close>


definition sample_name :: bytes where
  "sample_name = as_bytes ''B       TXT''"

lemma sample_slot: "find_reusable_slot (sample_disk 4) = Some 1"
proof -
  have "length sample_entry = 32" by (simp add: sample_entry_def)
  then have "chunks_exact 32 (sample_entry @ replicate 480 0) = sample_entry # chunks_exact 32 (replicate 480 0)"
    by (subst chunks_exact.simps) simp
  also have "chunks_exact 32 (replicate 480 (0 :: u8)) = replicate 32 0 # chunks_exact 32 (drop 32 (replicate 480 0))"
    by (subst chunks_exact.simps) simp
  finally have "chunks_exact 32 (sample_disk 4) = sample_entry # replicate 32 0 # chunks_exact 32 (drop 32 (replicate 480 0))"
    by (simp add: sample_disk_def)
  moreover have "sample_entry ! 0 \<noteq> 0" "sample_entry ! 0 \<noteq> 0xE5" by code_simp+
  ultimately show ?thesis by (simp add: find_reusable_slot_def)
qed

lemma sample_name_new: "lookup_name sample_info sample_disk [2] sample_name = None"
proof -
  obtain rest where r: "directory_entries sample_info sample_disk [2] = sample_entry # replicate 32 0 # rest"
    using sample_entries by blast
  have "sample_entry ! 0 \<noteq> 0" by code_simp
  then have "live_entries (directory_entries sample_info sample_disk [2]) = [sample_file]"
    unfolding r by (simp add: live_entries_def sample_parse List.map_filter_simps)
  moreover have "sde_name sample_file \<noteq> sample_name" by code_simp
  ultimately show ?thesis unfolding lookup_name_def by simp
qed

lemma sample_least: "c' \<in> free_set sample_info sample_table \<Longrightarrow> 4 \<le> c'"
proof -
  assume "c' \<in> free_set sample_info sample_table"
  then have "2 \<le> unat c'" "c' \<noteq> 2" "c' \<noteq> 3"
    by (auto simp: free_set_def sample_table_def word_le_nat_alt CHAIN_EOC_MARKER_def split: if_splits)
  then show ?thesis by (simp add: word_le_nat_alt word_unat_eq_iff)
qed

lemma sample_create: "create_ready sample_info 100 sample_disk sample_table [2] sample_name 4 6 4 1"
proof -
  have "chain_sectors sample_info [2] = [] @ 4 # []"
    by (simp add: chain_sectors_def cluster_sectors_def cluster_to_sector_def checked_sub_def checked_mul_def checked_add_def
        sample_info_def)
  moreover have "cluster_to_sector sample_info 4 = Some 6"
    by (simp add: cluster_to_sector_def checked_sub_def checked_mul_def checked_add_def sample_info_def)
  moreover have "in_table sample_info 4" "4 \<in> free_set sample_info sample_table"
    by (simp_all add: in_table_def free_set_def sample_table_def sample_info_def)
  moreover have "sectors_per_cluster sample_info = 1" by (simp add: sample_info_def)
  moreover have "length sample_name = 11" "sample_name ! 0 \<noteq> 0" "sample_name ! 0 \<noteq> 0xE5" by code_simp+
  ultimately show ?thesis
    using sample_volume sample_disk_length sample_represents sample_chain(1) sample_slot sample_name_new
    unfolding create_ready_def usable_def by (auto intro!: exI [of _ "[]"])
qed

theorem create_file_exact_witness:
  "\<exists>d'. run_state (create_file (ram_disk sample_disk) sample_info sample_name [1, 2, 3]) device_new = (Some (Some True), d')"
  using create_file_exact [OF sample_facts(1) sample_facts(3) _ sample_create sample_least, of "[1, 2, 3]"]
  by (auto simp: SECTOR_SIZE_def)

text \<open>A volume that declares 1024-byte sectors is accepted by the boot sector parser, and then the second
  half of its table cannot be written: the entry lies past the 512 bytes that were read.\<close>

theorem wide_sector_panics:
  "fst (run_state (write_fat_entry (ram_disk sample_disk) (sample_info\<lparr>bytes_per_sector := 1024\<rparr>) 128 0) device_new) = None"
proof -
  have e: "checked_mul (128 :: u32) 4 = Some 512" by (simp add: checked_mul_def)
  have n: "[0..<unat (num_fats sample_info)] = 0 # [1..<2]" by (simp add: sample_info_def upt_conv_Cons)
  have "wp (write_fat_copies (ram_disk sample_disk) (sample_info\<lparr>bytes_per_sector := 1024\<rparr>) 0 512 0 (0 # [1..<2]) None)
      (\<lambda>r _. r = None) device_new"
    by (auto simp: sample_info_def checked_add_def sample_disk_length SECTOR_SIZE_def
        intro!: wp_bind wp_read [OF sample_facts(1,3)] wp_return)
  then show ?thesis unfolding write_fat_entry_def e option.case Let_def
    by (simp add: ask_def wp_def split_beta n)
qed

end
