(* ===== verification/Elf.thy ===== *)
theory Elf
  imports Prelude "HOL-Library.Monad_Syntax"
begin

unbundle bit_operations_syntax

text \<open>
  The ELF64 parser of the ARM kernel, \<open>kernel-arm/src/elf.rs\<close>: identification, the program header
  table, and the validation of every \<open>PT_LOAD\<close> entry against the image.  An image is a list of
  bytes; offsets are \<open>usize\<close> words, and an addition that the source does not check is the
  wrapping addition of words.
\<close>

subsection \<open>Data\<close>

abbreviation ELF_MAGIC :: bytes where "ELF_MAGIC \<equiv> [0x7f, 0x45, 0x4c, 0x46]"
abbreviation ELF_HEADER_SIZE :: nat where "ELF_HEADER_SIZE \<equiv> 64"
abbreviation PHDR_SIZE :: usize where "PHDR_SIZE \<equiv> 56"
abbreviation PT_LOAD :: u32 where "PT_LOAD \<equiv> 1"
abbreviation PF_X :: u32 where "PF_X \<equiv> 1"
abbreviation PF_W :: u32 where "PF_W \<equiv> 2"
abbreviation PF_R :: u32 where "PF_R \<equiv> 4"

datatype ElfError =
    TooShort | BadMagic | Not64Bit | NotLittleEndian | NotAarch64 | NotExecutable | UnexpectedProgramHeaderSize
  | ProgramHeadersOutOfBounds | SegmentOutOfBounds | SegmentSmallerThanFileContent | NoLoadableSegments

fun display_ElfError :: "ElfError \<Rightarrow> string" where
  "display_ElfError TooShort = ''image is shorter than an ELF64 header''"
| "display_ElfError BadMagic = ''not an ELF image (bad magic)''"
| "display_ElfError Not64Bit = ''not ELFCLASS64''"
| "display_ElfError NotLittleEndian = ''not ELFDATA2LSB (little-endian)''"
| "display_ElfError NotAarch64 = ''e_machine is not EM_AARCH64''"
| "display_ElfError NotExecutable = ''e_type is not ET_EXEC''"
| "display_ElfError UnexpectedProgramHeaderSize = ''e_phentsize is not 56''"
| "display_ElfError ProgramHeadersOutOfBounds = ''program header table runs past the image''"
| "display_ElfError SegmentOutOfBounds = ''PT_LOAD segment range runs past the image''"
| "display_ElfError SegmentSmallerThanFileContent = ''PT_LOAD segment has p_memsz < p_filesz''"
| "display_ElfError NoLoadableSegments = ''no PT_LOAD segment''"

record LoadSegment =
  seg_flags :: u32
  seg_offset :: u64
  seg_vaddr :: u64
  seg_filesz :: u64
  seg_memsz :: u64

definition is_readable :: "LoadSegment \<Rightarrow> bool" where
  "is_readable s \<longleftrightarrow> seg_flags s AND PF_R \<noteq> 0"

definition is_writable :: "LoadSegment \<Rightarrow> bool" where
  "is_writable s \<longleftrightarrow> seg_flags s AND PF_W \<noteq> 0"

definition is_executable :: "LoadSegment \<Rightarrow> bool" where
  "is_executable s \<longleftrightarrow> seg_flags s AND PF_X \<noteq> 0"

definition bss_len :: "LoadSegment \<Rightarrow> u64" where
  "bss_len s = saturating_sub (seg_memsz s) (seg_filesz s)"

record Elf64 =
  elf_bytes :: bytes
  elf_entry :: u64
  elf_phoff :: usize
  elf_phnum :: usize

subsection \<open>Reading\<close>

definition read_le :: "nat \<Rightarrow> bytes \<Rightarrow> usize \<Rightarrow> nat option" where
  "read_le k bytes offset =
     Option.bind (checked_add offset (of_nat k)) (\<lambda>end. map_option from_le (get_range bytes (unat offset) (unat end)))"

definition read_u16 :: "bytes \<Rightarrow> usize \<Rightarrow> u16 option" where
  "read_u16 bytes offset = map_option of_nat (read_le 2 bytes offset)"

definition read_u32 :: "bytes \<Rightarrow> usize \<Rightarrow> u32 option" where
  "read_u32 bytes offset = map_option of_nat (read_le 4 bytes offset)"

definition read_u64 :: "bytes \<Rightarrow> usize \<Rightarrow> u64 option" where
  "read_u64 bytes offset = map_option of_nat (read_le 8 bytes offset)"

text \<open>One entry of the program header table; the entries of other types are skipped.\<close>

definition program_header :: "bytes \<Rightarrow> usize \<Rightarrow> LoadSegment option" where
  "program_header bytes base =
     do {
       ty \<leftarrow> read_u32 bytes base;
       if ty \<noteq> PT_LOAD then None
       else do {
         flags \<leftarrow> read_u32 bytes (base + 4);
         offset \<leftarrow> read_u64 bytes (base + 8);
         vaddr \<leftarrow> read_u64 bytes (base + 16);
         filesz \<leftarrow> read_u64 bytes (base + 32);
         memsz \<leftarrow> read_u64 bytes (base + 40);
         Some \<lparr>seg_flags = flags, seg_offset = offset, seg_vaddr = vaddr, seg_filesz = filesz, seg_memsz = memsz\<rparr>
       }
     }"

definition segments :: "Elf64 \<Rightarrow> LoadSegment list" where
  "segments elf =
     List.map_filter (\<lambda>i. program_header (elf_bytes elf) (elf_phoff elf + of_nat i * PHDR_SIZE)) [0..<unat (elf_phnum elf)]"

definition segment_bytes :: "Elf64 \<Rightarrow> LoadSegment \<Rightarrow> bytes" where
  "segment_bytes elf s =
     (let start = seg_offset s; end = saturating_add start (seg_filesz s) in
      case get_range (elf_bytes elf) (unat start) (unat end) of Some bs \<Rightarrow> bs | None \<Rightarrow> [])"

text \<open>The validation loop; \<open>loadable\<close> counts the segments passed so far.\<close>

fun check_segments :: "bytes \<Rightarrow> nat \<Rightarrow> LoadSegment list \<Rightarrow> (nat, ElfError) result" where
  "check_segments bytes loadable [] = Ok loadable"
| "check_segments bytes loadable (s # rest) =
     (if seg_memsz s < seg_filesz s then Err SegmentSmallerThanFileContent
      else
        and_then (ok_or (checked_add (seg_offset s) (seg_filesz s)) SegmentOutOfBounds) (\<lambda>file_end.
          if length bytes < unat file_end then Err SegmentOutOfBounds
          else
            and_then (ok_or (checked_add (seg_vaddr s) (seg_memsz s)) SegmentOutOfBounds) (\<lambda>_.
              check_segments bytes (loadable + 1) rest)))"

definition elf_parse :: "bytes \<Rightarrow> (Elf64, ElfError) result" where
  "elf_parse bytes =
     (if length bytes < ELF_HEADER_SIZE then Err TooShort
      else if take 4 bytes \<noteq> ELF_MAGIC then Err BadMagic
      else if bytes ! 4 \<noteq> 2 then Err Not64Bit
      else if bytes ! 5 \<noteq> 1 then Err NotLittleEndian
      else
        and_then (ok_or (read_u16 bytes 16) TooShort) (\<lambda>e_type. if e_type \<noteq> 2 then Err NotExecutable else
        and_then (ok_or (read_u16 bytes 18) TooShort) (\<lambda>e_machine. if e_machine \<noteq> 183 then Err NotAarch64 else
        and_then (ok_or (read_u16 bytes 54) TooShort) (\<lambda>phentsize.
          if ucast phentsize \<noteq> PHDR_SIZE then Err UnexpectedProgramHeaderSize else
        and_then (ok_or (read_u64 bytes 24) TooShort) (\<lambda>entry.
        and_then (ok_or (read_u64 bytes 32) TooShort) (\<lambda>phoff.
        and_then (ok_or (read_u16 bytes 56) TooShort) (\<lambda>phnum16.
          let phnum = ucast phnum16 in
          and_then (ok_or (Option.bind (checked_mul phnum PHDR_SIZE) (checked_add phoff)) ProgramHeadersOutOfBounds) (\<lambda>table_end.
            if length bytes < unat table_end then Err ProgramHeadersOutOfBounds
            else
              let elf = \<lparr>elf_bytes = bytes, elf_entry = entry, elf_phoff = phoff, elf_phnum = phnum\<rparr> in
              and_then (check_segments bytes 0 (segments elf)) (\<lambda>loadable.
                if loadable = 0 then Err NoLoadableSegments else Ok elf)))))))))"

subsection \<open>What a parsed image guarantees\<close>

definition segment_ok :: "bytes \<Rightarrow> LoadSegment \<Rightarrow> bool" where
  "segment_ok bytes s \<longleftrightarrow>
     seg_filesz s \<le> seg_memsz s \<and> unat (seg_offset s) + unat (seg_filesz s) \<le> length bytes \<and>
     unat (seg_offset s) + unat (seg_filesz s) < 2 ^ 64 \<and> unat (seg_vaddr s) + unat (seg_memsz s) < 2 ^ 64"

lemma check_segments_Ok:
  "check_segments bytes n ss = Ok m \<longleftrightarrow> list_all (segment_ok bytes) ss \<and> m = n + length ss"
proof (induction ss arbitrary: n)
  case (Cons s ss)
  then show ?case
    by (auto simp: and_then_Ok ok_or_Ok checked_add_Some segment_ok_def unat_add_fits not_less)
qed auto

lemma parse_Ok:
  assumes "elf_parse bytes = Ok elf"
  shows "elf_bytes elf = bytes" "segments elf \<noteq> []" "list_all (segment_ok bytes) (segments elf)"
    "unat (elf_phoff elf) + unat (elf_phnum elf) * 56 \<le> length bytes"
    "unat (elf_phoff elf) + unat (elf_phnum elf) * 56 < 2 ^ 64"
  using assms
  by (auto simp: elf_parse_def and_then_Ok ok_or_Ok check_segments_Ok Let_def checked_add_Some checked_mul_def
      unat_add_fits unat_word_ariths bind_eq_Some_conv not_less split: if_splits)

lemma segment_bytes_length:
  assumes "segment_ok (elf_bytes elf) s"
  shows "length (segment_bytes elf s) = unat (seg_filesz s)"
    "segment_bytes elf s = take (unat (seg_filesz s)) (drop (unat (seg_offset s)) (elf_bytes elf))"
  using assms by (auto simp: segment_ok_def segment_bytes_def Let_def saturating_add_def get_range_def unat_add_fits)

end
