(* ===== verification/Reclaim.thy ===== *)
theory Reclaim
  imports Prelude
begin

text \<open>
  The bookkeeping behind the release of an address space, \<open>kernel-arm/src/reclaim.rs\<close>: the set of
  heap extents to free is validated as a whole before any of it is freed.
\<close>

definition FRAME_BYTES :: u64 where "FRAME_BYTES = 4096"

record Extent =
  ext_addr :: u64
  ext_bytes :: u64

datatype PlanError = Misaligned u64 | BadLength u64 | OutsideHeap u64 | Overlap u64

fun plan_error_str :: "PlanError \<Rightarrow> string" where
  "plan_error_str (Misaligned _) = ''extent is not 4 KiB-aligned''"
| "plan_error_str (BadLength _) = ''extent has zero or overflowing length''"
| "plan_error_str (OutsideHeap _) = ''extent is outside the kernel heap''"
| "plan_error_str (Overlap _) = ''two owned extents overlap (double free refused)''"

fun block_extents :: "(u64 \<times> u64) list \<Rightarrow> (Extent list, PlanError) result" where
  "block_extents [] = Ok []"
| "block_extents ((addr, n) # rest) =
     and_then (ok_or (checked_mul n FRAME_BYTES) (BadLength addr)) (\<lambda>bytes.
       map_ok (\<lambda>es. \<lparr>ext_addr = addr, ext_bytes = bytes\<rparr> # es) (block_extents rest))"

fun check_extents :: "u64 \<Rightarrow> u64 \<Rightarrow> Extent list \<Rightarrow> (unit, PlanError) result" where
  "check_extents heap_start heap_end [] = Ok ()"
| "check_extents heap_start heap_end (e # es) =
     (if ext_addr e mod FRAME_BYTES \<noteq> 0 then Err (Misaligned (ext_addr e))
      else if ext_bytes e = 0 then Err (BadLength (ext_addr e))
      else
        and_then (ok_or (checked_add (ext_addr e) (ext_bytes e)) (BadLength (ext_addr e))) (\<lambda>end.
          if ext_addr e < heap_start \<or> heap_end < end then Err (OutsideHeap (ext_addr e))
          else check_extents heap_start heap_end es))"

fun check_overlaps :: "Extent list \<Rightarrow> (unit, PlanError) result" where
  "check_overlaps (a # b # es) =
     (if ext_addr b < ext_addr a + ext_bytes a then Err (Overlap (ext_addr b)) else check_overlaps (b # es))"
| "check_overlaps _ = Ok ()"

text \<open>\<open>reserved\<close> is the answer of the allocator to \<open>try_reserve\<close>.  The sort is unstable in the
  source; extents of equal address overlap, whichever comes first.\<close>

definition plan_frees ::
    "bool \<Rightarrow> u64 list \<Rightarrow> u64 list \<Rightarrow> (u64 \<times> u64) list \<Rightarrow> u64 \<Rightarrow> u64 \<Rightarrow> (Extent list, PlanError) result" where
  "plan_frees reserved tables pages blocks heap_start heap_end =
     (if \<not> reserved then Err (BadLength 0)
      else
        and_then (block_extents blocks) (\<lambda>bs.
          let extents = map (\<lambda>addr. \<lparr>ext_addr = addr, ext_bytes = FRAME_BYTES\<rparr>) (tables @ pages) @ bs in
          and_then (check_extents heap_start heap_end extents) (\<lambda>_.
            let extents = sort_key ext_addr extents in
            and_then (check_overlaps extents) (\<lambda>_. Ok extents))))"

subsection \<open>When a plan is made\<close>

definition extent_ok :: "u64 \<Rightarrow> u64 \<Rightarrow> Extent \<Rightarrow> bool" where
  "extent_ok heap_start heap_end e \<longleftrightarrow>
     ext_addr e mod FRAME_BYTES = 0 \<and> ext_bytes e \<noteq> 0 \<and> heap_start \<le> ext_addr e \<and>
     unat (ext_addr e) + unat (ext_bytes e) \<le> unat heap_end"

definition apart :: "Extent \<Rightarrow> Extent \<Rightarrow> bool" where
  "apart a b \<longleftrightarrow>
     unat (ext_addr a) + unat (ext_bytes a) \<le> unat (ext_addr b) \<or> unat (ext_addr b) + unat (ext_bytes b) \<le> unat (ext_addr a)"

fun separate :: "Extent list \<Rightarrow> bool" where
  "separate [] = True"
| "separate (e # es) \<longleftrightarrow> list_all (apart e) es \<and> separate es"

lemma apart_sym: "apart a b \<longleftrightarrow> apart b a"
  by (auto simp: apart_def)

lemma separate_append: "separate (xs @ zs) \<longleftrightarrow> separate xs \<and> separate zs \<and> (\<forall>x\<in>set xs. list_all (apart x) zs)"
  by (induction xs) auto

lemma separate_mset: "mset es = mset es' \<Longrightarrow> separate es = separate es'"
proof (induction es arbitrary: es')
  case (Cons e es)
  then have "e \<in> set es'" by (metis list.set_intros(1) set_mset_mset)
  then obtain xs ys where es': "es' = xs @ e # ys" by (meson split_list)
  then have m: "mset es = mset (xs @ ys)" using Cons.prems by simp
  note split = separate_append
  have "set es = set xs \<union> set ys" using arg_cong [OF m, of set_mset] by simp
  then show ?case
    using Cons.IH [OF m] by (auto simp: es' split list_all_iff apart_sym)
qed simp

lemma check_extents_Ok: "check_extents lo hi es = Ok u \<longleftrightarrow> list_all (extent_ok lo hi) es"
proof (induction es)
  case (Cons e es)
  have "unat (ext_addr e + ext_bytes e) = unat (ext_addr e) + unat (ext_bytes e)"
    if "unat (ext_addr e) + unat (ext_bytes e) < 2 ^ 64" using that by (simp add: unat_word_ariths)
  moreover have "unat hi < 2 ^ 64" using unat_bound [of hi] by simp
  ultimately show ?case using Cons
    by (auto simp: extent_ok_def checked_add_def word_le_nat_alt word_less_nat_alt not_less)
qed simp

lemma check_overlaps_Ok:
  assumes "sorted (map ext_addr es)" "list_all (extent_ok lo hi) es"
  shows "check_overlaps es = Ok u \<longleftrightarrow> separate es"
  using assms
proof (induction es rule: check_overlaps.induct)
  case (1 a b es)
  have ok: "extent_ok lo hi a" "extent_ok lo hi b" using 1(3) by auto
  then have e: "unat (ext_addr a + ext_bytes a) = unat (ext_addr a) + unat (ext_bytes a)"
    using unat_bound [of hi] by (auto simp: extent_ok_def unat_word_ariths)
  have ord: "ext_addr a \<le> ext_addr b" "\<forall>x\<in>set es. ext_addr b \<le> ext_addr x" using 1(2) by auto
  have ne: "list_all (\<lambda>x. 0 < unat (ext_bytes x)) (a # b # es)"
    using 1(3) by (auto simp: extent_ok_def list_all_iff unat_gt_0)
  have "list_all (apart a) (b # es) \<longleftrightarrow> \<not> ext_addr b < ext_addr a + ext_bytes a"
    using ord ne e by (auto simp: apart_def list_all_iff word_less_nat_alt word_le_nat_alt not_less)
  then show ?case using 1 by auto
qed auto

lemma block_extents_Ok:
  "block_extents blocks = Ok es \<longleftrightarrow>
     (\<forall>(a, n)\<in>set blocks. unat n * 4096 < 2 ^ 64) \<and> es = map (\<lambda>(a, n). \<lparr>ext_addr = a, ext_bytes = n * FRAME_BYTES\<rparr>) blocks"
proof (induction blocks arbitrary: es)
  case (Cons b blocks)
  obtain a n where b: "b = (a, n)" by force
  show ?case
    using Cons.IH by (auto simp: b checked_mul_def FRAME_BYTES_def and_then_Ok map_ok_Ok)
qed auto

text \<open>The extents a ledger stands for.\<close>

definition ledger :: "u64 list \<Rightarrow> u64 list \<Rightarrow> (u64 \<times> u64) list \<Rightarrow> Extent list" where
  "ledger tables pages blocks =
     map (\<lambda>addr. \<lparr>ext_addr = addr, ext_bytes = FRAME_BYTES\<rparr>) (tables @ pages) @
     map (\<lambda>(a, n). \<lparr>ext_addr = a, ext_bytes = n * FRAME_BYTES\<rparr>) blocks"

text \<open>
  A plan exists exactly when every extent of the ledger is aligned, not empty and inside the
  heap, no two of them share a byte and no block length overflows; the plan is then the ledger in
  the order of its addresses, so nothing is freed twice and nothing outside the heap is freed.
\<close>

theorem plan_frees_exact:
  "plan_frees True tables pages blocks lo hi = Ok plan \<longleftrightarrow>
     (\<forall>(a, n)\<in>set blocks. unat n * 4096 < 2 ^ 64) \<and> list_all (extent_ok lo hi) (ledger tables pages blocks) \<and>
     separate (ledger tables pages blocks) \<and> plan = sort_key ext_addr (ledger tables pages blocks)"
proof -
  let ?l = "ledger tables pages blocks"
  have ok: "list_all (extent_ok lo hi) (sort_key ext_addr ?l) = list_all (extent_ok lo hi) ?l" by (simp add: list_all_iff)
  have sep: "separate (sort_key ext_addr ?l) = separate ?l" by (rule separate_mset) simp
  have o: "check_overlaps (sort_key ext_addr ?l) = Ok u \<longleftrightarrow> separate ?l" if "list_all (extent_ok lo hi) ?l" for u
    using check_overlaps_Ok [of "sort_key ext_addr ?l" lo hi u] that ok sep by simp
  show ?thesis
    using o by (auto simp: plan_frees_def and_then_Ok block_extents_Ok Let_def check_extents_Ok ledger_def)
qed

end
