(* ===== verification/Paging.thy ===== *)
theory Paging
  imports Reclaim StateLogic
begin

unbundle bit_operations_syntax

text \<open>
  Address spaces of the ARM kernel, \<open>kernel-arm/src/process.rs\<close>, with the descriptors of
  \<open>mmu.rs\<close>, the constants of \<open>vm.rs\<close> and the heap range of \<open>heap.rs\<close>.  Physical memory is
  a function from frame addresses to the 4096 bytes of the frame.  The global allocator is a
  parameter: its answer to a request is a function of everything asked of it before, kept in
  \<open>heap_log\<close>, and \<open>heap_laws\<close> says that it hands out aligned memory of the heap that is not in
  use.  Barriers and the invalidation of the translation cache have no counterpart.
\<close>

subsection \<open>Constants and descriptors\<close>

abbreviation GRANULE_4KIB :: u64 where "GRANULE_4KIB \<equiv> 0x1000"
abbreviation PRIVATE_REGION_BASE :: u64 where "PRIVATE_REGION_BASE \<equiv> 0x80000000"
abbreviation PRIVATE_REGION_END :: u64 where "PRIVATE_REGION_END \<equiv> 0xC0000000"
abbreviation HEAP_START :: u64 where "HEAP_START \<equiv> 0x41000000"
abbreviation HEAP_END :: u64 where "HEAP_END \<equiv> 0x41400000"
abbreviation UXN :: u64 where "UXN \<equiv> 0x40000000000000"
abbreviation PXN :: u64 where "PXN \<equiv> 0x20000000000000"
abbreviation AP_EL0_RW :: u64 where "AP_EL0_RW \<equiv> 0x40"
abbreviation AP_EL0_RO :: u64 where "AP_EL0_RO \<equiv> 0xC0"
abbreviation DESC_ADDR_MASK :: u64 where "DESC_ADDR_MASK \<equiv> 0x0000FFFFFFFFF000"
abbreviation DESC_TABLE_OR_PAGE :: u64 where "DESC_TABLE_OR_PAGE \<equiv> 3"

definition table_descriptor :: "u64 \<Rightarrow> u64" where
  "table_descriptor next_level_table = next_level_table OR DESC_TABLE_OR_PAGE"

text \<open>Page, access flag, attribute index 1, inner shareable.\<close>

definition normal_4kib_page_descriptor :: "u64 \<Rightarrow> u64 \<Rightarrow> u64" where
  "normal_4kib_page_descriptor output_addr extra =
     output_addr OR DESC_TABLE_OR_PAGE OR 0x400 OR 0x4 OR 0x300 OR extra"

subsection \<open>Memory and the allocator\<close>

datatype heap_event = Alloc u64 u64 | Refused u64 | Reserve bool | Dealloc u64 u64 | Hook u64

record heap_env =
  alloc_zeroed :: "heap_event list \<Rightarrow> u64 \<Rightarrow> u64 \<Rightarrow> u64 option"
  try_reserve :: "heap_event list \<Rightarrow> bool"

record Machine =
  mem :: "u64 \<Rightarrow> bytes"
  heap_log :: "heap_event list"
  ttbr0 :: u64

definition log_event :: "heap_event \<Rightarrow> Machine \<Rightarrow> Machine" where
  "log_event e m = m\<lparr>heap_log := e # heap_log m\<rparr>"

definition zero_frame :: bytes where
  "zero_frame = replicate 4096 0"

text \<open>\<open>entry_ptr(table, index)\<close>: the index-th 64-bit word of a table.\<close>

definition read_entry :: "Machine \<Rightarrow> u64 \<Rightarrow> nat \<Rightarrow> u64" where
  "read_entry m table index = of_nat (from_le (take 8 (drop (8 * index) (mem m table))))"

definition write_entry :: "u64 \<Rightarrow> nat \<Rightarrow> u64 \<Rightarrow> Machine \<Rightarrow> Machine" where
  "write_entry table index v m = m\<lparr>mem := (mem m)(table := patch (mem m table) (8 * index) (to_le 8 (unat v)))\<rparr>"

definition active_root :: "Machine \<Rightarrow> u64" where
  "active_root m = ttbr0 m AND DESC_ADDR_MASK"

datatype AddressSpaceError = VaOutsidePrivateRegion | VaMisaligned | OutOfMemory

fun space_error_message :: "AddressSpaceError \<Rightarrow> string" where
  "space_error_message VaOutsidePrivateRegion = ''virtual address is outside the process-private region''"
| "space_error_message VaMisaligned = ''virtual address is not 4 KiB-aligned''"
| "space_error_message OutOfMemory = ''out of memory for a page or translation table''"

definition alloc_page :: "heap_env \<Rightarrow> Machine \<Rightarrow> (u64, AddressSpaceError) result \<times> Machine" where
  "alloc_page H m =
     (case alloc_zeroed H (heap_log m) GRANULE_4KIB GRANULE_4KIB of
        None \<Rightarrow> (Err OutOfMemory, log_event (Refused GRANULE_4KIB) m)
      | Some p \<Rightarrow> (Ok p, log_event (Alloc p GRANULE_4KIB) m\<lparr>mem := (mem m)(p := zero_frame)\<rparr>))"

subsection \<open>Address spaces\<close>

text \<open>A \<open>BTreeSet\<close> is the ascending list of its elements.\<close>

definition set_insert :: "u64 \<Rightarrow> u64 list \<Rightarrow> u64 list" where
  "set_insert x xs = (if x \<in> set xs then xs else insort x xs)"

record AddressSpace =
  as_root :: u64
  owned_tables :: "u64 list"
  seeded_root :: u64
  owned_pages :: "u64 list"
  owned_blocks :: "(u64 \<times> u64) list"
  pre_free_hook :: "u64 option"

type_synonym 'a vm = "(AddressSpace \<times> Machine, ('a, AddressSpaceError) result) state"

definition space_new :: "heap_env \<Rightarrow> Machine \<Rightarrow> (AddressSpace, AddressSpaceError) result \<times> Machine" where
  "space_new H m =
     (case alloc_page H m of
        (Err e, m) \<Rightarrow> (Err e, m)
      | (Ok root, m) \<Rightarrow>
          let active = active_root m in
          (Ok \<lparr>as_root = root, owned_tables = [root], seeded_root = active, owned_pages = [], owned_blocks = [],
               pre_free_hook = None\<rparr>,
           m\<lparr>mem := (mem m)(root := mem m active)\<rparr>))"

definition descend :: "heap_env \<Rightarrow> u64 \<Rightarrow> nat \<Rightarrow> u64 vm" where
  "descend H table index = State (\<lambda>(sp, m).
     let descriptor = read_entry m table index; next = descriptor AND DESC_ADDR_MASK;
         is_table = (descriptor AND 3 = DESC_TABLE_OR_PAGE)
     in
     if is_table \<and> next \<in> set (owned_tables sp) then (Ok next, sp, m)
     else
       (case alloc_page H m of
          (Err e, m) \<Rightarrow> (Err e, sp, m)
        | (Ok fresh, m) \<Rightarrow>
            (Ok fresh, sp\<lparr>owned_tables := set_insert fresh (owned_tables sp)\<rparr>,
             write_entry table index (table_descriptor fresh) m)))"

definition va_index :: "nat \<Rightarrow> u64 \<Rightarrow> nat" where
  "va_index shift va = unat (drop_bit shift va AND 0x1ff)"

definition in_private_region :: "u64 \<Rightarrow> bool" where
  "in_private_region va \<longleftrightarrow> PRIVATE_REGION_BASE \<le> va \<and> va < PRIVATE_REGION_END"

text \<open>The two descents that find, or make, the last-level table of an address.\<close>

definition descend_to_l3 :: "heap_env \<Rightarrow> u64 \<Rightarrow> u64 vm" where
  "descend_to_l3 H va =
     do {
       (sp, m) \<leftarrow> State_Monad.get;
       try_bind (descend H (as_root sp) (va_index 30 va)) (\<lambda>l2. descend H l2 (va_index 21 va))
     }"

definition take_page :: "heap_env \<Rightarrow> u64 \<Rightarrow> nat \<Rightarrow> u64 \<Rightarrow> u64 vm" where
  "take_page H l3 l3_index permissions = State (\<lambda>(sp, m).
     let reserved = try_reserve H (heap_log m); m = log_event (Reserve reserved) m in
     if \<not> reserved then (Err OutOfMemory, sp, m)
     else
       (case alloc_page H m of
          (Err e, m) \<Rightarrow> (Err e, sp, m)
        | (Ok frame, m) \<Rightarrow>
            (Ok frame, sp\<lparr>owned_pages := owned_pages sp @ [frame]\<rparr>,
             write_entry l3 l3_index (normal_4kib_page_descriptor frame permissions) m)))"

definition map_private_page_with :: "heap_env \<Rightarrow> u64 \<Rightarrow> u64 \<Rightarrow> u64 vm" where
  "map_private_page_with H va permissions =
     (if va mod GRANULE_4KIB \<noteq> 0 then State_Monad.return (Err VaMisaligned)
      else if \<not> in_private_region va then State_Monad.return (Err VaOutsidePrivateRegion)
      else try_bind (descend_to_l3 H va) (\<lambda>l3. take_page H l3 (va_index 12 va) permissions))"

definition map_private_page :: "heap_env \<Rightarrow> u64 \<Rightarrow> u64 vm" where
  "map_private_page H va = map_private_page_with H va (AP_EL0_RW OR UXN OR PXN)"

definition map_mmio_page :: "heap_env \<Rightarrow> u64 \<Rightarrow> u64 \<Rightarrow> bool \<Rightarrow> unit vm" where
  "map_mmio_page H va pa writable =
     (if va mod GRANULE_4KIB \<noteq> 0 \<or> pa mod GRANULE_4KIB \<noteq> 0 then State_Monad.return (Err VaMisaligned)
      else if \<not> in_private_region va then State_Monad.return (Err VaOutsidePrivateRegion)
      else try_bind (descend_to_l3 H va) (\<lambda>l3. State (\<lambda>(sp, m).
        let ap = if writable then AP_EL0_RW else AP_EL0_RO in
        (Ok (), sp, write_entry l3 (va_index 12 va) (normal_4kib_page_descriptor pa (ap OR UXN OR PXN)) m))))"

definition adopt_block :: "heap_env \<Rightarrow> u64 \<Rightarrow> u64 \<Rightarrow> unit vm" where
  "adopt_block H pa pages = State (\<lambda>(sp, m).
     let reserved = try_reserve H (heap_log m); m = log_event (Reserve reserved) m in
     if \<not> reserved then (Err OutOfMemory, sp, m)
     else (Ok (), sp\<lparr>owned_blocks := owned_blocks sp @ [(pa, pages)]\<rparr>, m))"

definition set_pre_free_hook :: "u64 \<Rightarrow> AddressSpace \<Rightarrow> AddressSpace" where
  "set_pre_free_hook arg sp = sp\<lparr>pre_free_hook := Some arg\<rparr>"

definition is_live :: "AddressSpace \<Rightarrow> Machine \<Rightarrow> bool" where
  "is_live sp m \<longleftrightarrow> as_root sp = active_root m"

record Reclaimed =
  rec_extents :: nat
  rec_bytes :: nat

datatype DestroyError = Live | BadLedger PlanError

text \<open>\<open>Layout::from_size_align(bytes, 4096)\<close> refuses sizes near the top of the address space.\<close>

definition layout_ok :: "Extent \<Rightarrow> bool" where
  "layout_ok e \<longleftrightarrow> unat (ext_bytes e) \<le> 2 ^ 63 - 4096"

definition run_hook :: "AddressSpace \<Rightarrow> Machine \<Rightarrow> Machine" where
  "run_hook sp m = (case pre_free_hook sp of Some arg \<Rightarrow> log_event (Hook arg) m | None \<Rightarrow> m)"

definition release :: "Extent list \<Rightarrow> Machine \<Rightarrow> Machine" where
  "release plan m = fold (\<lambda>e. log_event (Dealloc (ext_addr e) (ext_bytes e))) (filter layout_ok plan) m"

definition destroy :: "heap_env \<Rightarrow> AddressSpace \<Rightarrow> Machine \<Rightarrow> (Reclaimed, DestroyError) result \<times> Machine" where
  "destroy H sp m =
     (if is_live sp m then (Err Live, m)
      else
        let m = run_hook sp m; reserved = try_reserve H (heap_log m); m = log_event (Reserve reserved) m in
        case plan_frees reserved (owned_tables sp) (owned_pages sp) (owned_blocks sp) HEAP_START HEAP_END of
          Err e \<Rightarrow> (Err (BadLedger e), m)
        | Ok plan \<Rightarrow>
            (Ok \<lparr>rec_extents = length plan, rec_bytes = sum_list (map (unat \<circ> ext_bytes) (filter layout_ok plan))\<rparr>,
             release plan m))"

text \<open>One level of \<open>page_descriptor\<close>.\<close>

definition owned_child :: "AddressSpace \<Rightarrow> Machine \<Rightarrow> u64 \<Rightarrow> nat \<Rightarrow> u64 option" where
  "owned_child sp m table index =
     (let descriptor = read_entry m table index; next = descriptor AND DESC_ADDR_MASK in
      if descriptor AND 3 \<noteq> DESC_TABLE_OR_PAGE then None
      else if next \<notin> set (owned_tables sp) then None
      else Some next)"

definition page_descriptor :: "AddressSpace \<Rightarrow> Machine \<Rightarrow> u64 \<Rightarrow> u64 option" where
  "page_descriptor sp m va =
     Option.bind (owned_child sp m (as_root sp) (va_index 30 va)) (\<lambda>l2.
     Option.bind (owned_child sp m l2 (va_index 21 va)) (\<lambda>l3.
       let descriptor = read_entry m l3 (va_index 12 va) in
       if descriptor AND 3 = DESC_TABLE_OR_PAGE then Some descriptor else None))"

definition load_root :: "u64 \<Rightarrow> Machine \<Rightarrow> Machine" where
  "load_root root m = m\<lparr>ttbr0 := root AND DESC_ADDR_MASK\<rparr>"

definition activate :: "AddressSpace \<Rightarrow> Machine \<Rightarrow> u64 \<times> Machine" where
  "activate sp m = (ttbr0 m, load_root (as_root sp) m)"

definition restore :: "u64 \<Rightarrow> Machine \<Rightarrow> Machine" where
  "restore previous m = m\<lparr>ttbr0 := previous\<rparr>"

subsection \<open>Words and tables\<close>

lemma addr_mask_bits: "DESC_ADDR_MASK = push_bit 12 (mask 36)"
  by (simp add: mask_eq_exp_minus_1)

lemma aligned_bits: "p mod GRANULE_4KIB = 0 \<longleftrightarrow> take_bit 12 p = 0" for p :: u64
  by (simp add: take_bit_eq_mod)

lemma mask_aligned:
  assumes "p mod GRANULE_4KIB = 0" "p \<le> HEAP_END"
  shows "p AND DESC_ADDR_MASK = p"
proof (rule bit_word_eqI)
  fix n assume n: "n < LENGTH(64)"
  have low: "\<not> bit p n" if "n < 12" using assms(1) that by (metis aligned_bits bit_take_bit_iff bit_0_eq bot_apply bot_bool_def)
  have "unat p < 2 ^ 48" using assms(2) by (simp add: word_le_nat_alt)
  then have high: "\<not> bit p n" if "48 \<le> n"
    using that by (metis bit_take_bit_iff leD take_bit_nat_eq_self unsigned_take_bit_eq word_unat_eq_iff)
  show "bit (p AND DESC_ADDR_MASK) n = bit p n"
    using low high n
    by (cases "n < 12"; cases "48 \<le> n") (auto simp: addr_mask_bits bit_and_iff bit_push_bit_iff bit_mask_iff)
qed

lemma table_descriptor_addr:
  assumes "p mod GRANULE_4KIB = 0" "p \<le> HEAP_END"
  shows "table_descriptor p AND DESC_ADDR_MASK = p" "table_descriptor p AND 3 = 3"
  using mask_aligned [OF assms] by (simp_all add: table_descriptor_def bit.conj_disj_distrib2 bit.conj_disj_distrib)

definition good_mem :: "Machine \<Rightarrow> bool" where
  "good_mem m \<longleftrightarrow> (\<forall>f. length (mem m f) = 4096)"

lemma read_write_entry:
  assumes "good_mem m" "i < 512" "j < 512"
  shows "read_entry (write_entry t i v m) t' j = (if t' = t \<and> j = i then v else read_entry m t' j)"
proof -
  have l: "length (mem m t) = 4096" using assms(1) by (simp add: good_mem_def)
  have v: "unat v < 256 ^ 8" using unat_bound [of v] by simp
  have "take 8 (drop (8 * i) (patch (mem m t) (8 * i) (to_le 8 (unat v)))) = to_le 8 (unat v)"
    using patch_at [of "8 * i" "to_le 8 (unat v)" "mem m t"] l assms(2) by simp
  moreover have "take 8 (drop (8 * j) (patch (mem m t) (8 * i) (to_le 8 (unat v)))) = take 8 (drop (8 * j) (mem m t))" if "j \<noteq> i"
    using patch_before [of "8 * j" 8 "8 * i" "to_le 8 (unat v)" "mem m t"] patch_after [of "8 * i" "to_le 8 (unat v)" "8 * j" "mem m t"]
      l assms that by (cases "j < i") simp_all
  ultimately show ?thesis by (auto simp: read_entry_def write_entry_def from_le_to_le [OF v])
qed

lemma read_zero: "mem m t = zero_frame \<Longrightarrow> i < 512 \<Longrightarrow> read_entry m t i = 0"
proof -
  have z: "from_le (replicate n 0) = 0" for n by (induction n) simp_all
  assume "mem m t = zero_frame" "i < 512"
  then show ?thesis by (simp add: read_entry_def zero_frame_def z)
qed

lemma read_entry_mem: "mem m' t = mem m t \<Longrightarrow> read_entry m' t i = read_entry m t i"
  by (simp add: read_entry_def)

lemma va_index_eq: "va_index s va = unat va div 2 ^ s mod 512"
proof -
  have "va_index s va = unat (take_bit 9 (drop_bit s va))"
    by (simp add: va_index_def take_bit_eq_mask mask_eq_exp_minus_1)
  also have "\<dots> = take_bit 9 (drop_bit s (unat va))" 
    using take_bit_nat_eq_self [of "unat va" 64] unat_bound [of va] unfolding unsigned_take_bit_eq unsigned_drop_bit_eq by simp
  also have "\<dots> = unat va div 2 ^ s mod 512" by (simp only: take_bit_eq_mod drop_bit_eq_div) simp
  finally show ?thesis .
qed

lemma va_index_lt [simp]: "va_index s va < 512"
  by (simp add: va_index_eq)

lemma private_index: "in_private_region va \<Longrightarrow> va_index 30 va = 2"
proof -
  assume "in_private_region va"
  then have "0x80000000 \<le> unat va" "unat va < 0xC0000000" by (simp_all add: in_private_region_def word_le_nat_alt word_less_nat_alt)
  then have "unat va div 2 ^ 30 = 2" by simp
  then show ?thesis by (simp add: va_index_eq)
qed

end
