(* ===== verification/Spaces.thy ===== *)
theory Spaces
  imports Paging
begin

unbundle bit_operations_syntax

text \<open>
  What the operations of \<open>Paging\<close> do: which memory an address space owns and writes, how a mapped
  page is found again, and what its release gives back.
\<close>

subsection \<open>The heap\<close>

fun live :: "heap_event list \<Rightarrow> Extent list" where
  "live [] = []"
| "live (Alloc p n # log) = \<lparr>ext_addr = p, ext_bytes = n\<rparr> # live log"
| "live (Dealloc p n # log) = remove1 \<lparr>ext_addr = p, ext_bytes = n\<rparr> (live log)"
| "live (e # log) = live log"

definition in_heap :: "Extent \<Rightarrow> bool" where
  "in_heap e \<longleftrightarrow> HEAP_START \<le> ext_addr e \<and> ext_bytes e \<noteq> 0 \<and> unat (ext_addr e) + unat (ext_bytes e) \<le> unat HEAP_END"

text \<open>The contract of the global allocator: what it returns is aligned as asked, inside the heap, and
  apart from everything handed out and not yet given back.\<close>

definition heap_laws :: "heap_env \<Rightarrow> bool" where
  "heap_laws H \<longleftrightarrow>
     (\<forall>log bytes align p. alloc_zeroed H log bytes align = Some p \<longrightarrow> bytes \<noteq> 0 \<longrightarrow>
        p mod align = 0 \<and> in_heap \<lparr>ext_addr = p, ext_bytes = bytes\<rparr> \<and>
        list_all (apart \<lparr>ext_addr = p, ext_bytes = bytes\<rparr>) (live log))"

definition covers :: "Extent list \<Rightarrow> u64 \<Rightarrow> bool" where
  "covers es f \<longleftrightarrow> (\<exists>e\<in>set es. unat (ext_addr e) \<le> unat f \<and> unat f < unat (ext_addr e) + unat (ext_bytes e))"

definition heap_ok :: "Machine \<Rightarrow> bool" where
  "heap_ok m \<longleftrightarrow> good_mem m \<and> separate (live (heap_log m)) \<and> list_all in_heap (live (heap_log m))"

abbreviation frame_extent :: "u64 \<Rightarrow> Extent" where
  "frame_extent f \<equiv> \<lparr>ext_addr = f, ext_bytes = 0x1000\<rparr>"

lemma log_event_simps [simp]:
  "heap_log (log_event e m) = e # heap_log m" "mem (log_event e m) = mem m" "ttbr0 (log_event e m) = ttbr0 m"
  "good_mem (log_event e m) = good_mem m" "read_entry (log_event e m) = read_entry m" "active_root (log_event e m) = active_root m"
  by (simp_all add: log_event_def good_mem_def read_entry_def active_root_def fun_eq_iff)

lemma write_entry_simps [simp]:
  "heap_log (write_entry t i v m) = heap_log m" "ttbr0 (write_entry t i v m) = ttbr0 m"
  "f \<noteq> t \<Longrightarrow> mem (write_entry t i v m) f = mem m f" "active_root (write_entry t i v m) = active_root m"
  by (simp_all add: write_entry_def active_root_def)

lemma write_entry_good: "good_mem m \<Longrightarrow> i < 512 \<Longrightarrow> good_mem (write_entry t i v m)"
  by (simp add: good_mem_def write_entry_def length_patch)

lemma alloc_page_cases:
  assumes "heap_laws H"
  obtains (refused) "alloc_page H m = (Err OutOfMemory, log_event (Refused 0x1000) m)"
  | (fresh) p where "alloc_page H m = (Ok p, log_event (Alloc p 0x1000) m\<lparr>mem := (mem m)(p := zero_frame)\<rparr>)"
      "p mod 0x1000 = 0" "in_heap (frame_extent p)" "list_all (apart (frame_extent p)) (live (heap_log m))"
  using assms unfolding heap_laws_def alloc_page_def
  by (cases "alloc_zeroed H (heap_log m) 0x1000 0x1000") auto

lemma alloc_heap_ok:
  assumes "heap_ok m" "in_heap (frame_extent p)" "list_all (apart (frame_extent p)) (live (heap_log m))"
  shows "heap_ok (log_event (Alloc p 0x1000) m\<lparr>mem := (mem m)(p := zero_frame)\<rparr>)"
  using assms by (auto simp: heap_ok_def good_mem_def zero_frame_def log_event_def)

subsection \<open>Ownership\<close>

definition owned_extents :: "AddressSpace \<Rightarrow> Extent list" where
  "owned_extents sp = ledger (owned_tables sp) (owned_pages sp) (owned_blocks sp)"

text \<open>Everything live is owned by this space or is in \<open>R\<close>, what the rest of the kernel owns.\<close>

definition owns :: "Extent multiset \<Rightarrow> AddressSpace \<Rightarrow> Machine \<Rightarrow> bool" where
  "owns R sp m \<longleftrightarrow>
     heap_ok m \<and> mset (live (heap_log m)) = mset (owned_extents sp) + R \<and> as_root sp \<in> set (owned_tables sp) \<and>
     (\<forall>e\<in>set (owned_extents sp). ext_addr e mod 0x1000 = 0) \<and> (\<forall>(a, n)\<in>set (owned_blocks sp). unat n * 4096 < 2 ^ 64)"

definition reached :: "Extent multiset \<Rightarrow> AddressSpace \<Rightarrow> Machine \<Rightarrow> AddressSpace \<Rightarrow> Machine \<Rightarrow> bool" where
  "reached R sp0 m0 sp m \<longleftrightarrow>
     owns R sp m \<and> (\<forall>f. \<not> covers (owned_extents sp) f \<longrightarrow> mem m f = mem m0 f) \<and> ttbr0 m = ttbr0 m0 \<and>
     as_root sp = as_root sp0 \<and> seeded_root sp = seeded_root sp0 \<and> pre_free_hook sp = pre_free_hook sp0 \<and>
     set (owned_extents sp0) \<subseteq> set (owned_extents sp)"

lemma reached_refl: "owns R sp m \<Longrightarrow> reached R sp m sp m"
  by (simp add: reached_def)

lemma owned_extents_eq:
  "mset (owned_extents sp) = image_mset frame_extent (mset (owned_tables sp) + mset (owned_pages sp)) +
     image_mset (\<lambda>(a, n). \<lparr>ext_addr = a, ext_bytes = n * 0x1000\<rparr>) (mset (owned_blocks sp))"
  by (simp add: owned_extents_def ledger_def FRAME_BYTES_def)

lemma set_owned_extents:
  "set (owned_extents sp) = frame_extent ` (set (owned_tables sp) \<union> set (owned_pages sp)) \<union>
     (\<lambda>(a, n). \<lparr>ext_addr = a, ext_bytes = n * 0x1000\<rparr>) ` set (owned_blocks sp)"
  using arg_cong [OF owned_extents_eq [of sp], of set_mset] by auto

lemma mset_set_insert: "x \<notin> set xs \<Longrightarrow> mset (set_insert x xs) = add_mset x (mset xs)"
  by (simp add: set_insert_def)

lemma set_set_insert [simp]: "set (set_insert x xs) = insert x (set xs)"
  by (auto simp: set_insert_def set_insort_key)

lemma covers_table: "t \<in> set (owned_tables sp) \<Longrightarrow> covers (owned_extents sp) t"
  by (force simp: covers_def set_owned_extents)

lemma covers_page: "t \<in> set (owned_pages sp) \<Longrightarrow> covers (owned_extents sp) t"
  by (force simp: covers_def set_owned_extents)

lemma covers_mono: "set es \<subseteq> set es' \<Longrightarrow> covers es f \<Longrightarrow> covers es' f"
  by (auto simp: covers_def)

lemma apart_uncovered: "list_all (apart (frame_extent p)) es \<Longrightarrow> covers es f \<Longrightarrow> f \<noteq> p"
  by (auto simp: covers_def apart_def list_all_iff)

lemma owns_live: "owns R sp m \<Longrightarrow> set (owned_extents sp) \<subseteq> set (live (heap_log m))"
  by (metis mset_subset_eq_add_left owns_def set_mset_mono set_mset_mset)

lemma owned_table_facts:
  assumes "owns R sp m" "t \<in> set (owned_tables sp)"
  shows "t mod 0x1000 = 0" "t \<le> HEAP_END" "HEAP_START \<le> t" "in_heap (frame_extent t)"
proof -
  have e: "frame_extent t \<in> set (owned_extents sp)" using assms(2) by (simp add: set_owned_extents)
  have "\<forall>e\<in>set (owned_extents sp). ext_addr e mod 0x1000 = 0" using assms(1) by (simp add: owns_def)
  from bspec [OF this e] show "t mod 0x1000 = 0" by simp
  show h: "in_heap (frame_extent t)" using assms(1) owns_live [OF assms(1)] e by (auto simp: owns_def heap_ok_def list_all_iff)
  then show "t \<le> HEAP_END" "HEAP_START \<le> t" by (auto simp: in_heap_def word_le_nat_alt)
qed

text \<open>The primitive steps of the operations.\<close>

lemma reached_quiet:
  assumes "reached R sp0 m0 sp m" "live (e # heap_log m) = live (heap_log m)"
  shows "reached R sp0 m0 sp (log_event e m)"
  using assms by (auto simp: reached_def owns_def heap_ok_def)

lemma reached_write:
  assumes "reached R sp0 m0 sp m" "t \<in> set (owned_tables sp)" "i < 512"
  shows "reached R sp0 m0 sp (write_entry t i v m)"
proof -
  have "mem (write_entry t i v m) f = mem m f" if "\<not> covers (owned_extents sp) f" for f
    using that covers_table [OF assms(2)] by (cases "f = t") auto
  then show ?thesis using assms by (auto simp: reached_def owns_def heap_ok_def write_entry_good)
qed

lemma fresh_not_owned:
  assumes "owns R sp m" "list_all (apart (frame_extent p)) (live (heap_log m))"
  shows "p \<notin> set (owned_tables sp)" "p \<notin> set (owned_pages sp)"
  using apart_uncovered [OF assms(2)] covers_mono [OF owns_live [OF assms(1)]] covers_table covers_page by blast+

lemma reached_alloc:
  assumes "reached R sp0 m0 sp m" "p mod 0x1000 = 0" "in_heap (frame_extent p)" "list_all (apart (frame_extent p)) (live (heap_log m))"
    and "sp' = sp\<lparr>owned_tables := set_insert p (owned_tables sp)\<rparr> \<or> sp' = sp\<lparr>owned_pages := owned_pages sp @ [p]\<rparr>"
  shows "reached R sp0 m0 sp' (log_event (Alloc p 0x1000) m\<lparr>mem := (mem m)(p := zero_frame)\<rparr>)"
proof -
  have o: "owns R sp m" using assms(1) by (simp add: reached_def)
  note fresh = fresh_not_owned [OF o assms(4)]
  have e: "mset (owned_extents sp') = add_mset (frame_extent p) (mset (owned_extents sp))"
    using assms(5) mset_set_insert [OF fresh(1)] by (auto simp: owned_extents_eq)
  then have s: "set (owned_extents sp') = insert (frame_extent p) (set (owned_extents sp))"
    by (metis set_mset_add_mset_insert set_mset_mset)
  have f: "as_root sp' = as_root sp" "seeded_root sp' = seeded_root sp" "pre_free_hook sp' = pre_free_hook sp" "owned_blocks sp' = owned_blocks sp"
    "set (owned_tables sp) \<subseteq> set (owned_tables sp')" using assms(5) by auto
  have "covers (owned_extents sp') p" unfolding covers_def s by simp
  moreover have "covers (owned_extents sp) x \<Longrightarrow> covers (owned_extents sp') x" for x by (rule covers_mono) (auto simp: s)
  ultimately have u: "\<not> covers (owned_extents sp') x \<Longrightarrow> x \<noteq> p \<and> \<not> covers (owned_extents sp) x" for x by blast
  have "owns R sp' (log_event (Alloc p 0x1000) m\<lparr>mem := (mem m)(p := zero_frame)\<rparr>)"
    using o alloc_heap_ok [OF _ assms(3,4)] e s f assms(2) by (auto simp: owns_def log_event_def)
  then show ?thesis using assms(1) u s f by (auto simp: reached_def)
qed

lemma wp_state: "Q (fst (f s)) (snd (f s)) \<Longrightarrow> wp (State f) Q s"
  by (simp add: wp_def)

lemma wp_descend:
  assumes "heap_laws H" "reached R sp0 m0 sp m" "t \<in> set (owned_tables sp)" "i < 512"
  shows "wp (descend H t i) (\<lambda>r (sp', m'). reached R sp0 m0 sp' m' \<and> (\<forall>t'. r = Ok t' \<longrightarrow> t' \<in> set (owned_tables sp'))) (sp, m)"
  using assms(1)
proof (cases rule: alloc_page_cases [where m = m])
  case refused
  then show ?thesis unfolding descend_def
    by (intro wp_state) (auto simp: Let_def assms(2) intro!: reached_quiet)
next
  case (fresh p)
  let ?sp = "sp\<lparr>owned_tables := set_insert p (owned_tables sp)\<rparr>"
  have "reached R sp0 m0 ?sp (log_event (Alloc p 0x1000) m\<lparr>mem := (mem m)(p := zero_frame)\<rparr>)"
    by (rule reached_alloc [OF assms(2) fresh(2-4)]) simp
  then have "reached R sp0 m0 ?sp (write_entry t i (table_descriptor p) (log_event (Alloc p 0x1000) m\<lparr>mem := (mem m)(p := zero_frame)\<rparr>))"
    by (rule reached_write) (use assms(3,4) in auto)
  then show ?thesis using fresh(1) assms(2) unfolding descend_def by (intro wp_state) (auto simp: Let_def)
qed

lemma wp_descend_to_l3:
  assumes "heap_laws H" "reached R sp0 m0 sp m"
  shows "wp (descend_to_l3 H va) (\<lambda>r (sp', m'). reached R sp0 m0 sp' m' \<and> (\<forall>t'. r = Ok t' \<longrightarrow> t' \<in> set (owned_tables sp'))) (sp, m)"
proof -
  have root: "as_root sp \<in> set (owned_tables sp)" using assms(2) by (auto simp: reached_def owns_def)
  have "wp (try_bind (descend H (as_root sp) (va_index 30 va)) (\<lambda>l2. descend H l2 (va_index 21 va)))
      (\<lambda>r (sp', m'). reached R sp0 m0 sp' m' \<and> (\<forall>t'. r = Ok t' \<longrightarrow> t' \<in> set (owned_tables sp'))) (sp, m)"
    by (rule wp_try, rule wp_mono, rule wp_descend [OF assms root va_index_lt]) (auto intro: wp_descend assms(1))
  then show ?thesis by (simp add: descend_to_l3_def wp_def)
qed

lemma wp_take_page:
  assumes "heap_laws H" "reached R sp0 m0 sp m" "t \<in> set (owned_tables sp)" "i < 512"
  shows "wp (take_page H t i perms) (\<lambda>r (sp', m'). reached R sp0 m0 sp' m' \<and> (\<forall>f. r = Ok f \<longrightarrow> f \<in> set (owned_pages sp'))) (sp, m)"
proof -
  let ?m = "log_event (Reserve (try_reserve H (heap_log m))) m"
  have q: "reached R sp0 m0 sp ?m" by (rule reached_quiet [OF assms(2)]) simp
  show ?thesis using assms(1)
  proof (cases rule: alloc_page_cases [where m = ?m])
    case refused
    have "reached R sp0 m0 sp (log_event (Refused 0x1000) ?m)" by (rule reached_quiet [OF q]) simp
    then show ?thesis using refused q unfolding take_page_def by (intro wp_state) (auto simp: Let_def)
  next
    case (fresh p)
    let ?sp = "sp\<lparr>owned_pages := owned_pages sp @ [p]\<rparr>"
    have "reached R sp0 m0 ?sp (log_event (Alloc p 0x1000) ?m\<lparr>mem := (mem ?m)(p := zero_frame)\<rparr>)"
      by (rule reached_alloc [OF q fresh(2-4)]) simp
    then have "reached R sp0 m0 ?sp (write_entry t i (normal_4kib_page_descriptor p perms)
        (log_event (Alloc p 0x1000) ?m\<lparr>mem := (mem ?m)(p := zero_frame)\<rparr>))"
      by (rule reached_write) (use assms(3,4) in auto)
    then show ?thesis using fresh(1) q unfolding take_page_def by (intro wp_state) (auto simp: Let_def)
  qed
qed

lemma wp_map_private:
  assumes "heap_laws H" "reached R sp0 m0 sp m"
  shows "wp (map_private_page_with H va perms) (\<lambda>r (sp', m'). reached R sp0 m0 sp' m' \<and> (\<forall>f. r = Ok f \<longrightarrow> f \<in> set (owned_pages sp'))) (sp, m)"
  unfolding map_private_page_with_def
  by (intro wp_if wp_try wp_return, simp_all add: assms(2))
    (rule wp_mono [OF wp_descend_to_l3 [OF assms]], auto intro: wp_take_page [OF assms(1)])

lemma wp_map_mmio:
  assumes "heap_laws H" "reached R sp0 m0 sp m"
  shows "wp (map_mmio_page H va pa w) (\<lambda>r (sp', m'). reached R sp0 m0 sp' m') (sp, m)"
  unfolding map_mmio_page_def
proof (intro wp_if wp_try wp_return, goal_cases)
  case 3
  show ?case by (rule wp_mono [OF wp_descend_to_l3 [OF assms]]) (auto simp: Let_def intro!: wp_state reached_write)
qed (simp_all add: assms(2))

subsection \<open>Release\<close>

lemma release_log: "heap_log (release plan m) = rev (map (\<lambda>e. Dealloc (ext_addr e) (ext_bytes e)) (filter layout_ok plan)) @ heap_log m"
  "mem (release plan m) = mem m" "ttbr0 (release plan m) = ttbr0 m"
proof -
  have "heap_log (fold (\<lambda>e. log_event (Dealloc (ext_addr e) (ext_bytes e))) es m) = rev (map (\<lambda>e. Dealloc (ext_addr e) (ext_bytes e)) es) @ heap_log m \<and>
    mem (fold (\<lambda>e. log_event (Dealloc (ext_addr e) (ext_bytes e))) es m) = mem m \<and>
    ttbr0 (fold (\<lambda>e. log_event (Dealloc (ext_addr e) (ext_bytes e))) es m) = ttbr0 m" for es
    by (induction es arbitrary: m) simp_all
  from this [of "filter layout_ok plan"] show "heap_log (release plan m) = rev (map (\<lambda>e. Dealloc (ext_addr e) (ext_bytes e)) (filter layout_ok plan)) @ heap_log m"
    "mem (release plan m) = mem m" "ttbr0 (release plan m) = ttbr0 m" by (simp_all add: release_def)
qed

lemma live_deallocs: "mset (live (rev (map (\<lambda>e. Dealloc (ext_addr e) (ext_bytes e)) es) @ log)) = mset (live log) - mset es"
proof (induction es rule: rev_induct)
  case (snoc e es)
  then show ?case by (cases e) (simp add: diff_diff_add_mset)
qed simp

lemma separate_sub: "mset es \<subseteq># mset es' \<Longrightarrow> separate es' \<Longrightarrow> separate es"
proof -
  assume a: "mset es \<subseteq># mset es'" "separate es'"
  then obtain rest where "mset es' = mset (es @ rest)"
    by (metis ex_mset mset_append mset_subset_eq_exists_conv)
  then have "separate (es @ rest)" using a(2) separate_mset by blast
  then show "separate es" by (induction es) auto
qed

lemma owned_separate:
  assumes "owns R sp m"
  shows "separate (owned_extents sp)" "list_all (extent_ok HEAP_START HEAP_END) (owned_extents sp)" "list_all layout_ok (owned_extents sp)"
proof -
  have m: "mset (owned_extents sp) \<subseteq># mset (live (heap_log m))" "separate (live (heap_log m))"
    and a: "\<forall>e\<in>set (owned_extents sp). ext_addr e mod 0x1000 = 0" and h: "list_all in_heap (live (heap_log m))"
    using assms by (simp_all add: owns_def heap_ok_def)
  show "separate (owned_extents sp)" by (rule separate_sub [OF m])
  have i: "in_heap e" if "e \<in> set (owned_extents sp)" for e using that h owns_live [OF assms] by (auto simp: list_all_iff)
  have "layout_ok e" if "in_heap e" for e using that unfolding layout_ok_def in_heap_def by simp
  then show "list_all layout_ok (owned_extents sp)" using i by (simp add: list_all_iff)
  have "extent_ok HEAP_START HEAP_END e" if "in_heap e" "ext_addr e mod 0x1000 = 0" for e
    using that unfolding extent_ok_def in_heap_def FRAME_BYTES_def by simp
  then show "list_all (extent_ok HEAP_START HEAP_END) (owned_extents sp)" using i a by (simp add: list_all_iff)
qed

subsection \<open>A concrete heap and machine\<close>

text \<open>An allocator that serves the first free frame, and a machine at boot whose tables are empty, with
  one address space created on it.\<close>

definition first_fit :: heap_env where
  "first_fit =
     \<lparr>alloc_zeroed = (\<lambda>log bytes align.
        find (\<lambda>p. p mod align = 0 \<and> in_heap \<lparr>ext_addr = p, ext_bytes = bytes\<rparr> \<and> list_all (apart \<lparr>ext_addr = p, ext_bytes = bytes\<rparr>) (live log))
          (map (\<lambda>i. HEAP_START + of_nat i * 0x1000) [0..<1024])),
      try_reserve = (\<lambda>_. True)\<rparr>"

lemma first_fit_laws: "heap_laws first_fit"
proof -
  have "P x" if "find P xs = Some x" for P and x :: u64 and xs using that by (auto simp: find_Some_iff)
  from this show ?thesis unfolding heap_laws_def first_fit_def heap_env.select_convs by blast
qed

definition boot_machine :: Machine where
  "boot_machine = \<lparr>mem = (\<lambda>_. zero_frame), heap_log = [], ttbr0 = 0x40001000\<rparr>"

definition boot_space :: AddressSpace where
  "boot_space = \<lparr>as_root = 0x41000000, owned_tables = [0x41000000], seeded_root = 0x40001000, owned_pages = [], owned_blocks = [],
     pre_free_hook = None\<rparr>"

abbreviation booted_machine :: Machine where
  "booted_machine \<equiv> log_event (Alloc 0x41000000 0x1000) boot_machine"

lemma boot_new: "space_new first_fit boot_machine = (Ok boot_space, booted_machine)"
proof -
  have "[0..<1024] = 0 # [Suc 0..<1024]" by (rule upt_conv_Cons) simp
  then have "alloc_zeroed first_fit [] 0x1000 0x1000 = Some 0x41000000"
    unfolding first_fit_def heap_env.select_convs by (simp only: list.map find.simps) (simp add: in_heap_def)
  then show ?thesis
    by (simp add: space_new_def alloc_page_def boot_machine_def boot_space_def log_event_def active_root_def fun_eq_iff)
qed

lemma boot_owns: "owns {#} boot_space booted_machine"
  by (simp add: owns_def heap_ok_def good_mem_def zero_frame_def boot_machine_def boot_space_def owned_extents_def ledger_def
      FRAME_BYTES_def in_heap_def log_event_def)

subsection \<open>Destroying a space\<close>

abbreviation after_destroy :: "AddressSpace \<Rightarrow> Machine \<Rightarrow> Machine" where
  "after_destroy sp m \<equiv> release (sort_key ext_addr (owned_extents sp)) (log_event (Reserve True) (run_hook sp m))"

lemma destroy_run:
  assumes "owns R sp m" "\<not> is_live sp m" "try_reserve H (heap_log (run_hook sp m))"
  shows "destroy H sp m = (Ok \<lparr>rec_extents = length (owned_extents sp), rec_bytes = sum_list (map (unat \<circ> ext_bytes) (owned_extents sp))\<rparr>,
    after_destroy sp m)"
proof -
  let ?es = "owned_extents sp" and ?plan = "sort_key ext_addr (owned_extents sp)"
  note sep = owned_separate [OF assms(1)]
  have plan: "plan_frees True (owned_tables sp) (owned_pages sp) (owned_blocks sp) HEAP_START HEAP_END = Ok ?plan"
    using sep assms(1) by (subst plan_frees_exact) (simp add: owned_extents_def owns_def)
  have f: "filter layout_ok ?plan = ?plan" using sep(3) by (auto simp: list_all_iff intro: filter_True)
  have "sum_list (map (unat \<circ> ext_bytes) ?plan) = sum_list (map (unat \<circ> ext_bytes) ?es)"
    by (metis mset_map mset_sort sum_mset_sum_list)
  then show ?thesis using assms(2,3) by (simp add: destroy_def Let_def plan f)
qed

lemma after_destroy:
  assumes "owns R sp m"
  shows "mset (live (heap_log (after_destroy sp m))) = R" "heap_ok (after_destroy sp m)" "mem (after_destroy sp m) = mem m"
    "\<exists>frees. heap_log (after_destroy sp m) = frees @ Reserve True # heap_log (run_hook sp m)"
proof -
  let ?plan = "sort_key ext_addr (owned_extents sp)" and ?m' = "after_destroy sp m"
  have f: "filter layout_ok ?plan = ?plan" using owned_separate(3) [OF assms] by (auto simp: list_all_iff intro: filter_True)
  have log: "heap_log ?m' = rev (map (\<lambda>e. Dealloc (ext_addr e) (ext_bytes e)) ?plan) @ Reserve True # heap_log (run_hook sp m)"
    by (simp add: release_log f)
  then show "\<exists>frees. heap_log ?m' = frees @ Reserve True # heap_log (run_hook sp m)" by blast
  have h: "live (heap_log (run_hook sp m)) = live (heap_log m)" "mem (run_hook sp m) = mem m"
    by (simp_all add: run_hook_def split: option.split)
  show live: "mset (live (heap_log ?m')) = R" using assms unfolding log live_deallocs by (simp add: h owns_def)
  show m: "mem ?m' = mem m" by (simp add: release_log h)
  have sub: "mset (live (heap_log ?m')) \<subseteq># mset (live (heap_log m))" using live assms by (simp add: owns_def)
  moreover have "list_all in_heap (live (heap_log m))" "separate (live (heap_log m))" "good_mem m"
    using assms by (simp_all add: owns_def heap_ok_def)
  ultimately show "heap_ok ?m'"
    using separate_sub [OF sub] set_mset_mono [OF sub] m by (auto simp: heap_ok_def list_all_iff good_mem_def)
qed



end
