(* ===== verification/Translation.thy ===== *)
theory Translation
  imports Spaces
begin

unbundle bit_operations_syntax

text \<open>
  How an address space translates: the tree of tables below its root, what a mapping changes of it,
  and what the memory management unit sees of it when it walks the tables from the root.
\<close>

subsection \<open>The tree of tables\<close>

text \<open>The kernel's own root: outside the heap, nothing mapped in the private gigabyte, its own tables
  outside the heap.\<close>

definition kernel_root_ok :: "u64 \<Rightarrow> Machine \<Rightarrow> bool" where
  "kernel_root_ok k m \<longleftrightarrow>
     (k < HEAP_START \<or> HEAP_END \<le> k) \<and> read_entry m k 2 = 0 \<and>
     (\<forall>i<512. read_entry m k i AND 3 = 3 \<longrightarrow>
        read_entry m k i AND DESC_ADDR_MASK < HEAP_START \<or> HEAP_END \<le> read_entry m k i AND DESC_ADDR_MASK)"

definition links :: "AddressSpace \<Rightarrow> Machine \<Rightarrow> u64 \<Rightarrow> nat \<Rightarrow> u64 set \<Rightarrow> bool" where
  "links sp m t i upper \<longleftrightarrow>
     read_entry m t i = 0 \<or> (\<exists>t'\<in>set (owned_tables sp) - upper. read_entry m t i = table_descriptor t')"

definition layout :: "u64 \<Rightarrow> AddressSpace \<Rightarrow> Machine \<Rightarrow> bool" where
  "layout k sp m \<longleftrightarrow>
     kernel_root_ok k m \<and> (\<forall>i<512. i \<noteq> 2 \<longrightarrow> read_entry m (as_root sp) i = read_entry m k i) \<and>
     links sp m (as_root sp) 2 {as_root sp} \<and>
     (\<forall>l2. owned_child sp m (as_root sp) 2 = Some l2 \<longrightarrow>
        (\<forall>i<512. links sp m l2 i {as_root sp, l2}) \<and>
        (\<forall>i<512. \<forall>j<512. read_entry m l2 i = read_entry m l2 j \<longrightarrow> read_entry m l2 i \<noteq> 0 \<longrightarrow> i = j))"

lemma child_zero: "read_entry m t i = 0 \<Longrightarrow> owned_child sp m t i = None"
  by (simp add: owned_child_def)

lemma child_table:
  assumes "owns R sp m" "t' \<in> set (owned_tables sp)" "read_entry m t i = table_descriptor t'"
  shows "owned_child sp m t i = Some t'"
  using table_descriptor_addr [OF owned_table_facts(1,2) [OF assms(1,2)]] assms(2,3) by (simp add: owned_child_def Let_def)

lemma links_child:
  assumes "owns R sp m" "links sp m t i upper"
  obtains "read_entry m t i = 0" "owned_child sp m t i = None"
  | t' where "t' \<in> set (owned_tables sp)" "t' \<notin> upper" "read_entry m t i = table_descriptor t'" "owned_child sp m t i = Some t'"
  using assms(2) child_zero [of m t i sp] child_table [OF assms(1), of _ t i] by (auto simp: links_def)

text \<open>What a descent does to an entry that is empty or links an owned table.\<close>

lemma descend_outcome:
  assumes "heap_laws H" "owns R sp m" "links sp m t i upper"
  obtains (found) t' where "owned_child sp m t i = Some t'" "run_state (descend H t i) (sp, m) = (Ok t', sp, m)"
  | (refused) "run_state (descend H t i) (sp, m) = (Err OutOfMemory, sp, log_event (Refused 0x1000) m)"
  | (fresh) p where "read_entry m t i = 0" "run_state (descend H t i) (sp, m) =
        (Ok p, sp\<lparr>owned_tables := set_insert p (owned_tables sp)\<rparr>,
         write_entry t i (table_descriptor p) (log_event (Alloc p 0x1000) m\<lparr>mem := (mem m)(p := zero_frame)\<rparr>))"
      "p mod 0x1000 = 0" "in_heap (frame_extent p)" "list_all (apart (frame_extent p)) (live (heap_log m))"
  using assms(2,3)
proof (cases rule: links_child)
  case 1
  show ?thesis using assms(1)
  proof (cases rule: alloc_page_cases [where m = m])
    case refused
    then show ?thesis using 1 that(2) by (simp add: descend_def Let_def)
  next
    case (fresh p)
    then show ?thesis using 1 that(3) by (simp add: descend_def Let_def)
  qed
next
  case (2 t')
  then show ?thesis using that(1) by (simp add: descend_def Let_def owned_child_def split: if_splits)
qed

text \<open>A frame taken from the heap differs from every table, and from every kernel table.\<close>

lemma fresh_apart:
  assumes "owns R sp m" "list_all (apart (frame_extent p)) (live (heap_log m))" "in_heap (frame_extent p)"
  shows "p \<notin> set (owned_tables sp)" "p \<noteq> as_root sp" "kernel_root_ok k m \<Longrightarrow> p \<noteq> k" "HEAP_START \<le> p" "p < HEAP_END" "p \<le> HEAP_END"
proof -
  show n: "p \<notin> set (owned_tables sp)" by (rule fresh_not_owned(1) [OF assms(1,2)])
  show "p \<noteq> as_root sp" using n assms(1) by (auto simp: owns_def)
  show h: "HEAP_START \<le> p" "p < HEAP_END" using assms(3) by (auto simp: in_heap_def word_less_nat_alt)
  then show "p \<le> HEAP_END" by simp
  show "kernel_root_ok k m \<Longrightarrow> p \<noteq> k" using h by (auto simp: kernel_root_ok_def)
qed

lemma kernel_entry_not_owned:
  assumes "owns R sp m" "kernel_root_ok k m" "i < 512" "read_entry m t i = read_entry m k i"
  shows "owned_child sp m t i = None"
proof -
  have "read_entry m k i AND DESC_ADDR_MASK \<notin> set (owned_tables sp)" if "read_entry m k i AND 3 = 3"
  proof
    assume "read_entry m k i AND DESC_ADDR_MASK \<in> set (owned_tables sp)"
    from owned_table_facts(4) [OF assms(1) this] show False
      using assms(2,3) that by (force simp: kernel_root_ok_def in_heap_def word_less_nat_alt word_le_nat_alt)
  qed
  then show ?thesis using assms(4) by (auto simp: owned_child_def Let_def)
qed

lemma kernel_root_kept:
  assumes "kernel_root_ok k m" "mem m' k = mem m k"
  shows "kernel_root_ok k m'"
  using assms read_entry_mem [OF assms(2)] by (simp add: kernel_root_ok_def)

text \<open>Mapping and translation look only at the tables.\<close>

lemma tables_agree:
  assumes "as_root sp' = as_root sp" "owned_tables sp' = owned_tables sp" "as_root sp \<in> set (owned_tables sp)"
    and "\<And>t. t \<in> set (owned_tables sp) \<Longrightarrow> mem m' t = mem m t" "mem m' k = mem m k"
  shows "owned_child sp' m' (as_root sp) i = owned_child sp m (as_root sp) i" "page_descriptor sp' m' va = page_descriptor sp m va"
    "layout k sp' m' = layout k sp m"
proof -
  have r: "read_entry m' t i = read_entry m t i" if "t \<in> insert k (set (owned_tables sp))" for t i
    using that assms(4,5) by (intro read_entry_mem) auto
  have c: "owned_child sp' m' t i = owned_child sp m t i" if "t \<in> set (owned_tables sp)" for t i
    using r [of t] that assms(2) by (simp add: owned_child_def Let_def)
  have t: "t' \<in> set (owned_tables sp)" if "owned_child sp m t i = Some t'" for t t' i
    using that by (auto simp: owned_child_def Let_def split: if_splits)
  show root: "owned_child sp' m' (as_root sp) i = owned_child sp m (as_root sp) i" for i using c assms(3) .
  show "page_descriptor sp' m' va = page_descriptor sp m va"
    unfolding page_descriptor_def assms(1) root
  proof (rule bind_option_cong [OF refl], rule bind_option_cong)
    fix l2 assume "l2 \<in> set_option (owned_child sp m (as_root sp) (va_index 30 va))"
    then show "owned_child sp' m' l2 (va_index 21 va) = owned_child sp m l2 (va_index 21 va)" using c t by auto
  qed (use r t in auto)
  have "links sp' m' t i u = links sp m t i u" if "t \<in> set (owned_tables sp)" for t i u
    using r [of t] that assms(2) by (simp add: links_def)
  moreover have "kernel_root_ok k m' = kernel_root_ok k m" using r [of k] by (simp add: kernel_root_ok_def)
  ultimately show "layout k sp' m' = layout k sp m"
    using assms(3) r t unfolding layout_def assms(1) root by (auto 0 3 dest: t)
qed

lemma bind_pages:
  assumes "owned_child sp m (as_root sp) 2 = Some l2"
  shows "va_index 30 va = 2 \<Longrightarrow> page_descriptor sp m va = Option.bind (owned_child sp m l2 (va_index 21 va))
     (\<lambda>l3. if read_entry m l3 (va_index 12 va) AND 3 = 3 then Some (read_entry m l3 (va_index 12 va)) else None)"
  using assms by (simp add: page_descriptor_def Let_def)

lemma outside_private_None:
  assumes "owns R sp m" "layout k sp m" "va_index 30 va \<noteq> 2"
  shows "page_descriptor sp m va = None"
proof -
  have "owned_child sp m (as_root sp) (va_index 30 va) = None"
    using assms by (intro kernel_entry_not_owned [OF assms(1)]) (auto simp: layout_def)
  then show ?thesis by (simp add: page_descriptor_def)
qed

subsection \<open>Growing the tree\<close>

abbreviation with_table :: "u64 \<Rightarrow> AddressSpace \<Rightarrow> AddressSpace" where
  "with_table p sp \<equiv> sp\<lparr>owned_tables := set_insert p (owned_tables sp)\<rparr>"

abbreviation with_frame :: "u64 \<Rightarrow> Machine \<Rightarrow> Machine" where
  "with_frame p m \<equiv> log_event (Alloc p 0x1000) m\<lparr>mem := (mem m)(p := zero_frame)\<rparr>"

lemma with_frame_good: "good_mem m \<Longrightarrow> good_mem (with_frame p m)"
  by (simp add: good_mem_def zero_frame_def log_event_def)

lemma grown_reads:
  assumes "good_mem m" "i < 512" "j < 512" "p \<noteq> t"
  shows "read_entry (write_entry t i v (with_frame p m)) t' j =
     (if t' = p then 0 else if t' = t \<and> j = i then v else read_entry m t' j)"
proof -
  have "read_entry (with_frame p m) t' j = (if t' = p then 0 else read_entry m t' j)"
    using read_zero [of "with_frame p m" p j] assms(3) by (auto simp: log_event_def intro: read_entry_mem)
  then show ?thesis using read_write_entry [OF with_frame_good [OF assms(1)] assms(2,3)] assms(4) by auto
qed

lemma links_not_fresh:
  assumes "owns R sp m" "links sp m t i u" "p \<notin> set (owned_tables sp)" "p mod 0x1000 = 0" "p \<le> HEAP_END"
  shows "read_entry m t i \<noteq> table_descriptor p"
proof
  assume e: "read_entry m t i = table_descriptor p"
  note p = table_descriptor_addr [OF assms(4,5)]
  from assms(1,2) show False
  proof (cases rule: links_child)
    case 1
    then show False using e p(2) by simp
  next
    case (2 x)
    then have "x = p" using e p(1) table_descriptor_addr(1) [OF owned_table_facts(1,2) [OF assms(1) 2(1)]] by metis
    then show False using 2(1) assms(3) by simp
  qed
qed

text \<open>A new table in an empty entry: other owned entries lead where they led, the new one is empty.\<close>

lemma grown_child:
  assumes o: "owns R sp m" and p: "list_all (apart (frame_extent p)) (live (heap_log m))" "in_heap (frame_extent p)" "p mod 0x1000 = 0"
    and t: "t \<in> set (owned_tables sp)" "i < 512" "j < 512"
  defines "m' \<equiv> write_entry t i (table_descriptor p) (with_frame p m)"
  shows "owned_child (with_table p sp) m' t i = Some p" "owned_child (with_table p sp) m' p j = None"
    "t' \<noteq> p \<Longrightarrow> \<not> (t' = t \<and> j = i) \<Longrightarrow> links sp m t' j u \<Longrightarrow>
       owned_child (with_table p sp) m' t' j = owned_child sp m t' j \<and> links (with_table p sp) m' t' j u"
proof -
  have g: "good_mem m" using o by (simp add: owns_def heap_ok_def)
  note fr = fresh_apart [OF o p(1,2)]
  have ne: "p \<noteq> t" using fr(1) t(1) by auto
  note rd = grown_reads [OF g t(2) _ ne, of _ "table_descriptor p", folded m'_def]
  show "owned_child (with_table p sp) m' t i = Some p"
    using table_descriptor_addr [OF p(3) fr(6)] rd [of i t] t ne by (simp add: owned_child_def Let_def)
  show "owned_child (with_table p sp) m' p j = None" using rd [of j p] t by (simp add: owned_child_def)
  assume h: "t' \<noteq> p" "\<not> (t' = t \<and> j = i)" "links sp m t' j u"
  then have r: "read_entry m' t' j = read_entry m t' j" using rd [of j t'] t by auto
  from o h(3) show "owned_child (with_table p sp) m' t' j = owned_child sp m t' j \<and> links (with_table p sp) m' t' j u"
  proof (cases rule: links_child)
    case 1
    then show ?thesis using r by (simp add: links_def child_zero)
  next
    case (2 x)
    have "table_descriptor x AND DESC_ADDR_MASK = x" "table_descriptor x AND 3 = 3"
      using table_descriptor_addr [OF owned_table_facts(1,2) [OF o 2(1)]] by simp_all
    then show ?thesis using 2 r by (auto simp: links_def owned_child_def Let_def)
  qed
qed

lemma grown_kernel:
  assumes o: "owns R sp m" and p: "list_all (apart (frame_extent p)) (live (heap_log m))" "in_heap (frame_extent p)"
    and t: "t \<in> set (owned_tables sp)" "i < 512" and k: "kernel_root_ok k m"
  shows "kernel_root_ok k (write_entry t i v (with_frame p m))" "k \<noteq> t"
proof -
  show n: "k \<noteq> t" using owned_table_facts(4) [OF o t(1)] k
    by (force simp: kernel_root_ok_def in_heap_def word_less_nat_alt word_le_nat_alt)
  show "kernel_root_ok k (write_entry t i v (with_frame p m))"
    using fresh_apart(3) [OF o p k] n by (intro kernel_root_kept [OF k]) (simp add: log_event_def)
qed

lemma new_l2:
  assumes o: "owns R sp m" and p: "list_all (apart (frame_extent p)) (live (heap_log m))" "in_heap (frame_extent p)" "p mod 0x1000 = 0"
    and l: "layout k sp m" "read_entry m (as_root sp) 2 = 0"
  defines "m' \<equiv> write_entry (as_root sp) 2 (table_descriptor p) (with_frame p m)"
  assumes o': "owns R (with_table p sp) m'"
  shows "layout k (with_table p sp) m'" "owned_child (with_table p sp) m' (as_root sp) 2 = Some p"
    "page_descriptor (with_table p sp) m' va = page_descriptor sp m va"
proof -
  let ?sp = "with_table p sp"
  have g: "good_mem m" and root: "as_root sp \<in> set (owned_tables sp)" using o by (simp_all add: owns_def heap_ok_def)
  have k: "kernel_root_ok k m" using l by (simp add: layout_def)
  note fr = fresh_apart [OF o p(1,2)]
  have two: "(2 :: nat) < 512" by simp
  note ch = grown_child [OF o p root two, folded m'_def] and rd = grown_reads [OF g two _ fr(2), of _ "table_descriptor p", folded m'_def]
  note kk = grown_kernel(1) [OF o p(1,2) root two k, of "table_descriptor p", folded m'_def] grown_kernel(2) [OF o p(1,2) root two k]
  show c: "owned_child ?sp m' (as_root sp) 2 = Some p" using ch(1) two .
  have "links ?sp m' (as_root sp) 2 {as_root sp}" using rd [of 2 "as_root sp"] fr(2) by (auto simp: links_def)
  moreover have "links ?sp m' p i u" "read_entry m' p i = 0" if "i < 512" for i u using rd [OF that, of p] by (simp_all add: links_def)
  moreover have "read_entry m' (as_root sp) i = read_entry m' k i" if "i < 512" "i \<noteq> 2" for i
    using rd [OF that(1)] that l(1) fr(2) fr(3) [OF k] kk(2) by (simp add: layout_def)
  ultimately show la: "layout k ?sp m'" using kk(1) c by (simp add: layout_def)
  show "page_descriptor ?sp m' va = page_descriptor sp m va"
  proof (cases "va_index 30 va = 2")
    case True
    then show ?thesis using bind_pages [of ?sp m' p va] c ch(2) [OF va_index_lt] child_zero [OF l(2)] by (simp add: page_descriptor_def)
  next
    case False
    then show ?thesis using outside_private_None [OF o l(1)] outside_private_None [OF o' la] by simp
  qed
qed

lemma new_l3:
  assumes o: "owns R sp m" and p: "list_all (apart (frame_extent p)) (live (heap_log m))" "in_heap (frame_extent p)" "p mod 0x1000 = 0"
    and l: "layout k sp m" "owned_child sp m (as_root sp) 2 = Some l2" "read_entry m l2 i = 0" "i < 512"
  defines "m' \<equiv> write_entry l2 i (table_descriptor p) (with_frame p m)"
  assumes o': "owns R (with_table p sp) m'"
  shows "layout k (with_table p sp) m'" "owned_child (with_table p sp) m' (as_root sp) 2 = Some l2"
    "owned_child (with_table p sp) m' l2 i = Some p" "page_descriptor (with_table p sp) m' va = page_descriptor sp m va"
proof -
  let ?sp = "with_table p sp" and ?r = "as_root sp"
  have g: "good_mem m" and root: "?r \<in> set (owned_tables sp)" using o by (simp_all add: owns_def heap_ok_def)
  have k: "kernel_root_ok k m" and lk: "links sp m ?r 2 {?r}" and lks: "\<And>j. j < 512 \<Longrightarrow> links sp m l2 j {?r, l2}"
    and inj: "\<And>i j. i < 512 \<Longrightarrow> j < 512 \<Longrightarrow> read_entry m l2 i = read_entry m l2 j \<Longrightarrow> read_entry m l2 i \<noteq> 0 \<Longrightarrow> i = j"
    using l(1,2) by (simp_all add: layout_def)
  have l2: "l2 \<in> set (owned_tables sp)" "l2 \<noteq> ?r"
    using o lk l(2) by (auto elim!: links_child)
  note fr = fresh_apart [OF o p(1,2)]
  have ne: "p \<noteq> l2" using fr(1) l2 by auto
  note ch = grown_child [OF o p l2(1) l(4), folded m'_def] and rd = grown_reads [OF g l(4) _ ne, of _ "table_descriptor p", folded m'_def]
  note kk = grown_kernel(1) [OF o p(1,2) l2(1) l(4) k, of "table_descriptor p", folded m'_def] grown_kernel(2) [OF o p(1,2) l2(1) l(4) k]
  have r2: "owned_child ?sp m' ?r 2 = Some l2 \<and> links ?sp m' ?r 2 {?r}"
    using ch(3) [of 2 ?r "{?r}"] fr(2) l2(2) lk l(2) by auto
  show c: "owned_child ?sp m' ?r 2 = Some l2" using r2 ..
  show ci: "owned_child ?sp m' l2 i = Some p" using ch(1) l(4) .
  have other: "owned_child ?sp m' l2 j = owned_child sp m l2 j \<and> links ?sp m' l2 j {?r, l2}" if "j < 512" "j \<noteq> i" for j
    using ch(3) [OF that(1), of l2] that ne lks [OF that(1)] by auto
  have "links ?sp m' l2 i {?r, l2}" using rd [OF l(4), of l2] fr(2) ne by (auto simp: links_def)
  then have "links ?sp m' l2 j {?r, l2}" if "j < 512" for j using other that by (cases "j = i") auto
  moreover have "j = j'" if "j < 512" "j' < 512" "read_entry m' l2 j = read_entry m' l2 j'" "read_entry m' l2 j \<noteq> 0" for j j'
  proof -
    have d: "read_entry m l2 x \<noteq> table_descriptor p" if "x < 512" for x
      by (rule links_not_fresh [OF o lks [OF that] fr(1) p(3) fr(6)])
    show ?thesis using that rd [OF that(1), of l2] rd [OF that(2), of l2] ne d inj [OF that(1,2)] by (auto split: if_splits)
  qed
  moreover have "read_entry m' ?r j = read_entry m' k j" if "j < 512" "j \<noteq> 2" for j
    using rd [OF that(1)] that l(1) l2(2) fr(2) fr(3) [OF k] kk(2) by (auto simp: layout_def)
  ultimately show la: "layout k ?sp m'" using kk(1) r2 by (simp add: layout_def)
  show "page_descriptor ?sp m' va = page_descriptor sp m va"
  proof (cases "va_index 30 va = 2")
    case True
    note b = bind_pages [OF l(2) True] bind_pages [of ?sp m' l2 va, simplified, OF c True]
    have x: "read_entry m' l3 j = read_entry m l3 j" if "owned_child sp m l2 n = Some l3" "n < 512" "j < 512" for l3 n j
      using that o lks [OF that(2)] rd [OF that(3), of l3] fr(1) by (auto elim!: links_child)
    show ?thesis
    proof (cases "va_index 21 va = i")
      case True
      then show ?thesis using b ci child_zero [OF l(3)] rd [OF va_index_lt, of p] by simp
    next
      case False
      then have "owned_child ?sp m' l2 (va_index 21 va) = owned_child sp m l2 (va_index 21 va)" using other by simp
      then show ?thesis using b x [OF _ va_index_lt va_index_lt] by (cases "owned_child sp m l2 (va_index 21 va)") auto
    qed
  next
    case False
    then show ?thesis using outside_private_None [OF o l(1)] outside_private_None [OF o' la] by simp
  qed
qed

subsection \<open>Mapping a page\<close>

lemma page_descriptor_valid: "normal_4kib_page_descriptor f perms AND 3 = 3"
proof -
  have "(x OR 3) AND (3 :: u64) = 3" for x by (simp add: bit.conj_disj_distrib2)
  moreover have "normal_4kib_page_descriptor f perms = (f OR 0x704 OR perms) OR 3"
    unfolding normal_4kib_page_descriptor_def by (simp add: or.assoc or.commute or.left_commute)
  ultimately show ?thesis by simp
qed

definition page_index :: "u64 \<Rightarrow> nat \<times> nat \<times> nat" where
  "page_index va = (va_index 30 va, va_index 21 va, va_index 12 va)"

lemma set_leaf:
  assumes o: "owns R sp m" and l: "layout k sp m" "owned_child sp m (as_root sp) 2 = Some l2" "owned_child sp m l2 i = Some l3"
    and b: "i < 512" "j < 512" and d: "d AND 3 = 3"
  shows "layout k sp (write_entry l3 j d m)" "l3 \<in> set (owned_tables sp)"
    "page_descriptor sp (write_entry l3 j d m) va = (if page_index va = (2, i, j) then Some d else page_descriptor sp m va)"
proof -
  let ?r = "as_root sp" and ?m = "write_entry l3 j d m"
  have g: "good_mem m" and root: "?r \<in> set (owned_tables sp)" using o by (simp_all add: owns_def heap_ok_def)
  have k: "kernel_root_ok k m" and lk: "links sp m ?r 2 {?r}" and lks: "\<And>x. x < 512 \<Longrightarrow> links sp m l2 x {?r, l2}"
    and inj: "\<And>i j. i < 512 \<Longrightarrow> j < 512 \<Longrightarrow> read_entry m l2 i = read_entry m l2 j \<Longrightarrow> read_entry m l2 i \<noteq> 0 \<Longrightarrow> i = j"
    using l(1,2) by (simp_all add: layout_def)
  have l2: "l2 \<in> set (owned_tables sp)" "l2 \<noteq> ?r" using o lk l(2) by (auto elim!: links_child)
  have up: "x \<in> set (owned_tables sp) \<and> x \<noteq> ?r \<and> x \<noteq> l2 \<and> read_entry m l2 n = table_descriptor x"
    if "owned_child sp m l2 n = Some x" "n < 512" for n x using that o lks [OF that(2)] by (auto elim!: links_child)
  note l3 = up [OF l(3) b(1)]
  show "l3 \<in> set (owned_tables sp)" using l3 by simp
  have rd: "x < 512 \<Longrightarrow> read_entry ?m t x = (if t = l3 \<and> x = j then d else read_entry m t x)" for t x
    by (rule read_write_entry [OF g b(2)])
  have ne: "k \<noteq> l3" using owned_table_facts(4) [OF o] l3 k
    by (force simp: kernel_root_ok_def in_heap_def word_less_nat_alt word_le_nat_alt)
  have ch: "owned_child sp ?m t x = owned_child sp m t x" if "t \<noteq> l3" "x < 512" for t x
    using rd [OF that(2)] that by (simp add: owned_child_def)
  have lc: "links sp ?m t x u = links sp m t x u" if "t \<noteq> l3" "x < 512" for t x u
    using rd [OF that(2)] that by (simp add: links_def)
  have "kernel_root_ok k ?m" using ne by (intro kernel_root_kept [OF k]) simp
  moreover have "read_entry ?m ?r x = read_entry ?m k x" if "x < 512" "x \<noteq> 2" for x
    using l(1) that rd [OF that(1)] l3 ne by (auto simp: layout_def)
  ultimately show la: "layout k sp ?m"
    using l(2) lk lks inj l3 ch [of ?r 2] lc rd by (auto simp: layout_def)
  show "page_descriptor sp ?m va = (if page_index va = (2, i, j) then Some d else page_descriptor sp m va)"
  proof (cases "va_index 30 va = 2")
    case True
    have c2: "owned_child sp ?m ?r 2 = Some l2" using l(2) ch [of ?r 2] l3 by auto
    have c3: "owned_child sp ?m l2 (va_index 21 va) = owned_child sp m l2 (va_index 21 va)" using ch [of l2, OF _ va_index_lt] l3 by auto
    show ?thesis
    proof (cases "owned_child sp m l2 (va_index 21 va)")
      case None
      then show ?thesis using bind_pages [OF c2 True] bind_pages [OF l(2) True] c3 l(3) by (auto simp: page_index_def)
    next
      case (Some x)
      note x = up [OF Some va_index_lt]
      have "x = l3 \<longleftrightarrow> va_index 21 va = i"
      proof
        assume "x = l3"
        then have e: "read_entry m l2 (va_index 21 va) = read_entry m l2 i" using x l3 by simp
        moreover have "read_entry m l2 i \<noteq> 0" using l(3) child_zero [of m l2 i sp] by auto
        ultimately show "va_index 21 va = i" using inj [OF va_index_lt b(1) e] by simp
      qed (use Some l(3) in simp)
      then show ?thesis
        using bind_pages [OF c2 True] bind_pages [OF l(2) True] c3 Some True rd [OF va_index_lt, of x] d by (auto simp: page_index_def)
    qed
  next
    case False
    have "page_descriptor sp ?m va = None"
    proof -
      have "owned_child sp ?m ?r (va_index 30 va) = owned_child sp m ?r (va_index 30 va)" using ch [of ?r, OF _ va_index_lt] l3 by auto
      also have "\<dots> = None" using False l(1) by (intro kernel_entry_not_owned [OF o k]) (auto simp: layout_def)
      finally show ?thesis by (simp add: page_descriptor_def)
    qed
    then show ?thesis using False outside_private_None [OF o l(1) False] by (simp add: page_index_def)
  qed
qed

definition tree :: "u64 \<Rightarrow> Extent multiset \<Rightarrow> AddressSpace \<Rightarrow> Machine \<Rightarrow> (u64 \<Rightarrow> u64 option) \<Rightarrow> AddressSpace \<Rightarrow> Machine \<Rightarrow> bool" where
  "tree k R sp0 m0 T sp m \<longleftrightarrow> reached R sp0 m0 sp m \<and> layout k sp m \<and> page_descriptor sp m = T"

lemma reached_owns: "reached R sp0 m0 sp m \<Longrightarrow> owns R sp m"
  by (auto simp: reached_def)

lemma tree_owns: "tree k R sp0 m0 T sp m \<Longrightarrow> owns R sp m \<and> layout k sp m \<and> as_root sp \<in> set (owned_tables sp)"
  by (auto simp: tree_def reached_def owns_def)

lemma tree_quiet:
  assumes "tree k R sp0 m0 T sp m" "live (e # heap_log m) = live (heap_log m)"
  shows "tree k R sp0 m0 T sp (log_event e m)"
proof -
  have "as_root sp \<in> set (owned_tables sp)" using tree_owns [OF assms(1)] by simp
  then show ?thesis
    using assms reached_quiet tables_agree(2,3) [of sp sp "log_event e m" m k] unfolding tree_def by (metis log_event_simps(2) ext)
qed

lemma wp_descend_l2:
  assumes "heap_laws H" "tree k R sp0 m0 T sp m"
  shows "wp (descend H (as_root sp) 2) (\<lambda>r (sp', m'). tree k R sp0 m0 T sp' m' \<and>
     (\<forall>t. r = Ok t \<longrightarrow> owned_child sp' m' (as_root sp') 2 = Some t) \<and> (\<forall>e. r = Err e \<longrightarrow> e = OutOfMemory)) (sp, m)"
proof -
  note o = tree_owns [OF assms(2)]
  have r: "reached R sp0 m0 sp m" using assms(2) by (simp add: tree_def)
  have lk: "links sp m (as_root sp) 2 {as_root sp}" using o by (simp add: layout_def)
  from assms(1) conjunct1 [OF o] lk show ?thesis
  proof (cases rule: descend_outcome)
    case (found t')
    then show ?thesis using assms(2) by (simp add: wp_def)
  next
    case refused
    then show ?thesis using tree_quiet [OF assms(2), of "Refused 0x1000"] by (simp add: wp_def)
  next
    case (fresh p)
    let ?m' = "write_entry (as_root sp) 2 (table_descriptor p) (with_frame p m)"
    have r': "reached R sp0 m0 (with_table p sp) ?m'"
      by (rule reached_write, rule reached_alloc [OF r fresh(3-5)]) (use o in auto)
    then have o': "owns R (with_table p sp) ?m'" by (rule reached_owns)
    note n = new_l2 [OF conjunct1 [OF o] fresh(5,4,3) conjunct1 [OF conjunct2 [OF o]] fresh(1) o']
    show ?thesis using n r' fresh(2) assms(2) by (simp add: wp_def tree_def fun_eq_iff)
  qed
qed

lemma wp_descend_l3:
  assumes "heap_laws H" "tree k R sp0 m0 T sp m" "owned_child sp m (as_root sp) 2 = Some l2" "i < 512"
  shows "wp (descend H l2 i) (\<lambda>r (sp', m'). tree k R sp0 m0 T sp' m' \<and>
     (\<forall>t. r = Ok t \<longrightarrow> owned_child sp' m' (as_root sp') 2 = Some l2 \<and> owned_child sp' m' l2 i = Some t) \<and> (\<forall>e. r = Err e \<longrightarrow> e = OutOfMemory)) (sp, m)"
proof -
  note o = tree_owns [OF assms(2)]
  have r: "reached R sp0 m0 sp m" using assms(2) by (simp add: tree_def)
  have lk: "links sp m l2 i {as_root sp, l2}" and l2: "l2 \<in> set (owned_tables sp)"
    using o assms(3,4) by (auto simp: layout_def owned_child_def Let_def split: if_splits)
  from assms(1) conjunct1 [OF o] lk show ?thesis
  proof (cases rule: descend_outcome)
    case (found t')
    then show ?thesis using assms(2,3) by (simp add: wp_def)
  next
    case refused
    then show ?thesis using tree_quiet [OF assms(2), of "Refused 0x1000"] by (simp add: wp_def)
  next
    case (fresh p)
    let ?m' = "write_entry l2 i (table_descriptor p) (with_frame p m)"
    have r': "reached R sp0 m0 (with_table p sp) ?m'"
      by (rule reached_write, rule reached_alloc [OF r fresh(3-5)]) (use l2 assms(4) in auto)
    then have o': "owns R (with_table p sp) ?m'" by (rule reached_owns)
    note n = new_l3 [OF conjunct1 [OF o] fresh(5,4,3) conjunct1 [OF conjunct2 [OF o]] assms(3) fresh(1) assms(4) o']
    show ?thesis using n r' fresh(2) assms(2) by (simp add: wp_def tree_def fun_eq_iff)
  qed
qed

lemma wp_to_l3:
  assumes "heap_laws H" "tree k R sp0 m0 T sp m" "in_private_region va"
  shows "wp (descend_to_l3 H va) (\<lambda>r (sp', m'). tree k R sp0 m0 T sp' m' \<and>
     (\<forall>l3. r = Ok l3 \<longrightarrow> (\<exists>l2. owned_child sp' m' (as_root sp') 2 = Some l2 \<and> owned_child sp' m' l2 (va_index 21 va) = Some l3))
     \<and> (\<forall>e. r = Err e \<longrightarrow> e = OutOfMemory)) (sp, m)"
proof -
  have "wp (try_bind (descend H (as_root sp) 2) (\<lambda>l2. descend H l2 (va_index 21 va))) (\<lambda>r (sp', m'). tree k R sp0 m0 T sp' m' \<and>
     (\<forall>l3. r = Ok l3 \<longrightarrow> (\<exists>l2. owned_child sp' m' (as_root sp') 2 = Some l2 \<and> owned_child sp' m' l2 (va_index 21 va) = Some l3))
     \<and> (\<forall>e. r = Err e \<longrightarrow> e = OutOfMemory)) (sp, m)"
  proof (rule wp_try, rule wp_mono [OF wp_descend_l2 [OF assms(1,2)]], clarsimp, goal_cases)
    case (1 sp' m' l2)
    then show ?case by (intro wp_mono [OF wp_descend_l3 [OF assms(1) 1(1), of l2]]) auto
  qed
  then show ?thesis using private_index [OF assms(3)] by (simp add: descend_to_l3_def wp_def)
qed

lemma wp_take_leaf:
  assumes "heap_laws H" "tree k R sp0 m0 T sp m" "owned_child sp m (as_root sp) 2 = Some l2" "owned_child sp m l2 i = Some l3" "i < 512" "j < 512"
  shows "wp (take_page H l3 j perms) (\<lambda>r (sp', m').
     (\<forall>f. r = Ok f \<longrightarrow> tree k R sp0 m0 (\<lambda>va. if page_index va = (2, i, j) then Some (normal_4kib_page_descriptor f perms) else T va) sp' m' \<and>
        mem m' f = zero_frame \<and> f \<in> set (owned_pages sp') \<and> \<not> covers (live (heap_log m)) f) \<and>
     (\<forall>e. r = Err e \<longrightarrow> e = OutOfMemory \<and> tree k R sp0 m0 T sp' m')) (sp, m)"
proof -
  let ?m = "log_event (Reserve (try_reserve H (heap_log m))) m"
  have q: "tree k R sp0 m0 T sp ?m" by (rule tree_quiet [OF assms(2)]) simp
  note o = tree_owns [OF q]
  have c: "owned_child sp ?m = owned_child sp m" by (simp add: owned_child_def fun_eq_iff)
  show ?thesis using assms(1)
  proof (cases rule: alloc_page_cases [where m = ?m])
    case refused
    have "tree k R sp0 m0 T sp (log_event (Refused 0x1000) ?m)" by (rule tree_quiet [OF q]) simp
    then show ?thesis using refused q unfolding take_page_def by (intro wp_state) (auto simp: Let_def)
  next
    case (fresh p)
    let ?sp = "sp\<lparr>owned_pages := owned_pages sp @ [p]\<rparr>" and ?d = "normal_4kib_page_descriptor p perms"
    have o0: "owns R sp ?m" "layout k sp ?m" "as_root sp \<in> set (owned_tables sp)" "page_descriptor sp ?m = T" and r: "reached R sp0 m0 sp ?m"
      using o q by (auto simp: tree_def)
    have r1: "reached R sp0 m0 ?sp (with_frame p ?m)" by (rule reached_alloc [OF r fresh(2-4)]) simp
    note fr = fresh_apart [OF o0(1) fresh(4,3)]
    have ag: "mem (with_frame p ?m) t = mem ?m t" if "t \<in> insert k (set (owned_tables sp))" for t
      using that fr(1) fr(3) [of k] o0(2) by (auto simp: layout_def log_event_def)
    have ta: "owned_child ?sp (with_frame p ?m) (as_root sp) x = owned_child sp ?m (as_root sp) x"
      "page_descriptor ?sp (with_frame p ?m) va = page_descriptor sp ?m va" "layout k ?sp (with_frame p ?m) = layout k sp ?m" for x va
      by (rule tables_agree [where k = k]; use o0(3) ag in auto)+
    have c1: "owned_child ?sp (with_frame p ?m) (as_root ?sp) 2 = Some l2" using ta(1) c assms(3) by simp
    have "l2 \<in> set (owned_tables sp)" using assms(3) by (auto simp: owned_child_def Let_def split: if_splits)
    then have c2: "owned_child ?sp (with_frame p ?m) l2 i = Some l3"
      using assms(4) read_entry_mem [OF ag] by (auto simp: owned_child_def Let_def split: if_splits)
    note sl = set_leaf [OF reached_owns [OF r1] _ c1 c2 assms(5,6) page_descriptor_valid [of p perms]]
    have la: "layout k ?sp (with_frame p ?m)" using ta(3) o0(2) by simp
    have r2: "reached R sp0 m0 ?sp (write_entry l3 j ?d (with_frame p ?m))" by (rule reached_write [OF r1 sl(2) [OF la] assms(6)])
    have "p \<noteq> l3" using sl(2) [OF la] fr(1) by auto
    moreover have "\<not> covers (live (heap_log m)) p" using apart_uncovered [OF fresh(4)] by auto
    ultimately show ?thesis
      using fresh(1) sl(1,3) [OF la] r2 ta(2) o0(4) q unfolding take_page_def
      by (intro wp_state) (auto simp: Let_def tree_def fun_eq_iff log_event_def)
  qed
qed

lemma wp_map_tree:
  assumes "heap_laws H" "owns R sp m" "layout k sp m" "va mod 0x1000 = 0" "in_private_region va"
  shows "wp (map_private_page_with H va perms) (\<lambda>r (sp', m').
     (\<forall>f. r = Ok f \<longrightarrow> tree k R sp m (\<lambda>va'. if page_index va' = page_index va then Some (normal_4kib_page_descriptor f perms) else page_descriptor sp m va') sp' m' \<and>
        mem m' f = zero_frame \<and> f \<in> set (owned_pages sp') \<and> \<not> covers (owned_extents sp) f) \<and>
     (\<forall>e. r = Err e \<longrightarrow> e = OutOfMemory \<and> tree k R sp m (page_descriptor sp m) sp' m')) (sp, m)"
proof -
  let ?Q = "(\<lambda>r (sp', m').
     (\<forall>f. r = Ok f \<longrightarrow> tree k R sp m (\<lambda>va'. if page_index va' = page_index va then Some (normal_4kib_page_descriptor f perms) else page_descriptor sp m va') sp' m' \<and>
        mem m' f = zero_frame \<and> f \<in> set (owned_pages sp') \<and> \<not> covers (owned_extents sp) f) \<and>
     (\<forall>e. r = Err e \<longrightarrow> e = OutOfMemory \<and> tree k R sp m (page_descriptor sp m) sp' m'))"
  have t: "tree k R sp m (page_descriptor sp m) sp m" using assms(2,3) reached_refl by (simp add: tree_def)
  have i: "page_index va = (2, va_index 21 va, va_index 12 va)" using private_index [OF assms(5)] by (simp add: page_index_def)
  have "wp (try_bind (descend_to_l3 H va) (\<lambda>l3. take_page H l3 (va_index 12 va) perms)) ?Q (sp, m)"
  proof (rule wp_try, rule wp_mono [OF wp_to_l3 [OF assms(1) t assms(5)]], clarsimp, goal_cases)
    case (1 sp' m' l3 l2)
    have sub: "covers (owned_extents sp) f \<Longrightarrow> covers (live (heap_log m')) f" for f
      using 1(1) covers_mono owns_live [of R sp' m'] by (fastforce simp: tree_def reached_def covers_def)
    show ?case
    proof (rule wp_mono [OF wp_take_leaf [OF assms(1) 1(1,2,3) va_index_lt va_index_lt]], goal_cases)
      case (1 a t)
      then show ?case using i sub by (auto split: prod.splits)
    qed
  qed
  then show ?thesis using assms(4,5) by (simp add: map_private_page_with_def)
qed

text \<open>
  C15.  Mapping a page is exact.  Let the allocator keep its contract and let the space be laid out below
  a root copied from the kernel's.  Mapping an aligned address of the private region either returns a
  frame that was not in use, is zeroed and now belongs to the space, and then exactly that page
  translates to exactly that frame with exactly the given permissions, every other page as before; or
  it reports that memory ran out and every page translates as before.  In both cases no memory outside
  what the space owns is written, nothing of the rest of the kernel is lost, and the layout is kept.
\<close>

theorem map_private_exact:
  assumes "heap_laws H" "owns R sp m" "layout k sp m" "va mod 0x1000 = 0" "in_private_region va"
  shows "\<exists>r sp' m'. run_state (map_private_page_with H va perms) (sp, m) = (r, sp', m') \<and> owns R sp' m' \<and> layout k sp' m' \<and>
    (\<forall>f. \<not> covers (owned_extents sp') f \<longrightarrow> mem m' f = mem m f) \<and>
    (case r of
       Ok frame \<Rightarrow> mem m' frame = zero_frame \<and> frame \<in> set (owned_pages sp') \<and> \<not> covers (owned_extents sp) frame \<and>
         page_descriptor sp' m' = (\<lambda>va'. if page_index va' = page_index va then Some (normal_4kib_page_descriptor frame perms) else page_descriptor sp m va')
     | Err e \<Rightarrow> e = OutOfMemory \<and> page_descriptor sp' m' = page_descriptor sp m)"
proof -
  obtain r sp' m' where r: "run_state (map_private_page_with H va perms) (sp, m) = (r, sp', m')" by (metis prod.exhaust)
  show ?thesis using wp_map_tree [OF assms, of perms] unfolding wp_def r by (cases r) (auto simp: tree_def reached_def r)
qed

subsection \<open>The walk of the memory management unit\<close>

text \<open>A walk of the three levels from a root: a block or a page, with its level, or a fault.\<close>

definition mmu_walk :: "Machine \<Rightarrow> u64 \<Rightarrow> u64 \<Rightarrow> (nat \<times> u64) option" where
  "mmu_walk m root va =
     (let d1 = read_entry m root (va_index 30 va) in
      if d1 AND 3 = 1 then Some (1, d1)
      else if d1 AND 3 \<noteq> 3 then None
      else
        let d2 = read_entry m (d1 AND DESC_ADDR_MASK) (va_index 21 va) in
        if d2 AND 3 = 1 then Some (2, d2)
        else if d2 AND 3 \<noteq> 3 then None
        else
          let d3 = read_entry m (d2 AND DESC_ADDR_MASK) (va_index 12 va) in
          if d3 AND 3 = 3 then Some (3, d3) else None)"

lemma walk_step:
  assumes "owns R sp m" "links sp m t i u"
  shows "owned_child sp m t i = None \<Longrightarrow> read_entry m t i = 0"
    "owned_child sp m t i = Some t' \<Longrightarrow> read_entry m t i AND 3 = 3 \<and> read_entry m t i AND DESC_ADDR_MASK = t'"
proof -
  show "read_entry m t i = 0" if "owned_child sp m t i = None"
    using assms(2) that unfolding links_def
  proof (elim disjE bexE)
    fix t' assume t': "t' \<in> set (owned_tables sp) - u" "read_entry m t i = table_descriptor t'"
    have "t' mod 0x1000 = 0" "t' \<le> HEAP_END" using t'(1) owned_table_facts [OF assms(1), of t'] by auto
    from table_descriptor_addr [OF this] show ?thesis using t' that by (simp add: owned_child_def Let_def)
  qed
qed (auto simp: owned_child_def Let_def split: if_splits)

lemma walk_private:
  assumes "owns R sp m" "layout k sp m" "va_index 30 va = 2"
  shows "mmu_walk m (as_root sp) va = map_option (Pair 3) (page_descriptor sp m va)"
proof -
  have lk: "links sp m (as_root sp) 2 {as_root sp}" using assms(2) by (simp add: layout_def)
  show ?thesis
  proof (cases "owned_child sp m (as_root sp) 2")
    case None
    then show ?thesis using walk_step(1) [OF assms(1) lk] assms(3) by (simp add: mmu_walk_def page_descriptor_def)
  next
    case (Some l2)
    have lk2: "links sp m l2 (va_index 21 va) {as_root sp, l2}" using assms(2) Some by (auto simp: layout_def)
    note d1 = walk_step(2) [OF assms(1) lk Some]
    show ?thesis
    proof (cases "owned_child sp m l2 (va_index 21 va)")
      case None
      have "read_entry m l2 (va_index 21 va) = 0" by (rule walk_step(1) [OF assms(1) lk2 None])
      then show ?thesis using d1 assms(3) Some None by (simp add: mmu_walk_def bind_pages)
    next
      case (Some l3)
      note d2 = walk_step(2) [OF assms(1) lk2 Some]
      show ?thesis using d1 d2 assms(3) Some \<open>owned_child sp m (as_root sp) 2 = Some l2\<close>
        by (auto simp: mmu_walk_def bind_pages Let_def)
    qed
  qed
qed


subsection \<open>A new space\<close>

lemma space_new_layout:
  assumes "heap_laws H" "heap_ok m" "kernel_root_ok (active_root m) m" "space_new H m = (Ok sp, m')"
  shows "owns (mset (live (heap_log m))) sp m' \<and> layout (active_root m) sp m' \<and> page_descriptor sp m' va = None \<and>
      ttbr0 m' = ttbr0 m \<and> (\<not> covers (owned_extents sp) f \<longrightarrow> mem m' f = mem m f) \<and> seeded_root sp = active_root m \<and> owned_pages sp = []"
proof -
  let ?k = "active_root m"
  from assms(1) show ?thesis
  proof (cases rule: alloc_page_cases [where m = m])
    case refused
    then show ?thesis
      using assms(4) by (simp add: space_new_def)
  next
    case (fresh p)
    have k: "?k < HEAP_START \<or> HEAP_END \<le> ?k" using assms(3) by (simp add: kernel_root_ok_def)
    have pk: "p \<noteq> ?k" using k fresh(3) by (auto simp: in_heap_def word_le_nat_alt word_less_nat_alt)
    have sp: "sp = \<lparr>as_root = p, owned_tables = [p], seeded_root = ?k, owned_pages = [], owned_blocks = [], pre_free_hook = None\<rparr>"
      and m': "m' = log_event (Alloc p 0x1000) m\<lparr>mem := (mem m)(p := mem m ?k)\<rparr>"
      using assms(4) fresh(1) pk by (auto simp: space_new_def Let_def log_event_def active_root_def)
    have e: "owned_extents sp = [frame_extent p]" by (simp add: sp owned_extents_def ledger_def FRAME_BYTES_def)
    have o: "owns (mset (live (heap_log m))) sp m'"
      using assms(2) fresh(2-4) by (auto simp: owns_def e, auto simp: sp m' heap_ok_def good_mem_def log_event_def)
    have r: "read_entry m' x i = read_entry m (if x = p then ?k else x) i" for x i
      by (simp add: m' read_entry_def log_event_def)
    have kr: "kernel_root_ok ?k m'" using assms(3) pk by (simp add: kernel_root_ok_def r)
    have l: "layout ?k sp m'" using kr assms(3) pk
      by (auto simp: layout_def r links_def owned_child_def Let_def sp kernel_root_ok_def)
    have "owned_child sp m' p 2 = None" using assms(3) by (simp add: owned_child_def r kernel_root_ok_def)
    then have "page_descriptor sp m' va = None"
      using outside_private_None [OF o l] by (cases "va_index 30 va = 2") (auto simp: page_descriptor_def sp)
    then show ?thesis
      using o l by (auto simp: e covers_def, auto simp: sp m' log_event_def)
  qed
qed

subsection \<open>What a mapping writes\<close>

text \<open>Only tables of the space, which are old or fresh, and the new pages \<open>N\<close> are written.\<close>

definition grows :: "u64 set \<Rightarrow> AddressSpace \<times> Machine \<Rightarrow> AddressSpace \<times> Machine \<Rightarrow> bool" where
  "grows N s s' \<longleftrightarrow>
     set (owned_tables (fst s)) \<subseteq> set (owned_tables (fst s')) \<and> set (live (heap_log (snd s))) \<subseteq> set (live (heap_log (snd s'))) \<and>
     (\<forall>t\<in>set (owned_tables (fst s')) - set (owned_tables (fst s)). in_heap (frame_extent t) \<and> \<not> covers (live (heap_log (snd s))) t) \<and>
     (\<forall>f. f \<notin> set (owned_tables (fst s')) \<longrightarrow> f \<notin> N \<longrightarrow> mem (snd s') f = mem (snd s) f)"

lemma grows_refl: "grows {} s s"
  by (simp add: grows_def)

lemma grows_trans: "grows M s t \<Longrightarrow> grows N t u \<Longrightarrow> grows (M \<union> N) s u"
  unfolding grows_def by (auto dest: covers_mono)

lemma wp_descend_grows:
  assumes "heap_laws H" "t \<in> set (owned_tables sp)"
  shows "wp (descend H t i) (\<lambda>r s'. grows {} (sp, m) s' \<and> (\<forall>t'. r = Ok t' \<longrightarrow> t' \<in> set (owned_tables (fst s')))) (sp, m)"
  using assms(1)
proof (cases rule: alloc_page_cases [where m = m])
  case refused
  then show ?thesis unfolding descend_def by (intro wp_state) (auto simp: Let_def grows_def)
next
  case (fresh p)
  have "\<not> covers (live (heap_log m)) p" using apart_uncovered [OF fresh(4)] by auto
  then show ?thesis using fresh assms(2) unfolding descend_def
    by (intro wp_state) (auto simp: Let_def grows_def log_event_def write_entry_def)
qed

lemma wp_to_l3_grows:
  assumes "heap_laws H" "as_root sp \<in> set (owned_tables sp)"
  shows "wp (descend_to_l3 H va) (\<lambda>r s'. grows {} (sp, m) s' \<and> (\<forall>t'. r = Ok t' \<longrightarrow> t' \<in> set (owned_tables (fst s')))) (sp, m)"
proof -
  have "wp (try_bind (descend H (as_root sp) (va_index 30 va)) (\<lambda>l2. descend H l2 (va_index 21 va)))
      (\<lambda>r s'. grows {} (sp, m) s' \<and> (\<forall>t'. r = Ok t' \<longrightarrow> t' \<in> set (owned_tables (fst s')))) (sp, m)"
  proof (rule wp_try, rule wp_mono [OF wp_descend_grows [OF assms]], clarsimp, goal_cases)
    case (1 sp' m' l2)
    show ?case by (rule wp_mono [OF wp_descend_grows [OF assms(1) 1(2)]]) (use grows_trans [OF 1(1)] in fastforce)
  qed
  then show ?thesis by (simp add: descend_to_l3_def wp_def)
qed

lemma wp_map_grows:
  assumes "heap_laws H" "as_root sp \<in> set (owned_tables sp)"
  shows "wp (map_private_page_with H va perms) (\<lambda>r s'. grows {f. r = Ok f} (sp, m) s' \<and>
     (\<forall>f. r = Ok f \<longrightarrow> in_heap (frame_extent f) \<and> f mod 0x1000 = 0 \<and> \<not> covers (live (heap_log m)) f)) (sp, m)"
  unfolding map_private_page_with_def
proof (intro wp_if wp_try wp_return, goal_cases)
  case 3
  show ?case
  proof (rule wp_mono [OF wp_to_l3_grows [OF assms]], clarsimp, goal_cases)
    case (1 sp' m' l3)
    let ?m = "log_event (Reserve (try_reserve H (heap_log m'))) m'"
    from assms(1) show ?case
    proof (cases rule: alloc_page_cases [where m = ?m])
      case refused
      then show ?thesis using 1(1) unfolding take_page_def by (intro wp_state) (auto simp: Let_def grows_def)
    next
      case (fresh p)
      have "\<not> covers (live (heap_log m')) p" using apart_uncovered [OF fresh(4)] by auto
      then have n: "\<not> covers (live (heap_log m)) p" using 1(1) covers_mono by (auto simp: grows_def)
      show ?thesis using fresh(1,3,4) 1 n unfolding take_page_def
        by (intro wp_state) (auto simp: Let_def grows_def log_event_def write_entry_def fresh(2))
    qed
  qed
qed (auto simp: grows_def)

subsection \<open>At boot\<close>

lemma boot_kernel_root: "kernel_root_ok (active_root boot_machine) boot_machine"
  by (simp add: kernel_root_ok_def active_root_def boot_machine_def read_zero)

lemma boot_layout: "layout 0x40001000 boot_space booted_machine" "page_descriptor boot_space booted_machine va = None"
proof -
  have h: "heap_ok boot_machine" by (simp add: heap_ok_def good_mem_def boot_machine_def zero_frame_def)
  have "active_root boot_machine = 0x40001000" by (simp add: active_root_def boot_machine_def)
  with space_new_layout [OF first_fit_laws h boot_kernel_root boot_new] show "layout 0x40001000 boot_space booted_machine" "page_descriptor boot_space booted_machine va = None"
    by simp_all
qed

theorem map_private_exact_witness:
  "heap_laws first_fit \<and> owns {#} boot_space booted_machine \<and> layout 0x40001000 boot_space booted_machine \<and> 0x80200000 mod 0x1000 = (0 :: u64) \<and>
   in_private_region 0x80200000 \<and>
   (\<exists>r sp' m'. run_state (map_private_page_with first_fit 0x80200000 0x40) (boot_space, booted_machine) = (r, sp', m') \<and> owns {#} sp' m' \<and> layout 0x40001000 sp' m' \<and>
    (\<forall>f. \<not> covers (owned_extents sp') f \<longrightarrow> mem m' f = mem booted_machine f) \<and>
    (case r of
       Ok frame \<Rightarrow> mem m' frame = zero_frame \<and> frame \<in> set (owned_pages sp') \<and> \<not> covers (owned_extents boot_space) frame \<and>
         page_descriptor sp' m' = (\<lambda>va'. if page_index va' = page_index 0x80200000 then Some (normal_4kib_page_descriptor frame 0x40) else page_descriptor boot_space booted_machine va')
     | Err e \<Rightarrow> e = OutOfMemory \<and> page_descriptor sp' m' = page_descriptor boot_space booted_machine))"
proof -
  have a: "0x80200000 mod 0x1000 = (0 :: u64)" "in_private_region 0x80200000" by (simp_all add: in_private_region_def)
  show ?thesis using map_private_exact [OF first_fit_laws boot_owns boot_layout(1) a, of "0x40"] first_fit_laws boot_owns boot_layout(1) a by blast
qed


end
