(* ===== verification/Loader.thy ===== *)
theory Loader
  imports Elf Translation
begin

unbundle bit_operations_syntax

text \<open>
  The ELF loader, \<open>kernel-arm/src/loader.rs\<close>: permissions, placement and content of every page of
  an image, and the stack.  It is generic in the address space (\<open>PrivatePageMapper\<close>): the two
  functions \<open>map_page\<close> and \<open>put_page\<close> are parameters of the definitions.  \<open>Loading\<close> states
  their contract and proves the loader over it.
\<close>

subsection \<open>Layout and permissions\<close>

abbreviation STACK_TOP :: u64 where "STACK_TOP \<equiv> PRIVATE_REGION_END"
abbreviation STACK_SIZE :: u64 where "STACK_SIZE \<equiv> 0x4000"
abbreviation STACK_BASE :: u64 where "STACK_BASE \<equiv> 0xBFFFC000"
abbreviation SEGMENT_WINDOW_BASE :: u64 where "SEGMENT_WINDOW_BASE \<equiv> PRIVATE_REGION_BASE"
abbreviation SEGMENT_WINDOW_END :: u64 where "SEGMENT_WINDOW_END \<equiv> 0xBFFEC000"

datatype LoaderError =
    SegmentNotReadable | SegmentWritableAndExecutable | SegmentOutsideWindow u64 u64 | OverlappingSegments u64
  | EntryPointNotExecutable u64 | MapFailed u64 string

fun display_LoaderError :: "LoaderError \<Rightarrow> string" where
  "display_LoaderError SegmentNotReadable = ''PT_LOAD segment is not readable (no PF_R)''"
| "display_LoaderError SegmentWritableAndExecutable = ''PT_LOAD segment is both writable and executable (W^X violation)''"
| "display_LoaderError (SegmentOutsideWindow vaddr end) =
     ''PT_LOAD segment ['' @ show_hex vaddr @ '', '' @ show_hex end @ '') is outside the loadable window ['' @
     show_hex SEGMENT_WINDOW_BASE @ '', '' @ show_hex SEGMENT_WINDOW_END @ '')''"
| "display_LoaderError (OverlappingSegments page) = ''two PT_LOAD segments share the page at '' @ show_hex page"
| "display_LoaderError (EntryPointNotExecutable entry) = ''entry point '' @ show_hex entry @ '' is not inside an executable segment''"
| "display_LoaderError (MapFailed va reason) = ''mapping '' @ show_hex va @ '' failed: '' @ reason"

definition page_permissions :: "u32 \<Rightarrow> (u64, LoaderError) result" where
  "page_permissions flags =
     (let readable = flags AND PF_R \<noteq> 0; writable = flags AND PF_W \<noteq> 0; executable = flags AND PF_X \<noteq> 0 in
      if \<not> readable then Err SegmentNotReadable
      else if writable \<and> executable then Err SegmentWritableAndExecutable
      else if writable then Ok (AP_EL0_RW OR UXN OR PXN)
      else if executable then Ok (AP_EL0_RO OR PXN)
      else Ok (AP_EL0_RO OR UXN OR PXN))"

record LoadedImage =
  img_entry :: u64
  img_stack_top :: u64
  img_stack_base :: u64
  img_segment_pages :: nat
  img_stack_pages :: nat

definition align_down :: "u64 \<Rightarrow> u64" where
  "align_down va = va AND NOT (GRANULE_4KIB - 1)"

subsection \<open>Loading\<close>

type_synonym ('m, 'a) loading = "('m, ('a, LoaderError) result) state"

text \<open>The bytes of the page at \<open>page_va\<close>: zero, but for the part the file content overlaps.\<close>

definition page_image :: "u64 \<Rightarrow> bytes \<Rightarrow> u64 \<Rightarrow> bytes" where
  "page_image vaddr content page_va =
     (let file_end = vaddr + of_nat (length content);
          copy_start = max page_va vaddr; copy_end = min (page_va + GRANULE_4KIB) file_end
      in
      if copy_start < copy_end then
        patch zero_frame (unat (copy_start - page_va))
          (take (unat (copy_end - copy_start)) (drop (unat (copy_start - vaddr)) content))
      else zero_frame)"

text \<open>The values of \<open>page_va\<close> in the loop from the first to the last page of a segment.\<close>

definition pages_between :: "u64 \<Rightarrow> u64 \<Rightarrow> u64 list" where
  "pages_between first_page last_page =
     map (\<lambda>i. first_page + of_nat i * GRANULE_4KIB) [0..<Suc ((unat last_page - unat first_page) div 4096)]"

fun load_pages ::
    "(u64 \<Rightarrow> u64 \<Rightarrow> ('m, u64) loading) \<Rightarrow> (u64 \<Rightarrow> bytes \<Rightarrow> 'm \<Rightarrow> 'm) \<Rightarrow> u64 \<Rightarrow> u64 \<Rightarrow> bytes \<Rightarrow>
     u64 list \<Rightarrow> u64 list \<Rightarrow> ('m, u64 list) loading" where
  "load_pages map_page put_page permissions vaddr content mapped [] = State_Monad.return (Ok mapped)"
| "load_pages map_page put_page permissions vaddr content mapped (page_va # rest) =
     (if page_va \<in> set mapped then State_Monad.return (Err (OverlappingSegments page_va))
      else
        try_bind (map_page page_va permissions) (\<lambda>page.
          do {
            State (\<lambda>s. ((), put_page page (page_image vaddr content page_va) s));
            load_pages map_page put_page permissions vaddr content (page_va # mapped) rest
          }))"

text \<open>The segment loop; \<open>mapped\<close> holds the pages mapped so far, \<open>entry_ok\<close> whether the entry
  point has been seen inside an executable segment.\<close>

fun load_segments ::
    "(u64 \<Rightarrow> u64 \<Rightarrow> ('m, u64) loading) \<Rightarrow> (u64 \<Rightarrow> bytes \<Rightarrow> 'm \<Rightarrow> 'm) \<Rightarrow> Elf64 \<Rightarrow>
     u64 list \<Rightarrow> bool \<Rightarrow> LoadSegment list \<Rightarrow> ('m, u64 list \<times> bool) loading" where
  "load_segments map_page put_page elf mapped entry_ok [] = State_Monad.return (Ok (mapped, entry_ok))"
| "load_segments map_page put_page elf mapped entry_ok (s # rest) =
     (if seg_memsz s = 0 then load_segments map_page put_page elf mapped entry_ok rest
      else
        try_bind (State_Monad.return (page_permissions (seg_flags s))) (\<lambda>permissions.
        try_bind (State_Monad.return (ok_or (checked_add (seg_vaddr s) (seg_memsz s)) (SegmentOutsideWindow (seg_vaddr s) (- 1)))) (\<lambda>end.
          if seg_vaddr s < SEGMENT_WINDOW_BASE \<or> SEGMENT_WINDOW_END < end then
            State_Monad.return (Err (SegmentOutsideWindow (seg_vaddr s) end))
          else
            try_bind (load_pages map_page put_page permissions (seg_vaddr s) (segment_bytes elf s) mapped
                (pages_between (align_down (seg_vaddr s)) (align_down (end - 1)))) (\<lambda>mapped.
              load_segments map_page put_page elf mapped
                (entry_ok \<or> (is_executable s \<and> seg_vaddr s \<le> elf_entry elf \<and> elf_entry elf < end)) rest))))"

fun load_stack ::
    "(u64 \<Rightarrow> u64 \<Rightarrow> ('m, u64) loading) \<Rightarrow> (u64 \<Rightarrow> bytes \<Rightarrow> 'm \<Rightarrow> 'm) \<Rightarrow> nat list \<Rightarrow> ('m, unit) loading" where
  "load_stack map_page put_page [] = State_Monad.return (Ok ())"
| "load_stack map_page put_page (i # rest) =
     try_bind (map_page (STACK_BASE + of_nat i * GRANULE_4KIB) (AP_EL0_RW OR UXN OR PXN)) (\<lambda>page.
       do {
         State (\<lambda>s. ((), put_page page zero_frame s));
         load_stack map_page put_page rest
       })"

definition load ::
    "(u64 \<Rightarrow> u64 \<Rightarrow> ('m, u64) loading) \<Rightarrow> (u64 \<Rightarrow> bytes \<Rightarrow> 'm \<Rightarrow> 'm) \<Rightarrow> Elf64 \<Rightarrow> ('m, LoadedImage) loading" where
  "load map_page put_page elf =
     try_bind (load_segments map_page put_page elf [] False (segments elf)) (\<lambda>(mapped, entry_is_executable).
       if \<not> entry_is_executable then State_Monad.return (Err (EntryPointNotExecutable (elf_entry elf)))
       else
         let stack_pages = unat (STACK_SIZE div GRANULE_4KIB) in
         try_bind (load_stack map_page put_page [0..<stack_pages]) (\<lambda>_.
           State_Monad.return (Ok \<lparr>img_entry = elf_entry elf, img_stack_top = STACK_TOP, img_stack_base = STACK_BASE,
             img_segment_pages = length mapped, img_stack_pages = stack_pages\<rparr>)))"

text \<open>\<open>impl PrivatePageMapper for AddressSpace\<close>, \<open>kernel-arm/src/load_proof.rs\<close>; the returned page
  is written through the kernel's mapping of its frame.\<close>

definition space_map_page :: "heap_env \<Rightarrow> u64 \<Rightarrow> u64 \<Rightarrow> (AddressSpace \<times> Machine, u64) loading" where
  "space_map_page H va permissions =
     do {
       r \<leftarrow> map_private_page_with H va permissions;
       State_Monad.return (case r of Ok f \<Rightarrow> Ok f | Err e \<Rightarrow> Err (MapFailed va (space_error_message e)))
     }"

definition space_put_page :: "u64 \<Rightarrow> bytes \<Rightarrow> AddressSpace \<times> Machine \<Rightarrow> AddressSpace \<times> Machine" where
  "space_put_page f bs s = (fst s, (snd s)\<lparr>mem := (mem (snd s))(f := bs)\<rparr>)"

subsection \<open>Pages as the program sees them\<close>

definition page_frame :: "u64 \<Rightarrow> u64" where
  "page_frame d = d AND DESC_ADDR_MASK"

definition page_perms :: "u64 \<Rightarrow> u64" where
  "page_perms d = d AND (0xC0 OR UXN OR PXN)"

definition user_page :: "AddressSpace \<times> Machine \<Rightarrow> u64 \<Rightarrow> (u64 \<times> bytes) option" where
  "user_page s va =
     (if va mod 0x1000 = 0 \<and> in_private_region va
      then map_option (\<lambda>d. (page_perms d, mem (snd s) (page_frame d))) (page_descriptor (fst s) (snd s) va) else None)"

definition legal_perms :: "u64 \<Rightarrow> bool" where
  "legal_perms p \<longleftrightarrow> p \<in> {AP_EL0_RW OR UXN OR PXN, AP_EL0_RO OR PXN, AP_EL0_RO OR UXN OR PXN}"

text \<open>The frame of a page is no table, and is owned or outside the heap.\<close>

definition leaf_ok :: "AddressSpace \<Rightarrow> u64 \<Rightarrow> bool" where
  "leaf_ok sp f \<longleftrightarrow> f \<notin> set (owned_tables sp) \<and> (covers (owned_extents sp) f \<or> f < HEAP_START \<or> HEAP_END \<le> f)"

text \<open>A space in good order, in a machine that is still as in \<open>M\<close> wherever the space owns nothing.\<close>

definition good_space :: "heap_env \<Rightarrow> Extent multiset \<Rightarrow> u64 \<Rightarrow> Machine \<Rightarrow> AddressSpace \<times> Machine \<Rightarrow> bool" where
  "good_space H R k M s \<longleftrightarrow> heap_laws H \<and> owns R (fst s) (snd s) \<and> layout k (fst s) (snd s) \<and>
     (\<forall>va d. page_descriptor (fst s) (snd s) va = Some d \<longrightarrow> leaf_ok (fst s) (page_frame d)) \<and>
     (\<forall>f. \<not> covers (owned_extents (fst s)) f \<longrightarrow> mem (snd s) f = mem M f) \<and> ttbr0 (snd s) = ttbr0 M"

lemma descriptor_parts:
  assumes "f mod 0x1000 = 0" "f \<le> HEAP_END" "legal_perms p"
  shows "page_frame (normal_4kib_page_descriptor f p) = f" "page_perms (normal_4kib_page_descriptor f p) = p"
proof -
  have m: "f AND DESC_ADDR_MASK = f" by (rule mask_aligned [OF assms(1,2)])
  have z: "f AND 0x600000000000C0 = 0"
  proof -
    have "f AND 0x600000000000C0 = (f AND DESC_ADDR_MASK) AND 0x600000000000C0" by (simp only: m)
    also have "\<dots> = f AND (DESC_ADDR_MASK AND 0x600000000000C0)" by (rule and.assoc)
    finally show ?thesis by simp
  qed
  have d: "normal_4kib_page_descriptor f p = f OR (0x707 OR p)"
    by (simp add: normal_4kib_page_descriptor_def or.assoc [symmetric])
  have pm: "0xC0 OR UXN OR PXN = 0x600000000000C0" by simp
  have c: "(0x707 OR p) AND DESC_ADDR_MASK = 0" "(0x707 OR p) AND 0x600000000000C0 = p"
    using assms(3) by (auto simp: legal_perms_def)
  show "page_frame (normal_4kib_page_descriptor f p) = f" "page_perms (normal_4kib_page_descriptor f p) = p"
    unfolding page_frame_def page_perms_def d pm bit.conj_disj_distrib2 [of f "0x707 OR p"] m z c by simp_all
qed

lemma page_index_inj:
  assumes "va mod 0x1000 = 0" "in_private_region va" "va' mod 0x1000 = 0" "in_private_region va'" "page_index va = page_index va'"
  shows "va = va'"
proof -
  have u: "unat x mod 4096 = 0 \<and> unat x < 2 ^ 32" if "x mod 0x1000 = 0" "in_private_region x" for x :: u64
    using that by (simp add: in_private_region_def word_less_nat_alt word_le_nat_alt word_unat_eq_iff unat_mod)
  note ux = u [OF assms(1,2)] and uy = u [OF assms(3,4)]
  have split: "n = n div 2 ^ 30 mod 512 * 2 ^ 30 + n div 2 ^ 21 mod 512 * 2 ^ 21 + n div 2 ^ 12 mod 512 * 2 ^ 12" if "n mod 4096 = 0" "n < 2 ^ 32" for n :: nat
  proof -
    define d where "d = n div 4096"
    have n: "n = d * 4096" using that(1) div_mult_mod_eq [of n 4096] by (simp add: d_def)
    have a: "n div 2 ^ 12 = d" "n div 2 ^ 21 = d div 512" "n div 2 ^ 30 = d div 512 div 512"
      by (simp_all add: d_def div_mult2_eq [symmetric])
    have "d div 512 div 512 < 512" using that(2) n by simp
    then have "d = (d div 512 div 512 mod 512 * 512 + d div 512 mod 512) * 512 + d mod 512"
      by (simp only: mod_less div_mult_mod_eq)
    moreover have "n = x * 2 ^ 30 + y * 2 ^ 21 + z * 2 ^ 12" if "d = (x * 512 + y) * 512 + z" for x y z using that n by simp
    ultimately show ?thesis unfolding a by blast
  qed
  have "unat va = unat va'"
    using assms(5) split [of "unat va"] split [of "unat va'"] ux uy unfolding page_index_def va_index_eq by simp
  then show ?thesis by (simp only: word_unat_eq_iff)
qed

lemma page_not_table:
  assumes "owns R sp m" "t \<in> set (owned_tables sp)" "f \<in> set (owned_pages sp)"
  shows "t \<noteq> f"
proof
  assume "t = f"
  then have "{#frame_extent f, frame_extent f#} \<subseteq># mset (owned_extents sp)"
    using assms(2,3) by (auto simp: owned_extents_eq dest!: split_list)
  then have "separate [frame_extent f, frame_extent f]"
    using separate_sub [of "[frame_extent f, frame_extent f]" "owned_extents sp"] owned_separate(1) [OF assms(1)] by simp
  then show False by (simp add: apart_def)
qed

lemma leaf_kept:
  assumes "owns R sp m" "grows N (sp, m) (sp', m')" "set (owned_extents sp) \<subseteq> set (owned_extents sp')" "leaf_ok sp f"
  shows "leaf_ok sp' f" "in_heap (frame_extent g) \<Longrightarrow> \<not> covers (live (heap_log m)) g \<Longrightarrow> f \<noteq> g"
proof -
  show n: "f \<noteq> g" if "in_heap (frame_extent g)" "\<not> covers (live (heap_log m)) g" for g
    using that assms(4) covers_mono [OF owns_live [OF assms(1)]]
    by (auto simp: leaf_ok_def in_heap_def word_le_nat_alt word_less_nat_alt)
  have "f \<notin> set (owned_tables sp')"
    using assms(2,4) n by (fastforce simp: grows_def leaf_ok_def)
  then show "leaf_ok sp' f" using assms(4) covers_mono [OF assms(3)] by (auto simp: leaf_ok_def)
qed

lemma space_map_Ok:
  assumes "good_space H R k M s" "va mod 0x1000 = 0" "in_private_region va" "legal_perms perms" "length bs = 4096"
    and "run_state (space_map_page H va perms) s = (Ok f, s')"
  shows "good_space H R k M (space_put_page f bs s')" "user_page (space_put_page f bs s') = (user_page s)(va \<mapsto> (perms, bs))"
proof -
  obtain sp m sp' m' where s: "s = (sp, m)" "s' = (sp', m')" by (cases s, cases s')
  have H: "heap_laws H" and o: "owns R sp m" "layout k sp m" and lf: "page_descriptor sp m x = Some d \<Longrightarrow> leaf_ok sp (page_frame d)"
    and M: "\<not> covers (owned_extents sp) y \<Longrightarrow> mem m y = mem M y" "ttbr0 m = ttbr0 M" for x d y
    using assms(1) by (auto simp: good_space_def s)
  have root: "as_root sp \<in> set (owned_tables sp)" using o(1) by (simp add: owns_def)
  have run: "run_state (map_private_page_with H va perms) (sp, m) = (Ok f, sp', m')"
    using assms(6) by (auto simp: s space_map_page_def split: result.splits prod.splits)
  let ?d = "normal_4kib_page_descriptor f perms" and ?m = "m'\<lparr>mem := (mem m')(f := bs)\<rparr>"
  have tr: "tree k R sp m (\<lambda>x. if page_index x = page_index va then Some ?d else page_descriptor sp m x) sp' m'" and fp: "f \<in> set (owned_pages sp')"
    using wp_map_tree [OF H o assms(2,3), of perms] by (simp_all add: wp_def run)
  have gr: "grows {f} (sp, m) (sp', m')" "in_heap (frame_extent f)" "f mod 0x1000 = 0" "\<not> covers (live (heap_log m)) f"
    using wp_map_grows [OF H root, of va perms m] by (simp_all add: wp_def run)
  have o': "owns R sp' m'" "layout k sp' m'" "as_root sp' \<in> set (owned_tables sp')" and sub: "set (owned_extents sp) \<subseteq> set (owned_extents sp')"
    and tt: "ttbr0 m' = ttbr0 M"
    using tr M(2) by (auto simp: tree_def reached_def owns_def)
  have nt: "f \<notin> set (owned_tables sp')" using page_not_table [OF o'(1) _ fp] by blast
  have kf: "k \<noteq> f" using o(2) gr(2) by (auto simp: layout_def kernel_root_ok_def in_heap_def word_le_nat_alt word_less_nat_alt)
  have fe: "f \<le> HEAP_END" using gr(2) by (simp add: in_heap_def word_le_nat_alt)
  note parts = descriptor_parts [OF gr(3) fe assms(4)]
  have ta: "page_descriptor sp' ?m x = page_descriptor sp' m' x" "layout k sp' ?m = layout k sp' m'" for x
    by (rule tables_agree [where k = k]; use o'(3) nt kf in auto)+
  have T: "page_descriptor sp' ?m x = (if page_index x = page_index va then Some ?d else page_descriptor sp m x)" for x
    using tr unfolding ta by (simp add: tree_def)
  have ow: "owns R sp' ?m" using o'(1) assms(5) by (simp add: owns_def heap_ok_def good_mem_def)
  note lk = leaf_kept [OF o(1) gr(1) sub]
  have "leaf_ok sp' f" using nt covers_page [OF fp] by (simp add: leaf_ok_def)
  then have "leaf_ok sp' (page_frame d)" if "page_descriptor sp' ?m x = Some d" for x d
    using that lk(1) [OF lf] parts(1) unfolding T by (auto split: if_splits)
  moreover have "mem ?m y = mem M y" if "\<not> covers (owned_extents sp') y" for y
    using that tr M(1) [of y] covers_mono [OF sub, of y] covers_page [OF fp] by (auto simp: tree_def reached_def)
  ultimately show "good_space H R k M (space_put_page f bs s')"
    using H ow ta(2) o'(2) tt by (simp add: good_space_def space_put_page_def s)
  have c: "mem ?m (page_frame d) = mem m (page_frame d)" if "page_descriptor sp m x = Some d" for x d
    using lk(1) [OF lf [OF that]] lk(2) [OF lf [OF that] gr(2,4)] gr(1) by (simp add: grows_def leaf_ok_def)
  show "user_page (space_put_page f bs s') = (user_page s)(va \<mapsto> (perms, bs))"
  proof
    fix x
    show "user_page (space_put_page f bs s') x = ((user_page s)(va \<mapsto> (perms, bs))) x"
    proof (cases "x = va")
      case True
      then show ?thesis using assms(2,3) T [of va] parts by (simp add: user_page_def space_put_page_def s)
    next
      case False
      have "user_page (space_put_page f bs s') x = user_page s x"
      proof (cases "x mod 0x1000 = 0 \<and> in_private_region x")
        case inside: True
        have "page_index x \<noteq> page_index va"
          using False page_index_inj [OF conjunct1 [OF inside] conjunct2 [OF inside] assms(2,3)] by blast
        then have "page_descriptor sp' ?m x = page_descriptor sp m x" using T [of x] by simp
        then show ?thesis using c [of x] unfolding user_page_def if_P [OF inside]
          by (cases "page_descriptor sp m x") (simp_all add: space_put_page_def s)
      next
        case outside: False
        show ?thesis unfolding user_page_def if_not_P [OF outside] ..
      qed
      then show ?thesis using False by simp
    qed
  qed
qed

lemma space_map_Err:
  assumes "good_space H R k M s" "va mod 0x1000 = 0" "in_private_region va"
    and "run_state (space_map_page H va perms) s = (Err e, s')"
  shows "good_space H R k M s'" "user_page s' = user_page s" "\<exists>reason. e = MapFailed va reason"
proof -
  obtain sp m sp' m' where s: "s = (sp, m)" "s' = (sp', m')" by (cases s, cases s')
  have H: "heap_laws H" and o: "owns R sp m" "layout k sp m" and lf: "page_descriptor sp m x = Some d \<Longrightarrow> leaf_ok sp (page_frame d)"
    and M: "\<not> covers (owned_extents sp) y \<Longrightarrow> mem m y = mem M y" "ttbr0 m = ttbr0 M" for x d y
    using assms(1) by (auto simp: good_space_def s)
  have root: "as_root sp \<in> set (owned_tables sp)" using o(1) by (simp add: owns_def)
  obtain e' where run: "run_state (map_private_page_with H va perms) (sp, m) = (Err e', sp', m')" and e: "\<exists>reason. e = MapFailed va reason"
    using assms(4) by (auto simp: s space_map_page_def split: result.splits prod.splits)
  have tr: "tree k R sp m (page_descriptor sp m) sp' m'" using wp_map_tree [OF H o assms(2,3), of perms] by (simp add: wp_def run)
  have gr: "grows {} (sp, m) (sp', m')" using wp_map_grows [OF H root, of va perms m] by (simp add: wp_def run)
  have o': "owns R sp' m'" "layout k sp' m'" "page_descriptor sp' m' = page_descriptor sp m" and sub: "set (owned_extents sp) \<subseteq> set (owned_extents sp')"
    and tt: "ttbr0 m' = ttbr0 M"
    using tr M(2) by (auto simp: tree_def reached_def)
  note lk = leaf_kept(1) [OF o(1) gr sub lf]
  have "mem m' y = mem M y" if "\<not> covers (owned_extents sp') y" for y
    using that tr M(1) [of y] covers_mono [OF sub, of y] by (auto simp: tree_def reached_def)
  then show "good_space H R k M s'" using H o' lk tt by (simp add: good_space_def s)
  have c: "mem m' (page_frame d) = mem m (page_frame d)" if "page_descriptor sp m x = Some d" for x d
    using lk [OF that] gr by (simp add: grows_def leaf_ok_def)
  have "map_option (\<lambda>d. (page_perms d, mem m' (page_frame d))) (page_descriptor sp m x) =
    map_option (\<lambda>d. (page_perms d, mem m (page_frame d))) (page_descriptor sp m x)" for x
    using c [of x] by (cases "page_descriptor sp m x") simp_all
  then show "user_page s' = user_page s" unfolding user_page_def s fst_conv snd_conv o'(3) by (simp only:)
  show "\<exists>reason. e = MapFailed va reason" by (rule e)
qed

subsection \<open>The pages of an image\<close>

lemma unat_align_down: "unat (align_down va) = unat va div 4096 * 4096"
proof -
  have m: "GRANULE_4KIB - 1 = mask 12" by (simp add: mask_eq_exp_minus_1)
  have "align_down va = push_bit 12 (drop_bit 12 va)"
    unfolding align_down_def m by (rule bit_word_eqI) (auto simp: bit_simps)
  also have "\<dots> = of_nat (unat va div 4096 * 4096)"
    by (simp add: push_bit_eq_mult word_unat_eq_iff unsigned_drop_bit_eq drop_bit_eq_div unat_word_ariths unsigned_of_nat take_bit_eq_mod)
  finally have "unat (align_down va) = unat (of_nat (unat va div 4096 * 4096) :: u64)" by (simp only:)
  also have "\<dots> = unat va div 4096 * 4096"
    by (rule unat_of_nat_lt) (use unat_bound [of va] div_times_less_eq_dividend [of "unat va" 4096] in simp)
  finally show ?thesis .
qed

lemma length_page_image:
  assumes "in_private_region p"
  shows "length (page_image vaddr content p) = 4096"
proof -
  have p: "unat (p + GRANULE_4KIB) = unat p + 4096"
    using assms by (simp add: in_private_region_def word_le_nat_alt word_less_nat_alt unat_word_ariths)
  let ?a = "max p vaddr" and ?b = "min (p + GRANULE_4KIB) (vaddr + of_nat (length content))"
  have "unat (?a - p) + unat (?b - ?a) \<le> 4096" if "?a < ?b"
  proof -
    have o: "p \<le> ?a" "?a \<le> ?b" "?b \<le> p + GRANULE_4KIB" by (rule max.cobounded1, rule less_imp_le [OF that], rule min.cobounded1)
    then have "unat (?a - p) = unat ?a - unat p" "unat (?b - ?a) = unat ?b - unat ?a"
      by (simp_all only: unat_sub)
    then show ?thesis using o unfolding word_le_nat_alt p by linarith
  qed
  then show ?thesis
    by (auto simp: page_image_def Let_def zero_frame_def intro!: trans [OF length_patch])
qed

lemma page_image_byte:
  assumes "in_private_region p" "unat vaddr + length content < 2 ^ 64" "i < 4096"
  shows "page_image vaddr content p ! i =
    (if unat vaddr \<le> unat p + i \<and> unat p + i < unat vaddr + length content then content ! (unat p + i - unat vaddr) else 0)"
proof -
  have p: "unat (p + GRANULE_4KIB) = unat p + 4096"
    using assms(1) by (simp add: in_private_region_def word_le_nat_alt word_less_nat_alt unat_word_ariths)
  have e: "unat (vaddr + of_nat (length content)) = unat vaddr + length content"
    using assms(2) by (simp add: unat_word_ariths unsigned_of_nat take_bit_nat_eq_self)
  let ?a = "max p vaddr" and ?b = "min (p + GRANULE_4KIB) (vaddr + of_nat (length content))"
  have u: "unat ?a = max (unat p) (unat vaddr)" "unat ?b = min (unat p + 4096) (unat vaddr + length content)"
    by (simp_all add: max_def min_def word_le_nat_alt p e)
  show ?thesis
  proof (cases "?a < ?b")
    case True
    have o: "p \<le> ?a" "vaddr \<le> ?a" "?a \<le> ?b" by (rule max.cobounded1, rule max.cobounded2, rule less_imp_le [OF True])
    have s: "unat (?a - p) = unat ?a - unat p" "unat (?b - ?a) = unat ?b - unat ?a" "unat (?a - vaddr) = unat ?a - unat vaddr"
      using o by (simp_all only: unat_sub)
    let ?ys = "take (unat ?b - unat ?a) (drop (unat ?a - unat vaddr) content)"
    have "page_image vaddr content p = patch zero_frame (unat ?a - unat p) ?ys"
      using True by (simp only: page_image_def Let_def if_True s)
    moreover have l: "length ?ys = unat ?b - unat ?a" unfolding u by auto
    moreover have ab: "unat ?a < unat ?b" using True by (simp only: word_less_nat_alt)
    ultimately have n: "page_image vaddr content p ! i =
        (if unat ?a - unat p \<le> i \<and> i < unat ?a - unat p + (unat ?b - unat ?a) then ?ys ! (i - (unat ?a - unat p)) else 0)"
      using assms(3) nth_patch [of i zero_frame "unat ?a - unat p" ?ys] by (simp add: u zero_frame_def)
    have c: "unat ?a - unat p \<le> i \<and> i < unat ?a - unat p + (unat ?b - unat ?a) \<longleftrightarrow>
        unat vaddr \<le> unat p + i \<and> unat p + i < unat vaddr + length content"
      using assms(3) ab unfolding u by linarith
    show ?thesis
    proof (cases "unat vaddr \<le> unat p + i \<and> unat p + i < unat vaddr + length content")
      case inside: True
      then have i: "unat ?a - unat p \<le> i" "i - (unat ?a - unat p) < unat ?b - unat ?a" using iffD2 [OF c inside] by linarith+
      have d: "unat ?a - unat vaddr \<le> length content" using ab unfolding u by linarith
      have "unat ?a - unat vaddr + (i - (unat ?a - unat p)) = unat p + i - unat vaddr" using i(1) unfolding u by linarith
      then have "?ys ! (i - (unat ?a - unat p)) = content ! (unat p + i - unat vaddr)"
        using i(2) d by (simp only: nth_take nth_drop)
      then show ?thesis using n c inside by (simp only: if_True)
    next
      case outside: False
      then show ?thesis using n unfolding c by (simp only: if_False)
    qed
  next
    case False
    then have ab: "\<not> unat ?a < unat ?b" unfolding word_less_nat_alt .
    have "page_image vaddr content p = zero_frame" using False by (simp only: page_image_def Let_def if_False)
    moreover have "\<not> (unat vaddr \<le> unat p + i \<and> unat p + i < unat vaddr + length content)"
      using ab assms(3) unfolding u by linarith
    ultimately show ?thesis using assms(3) by (simp only: if_False zero_frame_def nth_replicate)
  qed
qed

abbreviation loadable :: "LoadSegment list \<Rightarrow> LoadSegment list" where
  "loadable ss \<equiv> filter (\<lambda>s. seg_memsz s \<noteq> 0) ss"

definition seg_pages :: "LoadSegment \<Rightarrow> u64 list" where
  "seg_pages s = pages_between (align_down (seg_vaddr s)) (align_down (seg_vaddr s + seg_memsz s - 1))"

definition seg_perms :: "LoadSegment \<Rightarrow> u64" where
  "seg_perms s = (case page_permissions (seg_flags s) of Ok p \<Rightarrow> p | Err _ \<Rightarrow> 0)"

definition seg_fits :: "LoadSegment \<Rightarrow> bool" where
  "seg_fits s \<longleftrightarrow> page_permissions (seg_flags s) = Ok (seg_perms s) \<and> SEGMENT_WINDOW_BASE \<le> seg_vaddr s \<and>
     unat (seg_vaddr s) + unat (seg_memsz s) \<le> unat SEGMENT_WINDOW_END"

definition seg_plan :: "Elf64 \<Rightarrow> LoadSegment \<Rightarrow> (u64 \<times> u64 \<times> bytes) list" where
  "seg_plan elf s = map (\<lambda>p. (p, seg_perms s, page_image (seg_vaddr s) (segment_bytes elf s) p)) (seg_pages s)"

definition in_exec :: "Elf64 \<Rightarrow> LoadSegment \<Rightarrow> bool" where
  "in_exec elf s \<longleftrightarrow> is_executable s \<and> unat (seg_vaddr s) \<le> unat (elf_entry elf) \<and> unat (elf_entry elf) < unat (seg_vaddr s) + unat (seg_memsz s)"

text \<open>What makes an image loadable.\<close>

definition image_ok :: "Elf64 \<Rightarrow> bool" where
  "image_ok elf \<longleftrightarrow> list_all seg_fits (loadable (segments elf)) \<and> distinct (concat (map seg_pages (loadable (segments elf)))) \<and>
     list_ex (in_exec elf) (loadable (segments elf))"

definition stack_plan :: "(u64 \<times> u64 \<times> bytes) list" where
  "stack_plan = map (\<lambda>i. (STACK_BASE + of_nat i * GRANULE_4KIB, AP_EL0_RW OR UXN OR PXN, zero_frame)) [0..<4]"

definition load_plan :: "Elf64 \<Rightarrow> (u64 \<times> u64 \<times> bytes) list" where
  "load_plan elf = concat (map (seg_plan elf) (loadable (segments elf)))"

lemma page_permissions_Ok: "page_permissions flags = Ok p \<Longrightarrow> legal_perms p"
  by (auto simp: page_permissions_def legal_perms_def Let_def split: if_splits)

lemma seg_pages_unat:
  assumes "seg_fits s" "seg_memsz s \<noteq> 0" "p \<in> set (seg_pages s)"
  shows "unat p mod 4096 = 0" "unat (seg_vaddr s) div 4096 * 4096 \<le> unat p" "unat p < unat (seg_vaddr s) + unat (seg_memsz s)"
    "p mod 0x1000 = 0" "in_private_region p"
proof -
  let ?v = "unat (seg_vaddr s)" and ?n = "unat (seg_memsz s)"
  have n: "0 < ?n" using assms(2) by (simp add: word_unat_eq_iff)
  have w: "?v + ?n \<le> 0xBFFEC000" "0x80000000 \<le> ?v" using assms(1) by (simp_all add: seg_fits_def word_le_nat_alt)
  have "unat (seg_vaddr s + seg_memsz s - 1) = ?v + ?n - 1"
    using w n by (simp add: unat_word_ariths unat_sub_if')
  then have l: "unat (align_down (seg_vaddr s + seg_memsz s - 1)) = (?v + ?n - 1) div 4096 * 4096" by (simp add: unat_align_down)
  have "p \<in> (\<lambda>i. align_down (seg_vaddr s) + of_nat i * GRANULE_4KIB) ` {0..<Suc (((?v + ?n - 1) div 4096 * 4096 - ?v div 4096 * 4096) div 4096)}"
    using assms(3) unfolding seg_pages_def pages_between_def l unat_align_down [of "seg_vaddr s"] set_map set_upt .
  then obtain i where i0: "p = align_down (seg_vaddr s) + of_nat i * GRANULE_4KIB"
      "i \<in> {0..<Suc (((?v + ?n - 1) div 4096 * 4096 - ?v div 4096 * 4096) div 4096)}" by (rule imageE)
  have i: "i \<le> ((?v + ?n - 1) div 4096 * 4096 - ?v div 4096 * 4096) div 4096" "p = align_down (seg_vaddr s) + of_nat i * GRANULE_4KIB"
    using i0 by (simp_all only: atLeastLessThan_iff less_Suc_eq_le)
  have i': "?v div 4096 + i \<le> (?v + ?n - 1) div 4096"
  proof -
    have "?v div 4096 \<le> (?v + ?n - 1) div 4096" using n by (intro div_le_mono) simp
    moreover have "i \<le> (?v + ?n - 1) div 4096 - ?v div 4096" using i(1) by (simp add: diff_mult_distrib [symmetric])
    ultimately show ?thesis by (simp only: le_diff_conv2 add.commute)
  qed
  then have b: "(?v div 4096 + i) * 4096 \<le> ?v + ?n - 1" by (metis div_times_less_eq_dividend le_trans mult_le_mono1)
  have "unat (of_nat i * GRANULE_4KIB :: u64) = i * 4096"
    using b w by (simp add: unat_word_ariths unsigned_of_nat take_bit_eq_mod)
  then have u: "unat p = (?v div 4096 + i) * 4096"
    unfolding i(2) using b w by (simp add: unat_word_ariths unat_align_down)
  show m: "unat p mod 4096 = 0" "?v div 4096 * 4096 \<le> unat p" "unat p < ?v + ?n" using u b n by simp_all
  show "p mod 0x1000 = 0" using m(1) by (simp add: word_unat_eq_iff unat_mod)
  have "0x80000000 div 4096 \<le> ?v div 4096" by (rule div_le_mono [OF w(2)])
  then have "0x80000 * 4096 \<le> ?v div 4096 * 4096" by (intro mult_le_mono1) simp
  from le_trans [OF this m(2)] have "0x80000000 \<le> unat p" by simp
  moreover have "unat p < 0xC0000000" using m(3) w(1) by linarith
  ultimately show "in_private_region p" unfolding in_private_region_def word_le_nat_alt word_less_nat_alt by simp
qed

end
