(* ===== verification/Loading.thy ===== *)
theory Loading
  imports Loader
begin

unbundle bit_operations_syntax

text \<open>
  What the loader of \<open>Loader\<close> does: the contract of an address space as the loader uses it (the
  locale \<open>page_mapper\<close>), loading proved over the contract, the contract kept by the address spaces
  of \<open>Paging\<close>, and what a program then finds at every address.
\<close>

subsection \<open>The contract of a mapper, and loading over it\<close>

text \<open>How far a load has come: what is planned is mapped, or an error is reported, which the plan's
  verdict allows only as a refused mapping.\<close>

definition step_to :: "('m \<Rightarrow> bool) \<Rightarrow> ('m \<Rightarrow> u64 \<Rightarrow> (u64 \<times> bytes) option) \<Rightarrow> 'm \<Rightarrow> (u64 \<times> u64 \<times> bytes) list \<Rightarrow> bool \<Rightarrow> 'm \<Rightarrow> ('a, LoaderError) result \<Rightarrow> bool" where
  "step_to good view s plan verdict s' r \<longleftrightarrow> good s' \<and>
     (case r of
        Ok _ \<Rightarrow> verdict \<and> view s' = view s ++ map_of plan
      | Err e \<Rightarrow> (verdict \<longrightarrow> (\<exists>va reason. e = MapFailed va reason)) \<and> (\<forall>va. va \<notin> fst ` set plan \<longrightarrow> view s' va = view s va))"

lemma step_to_trans:
  assumes "step_to good view s P v t (Ok a)" "step_to good view t Q w u r"
    and "x \<longleftrightarrow> v \<and> w" "v \<Longrightarrow> w \<Longrightarrow> fst ` set P \<inter> fst ` set Q = {}"
  shows "step_to good view s (P @ Q) x u r"
proof (cases r)
  case (Ok b)
  have "dom (map_of P) \<inter> dom (map_of Q) = {}" using assms(1,2,4) Ok by (simp add: step_to_def dom_map_of_conv_image_fst)
  then have "map_of P ++ map_of Q = map_of Q ++ map_of P" by (rule map_add_comm)
  then have "view s ++ map_of P ++ map_of Q = view s ++ map_of Q ++ map_of P" by (metis map_add_assoc)
  then show ?thesis using assms(1-3) Ok by (simp add: step_to_def)
next
  case (Err e)
  have "view t va = view s va" if "va \<notin> fst ` set P" for va
    using assms(1) that map_of_eq_None_iff [of P va] by (simp add: step_to_def map_add_def)
  then show ?thesis using assms(1-3) Err by (auto simp: step_to_def image_Un)
qed

lemma plan_pages: "(p, y) \<in> set (seg_plan elf a) \<Longrightarrow> p \<in> set (seg_pages a)"
  by (auto simp: seg_plan_def)

lemma upto_four: "[0..<4] = [0, 1, 2, 3]"
  by (simp add: upt_rec)

lemma stack_pages: "fst ` set stack_plan = {0xBFFFC000, 0xBFFFD000, 0xBFFFE000, 0xBFFFF000}"
  by (simp add: stack_plan_def upto_four)

lemma plan_stack_apart:
  assumes "list_all seg_fits (loadable (segments elf))"
  shows "fst ` set (load_plan elf) \<inter> fst ` set stack_plan = {}"
proof -
  have "unat p < 0xBFFEC000" if "p \<in> fst ` set (load_plan elf)" for p
  proof -
    obtain x where x: "x \<in> set (segments elf)" "seg_memsz x \<noteq> 0" "p \<in> set (seg_pages x)"
      using \<open>p \<in> fst ` set (load_plan elf)\<close> by (auto simp: load_plan_def dest!: plan_pages)
    then have f: "seg_fits x" using assms by (simp add: list_all_iff)
    then show ?thesis using seg_pages_unat(3) [OF f x(2,3)] by (simp add: seg_fits_def)
  qed
  then show ?thesis unfolding stack_pages by fastforce
qed

lemma load_segment_refused:
  assumes "seg_memsz x \<noteq> 0" "\<not> seg_fits x"
  shows "\<exists>e. load_segments map_page put_page elf seen entry (x # ss) = State_Monad.return (Err e)"
  using assms
  by (auto simp: try_bind_def seg_fits_def seg_perms_def checked_add_def word_le_nat_alt word_less_nat_alt unat_word_ariths page_permissions_def Let_def
      split: result.splits option.splits if_splits)

lemma load_segment_accepted:
  assumes "seg_memsz x \<noteq> 0" "seg_fits x"
  shows "load_segments map_page put_page elf seen entry (x # ss) =
    try_bind (load_pages map_page put_page (seg_perms x) (seg_vaddr x) (segment_bytes elf x) seen (seg_pages x))
      (\<lambda>seen. load_segments map_page put_page elf seen (entry \<or> in_exec elf x) ss)"
proof -
  have e: "unat (seg_vaddr x) + unat (seg_memsz x) < 2 ^ 64" "unat (seg_vaddr x + seg_memsz x) = unat (seg_vaddr x) + unat (seg_memsz x)"
    "page_permissions (seg_flags x) = Ok (seg_perms x)" "\<not> (seg_vaddr x < SEGMENT_WINDOW_BASE \<or> SEGMENT_WINDOW_END < seg_vaddr x + seg_memsz x)"
    using assms(2) by (simp_all add: seg_fits_def unat_word_ariths word_le_nat_alt word_less_nat_alt)
  have "checked_add (seg_vaddr x) (seg_memsz x) = Some (seg_vaddr x + seg_memsz x)" using e(1) by (simp add: checked_add_def)
  moreover have "in_exec elf x \<longleftrightarrow> is_executable x \<and> seg_vaddr x \<le> elf_entry elf \<and> elf_entry elf < seg_vaddr x + seg_memsz x"
    by (simp add: in_exec_def word_le_nat_alt word_less_nat_alt e(2))
  ultimately show ?thesis
    using assms(1) by (simp only: load_segments.simps if_not_P [OF e(4)] e(3) seg_pages_def try_return ok_or.simps if_False)
qed

text \<open>\<open>view\<close> is what the program sees at each page: its permissions and its bytes.\<close>

locale page_mapper =
  fixes map_page :: "u64 \<Rightarrow> u64 \<Rightarrow> ('m, u64) loading" and put_page :: "u64 \<Rightarrow> bytes \<Rightarrow> 'm \<Rightarrow> 'm"
    and good :: "'m \<Rightarrow> bool" and view :: "'m \<Rightarrow> u64 \<Rightarrow> (u64 \<times> bytes) option"
  assumes mapped: "\<lbrakk>good s; va mod 0x1000 = 0; in_private_region va; legal_perms perms; length bs = 4096;
      run_state (map_page va perms) s = (Ok f, s')\<rbrakk> \<Longrightarrow>
      good (put_page f bs s') \<and> view (put_page f bs s') = (view s)(va \<mapsto> (perms, bs))"
    and refused: "\<lbrakk>good s; va mod 0x1000 = 0; in_private_region va; run_state (map_page va perms) s = (Err e, s')\<rbrakk> \<Longrightarrow>
      good s' \<and> view s' = view s \<and> (\<exists>reason. e = MapFailed va reason)"
begin

lemma one_page:
  assumes "good s" "p mod 0x1000 = 0" "in_private_region p" "legal_perms perms" "length bs = 4096"
    and rest: "\<And>t. good t \<Longrightarrow> view t = (view s)(p \<mapsto> (perms, bs)) \<Longrightarrow> wp m Q t"
    and fail: "\<And>t reason. good t \<Longrightarrow> view t = view s \<Longrightarrow> Q (Err (MapFailed p reason)) t"
  shows "wp (try_bind (map_page p perms) (\<lambda>page. do { State (\<lambda>s. ((), put_page page bs s)); m })) Q s"
proof -
  obtain r t where r: "run_state (map_page p perms) s = (r, t)" by fastforce
  show ?thesis
  proof (cases r)
    case (Ok f)
    then show ?thesis using mapped [OF assms(1-5)] rest r by (simp add: try_bind_def wp_def)
  next
    case (Err e)
    from refused [OF assms(1-3) r [unfolded Err]] fail [of t] show ?thesis by (auto simp: try_bind_def wp_def r Err)
  qed
qed

lemma wp_load_pages:
  assumes "good s" "\<forall>p\<in>set ps. p mod 0x1000 = 0 \<and> in_private_region p" "legal_perms perms"
  shows "wp (load_pages map_page put_page perms vaddr content seen ps)
    (\<lambda>r s'. step_to good view s (map (\<lambda>p. (p, perms, page_image vaddr content p)) ps) (distinct ps \<and> set ps \<inter> set seen = {}) s' r \<and> (\<forall>seen'. r = Ok seen' \<longrightarrow> seen' = rev ps @ seen)) s"
  using assms
proof (induction ps arbitrary: seen s)
  case Nil
  then show ?case by (simp add: step_to_def wp_def)
next
  case (Cons p ps)
  show ?case
  proof (cases "p \<in> set seen")
    case True
    then show ?thesis using Cons.prems(1) by (simp add: step_to_def wp_def)
  next
    case False
    let ?x = "(perms, page_image vaddr content p)"
    have p: "p mod 0x1000 = 0" "in_private_region p" using Cons.prems(2) by simp_all
    let ?L = "map (\<lambda>p. (p, perms, page_image vaddr content p)) ps"
    have u: "(view s)(p \<mapsto> ?x) ++ map_of ?L = (view s ++ map_of ?L)(p \<mapsto> ?x)" if "p \<notin> set ps"
      using that by (intro map_add_upd_left) (auto simp: dom_map_of_conv_image_fst)
    show ?thesis unfolding load_pages.simps if_not_P [OF False]
    proof (rule one_page [OF Cons.prems(1) p Cons.prems(3) length_page_image [OF p(2)]], goal_cases)
      case (1 t)
      show ?case
        by (rule wp_mono [OF Cons.IH [OF 1(1)]])
          (use Cons.prems False in \<open>auto simp: step_to_def 1(2) u split: result.splits\<close>)
    next
      case (2 t reason)
      then show ?case by (simp add: step_to_def)
    qed
  qed
qed

lemma wp_load_segments:
  assumes "good s"
  shows "wp (load_segments map_page put_page elf seen entry ss)
    (\<lambda>r s'. step_to good view s (concat (map (seg_plan elf) (loadable ss)))
        (list_all seg_fits (loadable ss) \<and> distinct (concat (map seg_pages (loadable ss))) \<and> set (concat (map seg_pages (loadable ss))) \<inter> set seen = {}) s' r \<and>
      (\<forall>seen' entry'. r = Ok (seen', entry') \<longrightarrow> seen' = rev (concat (map seg_pages (loadable ss))) @ seen \<and>
         (entry' \<longleftrightarrow> entry \<or> list_ex (in_exec elf) (loadable ss)))) s"
  using assms
proof (induction ss arbitrary: seen entry s)
  case Nil
  then show ?case by (simp add: step_to_def wp_def)
next
  case (Cons x ss)
  let ?perms = "seg_perms x" and ?ps = "seg_pages x"
  consider "seg_memsz x = 0" | "seg_memsz x \<noteq> 0" "\<not> seg_fits x" | "seg_memsz x \<noteq> 0" "seg_fits x" by blast
  then show ?case
  proof cases
    case 1
    then show ?thesis using Cons.IH [OF Cons.prems] by simp
  next
    case 2
    obtain e where "load_segments map_page put_page elf seen entry (x # ss) = State_Monad.return (Err e)"
      using load_segment_refused [OF 2] by blast
    then show ?thesis using Cons.prems 2 by (simp only: wp_def) (simp add: step_to_def)
  next
    case 3
    have ps: "\<forall>p\<in>set ?ps. p mod 0x1000 = 0 \<and> in_private_region p" using seg_pages_unat(4,5) [OF 3(2,1)] by blast
    have lp: "legal_perms ?perms" using 3(2) page_permissions_Ok [of "seg_flags x"] by (simp add: seg_fits_def)
    show ?thesis unfolding load_segment_accepted [OF 3]
    proof (rule wp_try, rule wp_mono [OF wp_load_pages [OF Cons.prems ps lp]], goal_cases)
      case (1 r t)
      show ?case
      proof (cases r)
        case (Ok seen')
        have seen': "seen' = rev ?ps @ seen" "good t" "step_to good view s (seg_plan elf x) (distinct ?ps \<and> set ?ps \<inter> set seen = {}) t (Ok seen')"
          using 1 Ok by (simp_all add: step_to_def seg_plan_def)
        have "wp (load_segments map_page put_page elf seen' (entry \<or> in_exec elf x) ss)
          (\<lambda>r s'. step_to good view s (concat (map (seg_plan elf) (loadable (x # ss))))
             (list_all seg_fits (loadable (x # ss)) \<and> distinct (concat (map seg_pages (loadable (x # ss)))) \<and>
                set (concat (map seg_pages (loadable (x # ss)))) \<inter> set seen = {}) s' r \<and>
           (\<forall>seen' entry'. r = Ok (seen', entry') \<longrightarrow> seen' = rev (concat (map seg_pages (loadable (x # ss)))) @ seen \<and>
              (entry' \<longleftrightarrow> entry \<or> list_ex (in_exec elf) (loadable (x # ss))))) t"
        proof (rule wp_mono [OF Cons.IH [OF seen'(2)]], goal_cases)
          case (1 a u)
          have "step_to good view s (seg_plan elf x @ concat (map (seg_plan elf) (loadable ss)))
             (list_all seg_fits (loadable (x # ss)) \<and> distinct (concat (map seg_pages (loadable (x # ss)))) \<and>
                set (concat (map seg_pages (loadable (x # ss)))) \<inter> set seen = {}) u a"
            by (rule step_to_trans [OF seen'(3) conjunct1 [OF 1]]) (auto simp: 3 seen'(1) dest!: plan_pages)
          then show ?case using 1 3 seen'(1) by auto
        qed
        then show ?thesis using Ok by simp
      next
        case (Err e)
        then show ?thesis using 1 3 by (auto simp: step_to_def seg_plan_def)
      qed
    qed
  qed
qed

lemma wp_load_stack:
  assumes "good s" "\<forall>i\<in>set is. i < 4" "distinct (map (\<lambda>i. STACK_BASE + of_nat i * GRANULE_4KIB) is)"
  shows "wp (load_stack map_page put_page is)
    (\<lambda>r s'. step_to good view s (map (\<lambda>i. (STACK_BASE + of_nat i * GRANULE_4KIB, AP_EL0_RW OR UXN OR PXN, zero_frame)) is) True s' r) s"
  using assms
proof (induction "is" arbitrary: s)
  case Nil
  then show ?case by (simp add: step_to_def wp_def)
next
  case (Cons i "is")
  let ?p = "STACK_BASE + of_nat i * GRANULE_4KIB" and ?x = "(AP_EL0_RW OR UXN OR PXN, zero_frame)"
  let ?L = "map (\<lambda>i. (STACK_BASE + of_nat i * GRANULE_4KIB, AP_EL0_RW OR UXN OR PXN, zero_frame)) is"
  have "i = 0 \<or> i = 1 \<or> i = 2 \<or> i = 3" using Cons.prems(2) by auto
  then have p: "?p mod 0x1000 = 0" "in_private_region ?p" by (elim disjE; simp add: in_private_region_def)+
  have u: "(view s)(?p \<mapsto> ?x) ++ map_of ?L = (view s ++ map_of ?L)(?p \<mapsto> ?x)"
    using Cons.prems(3) by (intro map_add_upd_left) (auto simp: dom_map_of_conv_image_fst)
  have l: "legal_perms (AP_EL0_RW OR UXN OR PXN)" "length zero_frame = 4096" by (simp_all add: legal_perms_def zero_frame_def)
  show ?case unfolding load_stack.simps
  proof (rule one_page [OF Cons.prems(1) p l], goal_cases)
    case (1 t)
    show ?case
      by (rule wp_mono [OF Cons.IH [OF 1(1)]]) (use Cons.prems u in \<open>auto simp: step_to_def 1(2) split: result.splits\<close>)
  next
    case (2 t reason)
    then show ?case by (simp add: step_to_def)
  qed
qed

lemma wp_load:
  assumes "good s"
  shows "wp (load map_page put_page elf)
    (\<lambda>r s'. step_to good view s (load_plan elf @ stack_plan) (image_ok elf) s' r \<and>
       (\<forall>image. r = Ok image \<longrightarrow> image = \<lparr>img_entry = elf_entry elf, img_stack_top = STACK_TOP, img_stack_base = STACK_BASE,
          img_segment_pages = length (load_plan elf), img_stack_pages = 4\<rparr>)) s"
  unfolding load_def
proof (rule wp_try, rule wp_mono [OF wp_load_segments [OF assms]], goal_cases)
  case (1 r t)
  show ?case
  proof (cases r)
    case (Err e)
    then show ?thesis using 1 by (auto simp: step_to_def load_plan_def image_ok_def)
  next
    case (Ok x)
    obtain seen entry where x: "x = (seen, entry)" by fastforce
    let ?v = "list_all seg_fits (loadable (segments elf)) \<and> distinct (concat (map seg_pages (loadable (segments elf))))"
    have st: "step_to good view s (load_plan elf) ?v t (Ok x)" and en: "entry = list_ex (in_exec elf) (loadable (segments elf))"
      and len: "length seen = length (load_plan elf)"
      using 1 Ok x by (auto simp: load_plan_def length_concat seg_plan_def o_def)
    show ?thesis
    proof (cases entry)
      case False
      have "(view s ++ map_of (load_plan elf)) va = view s va" if "va \<notin> fst ` set (load_plan elf)" for va
        using that map_of_eq_None_iff [of "load_plan elf" va] by (simp add: map_add_def)
      then show ?thesis using False st en Ok x by (auto simp: step_to_def image_ok_def wp_def image_Un)
    next
      case True
      have g: "good t" "image_ok elf \<longleftrightarrow> ?v" using st en True by (auto simp: step_to_def image_ok_def)
      have "wp (load_stack map_page put_page [0..<4]) (\<lambda>r s'. step_to good view s (load_plan elf @ stack_plan) (image_ok elf) s' r) t"
      proof (rule wp_mono [OF wp_load_stack [OF g(1)]], goal_cases)
        case (3 a u)
        then show ?case using g(2) plan_stack_apart by (intro step_to_trans [OF st, where w = True]) (auto simp: stack_plan_def)
      qed (simp_all add: upto_four)
      then show ?thesis using True Ok x len
        by (auto simp: Let_def intro!: wp_try wp_return elim!: wp_mono) (auto simp: step_to_def)
    qed
  qed
qed

end

interpretation space_loader: page_mapper "space_map_page H" space_put_page "good_space H R k M" user_page for H R k M
proof (unfold_locales, goal_cases)
  case (1 s va perms bs f s')
  from space_map_Ok [OF this] show ?case by (rule conjI)
next
  case (2 s va perms e s')
  from space_map_Err [OF this] show ?case by (intro conjI)
qed

subsection \<open>The loaded image\<close>

definition user_byte :: "AddressSpace \<times> Machine \<Rightarrow> u64 \<Rightarrow> (u64 \<times> u8) option" where
  "user_byte s a = map_option (\<lambda>(perms, bs). (perms, bs ! (unat a mod 4096))) (user_page s (align_down a))"

lemma seg_pages_mem:
  assumes "seg_fits x" "seg_memsz x \<noteq> 0" "unat (seg_vaddr x) \<le> unat a" "unat a < unat (seg_vaddr x) + unat (seg_memsz x)"
  shows "align_down a \<in> set (seg_pages x)"
proof -
  let ?v = "unat (seg_vaddr x)" and ?n = "unat (seg_memsz x)"
  define i where "i = unat a div 4096 - ?v div 4096"
  have w: "?v + ?n \<le> 0xBFFEC000" using assms(1) by (simp add: seg_fits_def)
  have "unat (seg_vaddr x + seg_memsz x - 1) = ?v + ?n - 1"
    using w assms(4) by (simp add: unat_word_ariths unat_sub_if')
  then have l: "unat (align_down (seg_vaddr x + seg_memsz x - 1)) = (?v + ?n - 1) div 4096 * 4096" by (simp add: unat_align_down)
  have va: "?v div 4096 \<le> unat a div 4096" by (rule div_le_mono [OF assms(3)])
  have "unat a div 4096 \<le> (?v + ?n - 1) div 4096" by (rule div_le_mono) (use assms(4) in linarith)
  then have "i \<le> (?v + ?n - 1) div 4096 - ?v div 4096" unfolding i_def by (rule diff_le_mono)
  then have i: "i < Suc (((?v + ?n - 1) div 4096 * 4096 - ?v div 4096 * 4096) div 4096)" by (simp add: diff_mult_distrib [symmetric])
  have s: "?v div 4096 + i = unat a div 4096" using va by (simp add: i_def)
  have "unat (align_down (seg_vaddr x) + of_nat i * GRANULE_4KIB) = unat (align_down a)"
  proof -
    have "(?v div 4096 + i) * 4096 \<le> unat a" unfolding s by simp
    then have b: "?v div 4096 * 4096 + i * 4096 < 0xBFFEC000" using assms(4) w unfolding add_mult_distrib by (rule le_less_trans [OF _ less_le_trans])
    then have "unat (of_nat i * GRANULE_4KIB :: u64) = i * 4096" by (simp add: unat_word_ariths unsigned_of_nat take_bit_eq_mod)
    then have "unat (align_down (seg_vaddr x) + of_nat i * GRANULE_4KIB) = (?v div 4096 + i) * 4096"
      using b by (simp add: unat_word_ariths unat_align_down add_mult_distrib)
    then show ?thesis unfolding s unat_align_down .
  qed
  then have "align_down a = align_down (seg_vaddr x) + of_nat i * GRANULE_4KIB" by (simp only: word_unat_eq_iff)
  then show ?thesis unfolding seg_pages_def pages_between_def l unat_align_down [of "seg_vaddr x"] set_map set_upt
    using i by (intro image_eqI [where x = i]) (simp_all only: atLeastLessThan_iff le0 simp_thms)
qed

lemma plan_entries: "map fst (load_plan elf) = concat (map seg_pages (loadable (segments elf)))"
  by (simp add: load_plan_def map_concat seg_plan_def o_def)

lemma stack_distinct: "distinct (map fst stack_plan)"
  by (simp add: stack_plan_def upto_four)

lemma image_distinct:
  assumes "image_ok elf"
  shows "distinct (map fst (load_plan elf @ stack_plan))"
proof -
  have "distinct (map fst (load_plan elf))" using assms unfolding plan_entries image_ok_def by blast
  moreover have "fst ` set (load_plan elf) \<inter> fst ` set stack_plan = {}"
    using assms by (intro plan_stack_apart) (simp only: image_ok_def)
  ultimately show ?thesis using stack_distinct by (simp only: map_append distinct_append set_map simp_thms)
qed

text \<open>What the program sees at an address of a page that is planned.\<close>

lemma planned_byte:
  assumes "image_ok elf" "user_page s' = Map.empty ++ map_of (load_plan elf @ stack_plan)" "(align_down a, perms, bs) \<in> set (load_plan elf @ stack_plan)"
  shows "user_byte s' a = Some (perms, bs ! (unat a mod 4096))"
  using map_of_is_SomeI [OF image_distinct [OF assms(1)] assms(3)] assms(2) by (simp add: user_byte_def)

lemma segment_byte:
  assumes "image_ok elf" "user_page s' = Map.empty ++ map_of (load_plan elf @ stack_plan)" "elf_parse bytes = Ok elf"
    and "x \<in> set (segments elf)" "unat (seg_vaddr x) \<le> unat a" "unat a < unat (seg_vaddr x) + unat (seg_memsz x)"
  shows "user_byte s' a = Some (seg_perms x,
    if unat a < unat (seg_vaddr x) + unat (seg_filesz x) then bytes ! (unat (seg_offset x) + (unat a - unat (seg_vaddr x))) else 0)"
proof -
  have n: "seg_memsz x \<noteq> 0" using assms(5,6) by auto
  have f: "seg_fits x" using assms(1,4) n by (auto simp: image_ok_def list_all_iff)
  have ok: "segment_ok bytes x" and b: "elf_bytes elf = bytes" using parse_Ok(1,3) [OF assms(3)] assms(4) by (auto simp: list_all_iff)
  note p = seg_pages_mem [OF f n assms(5,6)]
  have "(align_down a, seg_perms x, page_image (seg_vaddr x) (segment_bytes elf x) (align_down a)) \<in> set (load_plan elf @ stack_plan)"
    using p assms(4) n by (auto simp: load_plan_def seg_plan_def)
  note byte = planned_byte [OF assms(1,2) this]
  have sb: "length (segment_bytes elf x) = unat (seg_filesz x)"
    "segment_bytes elf x = take (unat (seg_filesz x)) (drop (unat (seg_offset x)) bytes)"
    using segment_bytes_length [of elf x] ok b by simp_all
  have fits: "unat (seg_vaddr x) + length (segment_bytes elf x) < 2 ^ 64" "unat (seg_offset x) + unat (seg_filesz x) \<le> length bytes"
    using ok by (auto simp: segment_ok_def word_le_nat_alt sb(1))
  have a: "unat (align_down a) + unat a mod 4096 = unat a" by (simp add: unat_align_down)
  have "page_image (seg_vaddr x) (segment_bytes elf x) (align_down a) ! (unat a mod 4096) =
    (if unat a < unat (seg_vaddr x) + unat (seg_filesz x) then segment_bytes elf x ! (unat a - unat (seg_vaddr x)) else 0)"
    using page_image_byte [OF seg_pages_unat(5) [OF f n p] fits(1), of "unat a mod 4096"] assms(5) unfolding a sb(1) by simp
  moreover have "segment_bytes elf x ! (unat a - unat (seg_vaddr x)) = bytes ! (unat (seg_offset x) + (unat a - unat (seg_vaddr x)))"
    if "unat a < unat (seg_vaddr x) + unat (seg_filesz x)"
    using that fits(2) assms(5) by (simp add: sb(2))
  ultimately show ?thesis using byte by simp
qed

lemma stack_byte:
  assumes "image_ok elf" "user_page s' = Map.empty ++ map_of (load_plan elf @ stack_plan)" "STACK_BASE \<le> a" "a < STACK_TOP"
  shows "user_byte s' a = Some (AP_EL0_RW OR UXN OR PXN, 0)"
proof -
  have u: "0xBFFFC000 \<le> unat a" "unat a < 0xC0000000" using assms(3,4) by (simp_all add: word_le_nat_alt word_less_nat_alt)
  define q where "q = unat a div 4096"
  have q: "unat (align_down a) = q * 4096" by (simp add: unat_align_down q_def)
  have "q < 0xC0000" unfolding q_def using u(2) by (simp add: less_mult_imp_div_less)
  moreover have "0xBFFFC \<le> q" unfolding q_def using div_le_mono [OF u(1), of 4096] by simp
  ultimately have "q = 0xBFFFC \<or> q = 0xBFFFD \<or> q = 0xBFFFE \<or> q = 0xBFFFF" by linarith
  then have "align_down a \<in> {0xBFFFC000, 0xBFFFD000, 0xBFFFE000, 0xBFFFF000}"
    using q by (auto simp: word_unat_eq_iff)
  then have "(align_down a, AP_EL0_RW OR UXN OR PXN, zero_frame) \<in> set (load_plan elf @ stack_plan)"
    by (auto simp: stack_plan_def upto_four)
  from planned_byte [OF assms(1,2) this] show ?thesis by (simp add: zero_frame_def)
qed

lemma plan_perms:
  assumes "image_ok elf" "(p, perms, bs) \<in> set (load_plan elf @ stack_plan)"
  shows "legal_perms perms"
proof -
  consider x where "x \<in> set (segments elf)" "seg_memsz x \<noteq> 0" "perms = seg_perms x" | "perms = AP_EL0_RW OR UXN OR PXN"
    using assms(2) by (auto simp: load_plan_def seg_plan_def stack_plan_def)
  then show ?thesis
  proof cases
    case 1
    then have "seg_fits x" using assms(1) by (simp add: image_ok_def list_all_iff)
    then show ?thesis using 1 page_permissions_Ok [of "seg_flags x"] by (simp add: seg_fits_def)
  qed (simp add: legal_perms_def)
qed

lemma guard_byte:
  assumes "image_ok elf" "user_page s' = Map.empty ++ map_of (load_plan elf @ stack_plan)" "SEGMENT_WINDOW_END \<le> a" "a < STACK_BASE"
  shows "user_byte s' a = None"
proof -
  have u: "0xBFFEC000 \<le> unat a" "unat a < 0xBFFFC000" using assms(3,4) by (simp_all add: word_le_nat_alt word_less_nat_alt)
  have lo: "0xBFFEC000 \<le> unat (align_down a)"
    unfolding unat_align_down using mult_le_mono1 [OF div_le_mono [OF u(1), of 4096], of 4096] by simp
  have hi: "unat (align_down a) < 0xBFFFC000"
    unfolding unat_align_down using u(2) div_times_less_eq_dividend [of "unat a" 4096] by (rule le_less_trans [rotated])
  have "align_down a \<notin> fst ` set (load_plan elf)"
  proof
    assume "align_down a \<in> fst ` set (load_plan elf)"
    then obtain x where x: "x \<in> set (segments elf)" "seg_memsz x \<noteq> 0" "align_down a \<in> set (seg_pages x)"
      by (auto simp: load_plan_def dest!: plan_pages)
    then have f: "seg_fits x" using assms(1) by (simp add: image_ok_def list_all_iff)
    show False using seg_pages_unat(3) [OF f x(2,3)] f lo by (simp add: seg_fits_def)
  qed
  moreover have "align_down a \<notin> fst ` set stack_plan" using hi unfolding stack_pages by auto
  ultimately have "map_of (load_plan elf @ stack_plan) (align_down a) = None" unfolding map_of_eq_None_iff set_append image_Un by blast
  then show ?thesis using assms(2) by (simp add: user_byte_def)
qed

definition page_writable :: "u64 \<Rightarrow> bool" where
  "page_writable perms \<longleftrightarrow> perms AND 0xC0 = AP_EL0_RW"

definition page_executable :: "u64 \<Rightarrow> bool" where
  "page_executable perms \<longleftrightarrow> perms AND UXN = 0 \<or> perms AND PXN = 0"

lemma legal_not_wx: "legal_perms p \<Longrightarrow> \<not> (page_writable p \<and> page_executable p)"
  by (auto simp: legal_perms_def page_writable_def page_executable_def)

lemma no_writable_executable:
  assumes "image_ok elf" "user_page s' = Map.empty ++ map_of (load_plan elf @ stack_plan)" "user_byte s' a = Some (perms, b)"
  shows "\<not> (page_writable perms \<and> page_executable perms)"
proof -
  obtain bs where "map_of (load_plan elf @ stack_plan) (align_down a) = Some (perms, bs)" using assms(2,3) by (auto simp: user_byte_def simp del: map_of_append)
  from map_of_SomeD [OF this] show ?thesis using plan_perms [OF assms(1)] legal_not_wx by blast
qed

text \<open>Loading, as a run from a space with nothing mapped.\<close>

lemma load_outcome:
  assumes "heap_laws H" "owns R sp m" "layout k sp m" "\<And>va. page_descriptor sp m va = None"
  obtains r s' where "run_state (load (space_map_page H) space_put_page elf) (sp, m) = (r, s')"
    "good_space H R k m s'" "\<And>e. r = Err e \<Longrightarrow> image_ok elf \<Longrightarrow> \<exists>va reason. e = MapFailed va reason"
    "\<And>img. r = Ok img \<Longrightarrow> image_ok elf \<and> img_entry img = elf_entry elf \<and> user_page s' = Map.empty ++ map_of (load_plan elf @ stack_plan)"
proof -
  have g: "good_space H R k m (sp, m)" using assms by (simp add: good_space_def)
  have u: "user_page (sp, m) = Map.empty" using assms(4) by (simp add: user_page_def fun_eq_iff)
  obtain r s' where run: "run_state (load (space_map_page H) space_put_page elf) (sp, m) = (r, s')" by (rule prod.exhaust)
  have st: "step_to (good_space H R k m) user_page (sp, m) (load_plan elf @ stack_plan) (image_ok elf) s' r"
    and im: "\<And>img. r = Ok img \<Longrightarrow> img_entry img = elf_entry elf"
    using space_loader.wp_load [OF g, of elf] by (simp_all add: wp_def run)
  show ?thesis
  proof (rule that [OF run])
    show "good_space H R k m s'" using st by (simp add: step_to_def)
  qed (use st im u in \<open>auto simp: step_to_def\<close>)
qed


subsection \<open>A concrete image\<close>

text \<open>An image of one executable segment of four bytes: the header, one program header, the code.\<close>

definition tiny_image :: bytes where
  "tiny_image =
     [127, 69, 76, 70, 2, 1, 1, 0, 0, 0, 0, 0, 0, 0, 0, 0, 2, 0, 183, 0, 1, 0, 0, 0, 0, 0, 32, 128, 0, 0, 0, 0, 64, 0, 0, 0,
      0, 0, 0, 0, 0, 0, 0, 0, 0, 0, 0, 0, 0, 0, 0, 0, 64, 0, 56, 0, 1, 0, 0, 0, 0, 0, 0, 0, 1, 0, 0, 0, 5, 0, 0, 0, 120, 0, 0,
      0, 0, 0, 0, 0, 0, 0, 32, 128, 0, 0, 0, 0, 0, 0, 32, 128, 0, 0, 0, 0, 4, 0, 0, 0, 0, 0, 0, 0, 4, 0, 0, 0, 0, 0, 0, 0, 0,
      16, 0, 0, 0, 0, 0, 0, 192, 3, 95, 214]"

definition tiny_elf :: Elf64 where
  "tiny_elf = \<lparr>elf_bytes = tiny_image, elf_entry = 0x80200000, elf_phoff = 64, elf_phnum = 1\<rparr>"

lemma tiny_reads:
  "read_u16 tiny_image 16 = Some 2" "read_u16 tiny_image 18 = Some 183" "read_u16 tiny_image 54 = Some 56"
  "read_u64 tiny_image 24 = Some 0x80200000" "read_u64 tiny_image 32 = Some 64" "read_u16 tiny_image 56 = Some 1"
  "read_u32 tiny_image 64 = Some 1" "read_u32 tiny_image 68 = Some 5" "read_u64 tiny_image 72 = Some 120"
  "read_u64 tiny_image 80 = Some 0x80200000" "read_u64 tiny_image 96 = Some 4" "read_u64 tiny_image 104 = Some 4"
  by (simp_all add: read_u16_def read_u32_def read_u64_def read_le_def checked_add_def get_range_def tiny_image_def)

lemma tiny_size: "length tiny_image = 124" "take 4 tiny_image = ELF_MAGIC" "tiny_image ! 4 = 2" "tiny_image ! 5 = 1"
  by (simp_all add: tiny_image_def)

lemma tiny_segments:
  "segments tiny_elf = [\<lparr>seg_flags = 5, seg_offset = 120, seg_vaddr = 0x80200000, seg_filesz = 4, seg_memsz = 4\<rparr>]"
  by (simp add: segments_def tiny_elf_def List.map_filter_def program_header_def tiny_reads upt_rec)

lemma tiny_parses: "elf_parse tiny_image = Ok tiny_elf"
  using tiny_segments
  by (simp add: elf_parse_def tiny_reads tiny_size checked_mul_def checked_add_def tiny_elf_def)

lemma tiny_ok: "image_ok tiny_elf"
proof -
  have "elf_entry tiny_elf = 0x80200000" by (simp add: tiny_elf_def)
  then show ?thesis
    by (simp add: image_ok_def tiny_segments seg_fits_def seg_perms_def page_permissions_def in_exec_def is_executable_def
      seg_pages_def pages_between_def unat_align_down)
qed


end
