(* ===== verification/Spec2Isabelle.thy ===== *)
theory Spec2Isabelle
  imports Outcomes Drift Authority Creating Isolation
begin

text \<open>
  A verification library for Runix, a capability-based operating system whose consequential actions
  are governed by an external authority (MARSHAL) and recorded in a hash-chained audit log.

  \<^bold>\<open>The program.\<close>  The ARM kernel (\<open>kernel-arm/src\<close>) runs one EL0 context that asks for
  everything through \<open>svc.rs::dispatch\<close>: eSIM profiles (\<open>sim.rs\<close>), customer accounts
  (\<open>mvno.rs\<close> over the pure \<open>runix-mobile\<close> crate), data usage, sessions and billing
  periods (\<open>data.rs\<close>, \<open>data_state.rs\<close>), two mailbox spaces.  A call passes a capability
  check (\<open>capabilities.rs\<close>, \<open>capability-manager\<close>), local rules, for the consequential ones
  the MARSHAL gate (\<open>marshal_action.rs\<close>, \<open>marshal_transport.rs\<close>, wire format in
  \<open>ipc/src/marshal.rs\<close>), changes the state, and is recorded in the bounded audit chain
  (\<open>audit_chain.rs\<close> over \<open>citadel-integration\<close>).

  Beside the kernel, the user-space block driver (\<open>blk-driver-host/src\<close>) owns a virtio disk with a
  FAT32 volume.  It checks disk and volume once at start (the \<open>run_*_proof\<close> functions) and then
  serves read and write requests of other processes over byte-wise sessions
  (\<open>run_fs_ipc_server\<close>, wire format in \<open>ipc/src/fs.rs\<close>), each with a capability token for
  the named file.

  Programs run at EL0 in address spaces of their own (\<open>process.rs\<close>): translation tables copied from
  the kernel's and extended in one private gigabyte, filled by the loader (\<open>loader.rs\<close>) from a
  parsed image (\<open>elf.rs\<close>) and given back through a checked plan (\<open>reclaim.rs\<close>).

  \<^bold>\<open>The theories.\<close>
    \<^item> \<open>Prelude\<close>: results, tables, text, words, the interfaces \<open>machine\<close> and
      \<open>stable_fact\<close> (an invariant kept by every operation; a fact that stays once true).
    \<^item> \<open>Sim\<close> (\<open>sim.rs\<close>), \<open>Account\<close> (\<open>account.rs\<close>), \<open>Mvno\<close> (\<open>mvno.rs\<close>),
      \<open>Selection\<close>, \<open>Policy\<close>, \<open>Period\<close>, \<open>Reconcile\<close> (the modules of that name of
      \<open>runix-mobile\<close>), \<open>DataState\<close> and \<open>DataCodes\<close> (\<open>data_state.rs\<close>, \<open>data_codes.rs\<close>,
      \<open>data.rs\<close>).  One record per struct, one datatype per enum, one function per method;
      a method that mutates returns its result and the new state.  Machine integers are words of
      their width.
    \<^item> \<open>MarshalWire\<close>, \<open>MarshalAction\<close>: the frames of a governance request, the streaming
      decoder, when the gate opens.
    \<^item> \<open>Crypto\<close>, \<open>Capability\<close>, \<open>Citadel\<close>, \<open>AuditChain\<close>: tokens, the boot
      authorisation, the hash chain and its bounded wrapper.  Signatures, SHA-256 and hex are the
      record \<open>crypto\<close>, a parameter; \<open>crypto_laws\<close> and \<open>unforgeable\<close> say what is
      relied on.
    \<^item> \<open>Channels\<close>, \<open>Kernel\<close>, \<open>Syscalls\<close>, \<open>Boot\<close>: the mailboxes, the kernel's
      statics as one record \<open>World\<close>, the helpers and every arm of \<open>dispatch\<close> as programs
      of the state monad, and the boot sequence that provisions them.  The timer, the saved
      registers, the cryptography and the network are the record \<open>Env\<close>.
    \<^item> \<open>Mediation\<close>: what a call may do to the governed state, as a specification without audit,
      text or monad (\<open>needs\<close>, \<open>admits\<close>, \<open>governed\<close>, \<open>effect\<close>), the
      rules for the kernel's own operations, and the proof that \<open>dispatch\<close> refines it.
    \<^item> \<open>Governance\<close>: the invariant that ties slots, registry and data tables together, and that
      every call from boot on keeps it, with the audit chain verifying throughout.
    \<^item> \<open>Outcomes\<close>, \<open>Authority\<close>, \<open>Drift\<close>: what the return codes say, what EL0 is
      entitled to, what the reconciler can find.
    \<^item> \<open>StateLogic\<close>: the calculus of weakest preconditions (\<open>wp_rules\<close>) and of kept
      invariants (\<open>keep_rules\<close>) for the state monad, shared by kernel and driver.
    \<^item> \<open>FsWire\<close> (\<open>ipc/src/fs.rs\<close>), \<open>Fat\<close> (\<open>blk-driver-host/src/lib.rs\<close>): the frames
      of the file service; boot sector, free-count sector, names, entries and table words.
    \<^item> \<open>BlockDev\<close>, \<open>Volume\<close>, \<open>FsServer\<close>, \<open>SelfTest\<close>
      (\<open>blk-driver-host/src/main.rs\<close>): the request path with its quarantine, table and
      directory operations, handlers and serving loop, the checks at start.  The disk is a parameter
      \<open>hardware\<close>, any function from the requests posted so far to a reply; a panic of the code is
      the outer \<open>None\<close> of an operation.  The locales \<open>read_invariant\<close> and
      \<open>io_invariant\<close> carry a fact about the device through every operation.
    \<^item> \<open>Allocation\<close>, \<open>Directories\<close>, \<open>FileService\<close>, \<open>Creating\<close>: what these
      operations do to the volume when the disk works, over a view of the volume as a table from
      clusters to entries (\<open>table\<close>, \<open>represents\<close>) and of a directory as the entries of a
      chain (\<open>is_chain\<close>, \<open>lookup_name\<close>).
    \<^item> \<open>Elf\<close> (\<open>elf.rs\<close>), \<open>Reclaim\<close> (\<open>reclaim.rs\<close>), \<open>Paging\<close> (\<open>process.rs\<close>, descriptors of
      \<open>mmu.rs\<close>), \<open>Loader\<close> (\<open>loader.rs\<close>).  Memory is a function from frames to their bytes, tables
      are read and written in it word by word.  The global allocator is the parameter \<open>heap_env\<close>, any
      function of the requests made so far that keeps \<open>heap_laws\<close>: what it hands out is aligned, in
      the heap and not in use.
    \<^item> \<open>Spaces\<close>, \<open>Translation\<close>, \<open>Loading\<close>, \<open>Isolation\<close>: which memory a space owns
      (\<open>owns\<close>), the shape of its tables (\<open>layout\<close>) and the walk of the hardware over them
      (\<open>mmu_walk\<close>); the contract of a mapper (locale \<open>page_mapper\<close>), the loader proved over it
      and the contract kept by address spaces; several spaces side by side, and the life of a program from
      its space's creation to its release.

  \<^bold>\<open>Bounds.\<close>  The only fuel is the code's own: every walk along a cluster chain stops after
  \<open>CHAIN_LIMIT\<close> (1024) clusters and the server after \<open>SERVER_PASSES\<close> passes; both count down
  in the model as the loops do in the code.  Every other recursion is structural or has a termination
  proof.

  \<^bold>\<open>What is not modelled.\<close>  Diagnostic lines on the serial port; the assembly of exception
  entry and the EL0 excursion (an excursion's observable result is the parameter \<open>env_net\<close>;
  its completion calls are modelled); barriers and the maintenance of caches, the kernel's own tables and
  their installation (\<open>kernel_root_ok\<close> says what is relied on), the memory the allocator's clients
  take for their bookkeeping; the scheduler, the interrupt controller, the network drivers and the set-up of
  their process, virtqueue memory; the x86 kernel, desktop and tools.  Locks are not modelled: the kernel has one EL0 context
  and masks interrupts in the handler, so a handler is one atomic step, and each access to a static
  is one monad operation in source order.

  The theorems of this theory are about the kernel as it boots and runs: \<open>kernel_after E calls\<close>
  is the state after the boot sequence and any list of system calls with any arguments.
\<close>

definition kernel_after :: "Env \<Rightarrow> syscall list \<Rightarrow> World" where
  "kernel_after E calls = fold (syscall_step E) calls (booted E)"

fun advisory :: "Request \<Rightarrow> bool" where
  "advisory (ReqFeed a b) = True"
| "advisory ReqReconcile = True"
| "advisory (ReqReset a early) = True"
| "advisory (ReqPeriod a) = True"
| "advisory _ = False"

definition same_service :: "Core \<Rightarrow> Core \<Rightarrow> bool" where
  "same_service c c' \<longleftrightarrow> c_slots c' = c_slots c \<and> c_registry c' = c_registry c \<and> sessions (c_data c') = sessions (c_data c)"

text \<open>A concrete environment: signatures are transcripts, the network is unplugged, the clock stands still.\<close>

definition sample_env :: Env where
  "sample_env =
     \<lparr>env_crypto = plain_crypto,
      env_net = (\<lambda>n remote port request. \<lparr>exc_net = False, exc_setup = Ok True, exc_spawn = True, exc_finished = (\<lambda>_. True),
        exc_faulted = False, exc_status = 0, exc_response_len = 0, exc_response = []\<rparr>),
      env_ticks = (\<lambda>_. 7), env_freq = 1000, env_regs = (\<lambda>_. no_registers)\<rparr>"

lemma kernel_after_inv: "world_inv E (kernel_after E calls)"
  unfolding kernel_after_def by (rule kernel.run_inv)

text \<open>
  C1.  Complete mediation.  Whatever system call EL0 makes, with whatever arguments, the eSIM slots,
  the account registry and the data tables afterwards are exactly the specified effect of the request
  if every capability it needs is held and unexpired, the local rules admit it and, for a governed
  request, the gate opened; in every other case, and for every number that is not a request, they
  are what they were.
\<close>

theorem complete_mediation:
  "w_core (snd (run_state (dispatch E num a1 a2 a3) w)) =
     (case request_of num a1 a2 a3 of
        None \<Rightarrow> w_core w
      | Some req \<Rightarrow> if authorised E w req then effect (env_freq E) req (tick_of E w) (w_core w) else w_core w)"
  by (simp add: dispatch_core core_after_def split: option.split)

text \<open>
  C2.  In every state the booted kernel reaches, the tables agree with each other: slots, registry and
  data tables are well formed and within their bounds, an enabled profile is bound to an active
  account, a bound profile exists and is not deleted, a data session belongs to the account that owns
  its profile, that account is active, and the session does not roam.
\<close>

theorem governed_state_consistent:
  "core_inv (w_core (kernel_after E calls))"
  using kernel_after_inv by (simp add: world_inv_def)

text \<open>
  C3.  In every state the booted kernel reaches, the audit chain verifies (hash links and
  bookkeeping) and holds at most 456 entries, whatever EL0 asked for and however often.
\<close>

theorem audit_always_verifies:
  "case w_audit (kernel_after E calls) of
     None \<Rightarrow> True
   | Some a \<Rightarrow> audit_verify (env_crypto E) a \<and> audit_len a \<le> 456"
proof (cases "w_audit (kernel_after E calls)")
  case (Some a)
  then have "audit_verify (env_crypto E) a"
    using kernel_after_inv [of E calls] by (simp add: world_inv_def trail_ok_def audit_verify_iff)
  then show ?thesis using Some audit_verify_bound by simp
qed simp

text \<open>
  C4.  Authority is what boot granted.  In every state the booted kernel reaches, a capability check
  passes exactly for the resources on the boot sequence's list and only up to the tick sixty seconds
  after they were issued (as the 64-bit counter computes it); no call adds, widens, prolongs or drops a grant.
\<close>

theorem authority_fixed_at_boot:
  assumes "crypto_laws (env_crypto E)"
  shows "cap_check (env_crypto E) (w_held (kernel_after E calls)) (resource_text r) now = Ok () \<longleftrightarrow>
         r \<in> set boot_grants \<and> now \<le> env_ticks E 0 + 60 * env_freq E"
  using cap_check_granted [OF assms]
  by (auto simp: kernel_after_def runs_held booted_held granted_at_boot_def)

theorem authority_fixed_at_boot_witness:
  "cap_check plain_crypto (w_held (kernel_after sample_env [(SYS_SIM_CREATE, 0, 0, 0)])) (resource_text (MvnoSuspend 0)) 60007 = Ok () \<and>
   cap_check plain_crypto (w_held (kernel_after sample_env [(SYS_SIM_CREATE, 0, 0, 0)])) (resource_text (MvnoSuspend 1)) 60007 \<noteq> Ok ()"
  using authority_fixed_at_boot [of sample_env "[(SYS_SIM_CREATE, 0, 0, 0)]" _ 60007] plain_crypto_laws
  by (simp add: sample_env_def boot_grants_def del: resource_text.simps)


lemma sample_suspend_authorised: "authorised sample_env (kernel_after sample_env []) (ReqSuspend 0)"
proof -
  have "cap_check plain_crypto (granted_at_boot sample_env) (resource_text (MvnoSuspend 0)) 7 = Ok ()"
    using cap_check_granted [OF plain_crypto_laws]
    by (force simp: granted_at_boot_def sample_env_def boot_grants_def simp del: resource_text.simps)
  then have "holds sample_env (booted sample_env) 0 (mvno_suspend_resource 0)"
    by (simp add: holds_def tick_of_def booted_held) (simp add: sample_env_def)
  moreover have "gate_ok sample_env w (MarshalAction.MvnoSuspend 0)" for w
    by (simp add: gate_ok_def marshal_evaluate_def evaluate_configured_def sample_env_def Let_def split: option.split)
  ultimately show ?thesis by (simp add: authorised_def kernel_after_def)
qed

lemma sample_suspend_unauthorised: "\<not> authorised sample_env (kernel_after sample_env []) (ReqSuspend 1)"
proof -
  have "cap_check plain_crypto (granted_at_boot sample_env) (resource_text (MvnoSuspend 1)) 7 \<noteq> Ok ()"
    using cap_check_granted [OF plain_crypto_laws]
    by (force simp: granted_at_boot_def sample_env_def boot_grants_def simp del: resource_text.simps)
  then have "\<not> holds sample_env (booted sample_env) 0 (mvno_suspend_resource 1)"
    by (simp add: holds_def tick_of_def booted_held) (simp add: sample_env_def)
  then show ?thesis by (simp add: authorised_def kernel_after_def)
qed

lemma sample_suspend_accepted: "accepted (ReqSuspend 0) (w_core (kernel_after sample_env []))"
proof -
  have "core_inv (w_core (kernel_after sample_env []))"
    using kernel_after_inv [of sample_env "[]"] by (simp add: world_inv_def)
  from suspend_accepted_iff [OF this] show ?thesis using booted_standing [of sample_env] by (simp add: kernel_after_def)
qed


text \<open>
  C6.  Suspension completes.  In every state the booted kernel reaches, an authorised suspension of an
  active account reports success, and afterwards the account is suspended, none of its profiles is
  enabled and none of its data sessions is open.
\<close>

theorem suspension_completes:
  fixes E calls acct a2 a3
  defines "w \<equiv> kernel_after E calls"
  defines "w' \<equiv> snd (run_state (dispatch E SYS_MVNO_SUSPEND acct a2 a3) w)"
  assumes "authorised E w (ReqSuspend acct)" "standing (c_registry (w_core w)) acct = Some AccountStatus.Active"
  shows "fst (run_state (dispatch E SYS_MVNO_SUSPEND acct a2 a3) w) = ToEl0 0 \<and>
     standing (c_registry (w_core w')) acct = Some AccountStatus.Suspended \<and>
     (\<forall>slot p. mvno_owner_of (c_registry (w_core w')) slot p = Some acct \<longrightarrow>
        state_of (c_slots (w_core w')) slot p \<noteq> Some ProfileState.Enabled) \<and>
     (\<forall>x\<in>set (sessions (c_data (w_core w'))). ds_account x \<noteq> acct)"
proof -
  have inv: "core_inv (w_core w)" and winv: "world_inv E w" using kernel_after_inv by (simp_all add: w_def world_inv_def)
  have req: "request_of SYS_MVNO_SUSPEND acct a2 a3 = Some (ReqSuspend acct)" by (simp add: request_of_def sys_numbers)
  have acc: "accepted (ReqSuspend acct) (w_core w)" using assms(4) suspend_accepted_iff [OF inv] by simp
  have code: "fst (run_state (dispatch E SYS_MVNO_SUSPEND acct a2 a3) w) = ToEl0 0"
    using dispatch_answer [OF winv req] assms(3) acc by (simp add: answer_def)
  have c': "w_core w' = suspend_effect acct (w_core w)"
    using assms(3) by (simp add: w'_def dispatch_core req core_after_def)
  obtain ks r' where ok: "mvno_suspend (c_registry (w_core w)) (c_slots (w_core w)) acct = (Ok ks, r')"
    using acc by (cases rule: result_state_cases [of "mvno_suspend (c_registry (w_core w)) (c_slots (w_core w)) acct"]) simp_all
  have "slots_wf (c_slots (w_core w))" "reg_wf (c_registry (w_core w))" using inv by (simp_all add: core_inv_def)
  note tables = suspend_tables [OF this ok]
  have st: "status_of (c_registry (w_core w')) (AccountId acct) = Some AccountStatus.Suspended"
    by (simp add: c' suspend_effect_def ok tables)
  have inv': "core_inv (w_core w')" using inv by (simp add: c' inv_suspend)
  have "state_of (c_slots (w_core w')) slot p \<noteq> Some ProfileState.Enabled"
    if "mvno_owner_of (c_registry (w_core w')) slot p = Some acct" for slot p
  proof
    assume "state_of (c_slots (w_core w')) slot p = Some ProfileState.Enabled"
    then obtain i where "owner_of (c_registry (w_core w')) (mvno_key slot p) = Some i"
      "status_of (c_registry (w_core w')) i = Some AccountStatus.Active"
      using inv' unfolding core_inv_def coupled_def by blast
    moreover from this that have "i = AccountId acct" by (cases i) (simp add: mvno_owner_of_def)
    ultimately show False using st by simp
  qed
  moreover have "\<forall>x\<in>set (sessions (c_data (w_core w'))). ds_account x \<noteq> acct"
    using inv' st by (auto simp: core_inv_def coupled_def session_grounded_def)
  ultimately show ?thesis using code st by (auto simp: standing_def status_of_def)
qed

theorem suspension_completes_witness:
  "fst (run_state (dispatch sample_env SYS_MVNO_SUSPEND 0 0 0) (kernel_after sample_env [])) = ToEl0 0"
  using suspension_completes [OF sample_suspend_authorised, of 0 0] booted_standing [of sample_env]
  by (simp add: kernel_after_def)

text \<open>
  C7.  The code of a session request tells the truth: a code of allowed or throttled means that the
  session is in the table with the roaming flag that was asked for, and any other code means that the
  governed state is untouched.
\<close>

theorem session_code_truthful:
  "case run_state (dispatch E SYS_DATA_SESSION_OPEN acct slot packed) w of
     (ToEl0 code, w') \<Rightarrow> session_answer acct slot packed w code w'
   | (ResumeEl1 _, _) \<Rightarrow> False"
proof -
  have "wp (to_el0 (data_session_open E acct slot packed))
     (\<lambda>r w'. case r of ToEl0 code \<Rightarrow> session_answer acct slot packed w code w' | ResumeEl1 _ \<Rightarrow> False) w"
    by (rule wp_to_el0) (simp add: open_answer)
  then show ?thesis by (auto simp: dispatch_def sys_numbers wp_def split: prod.split SvcReturn.split)
qed

lemma advisory_effect: "advisory req \<Longrightarrow> same_service c (effect freq req tick c)"
  by (cases req) (simp_all add: same_service_def frame_simps mark_observed_def)

lemma advisory_requests:
  assumes "num \<in> {SYS_DATA_ACCOUNT, SYS_DATA_RECONCILE, SYS_DATA_RESET, SYS_DATA_PERIOD}" "request_of num a1 a2 a3 = Some req"
  shows "advisory req"
  using assms by (auto simp: request_of_def sys_numbers)

text \<open>
  C8.  Metering, reconciliation, billing-period advice and the usage reset never touch service: the
  profiles, the accounts and the open sessions are the same before and after.
\<close>

theorem advisory_calls_change_no_service:
  assumes "num \<in> {SYS_DATA_ACCOUNT, SYS_DATA_RECONCILE, SYS_DATA_RESET, SYS_DATA_PERIOD}"
  shows "same_service (w_core w) (w_core (snd (run_state (dispatch E num a1 a2 a3) w)))"
proof (cases "request_of num a1 a2 a3")
  case None
  then show ?thesis by (simp add: dispatch_core same_service_def)
next
  case (Some req)
  then show ?thesis using advisory_effect [OF advisory_requests [OF assms Some]]
    by (simp add: dispatch_core core_after_def) (simp add: same_service_def)
qed

theorem advisory_calls_change_no_service_witness:
  "same_service (w_core world_new) (w_core (snd (run_state (dispatch sample_env SYS_DATA_RESET 0 1 0) world_new)))"
  by (rule advisory_calls_change_no_service) simp

text \<open>
  C9.  In every state the booted kernel reaches, the reconciler's snapshot check can only report what
  policy leaves to the operator: an account over its cap or past its escalation threshold, or a session
  on a profile that is disabled.  Every other kind of drift it looks for is excluded.
\<close>

theorem only_expected_drift:
  "list_all expected_drift (reconcile (fst (snapshot_for_reconcile
     (c_registry (w_core (kernel_after E calls))) (c_slots (w_core (kernel_after E calls))) (c_data (w_core (kernel_after E calls))))))"
  using reconcile_expected kernel_after_inv by (auto simp: list_all_iff world_inv_def observed_of_def)


end
